(* ===== verification/Prelude.thy ===== *)
theory Prelude
  imports Main "HOL-Library.Word" "HOL-Library.Monad_Syntax"
begin

text \<open>
  Shared vocabulary of the development: the machine integers of the modelled host (LP64,
  little endian), their object representation, the byte-order conversions of
  \<^verbatim>\<open>arpa/inet.h\<close>, C's implicit conversion of an \<open>int\<close> to \<open>size_t\<close>, and the generic
  lemmas on lists and options that every component uses.
\<close>

unbundle bit_operations_syntax

section \<open>Machine integers\<close>

type_synonym byte = "8 word"
type_synonym u16 = "16 word"
type_synonym u32 = "32 word"
type_synonym u64 = "64 word"

named_theorems c_simps \<open>evaluation of the C primitives\<close>

text \<open>
  An \<open>int\<close> operand that meets a \<open>size_t\<close> operand (every \<open>sizeof\<close>) is converted to
  \<open>size_t\<close> first; the conversion, the sum and the comparison are all modulo \<open>2 ^ 64\<close>.
\<close>

definition csize :: "int \<Rightarrow> int" where
  "csize x = x mod 2 ^ 64"

definition c_int :: "int \<Rightarrow> bool" where
  "c_int x \<longleftrightarrow> - (2 ^ 31) \<le> x \<and> x < 2 ^ 31"

lemma csize_small [simp]: "0 \<le> x \<Longrightarrow> x < 2 ^ 64 \<Longrightarrow> csize x = x"
  by (simp add: csize_def)

lemma csize_le: "0 \<le> x \<Longrightarrow> csize x \<le> x"
  by (simp add: csize_def zmod_le_nonneg_dividend)

lemma csize_nonneg [simp]: "0 \<le> csize x"
  by (simp add: csize_def)

lemma csize_negative: "- (2 ^ 64) \<le> x \<Longrightarrow> x < 0 \<Longrightarrow> csize x = x + 2 ^ 64"
proof -
  assume "- (2 ^ 64) \<le> x" "x < 0"
  then have "(x + 2 ^ 64) mod 2 ^ 64 = x + 2 ^ 64"
    by (intro mod_pos_pos_trivial) auto
  then show ?thesis by (simp add: csize_def)
qed

section \<open>Object representation and byte order\<close>

text \<open>The bytes of an object in memory, least significant first.\<close>

definition bytes16 :: "u16 \<Rightarrow> byte list" where
  "bytes16 w = [ucast w, ucast (drop_bit 8 w)]"

definition bytes32 :: "u32 \<Rightarrow> byte list" where
  "bytes32 w = [ucast w, ucast (drop_bit 8 w), ucast (drop_bit 16 w), ucast (drop_bit 24 w)]"

definition word16 :: "byte list \<Rightarrow> u16" where
  "word16 xs = ucast (xs ! 0) OR push_bit 8 (ucast (xs ! 1))"

definition word32 :: "byte list \<Rightarrow> u32" where
  "word32 xs = ucast (xs ! 0) OR push_bit 8 (ucast (xs ! 1))
     OR push_bit 16 (ucast (xs ! 2)) OR push_bit 24 (ucast (xs ! 3))"

text \<open>\<open>htons\<close> and \<open>htonl\<close> swap bytes on this host; \<open>ntohs\<close> and \<open>ntohl\<close> are the same maps.\<close>

definition htons :: "u16 \<Rightarrow> u16" where
  "htons w = push_bit 8 w OR drop_bit 8 w"

definition htonl :: "u32 \<Rightarrow> u32" where
  "htonl w = push_bit 24 w OR (push_bit 8 w AND 0xFF0000) OR (drop_bit 8 w AND 0xFF00)
     OR drop_bit 24 w"

abbreviation ntohs :: "u16 \<Rightarrow> u16" where "ntohs \<equiv> htons"
abbreviation ntohl :: "u32 \<Rightarrow> u32" where "ntohl \<equiv> htonl"

lemma length_bytes [simp]: "length (bytes16 v) = 2" "length (bytes32 w) = 4"
  by (simp_all add: bytes16_def bytes32_def)

lemma word16_bytes16 [simp]: "word16 (bytes16 w) = w"
  by (rule bit_word_eqI) (auto simp: word16_def bytes16_def bit_simps)

lemma word32_bytes32 [simp]: "word32 (bytes32 w) = w"
proof (rule bit_word_eqI)
  fix n assume "n < LENGTH(32)"
  then consider "n < 8" | "8 \<le> n" "n < 16" | "16 \<le> n" "n < 24" | "24 \<le> n" "n < 32"
    by fastforce
  then show "bit (word32 (bytes32 w)) n = bit w n"
    by cases (auto simp: word32_def bytes32_def bit_simps)
qed

lemma htons_htons [simp]: "htons (htons w) = w"
  by (rule bit_word_eqI) (auto simp: htons_def bit_simps)

text \<open>A conversion followed by a \<open>memcpy\<close> writes the most significant byte first.\<close>

lemma bytes16_htons: "bytes16 (htons w) = [ucast (drop_bit 8 w), ucast w]"
  by (auto simp: bytes16_def htons_def intro!: bit_word_eqI simp: bit_simps)

lemma htonl_eq:
  "htonl w = word32 [ucast (drop_bit 24 w), ucast (drop_bit 16 w), ucast (drop_bit 8 w), ucast w]"
proof (rule bit_word_eqI)
  have masks: "(0xFF0000 :: u32) = push_bit 16 (mask 8)" "(0xFF00 :: u32) = push_bit 8 (mask 8)"
    by (simp_all add: mask_eq_exp_minus_1 push_bit_eq_mult)
  fix n assume "n < LENGTH(32)"
  then consider "n < 8" | "8 \<le> n" "n < 16" | "16 \<le> n" "n < 24" | "24 \<le> n" "n < 32"
    by fastforce
  then show "bit (htonl w) n =
      bit (word32 [ucast (drop_bit 24 w), ucast (drop_bit 16 w), ucast (drop_bit 8 w), ucast w]) n"
    unfolding htonl_def masks
    by cases (auto simp: word32_def bit_simps dest: bit_imp_le_length)
qed

lemma bit_byte_beyond: "8 \<le> n \<Longrightarrow> \<not> bit (b :: byte) n"
  by (auto dest: bit_imp_le_length)

lemma bytes32_word32 [simp]: "length xs = 4 \<Longrightarrow> bytes32 (word32 xs) = xs"
proof -
  assume "length xs = 4"
  then obtain a b c d where xs: "xs = [a, b, c, d]"
    by (auto simp: numeral_eq_Suc length_Suc_conv)
  show ?thesis
    unfolding xs by (auto simp: bytes32_def word32_def intro!: bit_word_eqI
        simp: bit_simps bit_byte_beyond)
qed

lemma bytes16_word16 [simp]: "length xs = 2 \<Longrightarrow> bytes16 (word16 xs) = xs"
proof -
  assume "length xs = 2"
  then obtain a b where xs: "xs = [a, b]"
    by (auto simp: numeral_eq_Suc length_Suc_conv)
  show ?thesis
    unfolding xs by (auto simp: bytes16_def word16_def intro!: bit_word_eqI
        simp: bit_simps bit_byte_beyond)
qed

lemma bytes32_htonl:
  "bytes32 (htonl w) = [ucast (drop_bit 24 w), ucast (drop_bit 16 w), ucast (drop_bit 8 w), ucast w]"
  by (simp add: htonl_eq)

lemma bytes32_inject: "bytes32 v = bytes32 w \<Longrightarrow> v = w"
  by (metis word32_bytes32)

lemma htonl_htonl [simp]: "htonl (htonl w) = w"
proof (rule bytes32_inject)
  have rev: "bytes32 (htonl v) = rev (bytes32 v)" for v
    unfolding bytes32_htonl by (simp add: bytes32_def)
  show "bytes32 (htonl (htonl w)) = bytes32 w"
    by (simp add: rev)
qed

end
