(* ===== verification/C_Mem.thy ===== *)
theory C_Mem
  imports Prelude
begin

text \<open>
  The memory the C code reads and writes: live objects, each a list of bytes, and pointers
  into them. A \<^verbatim>\<open>void *\<close> also carries integers cast to pointers, as \<^verbatim>\<open>af_rpc_param_t\<close>
  uses it. An access outside a live object is undefined behaviour in C; here it is the
  result \<open>None\<close>, so that a function returning \<open>Some\<close> made only valid accesses.
\<close>

section \<open>Objects and pointers\<close>

type_synonym mem = "nat \<Rightarrow> byte list option"

datatype ptr = VInt u64 | VPtr nat int

definition NULL :: ptr where
  "NULL = VInt 0"

fun ptr_add :: "ptr \<Rightarrow> int \<Rightarrow> ptr" where
  "ptr_add (VPtr b i) k = VPtr b (i + k)"
| "ptr_add (VInt w) k = VInt (w + word_of_int k)"

definition load :: "mem \<Rightarrow> ptr \<Rightarrow> nat \<Rightarrow> byte list option" where
  "load m p n = (case p of VInt _ \<Rightarrow> None
     | VPtr b i \<Rightarrow> (case m b of None \<Rightarrow> None
         | Some obj \<Rightarrow> if 0 \<le> i \<and> nat i + n \<le> length obj
             then Some (take n (drop (nat i) obj)) else None))"

definition poke :: "'a list \<Rightarrow> nat \<Rightarrow> 'a list \<Rightarrow> 'a list" where
  "poke bs i xs = take i bs @ xs @ drop (i + length xs) bs"

definition overwrite :: "mem \<Rightarrow> ptr \<Rightarrow> byte list \<Rightarrow> mem" where
  "overwrite m p xs = (case p of VInt _ \<Rightarrow> m
     | VPtr b i \<Rightarrow> (case m b of None \<Rightarrow> m
         | Some obj \<Rightarrow> m(b \<mapsto> poke obj (nat i) xs)))"

definition store :: "mem \<Rightarrow> ptr \<Rightarrow> byte list \<Rightarrow> mem option" where
  "store m p xs = (case load m p (length xs) of None \<Rightarrow> None | Some _ \<Rightarrow> Some (overwrite m p xs))"

text \<open>Two byte ranges share a byte; \<^verbatim>\<open>memcpy\<close> between such ranges is undefined.\<close>

fun overlaps :: "ptr \<Rightarrow> nat \<Rightarrow> ptr \<Rightarrow> nat \<Rightarrow> bool" where
  "overlaps (VPtr b i) n (VPtr c j) k \<longleftrightarrow> b = c \<and> i < j + int k \<and> j < i + int n"
| "overlaps _ _ _ _ \<longleftrightarrow> False"

definition memcpy :: "mem \<Rightarrow> ptr \<Rightarrow> ptr \<Rightarrow> nat \<Rightarrow> mem option" where
  "memcpy m dst src n =
     (if overlaps dst n src n then None
      else case load m src n of None \<Rightarrow> None | Some xs \<Rightarrow> store m dst xs)"

text \<open>A C \<open>int\<close> object, four bytes in host order.\<close>

definition load_int :: "mem \<Rightarrow> ptr \<Rightarrow> int option" where
  "load_int m p = map_option (\<lambda>xs. sint (word32 xs)) (load m p 4)"

definition store_int :: "mem \<Rightarrow> ptr \<Rightarrow> int \<Rightarrow> mem option" where
  "store_int m p x = store m p (bytes32 (word_of_int x))"

section \<open>Lists with a range replaced\<close>

lemma length_poke [simp]: "i + length xs \<le> length bs \<Longrightarrow> length (poke bs i xs) = length bs"
  by (simp add: poke_def)

lemma poke_Nil [simp]: "poke bs i [] = bs"
  by (simp add: poke_def)

lemma take_poke_before: "k \<le> i \<Longrightarrow> i \<le> length bs \<Longrightarrow> take k (poke bs i xs) = take k bs"
  by (simp add: poke_def min_absorb1)

lemma slice_poke_same [simp]:
  "i \<le> length bs \<Longrightarrow> take (length xs) (drop i (poke bs i xs)) = xs"
  by (simp add: poke_def)

lemma nth_poke:
  "i + length xs \<le> length bs \<Longrightarrow> k < length bs \<Longrightarrow>
   poke bs i xs ! k = (if k < i then bs ! k else if k < i + length xs then xs ! (k - i) else bs ! k)"
  by (auto simp: poke_def nth_append min_def)

lemma poke_poke_same:
  "length xs = length ys \<Longrightarrow> i + length xs \<le> length bs \<Longrightarrow> poke (poke bs i xs) i ys = poke bs i ys"
  by (rule nth_equalityI) (auto simp: nth_poke)

lemma poke_slice_same: "i + n \<le> length bs \<Longrightarrow> poke bs i (take n (drop i bs)) = bs"
  by (rule nth_equalityI) (auto simp: nth_poke)

lemma poke_nested:
  assumes "j + n \<le> length obj" "i + length xs \<le> n"
  shows "poke obj (j + i) xs = poke obj j (poke (take n (drop j obj)) i xs)"
  using assms by (intro nth_equalityI) (auto simp: nth_poke add.commute)

lemma slice_poke_other:
  assumes "i + length xs \<le> length bs" "j + n \<le> length bs" "j + n \<le> i \<or> i + length xs \<le> j"
  shows "take n (drop j (poke bs i xs)) = take n (drop j bs)"
  using assms by (intro nth_equalityI) (auto simp: nth_poke)

section \<open>Laws of the memory\<close>

lemma ptr_add_add [simp]: "ptr_add (ptr_add p j) k = ptr_add p (j + k)"
  by (cases p) (simp_all add: add.assoc)

lemma ptr_add_0 [simp]: "ptr_add p 0 = p"
  by (cases p) simp_all

lemma loadE:
  assumes "load m p n = Some bs"
  obtains b i obj where "p = VPtr b i" "m b = Some obj" "0 \<le> i" "nat i + n \<le> length obj"
    "bs = take n (drop (nat i) obj)"
  using assms that by (auto simp: load_def split: ptr.splits option.splits if_splits)

lemma length_load: "load m p n = Some bs \<Longrightarrow> length bs = n"
  by (erule loadE) simp

lemma load_not_null: "load m p n = Some bs \<Longrightarrow> p \<noteq> NULL"
  by (erule loadE) (simp add: NULL_def)

lemma load_slice:
  assumes "load m p n = Some bs" "0 \<le> i" "nat i + k \<le> n"
  shows "load m (ptr_add p i) k = Some (take k (drop (nat i) bs))"
  using assms by (elim loadE) (auto simp: load_def take_drop nat_add_distrib min_def add.commute)

lemma load_le: "load m p n = Some bs \<Longrightarrow> k \<le> n \<Longrightarrow> load m p k = Some (take k bs)"
  using load_slice [of m p n bs 0 k] by simp

lemma load_overwrite:
  assumes "load m p n = Some bs" "length xs = n"
  shows "load (overwrite m p xs) p n = Some xs"
  using assms by (elim loadE) (auto simp: load_def overwrite_def)

lemma overwrite_overwrite:
  assumes "load m p n = Some bs" "length xs = n" "length ys = n"
  shows "overwrite (overwrite m p xs) p ys = overwrite m p ys"
  using assms by (elim loadE) (auto simp: overwrite_def poke_poke_same)

lemma overwrite_same: "load m p n = Some bs \<Longrightarrow> overwrite m p bs = m"
  by (elim loadE) (auto simp: overwrite_def poke_slice_same fun_upd_idem)

lemma overwrite_slice:
  assumes "load m p n = Some bs" "0 \<le> i" "nat i + length xs \<le> n"
  shows "overwrite m (ptr_add p i) xs = overwrite m p (poke bs (nat i) xs)"
  using assms by (elim loadE) (auto simp: overwrite_def nat_add_distrib poke_nested)

text \<open>
  A store inside a range that is known to be valid never fails, and is an update of the
  byte list that the range holds.
\<close>

lemma store_slice:
  assumes "load m p n = Some bs" "0 \<le> i" "nat i + length xs \<le> n"
  shows "store m (ptr_add p i) xs = Some (overwrite m p (poke bs (nat i) xs))"
  using assms by (simp add: store_def load_slice overwrite_slice)

lemma store_start:
  assumes "load m p n = Some bs" "length xs \<le> n"
  shows "store m p xs = Some (overwrite m p (poke bs 0 xs))"
  using store_slice [of m p n bs 0 xs] assms by simp

lemma load_overwrite_other:
  assumes "load m p (length xs) = Some bs" "\<not> overlaps p (length xs) q k"
  shows "load (overwrite m p xs) q k = load m q k"
proof (cases q)
  case (VInt w)
  then show ?thesis by (simp add: load_def)
next
  case q: (VPtr c j)
  from assms(1) obtain b i obj where p: "p = VPtr b i" "m b = Some obj" "0 \<le> i"
    "nat i + length xs \<le> length obj" by (rule loadE)
  then have len: "length (poke obj (nat i) xs) = length obj" by simp
  show ?thesis
  proof (cases "c = b \<and> 0 \<le> j \<and> nat j + k \<le> length obj \<and> k \<noteq> 0 \<and> xs \<noteq> []")
    case True
    with assms(2) p q have "nat j + k \<le> nat i \<or> nat i + length xs \<le> nat j" by auto
    with True p q len show ?thesis
      by (simp add: load_def overwrite_def slice_poke_other)
  next
    case False
    with p q len show ?thesis
      by (cases "xs = []") (auto simp: load_def overwrite_def)
  qed
qed

lemma overlaps_slice:
  "\<not> overlaps p n q k \<Longrightarrow> 0 \<le> i \<Longrightarrow> nat i + l \<le> n \<Longrightarrow> \<not> overlaps (ptr_add p i) l q k"
  by (cases p; cases q) auto

lemma memcpy_eq_store:
  "load m src n = Some xs \<Longrightarrow> \<not> overlaps dst n src n \<Longrightarrow> memcpy m dst src n = store m dst xs"
  by (simp add: memcpy_def)

lemma memcpy_slice:
  assumes "load m p n = Some bs" "0 \<le> i" "nat i + k \<le> n"
    and "load m src k = Some xs" "\<not> overlaps p n src k"
  shows "memcpy m (ptr_add p i) src k = Some (overwrite m p (poke bs (nat i) xs))"
proof -
  have "length xs = k" using assms(4) by (rule length_load)
  moreover have "\<not> overlaps (ptr_add p i) k src k"
    using assms(5,2,3) by (rule overlaps_slice)
  ultimately show ?thesis
    using assms by (simp add: memcpy_def store_slice)
qed

end
