(* ===== verification/Rpc_Types.thy ===== *)
theory Rpc_Types
  imports C_Mem
begin

text \<open>
  \<^verbatim>\<open>src/pkg/src/af_rpc.h\<close>: the 16-bit type word of a TLV parameter, its macros, the error
  codes, the parameter structure, and \<^verbatim>\<open>af_rpc_get_size_of_type\<close>, \<^verbatim>\<open>setlen\<close>, \<^verbatim>\<open>getlen\<close>
  of \<^verbatim>\<open>af_rpc.c\<close>. The abstract view of a message (a list of typed values and its bytes) is
  in \<^verbatim>\<open>Rpc_Spec\<close>.
\<close>

section \<open>Constants and macros of af\_rpc.h\<close>

definition LENGTH_SIZE :: int where "LENGTH_SIZE = 2"
definition TYPE_SIZE :: int where "TYPE_SIZE = 2"

definition AF_RPC_TYPE_FLAG_INTEGER :: u16 where "AF_RPC_TYPE_FLAG_INTEGER = 0x8000"
definition AF_RPC_TYPE_INTEGER_TYPE_MASK :: u16 where "AF_RPC_TYPE_INTEGER_TYPE_MASK = 0xF000"
definition AF_RPC_TYPE_FLAG_BLOB_IS_STRING :: u16 where "AF_RPC_TYPE_FLAG_BLOB_IS_STRING = 0x4000"

definition AF_RPC_TYPE_UINT8 :: u16 where
  "AF_RPC_TYPE_UINT8 = AF_RPC_TYPE_FLAG_INTEGER OR push_bit 12 0x1"
definition AF_RPC_TYPE_UINT16 :: u16 where
  "AF_RPC_TYPE_UINT16 = AF_RPC_TYPE_FLAG_INTEGER OR push_bit 12 0x2"
definition AF_RPC_TYPE_UINT32 :: u16 where
  "AF_RPC_TYPE_UINT32 = AF_RPC_TYPE_FLAG_INTEGER OR push_bit 12 0x3"
definition AF_RPC_TYPE_INT8 :: u16 where
  "AF_RPC_TYPE_INT8 = AF_RPC_TYPE_FLAG_INTEGER OR push_bit 12 0x5"
definition AF_RPC_TYPE_INT16 :: u16 where
  "AF_RPC_TYPE_INT16 = AF_RPC_TYPE_FLAG_INTEGER OR push_bit 12 0x6"
definition AF_RPC_TYPE_INT32 :: u16 where
  "AF_RPC_TYPE_INT32 = AF_RPC_TYPE_FLAG_INTEGER OR push_bit 12 0x7"

text \<open>The classifying macros are applied to 16-bit types and to the 32-bit field of a parameter.\<close>

definition AF_RPC_TYPE_IS_INTEGER :: "'a::len word \<Rightarrow> bool" where
  "AF_RPC_TYPE_IS_INTEGER x \<longleftrightarrow> x AND 0x8000 \<noteq> 0"
definition AF_RPC_TYPE_IS_UNSIGNED_INT :: "'a::len word \<Rightarrow> bool" where
  "AF_RPC_TYPE_IS_UNSIGNED_INT x \<longleftrightarrow> x AND 0xC000 = 0x8000"
definition AF_RPC_TYPE_IS_SIGNED_INT :: "'a::len word \<Rightarrow> bool" where
  "AF_RPC_TYPE_IS_SIGNED_INT x \<longleftrightarrow> x AND 0xC000 = 0xC000"
definition AF_RPC_TYPE_IS_BLOB :: "'a::len word \<Rightarrow> bool" where
  "AF_RPC_TYPE_IS_BLOB x \<longleftrightarrow> x AND 0x8000 = 0"

definition AF_RPC_TYPE_BLOB :: "int \<Rightarrow> u16" where
  "AF_RPC_TYPE_BLOB n = word_of_int n AND 0x3fff"
definition AF_RPC_BLOB_SIZE :: "'a::len word \<Rightarrow> 'a word" where
  "AF_RPC_BLOB_SIZE t = t AND 0x3fff"
definition AF_RPC_BLOB_IS_STRING :: "'a::len word \<Rightarrow> bool" where
  "AF_RPC_BLOB_IS_STRING t \<longleftrightarrow> t AND 0x4000 \<noteq> 0"
definition AF_RPC_TYPE_STRING :: "int \<Rightarrow> u16" where
  "AF_RPC_TYPE_STRING n = (word_of_int n AND 0x3fff) OR AF_RPC_TYPE_FLAG_BLOB_IS_STRING"

definition AF_RPC_MAX_BLOB_SIZE :: int where "AF_RPC_MAX_BLOB_SIZE = 16383"

definition AF_RPC_ERR_BUFFER_OVERFLOW :: int where "AF_RPC_ERR_BUFFER_OVERFLOW = -1"
definition AF_RPC_ERR_BAD_PARAM :: int where "AF_RPC_ERR_BAD_PARAM = -2"
definition AF_RPC_ERR_BAD_TYPE :: int where "AF_RPC_ERR_BAD_TYPE = -3"
definition AF_RPC_ERR_BAD_TLV :: int where "AF_RPC_ERR_BAD_TLV = -4"
definition AF_RPC_ERR_TYPE_MISMATCH :: int where "AF_RPC_ERR_TYPE_MISMATCH = -5"
definition AF_RPC_ERR_WRONG_NUM_PARAMS :: int where "AF_RPC_ERR_WRONG_NUM_PARAMS = -6"

lemmas rpc_errs = AF_RPC_ERR_BUFFER_OVERFLOW_def AF_RPC_ERR_BAD_PARAM_def AF_RPC_ERR_BAD_TYPE_def
  AF_RPC_ERR_BAD_TLV_def AF_RPC_ERR_TYPE_MISMATCH_def AF_RPC_ERR_WRONG_NUM_PARAMS_def

lemmas rpc_sizes = LENGTH_SIZE_def TYPE_SIZE_def AF_RPC_MAX_BLOB_SIZE_def

text \<open>The integer types as numerals, for evaluation.\<close>

lemma rpc_types [c_simps]:
  "AF_RPC_TYPE_UINT8 = 0x9000" "AF_RPC_TYPE_UINT16 = 0xA000" "AF_RPC_TYPE_UINT32 = 0xB000"
  "AF_RPC_TYPE_INT8 = 0xD000" "AF_RPC_TYPE_INT16 = 0xE000" "AF_RPC_TYPE_INT32 = 0xF000"
  by (simp_all add: AF_RPC_TYPE_UINT8_def AF_RPC_TYPE_UINT16_def AF_RPC_TYPE_UINT32_def
      AF_RPC_TYPE_INT8_def AF_RPC_TYPE_INT16_def AF_RPC_TYPE_INT32_def
      AF_RPC_TYPE_FLAG_INTEGER_def)

lemma int_types_distinct [simp]:
  "AF_RPC_TYPE_UINT8 \<noteq> AF_RPC_TYPE_UINT16" "AF_RPC_TYPE_UINT8 \<noteq> AF_RPC_TYPE_UINT32"
  "AF_RPC_TYPE_UINT8 \<noteq> AF_RPC_TYPE_INT8" "AF_RPC_TYPE_UINT8 \<noteq> AF_RPC_TYPE_INT16"
  "AF_RPC_TYPE_UINT8 \<noteq> AF_RPC_TYPE_INT32" "AF_RPC_TYPE_UINT16 \<noteq> AF_RPC_TYPE_UINT8"
  "AF_RPC_TYPE_UINT16 \<noteq> AF_RPC_TYPE_UINT32" "AF_RPC_TYPE_UINT16 \<noteq> AF_RPC_TYPE_INT8"
  "AF_RPC_TYPE_UINT16 \<noteq> AF_RPC_TYPE_INT16" "AF_RPC_TYPE_UINT16 \<noteq> AF_RPC_TYPE_INT32"
  "AF_RPC_TYPE_UINT32 \<noteq> AF_RPC_TYPE_UINT8" "AF_RPC_TYPE_UINT32 \<noteq> AF_RPC_TYPE_UINT16"
  "AF_RPC_TYPE_UINT32 \<noteq> AF_RPC_TYPE_INT8" "AF_RPC_TYPE_UINT32 \<noteq> AF_RPC_TYPE_INT16"
  "AF_RPC_TYPE_UINT32 \<noteq> AF_RPC_TYPE_INT32" "AF_RPC_TYPE_INT8 \<noteq> AF_RPC_TYPE_UINT8"
  "AF_RPC_TYPE_INT8 \<noteq> AF_RPC_TYPE_UINT16" "AF_RPC_TYPE_INT8 \<noteq> AF_RPC_TYPE_UINT32"
  "AF_RPC_TYPE_INT8 \<noteq> AF_RPC_TYPE_INT16" "AF_RPC_TYPE_INT8 \<noteq> AF_RPC_TYPE_INT32"
  "AF_RPC_TYPE_INT16 \<noteq> AF_RPC_TYPE_UINT8" "AF_RPC_TYPE_INT16 \<noteq> AF_RPC_TYPE_UINT16"
  "AF_RPC_TYPE_INT16 \<noteq> AF_RPC_TYPE_UINT32" "AF_RPC_TYPE_INT16 \<noteq> AF_RPC_TYPE_INT8"
  "AF_RPC_TYPE_INT16 \<noteq> AF_RPC_TYPE_INT32" "AF_RPC_TYPE_INT32 \<noteq> AF_RPC_TYPE_UINT8"
  "AF_RPC_TYPE_INT32 \<noteq> AF_RPC_TYPE_UINT16" "AF_RPC_TYPE_INT32 \<noteq> AF_RPC_TYPE_UINT32"
  "AF_RPC_TYPE_INT32 \<noteq> AF_RPC_TYPE_INT8" "AF_RPC_TYPE_INT32 \<noteq> AF_RPC_TYPE_INT16"
  by (simp_all add: rpc_types)

text \<open>
  \<^verbatim>\<open>af_rpc_param_t\<close>: \<^verbatim>\<open>base\<close> is a pointer to a blob, or an integer cast to a pointer.
\<close>

record af_rpc_param =
  base :: ptr
  ptype :: u32

text \<open>
  The macros that set and read a parameter. A scalar is converted to \<^verbatim>\<open>ptrdiff_t\<close> (zero- or
  sign-extended) and to a pointer; the getters truncate. The address of an object as an integer
  is not modelled, so a getter on an object pointer has no value.
\<close>

definition AF_RPC_SET_PARAM_AS_UINT8 :: "byte \<Rightarrow> af_rpc_param" where
  "AF_RPC_SET_PARAM_AS_UINT8 v = \<lparr>base = VInt (ucast v), ptype = ucast AF_RPC_TYPE_UINT8\<rparr>"
definition AF_RPC_SET_PARAM_AS_UINT16 :: "u16 \<Rightarrow> af_rpc_param" where
  "AF_RPC_SET_PARAM_AS_UINT16 v = \<lparr>base = VInt (ucast v), ptype = ucast AF_RPC_TYPE_UINT16\<rparr>"
definition AF_RPC_SET_PARAM_AS_UINT32 :: "u32 \<Rightarrow> af_rpc_param" where
  "AF_RPC_SET_PARAM_AS_UINT32 v = \<lparr>base = VInt (ucast v), ptype = ucast AF_RPC_TYPE_UINT32\<rparr>"
definition AF_RPC_SET_PARAM_AS_INT8 :: "byte \<Rightarrow> af_rpc_param" where
  "AF_RPC_SET_PARAM_AS_INT8 v = \<lparr>base = VInt (scast v), ptype = ucast AF_RPC_TYPE_INT8\<rparr>"
definition AF_RPC_SET_PARAM_AS_INT16 :: "u16 \<Rightarrow> af_rpc_param" where
  "AF_RPC_SET_PARAM_AS_INT16 v = \<lparr>base = VInt (scast v), ptype = ucast AF_RPC_TYPE_INT16\<rparr>"
definition AF_RPC_SET_PARAM_AS_INT32 :: "u32 \<Rightarrow> af_rpc_param" where
  "AF_RPC_SET_PARAM_AS_INT32 v = \<lparr>base = VInt (scast v), ptype = ucast AF_RPC_TYPE_INT32\<rparr>"
definition AF_RPC_SET_PARAM_AS_BLOB :: "ptr \<Rightarrow> int \<Rightarrow> af_rpc_param" where
  "AF_RPC_SET_PARAM_AS_BLOB p len = \<lparr>base = p, ptype = word_of_int len AND 0x3fff\<rparr>"
definition AF_RPC_SET_PARAM_AS_STRING :: "ptr \<Rightarrow> int \<Rightarrow> af_rpc_param" where
  "AF_RPC_SET_PARAM_AS_STRING p len =
     \<lparr>base = p, ptype = ucast AF_RPC_TYPE_FLAG_BLOB_IS_STRING OR (word_of_int len AND 0x3fff)\<rparr>"

definition int_base :: "af_rpc_param \<Rightarrow> 'a::len word option" where
  "int_base p = (case base p of VInt w \<Rightarrow> Some (ucast w) | VPtr _ _ \<Rightarrow> None)"

definition AF_RPC_GET_UINT8_PARAM :: "af_rpc_param \<Rightarrow> byte option" where
  "AF_RPC_GET_UINT8_PARAM p = int_base p"
definition AF_RPC_GET_INT8_PARAM :: "af_rpc_param \<Rightarrow> byte option" where
  "AF_RPC_GET_INT8_PARAM p = int_base p"
definition AF_RPC_GET_UINT16_PARAM :: "af_rpc_param \<Rightarrow> u16 option" where
  "AF_RPC_GET_UINT16_PARAM p = int_base p"
definition AF_RPC_GET_INT16_PARAM :: "af_rpc_param \<Rightarrow> u16 option" where
  "AF_RPC_GET_INT16_PARAM p = int_base p"
definition AF_RPC_GET_UINT32_PARAM :: "af_rpc_param \<Rightarrow> u32 option" where
  "AF_RPC_GET_UINT32_PARAM p = int_base p"
definition AF_RPC_GET_INT32_PARAM :: "af_rpc_param \<Rightarrow> u32 option" where
  "AF_RPC_GET_INT32_PARAM p = int_base p"
definition AF_RPC_GET_BLOB_PARAM :: "af_rpc_param \<Rightarrow> ptr" where
  "AF_RPC_GET_BLOB_PARAM p = base p"

lemmas set_params = AF_RPC_SET_PARAM_AS_UINT8_def AF_RPC_SET_PARAM_AS_UINT16_def
  AF_RPC_SET_PARAM_AS_UINT32_def AF_RPC_SET_PARAM_AS_INT8_def AF_RPC_SET_PARAM_AS_INT16_def
  AF_RPC_SET_PARAM_AS_INT32_def AF_RPC_SET_PARAM_AS_BLOB_def AF_RPC_SET_PARAM_AS_STRING_def

lemmas get_params = AF_RPC_GET_UINT8_PARAM_def AF_RPC_GET_INT8_PARAM_def AF_RPC_GET_UINT16_PARAM_def
  AF_RPC_GET_INT16_PARAM_def AF_RPC_GET_UINT32_PARAM_def AF_RPC_GET_INT32_PARAM_def
  AF_RPC_GET_BLOB_PARAM_def int_base_def

section \<open>Sizes and length fields\<close>

definition af_size_of_int_type :: "int list" where
  "af_size_of_int_type = [-1, 1, 2, 4, -1, 1, 2, 4]"

definition af_rpc_get_size_of_type :: "u16 \<Rightarrow> int" where
  "af_rpc_get_size_of_type t =
     (if t AND AF_RPC_TYPE_FLAG_INTEGER \<noteq> 0
      then af_size_of_int_type ! unat (drop_bit 12 (t AND 0x7000))
      else uint (t AND 0x3fff))"

definition setlen :: "mem \<Rightarrow> ptr \<Rightarrow> u16 \<Rightarrow> mem option" where
  "setlen m buf len = store m buf (bytes16 (htons len))"

definition getlen :: "mem \<Rightarrow> ptr \<Rightarrow> u16 option" where
  "getlen m buf = map_option (\<lambda>xs. ntohs (word16 xs)) (load m buf 2)"

text \<open>Both are big endian, whatever the host's order.\<close>

definition be16 :: "u16 \<Rightarrow> byte list" where
  "be16 w = [ucast (drop_bit 8 w), ucast w]"

definition be32 :: "u32 \<Rightarrow> byte list" where
  "be32 w = [ucast (drop_bit 24 w), ucast (drop_bit 16 w), ucast (drop_bit 8 w), ucast w]"

definition of_be16 :: "byte list \<Rightarrow> u16" where
  "of_be16 xs = ntohs (word16 xs)"

definition of_be32 :: "byte list \<Rightarrow> u32" where
  "of_be32 xs = ntohl (word32 xs)"

lemma length_be [simp]: "length (be16 v) = 2" "length (be32 w) = 4"
  by (simp_all add: be16_def be32_def)

lemma bytes_htons: "bytes16 (htons v) = be16 v" "bytes32 (htonl w) = be32 w"
  by (simp_all add: be16_def be32_def bytes16_htons bytes32_htonl)

lemma of_be_be [simp]: "of_be16 (be16 v) = v" "of_be32 (be32 w) = w"
  by (simp_all add: of_be16_def of_be32_def flip: bytes_htons)

lemma be_of_be [simp]:
  "length xs = 2 \<Longrightarrow> be16 (of_be16 xs) = xs" "length ys = 4 \<Longrightarrow> be32 (of_be32 ys) = ys"
  by (simp_all add: of_be16_def of_be32_def flip: bytes_htons)

lemma setlen_be: "setlen m p w = store m p (be16 w)"
  by (simp add: setlen_def bytes_htons)

lemma getlen_be: "getlen m p = map_option of_be16 (load m p 2)"
  by (simp add: getlen_def of_be16_def [abs_def])

lemma setlen_slice:
  assumes "load m p n = Some bs" "0 \<le> i" "nat i + 2 \<le> n"
  shows "setlen m (ptr_add p i) w = Some (overwrite m p (poke bs (nat i) (be16 w)))"
  using assms by (simp add: setlen_be store_slice)

lemma getlen_slice:
  assumes "load m p n = Some bs" "0 \<le> i" "nat i + 2 \<le> n"
  shows "getlen m (ptr_add p i) = Some (of_be16 (take 2 (drop (nat i) bs)))"
  using assms by (simp add: getlen_be load_slice)

lemma getlen_start: "load m p n = Some bs \<Longrightarrow> 2 \<le> n \<Longrightarrow> getlen m p = Some (of_be16 (take 2 bs))"
  using getlen_slice [of m p n bs 0] by simp

text \<open>The size a type word announces is that of its macro classes, and never over the maximum.\<close>

lemma size_of_int_types [simp]:
  "af_rpc_get_size_of_type AF_RPC_TYPE_UINT8 = 1" "af_rpc_get_size_of_type AF_RPC_TYPE_UINT16 = 2"
  "af_rpc_get_size_of_type AF_RPC_TYPE_UINT32 = 4" "af_rpc_get_size_of_type AF_RPC_TYPE_INT8 = 1"
  "af_rpc_get_size_of_type AF_RPC_TYPE_INT16 = 2" "af_rpc_get_size_of_type AF_RPC_TYPE_INT32 = 4"
  by (simp_all add: rpc_types af_rpc_get_size_of_type_def af_size_of_int_type_def
      AF_RPC_TYPE_FLAG_INTEGER_def)

end
