(* ===== verification/Rpc_Spec.thy ===== *)
theory Rpc_Spec
  imports Rpc_Types
begin

text \<open>
  The abstract specification of the TLV format of \<^verbatim>\<open>af_rpc.h\<close>: a message is a list of typed
  values; its bytes are a big-endian total length followed by the big-endian type word and
  the payload of each value. The operations of \<^verbatim>\<open>af_rpc.c\<close> are proved against it in
  \<^verbatim>\<open>Rpc_Add\<close>, \<^verbatim>\<open>Rpc_Params\<close> and \<^verbatim>\<open>Rpc_Get\<close>.
\<close>

datatype tlv = TU8 byte | TU16 u16 | TU32 u32 | TI8 byte | TI16 u16 | TI32 u32
  | TBlob bool "byte list"

text \<open>\<open>TBlob s xs\<close> is a blob, marked as a string if \<open>s\<close>. Signed values are two's complement words.\<close>

fun tlv_type :: "tlv \<Rightarrow> u16" where
  "tlv_type (TU8 _) = AF_RPC_TYPE_UINT8"
| "tlv_type (TU16 _) = AF_RPC_TYPE_UINT16"
| "tlv_type (TU32 _) = AF_RPC_TYPE_UINT32"
| "tlv_type (TI8 _) = AF_RPC_TYPE_INT8"
| "tlv_type (TI16 _) = AF_RPC_TYPE_INT16"
| "tlv_type (TI32 _) = AF_RPC_TYPE_INT32"
| "tlv_type (TBlob s xs) = (if s then AF_RPC_TYPE_STRING (int (length xs))
     else AF_RPC_TYPE_BLOB (int (length xs)))"

fun tlv_payload :: "tlv \<Rightarrow> byte list" where
  "tlv_payload (TU8 v) = [v]"
| "tlv_payload (TU16 v) = be16 v"
| "tlv_payload (TU32 v) = be32 v"
| "tlv_payload (TI8 v) = [v]"
| "tlv_payload (TI16 v) = be16 v"
| "tlv_payload (TI32 v) = be32 v"
| "tlv_payload (TBlob s xs) = xs"

fun tlv_wf :: "tlv \<Rightarrow> bool" where
  "tlv_wf (TBlob s xs) \<longleftrightarrow> int (length xs) \<le> AF_RPC_MAX_BLOB_SIZE"
| "tlv_wf _ \<longleftrightarrow> True"

definition enc_tlv :: "tlv \<Rightarrow> byte list" where
  "enc_tlv t = be16 (tlv_type t) @ tlv_payload t"

definition enc_tlvs :: "tlv list \<Rightarrow> byte list" where
  "enc_tlvs ts = concat (map enc_tlv ts)"

definition msg_len :: "tlv list \<Rightarrow> nat" where
  "msg_len ts = 2 + length (enc_tlvs ts)"

definition enc_msg :: "tlv list \<Rightarrow> byte list" where
  "enc_msg ts = be16 (word_of_nat (msg_len ts)) @ enc_tlvs ts"

text \<open>A buffer holds a message: its first bytes are the message's encoding.\<close>

definition holds :: "byte list \<Rightarrow> tlv list \<Rightarrow> bool" where
  "holds bs ts \<longleftrightarrow> msg_len ts \<le> length bs \<and> msg_len ts < 2 ^ 16 \<and> take (msg_len ts) bs = enc_msg ts"

text \<open>The length field of a buffer, and the buffer after one more value.\<close>

definition used :: "byte list \<Rightarrow> nat" where
  "used bs = unat (of_be16 (take 2 bs))"

definition append_tlv :: "byte list \<Rightarrow> tlv \<Rightarrow> byte list" where
  "append_tlv bs t = poke (poke bs (used bs) (enc_tlv t)) 0
     (be16 (word_of_nat (used bs + length (enc_tlv t))))"

lemma enc_tlvs_simps [simp]: "enc_tlvs [] = []" "enc_tlvs (t # ts) = enc_tlv t @ enc_tlvs ts"
  "enc_tlvs (ts @ us) = enc_tlvs ts @ enc_tlvs us"
  by (simp_all add: enc_tlvs_def)

lemma length_enc_tlv: "length (enc_tlv t) = 2 + length (tlv_payload t)"
  by (simp add: enc_tlv_def)

lemma msg_len_simps [simp]: "msg_len [] = 2" "msg_len (ts @ [t]) = msg_len ts + length (enc_tlv t)"
  by (simp_all add: msg_len_def)

lemma length_enc_msg [simp]: "length (enc_msg ts) = msg_len ts"
  by (simp add: enc_msg_def msg_len_def)

lemma poke_append: "i + length xs + length ys \<le> length bs \<Longrightarrow>
  poke (poke bs i xs) (i + length xs) ys = poke bs i (xs @ ys)"
  by (rule nth_equalityI) (auto simp: nth_poke nth_append)

lemma take_2_enc_msg: "take 2 (enc_msg ts) = be16 (word_of_nat (msg_len ts))"
  by (simp add: enc_msg_def)

lemma holds_used:
  assumes "holds bs ts"
  shows "used bs = msg_len ts"
proof -
  have "2 \<le> msg_len ts" by (simp add: msg_len_def)
  then have "take 2 bs = take 2 (take (msg_len ts) bs)" by (simp add: min_def)
  also have "\<dots> = be16 (word_of_nat (msg_len ts))"
    using assms by (simp add: holds_def take_2_enc_msg)
  finally show ?thesis
    using assms by (simp add: used_def holds_def unat_of_nat)
qed

lemma holds_append:
  assumes "holds bs ts" "msg_len ts + length (enc_tlv t) \<le> length bs"
    "msg_len ts + length (enc_tlv t) < 2 ^ 16"
  shows "holds (append_tlv bs t) (ts @ [t])"
proof -
  let ?n = "msg_len ts" and ?e = "enc_tlv t"
  let ?l = "be16 (word_of_nat (?n + length ?e))"
  have n: "2 \<le> ?n" by (simp add: msg_len_def)
  have pre: "take ?n bs = enc_msg ts" using assms(1) by (simp add: holds_def)
  have "take (?n + length ?e) (poke bs ?n ?e) = take ?n bs @ ?e"
    using assms(2) by (simp add: poke_def)
  then have "take (?n + length ?e) (append_tlv bs t) = ?l @ drop 2 (take ?n bs @ ?e)"
    using n assms(2)
    by (simp add: append_tlv_def holds_used [OF assms(1)] poke_def flip: numeral_2_eq_2)
  also have "\<dots> = enc_msg (ts @ [t])"
    by (simp add: pre enc_msg_def)
  finally show ?thesis
    using assms(2,3) n
    by (simp add: holds_def append_tlv_def holds_used [OF assms(1)] length_enc_tlv)
qed

lemma holds_empty: "2 \<le> length bs \<Longrightarrow> holds (poke bs 0 (be16 2)) []"
  by (simp add: holds_def poke_def enc_msg_def)

text \<open>The bytes of the value that starts after the first \<open>ts\<close> values.\<close>

lemma holds_at:
  assumes "holds bs (ts @ t # us)"
  shows "take (length (enc_tlv t)) (drop (msg_len ts) bs) = enc_tlv t"
    and "msg_len ts + length (enc_tlv t) \<le> msg_len (ts @ t # us)"
proof -
  let ?k = "length (enc_tlv t)" and ?N = "msg_len (ts @ t # us)"
  show le: "msg_len ts + ?k \<le> ?N" by (simp add: msg_len_def)
  have "take ?k (drop (msg_len ts) bs) = take ?k (drop (msg_len ts) (take ?N bs))"
    using le by (simp add: drop_take min_def)
  also have "\<dots> = take ?k (drop (msg_len ts) (enc_msg (ts @ t # us)))"
    using assms by (simp add: holds_def)
  also have "\<dots> = enc_tlv t" by (simp add: enc_msg_def msg_len_def)
  finally show "take ?k (drop (msg_len ts) bs) = enc_tlv t" .
qed

section \<open>Decoding a type word and a payload\<close>

definition dec_tlv :: "u16 \<Rightarrow> byte list \<Rightarrow> tlv option" where
  "dec_tlv t xs =
     (if AF_RPC_TYPE_IS_INTEGER t then
        (if t = AF_RPC_TYPE_UINT8 \<and> length xs = 1 then Some (TU8 (xs ! 0))
         else if t = AF_RPC_TYPE_UINT16 \<and> length xs = 2 then Some (TU16 (of_be16 xs))
         else if t = AF_RPC_TYPE_UINT32 \<and> length xs = 4 then Some (TU32 (of_be32 xs))
         else if t = AF_RPC_TYPE_INT8 \<and> length xs = 1 then Some (TI8 (xs ! 0))
         else if t = AF_RPC_TYPE_INT16 \<and> length xs = 2 then Some (TI16 (of_be16 xs))
         else if t = AF_RPC_TYPE_INT32 \<and> length xs = 4 then Some (TI32 (of_be32 xs))
         else None)
      else if length xs = unat (AF_RPC_BLOB_SIZE t) then Some (TBlob (AF_RPC_BLOB_IS_STRING t) xs)
      else None)"

lemma mask14: "(0x3fff :: u16) = mask 14"
  by (simp add: mask_eq_exp_minus_1)

lemma blob_size_bound: "unat (AF_RPC_BLOB_SIZE (t :: u16)) < 2 ^ 14"
proof -
  have "unat (AF_RPC_BLOB_SIZE t) = take_bit 14 (unat t)"
    by (simp add: AF_RPC_BLOB_SIZE_def mask14 unsigned_take_bit_eq flip: take_bit_eq_mask)
  then show ?thesis using take_bit_nat_less_exp [of 14 "unat t"] by simp
qed

lemma size_of_type_blob:
  "\<not> AF_RPC_TYPE_IS_INTEGER t \<Longrightarrow> af_rpc_get_size_of_type t = int (unat (AF_RPC_BLOB_SIZE t))"
  by (simp add: af_rpc_get_size_of_type_def AF_RPC_TYPE_IS_INTEGER_def
      AF_RPC_TYPE_FLAG_INTEGER_def AF_RPC_BLOB_SIZE_def)

lemma is_integer_bit: "AF_RPC_TYPE_IS_INTEGER (t :: u16) \<longleftrightarrow> bit t 15"
proof -
  have pow: "(0x8000 :: u16) = 2 ^ 15" by simp
  show ?thesis
    unfolding AF_RPC_TYPE_IS_INTEGER_def pow by (simp only: and_exp_eq_0_iff_not_bit not_not)
qed

lemma is_string_bit: "AF_RPC_BLOB_IS_STRING (t :: u16) \<longleftrightarrow> bit t 14"
proof -
  have pow: "(0x4000 :: u16) = 2 ^ 14" by simp
  show ?thesis
    unfolding AF_RPC_BLOB_IS_STRING_def pow by (simp only: and_exp_eq_0_iff_not_bit not_not)
qed

lemma bit_string_flag: "bit AF_RPC_TYPE_FLAG_BLOB_IS_STRING n \<longleftrightarrow> n = 14"
proof -
  have pow: "(0x4000 :: u16) = 2 ^ 14" by simp
  show ?thesis
    unfolding AF_RPC_TYPE_FLAG_BLOB_IS_STRING_def pow by (subst bit_exp_iff) auto
qed

lemmas blob_bits = is_integer_bit is_string_bit bit_string_flag AF_RPC_TYPE_STRING_def
  AF_RPC_TYPE_BLOB_def AF_RPC_BLOB_SIZE_def mask14 bit_simps

lemma blob_types:
  assumes "n < 2 ^ 14"
  shows "\<not> AF_RPC_TYPE_IS_INTEGER (tlv_type (TBlob s xs))"
    and "AF_RPC_BLOB_IS_STRING (tlv_type (TBlob s xs)) = s"
    and "n = length xs \<Longrightarrow> unat (AF_RPC_BLOB_SIZE (tlv_type (TBlob s xs))) = n"
proof -
  show "\<not> AF_RPC_TYPE_IS_INTEGER (tlv_type (TBlob s xs))"
    by (auto simp: blob_bits)
  show "AF_RPC_BLOB_IS_STRING (tlv_type (TBlob s xs)) = s"
    by (auto simp: blob_bits)
  assume n: "n = length xs"
  have "AF_RPC_BLOB_SIZE (tlv_type (TBlob s xs)) = take_bit 14 (word_of_nat n :: u16)"
    by (rule bit_word_eqI) (auto simp: n blob_bits)
  then have "unat (AF_RPC_BLOB_SIZE (tlv_type (TBlob s xs))) = n mod 2 ^ 16 mod 2 ^ 14"
    by (simp only: unsigned_take_bit_eq unat_of_nat) (simp add: take_bit_eq_mod)
  with assms show "unat (AF_RPC_BLOB_SIZE (tlv_type (TBlob s xs))) = n" by simp
qed

lemma int_types_integer [simp]:
  "AF_RPC_TYPE_IS_INTEGER AF_RPC_TYPE_UINT8" "AF_RPC_TYPE_IS_INTEGER AF_RPC_TYPE_UINT16"
  "AF_RPC_TYPE_IS_INTEGER AF_RPC_TYPE_UINT32" "AF_RPC_TYPE_IS_INTEGER AF_RPC_TYPE_INT8"
  "AF_RPC_TYPE_IS_INTEGER AF_RPC_TYPE_INT16" "AF_RPC_TYPE_IS_INTEGER AF_RPC_TYPE_INT32"
  by (simp_all add: AF_RPC_TYPE_IS_INTEGER_def rpc_types)

lemma dec_enc: "tlv_wf x \<Longrightarrow> dec_tlv (tlv_type x) (tlv_payload x) = Some x"
proof (cases x)
  case (TBlob s xs)
  assume "tlv_wf x"
  with TBlob have "length xs < 2 ^ 14" by (simp add: rpc_sizes)
  with TBlob show ?thesis by (simp add: dec_tlv_def blob_types del: tlv_type.simps)
qed (simp_all add: dec_tlv_def)

lemma blob_type_eq:
  assumes "\<not> AF_RPC_TYPE_IS_INTEGER t" "length xs = unat (AF_RPC_BLOB_SIZE t)"
  shows "tlv_type (TBlob (AF_RPC_BLOB_IS_STRING t) xs) = t"
proof (rule bit_word_eqI)
  have len: "(word_of_nat (length xs) :: u16) = AF_RPC_BLOB_SIZE t" using assms(2) by simp
  fix n assume "n < LENGTH(16)"
  then have "n < 14 \<or> n = 14 \<or> n = 15" by auto
  then show "bit (tlv_type (TBlob (AF_RPC_BLOB_IS_STRING t) xs)) n = bit t n"
    using assms(1)
    by (auto simp: len blob_bits)
qed

lemma enc_dec:
  assumes "dec_tlv t xs = Some x"
  shows "tlv_type x = t" "tlv_payload x = xs" "tlv_wf x"
proof -
  have one: "length xs = 1 \<Longrightarrow> [xs ! 0] = xs" by (cases xs) auto
  have "tlv_type x = t \<and> tlv_payload x = xs \<and> tlv_wf x"
  proof (cases "AF_RPC_TYPE_IS_INTEGER t")
    case True
    with assms one show ?thesis by (auto simp: dec_tlv_def split: if_splits)
  next
    case False
    with assms have x: "x = TBlob (AF_RPC_BLOB_IS_STRING t) xs"
      and len: "length xs = unat (AF_RPC_BLOB_SIZE t)"
      by (auto simp: dec_tlv_def split: if_splits)
    have "length xs < 2 ^ 14" using len blob_size_bound [of t] by (simp only:)
    then have "int (length xs) \<le> AF_RPC_MAX_BLOB_SIZE" by (simp add: rpc_sizes)
    with x blob_type_eq [OF False len] show ?thesis
      by (simp del: tlv_type.simps)
  qed
  then show "tlv_type x = t" "tlv_payload x = xs" "tlv_wf x" by auto
qed

lemma size_of_dec:
  "dec_tlv t xs = Some x \<Longrightarrow> af_rpc_get_size_of_type t = int (length xs)"
  by (auto simp: dec_tlv_def size_of_type_blob split: if_splits)

lemma size_of_tlv: "tlv_wf x \<Longrightarrow> af_rpc_get_size_of_type (tlv_type x) = int (length (tlv_payload x))"
  using dec_enc size_of_dec by blast

text \<open>The type words the code accepts as integers.\<close>

lemma size_of_type_range: "-1 \<le> af_rpc_get_size_of_type t" "af_rpc_get_size_of_type t < 2 ^ 14"
proof -
  have nth: "af_size_of_int_type ! k \<in> {-1, 1, 2, 4}" if "k < 8" for k
  proof -
    from that have "k \<in> {0, 1, 2, 3, 4, 5, 6, 7}" by auto
    then show ?thesis by (auto simp: af_size_of_int_type_def)
  qed
  have "unat (t AND 0x7000) \<le> unat (0x7000 :: u16)"
    by (rule word_and_le1 [THEN word_le_nat_alt [THEN iffD1]])
  then have "unat (t AND 0x7000) div 2 ^ 12 \<le> 28672 div 2 ^ 12"
    by (intro div_le_mono) simp
  then have "unat (drop_bit 12 (t AND 0x7000)) < 8"
    unfolding unat_drop_bit_eq by (simp add: drop_bit_eq_div)
  note int_size = nth [OF this]
  have "int (unat (AF_RPC_BLOB_SIZE t)) < int (2 ^ 14)"
    using blob_size_bound by (rule of_nat_less_iff [THEN iffD2])
  moreover have "-1 \<le> uint (AF_RPC_BLOB_SIZE t)"
    by (rule order_trans [OF _ unsigned_greater_eq]) simp
  ultimately show "-1 \<le> af_rpc_get_size_of_type t" "af_rpc_get_size_of_type t < 2 ^ 14"
    using int_size size_of_type_blob [of t]
    by (auto simp: af_rpc_get_size_of_type_def AF_RPC_TYPE_FLAG_INTEGER_def
        AF_RPC_TYPE_IS_INTEGER_def)
qed

section \<open>The length field\<close>

lemma uint_of_used:
  assumes "load m buf n = Some bs" "2 \<le> n"
  shows "getlen m buf = Some (of_be16 (take 2 bs))" "uint (of_be16 (take 2 bs)) = int (used bs)"
  using assms by (simp_all add: getlen_start used_def)

lemma used_less: "used bs < 2 ^ 16"
  using unsigned_less [where ?'a = nat, of "of_be16 (take 2 bs)"] by (simp add: used_def)

section \<open>Writing a value into a buffer\<close>

text \<open>Two stores in a row, on the bytes of the whole buffer.\<close>

lemma poke_two:
  fixes m :: mem
  assumes ld: "load m buf n = Some bs" and fits: "pos + length (enc_tlv t) \<le> n"
  defines "m1 \<equiv> overwrite m buf (poke bs pos (be16 (tlv_type t)))"
  shows "setlen m (ptr_add buf (int pos)) (tlv_type t) = Some m1"
    and "store m1 (ptr_add buf (int pos + 2)) (tlv_payload t) =
      Some (overwrite m buf (poke bs pos (enc_tlv t)))"
    and "load m1 buf n = Some (poke bs pos (be16 (tlv_type t)))"
proof -
  have n: "length bs = n" using ld by (rule length_load)
  have fits': "pos + 2 + length (tlv_payload t) \<le> n" using fits by (simp add: length_enc_tlv)
  show "setlen m (ptr_add buf (int pos)) (tlv_type t) = Some m1"
    using ld fits' by (simp add: m1_def setlen_slice)
  show ld1: "load m1 buf n = Some (poke bs pos (be16 (tlv_type t)))"
    using ld fits' n by (simp add: m1_def load_overwrite)
  have "poke (poke bs pos (be16 (tlv_type t))) (pos + 2) (tlv_payload t) = poke bs pos (enc_tlv t)"
    using fits' n poke_append [of pos "be16 (tlv_type t)" "tlv_payload t" bs]
    by (simp add: enc_tlv_def)
  then show "store m1 (ptr_add buf (int pos + 2)) (tlv_payload t) =
      Some (overwrite m buf (poke bs pos (enc_tlv t)))"
    using store_slice [OF ld1, of "int pos + 2" "tlv_payload t"] fits' n ld
    by (simp add: m1_def nat_add_distrib overwrite_overwrite length_enc_tlv)
qed

end
