(* ===== verification/Rpc_Add.thy ===== *)
theory Rpc_Add
  imports Rpc_Spec
begin

text \<open>
  The incremental writers of \<^verbatim>\<open>src/pkg/src/af_rpc.c\<close>: \<^verbatim>\<open>af_rpc_init_buffer\<close> and the seven
  \<^verbatim>\<open>af_rpc_add_*_to_buffer\<close>, each written out as in the source. Their common contract is
  the locale \<open>tlv_adder\<close>, interpreted on all seven.
\<close>

section \<open>The operations\<close>

definition af_rpc_init_buffer :: "mem \<Rightarrow> ptr \<Rightarrow> int \<Rightarrow> (mem \<times> int) option" where
  "af_rpc_init_buffer m txBuffer bufSize =
     (if txBuffer = NULL \<or> csize bufSize < LENGTH_SIZE then Some (m, AF_RPC_ERR_BAD_PARAM)
      else do {
        m \<leftarrow> setlen m txBuffer (word_of_int LENGTH_SIZE);
        Some (m, LENGTH_SIZE)
      })"

definition af_rpc_add_uint8_to_buffer :: "mem \<Rightarrow> ptr \<Rightarrow> int \<Rightarrow> byte \<Rightarrow> (mem \<times> int) option" where
  "af_rpc_add_uint8_to_buffer m buf bufSize v =
     (if buf = NULL \<or> bufSize \<le> 0 then Some (m, AF_RPC_ERR_BAD_PARAM)
      else if csize bufSize \<ge> LENGTH_SIZE then do {
        len \<leftarrow> getlen m buf;
        let pos = uint len;
        if csize (pos + TYPE_SIZE + 1) > csize bufSize then Some (m, AF_RPC_ERR_BUFFER_OVERFLOW)
        else do {
          m \<leftarrow> setlen m (ptr_add buf pos) AF_RPC_TYPE_UINT8;
          let pos = pos + TYPE_SIZE;
          m \<leftarrow> store m (ptr_add buf pos) [v];
          let pos = pos + 1;
          m \<leftarrow> setlen m buf (word_of_int pos);
          Some (m, pos)
        }
      }
      else Some (m, AF_RPC_ERR_BAD_TLV))"

definition af_rpc_add_uint16_to_buffer :: "mem \<Rightarrow> ptr \<Rightarrow> int \<Rightarrow> u16 \<Rightarrow> (mem \<times> int) option" where
  "af_rpc_add_uint16_to_buffer m buf bufSize v =
     (if buf = NULL \<or> bufSize \<le> 0 then Some (m, AF_RPC_ERR_BAD_PARAM)
      else if csize bufSize \<ge> LENGTH_SIZE then do {
        len \<leftarrow> getlen m buf;
        let pos = uint len;
        if csize (pos + TYPE_SIZE + 2) > csize bufSize then Some (m, AF_RPC_ERR_BUFFER_OVERFLOW)
        else do {
          m \<leftarrow> setlen m (ptr_add buf pos) AF_RPC_TYPE_UINT16;
          let pos = pos + TYPE_SIZE;
          let rValue = htons v;
          m \<leftarrow> store m (ptr_add buf pos) (bytes16 rValue);
          let pos = pos + 2;
          m \<leftarrow> setlen m buf (word_of_int pos);
          Some (m, pos)
        }
      }
      else Some (m, AF_RPC_ERR_BAD_TLV))"

definition af_rpc_add_uint32_to_buffer :: "mem \<Rightarrow> ptr \<Rightarrow> int \<Rightarrow> u32 \<Rightarrow> (mem \<times> int) option" where
  "af_rpc_add_uint32_to_buffer m buf bufSize v =
     (if buf = NULL \<or> bufSize \<le> 0 then Some (m, AF_RPC_ERR_BAD_PARAM)
      else if csize bufSize \<ge> LENGTH_SIZE then do {
        len \<leftarrow> getlen m buf;
        let pos = uint len;
        if csize (pos + TYPE_SIZE + 4) > csize bufSize then Some (m, AF_RPC_ERR_BUFFER_OVERFLOW)
        else do {
          m \<leftarrow> setlen m (ptr_add buf pos) AF_RPC_TYPE_UINT32;
          let pos = pos + TYPE_SIZE;
          let rValue = htonl v;
          m \<leftarrow> store m (ptr_add buf pos) (bytes32 rValue);
          let pos = pos + 4;
          m \<leftarrow> setlen m buf (word_of_int pos);
          Some (m, pos)
        }
      }
      else Some (m, AF_RPC_ERR_BAD_TLV))"

text \<open>The signed writers store the two's complement bits of the value.\<close>

definition af_rpc_add_int8_to_buffer :: "mem \<Rightarrow> ptr \<Rightarrow> int \<Rightarrow> byte \<Rightarrow> (mem \<times> int) option" where
  "af_rpc_add_int8_to_buffer m buf bufSize v =
     (if buf = NULL \<or> bufSize \<le> 0 then Some (m, AF_RPC_ERR_BAD_PARAM)
      else if csize bufSize \<ge> LENGTH_SIZE then do {
        len \<leftarrow> getlen m buf;
        let pos = uint len;
        if csize (pos + TYPE_SIZE + 1) > csize bufSize then Some (m, AF_RPC_ERR_BUFFER_OVERFLOW)
        else do {
          m \<leftarrow> setlen m (ptr_add buf pos) AF_RPC_TYPE_INT8;
          let pos = pos + TYPE_SIZE;
          m \<leftarrow> store m (ptr_add buf pos) [v];
          let pos = pos + 1;
          m \<leftarrow> setlen m buf (word_of_int pos);
          Some (m, pos)
        }
      }
      else Some (m, AF_RPC_ERR_BAD_TLV))"

definition af_rpc_add_int16_to_buffer :: "mem \<Rightarrow> ptr \<Rightarrow> int \<Rightarrow> u16 \<Rightarrow> (mem \<times> int) option" where
  "af_rpc_add_int16_to_buffer m buf bufSize v =
     (if buf = NULL \<or> bufSize \<le> 0 then Some (m, AF_RPC_ERR_BAD_PARAM)
      else if csize bufSize \<ge> LENGTH_SIZE then do {
        len \<leftarrow> getlen m buf;
        let pos = uint len;
        if csize (pos + TYPE_SIZE + 2) > csize bufSize then Some (m, AF_RPC_ERR_BUFFER_OVERFLOW)
        else do {
          m \<leftarrow> setlen m (ptr_add buf pos) AF_RPC_TYPE_INT16;
          let pos = pos + TYPE_SIZE;
          let rValue = htons v;
          m \<leftarrow> store m (ptr_add buf pos) (bytes16 rValue);
          let pos = pos + 2;
          m \<leftarrow> setlen m buf (word_of_int pos);
          Some (m, pos)
        }
      }
      else Some (m, AF_RPC_ERR_BAD_TLV))"

definition af_rpc_add_int32_to_buffer :: "mem \<Rightarrow> ptr \<Rightarrow> int \<Rightarrow> u32 \<Rightarrow> (mem \<times> int) option" where
  "af_rpc_add_int32_to_buffer m buf bufSize v =
     (if buf = NULL \<or> bufSize \<le> 0 then Some (m, AF_RPC_ERR_BAD_PARAM)
      else if csize bufSize \<ge> LENGTH_SIZE then do {
        len \<leftarrow> getlen m buf;
        let pos = uint len;
        if csize (pos + TYPE_SIZE + 4) > csize bufSize then Some (m, AF_RPC_ERR_BUFFER_OVERFLOW)
        else do {
          m \<leftarrow> setlen m (ptr_add buf pos) AF_RPC_TYPE_INT32;
          let pos = pos + TYPE_SIZE;
          let rValue = htonl v;
          m \<leftarrow> store m (ptr_add buf pos) (bytes32 rValue);
          let pos = pos + 4;
          m \<leftarrow> setlen m buf (word_of_int pos);
          Some (m, pos)
        }
      }
      else Some (m, AF_RPC_ERR_BAD_TLV))"

definition af_rpc_add_blob_to_buffer ::
    "mem \<Rightarrow> ptr \<Rightarrow> int \<Rightarrow> ptr \<Rightarrow> int \<Rightarrow> (mem \<times> int) option" where
  "af_rpc_add_blob_to_buffer m buf bufSize blob blobSize =
     (if buf = NULL \<or> bufSize \<le> 0 \<or> blobSize < 0 \<or> (blob = NULL \<and> blobSize > 0)
         \<or> blobSize > AF_RPC_MAX_BLOB_SIZE
      then Some (m, AF_RPC_ERR_BAD_PARAM)
      else if csize bufSize \<ge> LENGTH_SIZE then do {
        len \<leftarrow> getlen m buf;
        let pos = uint len;
        if csize (pos + TYPE_SIZE + blobSize) > csize bufSize
        then Some (m, AF_RPC_ERR_BUFFER_OVERFLOW)
        else do {
          m \<leftarrow> setlen m (ptr_add buf pos) (AF_RPC_TYPE_BLOB blobSize);
          let pos = pos + TYPE_SIZE;
          (m, pos) \<leftarrow>
            (if blobSize \<noteq> 0 then do {
               m \<leftarrow> memcpy m (ptr_add buf pos) blob (nat blobSize);
               Some (m, pos + blobSize)
             }
             else Some (m, pos));
          m \<leftarrow> setlen m buf (word_of_int pos);
          Some (m, pos)
        }
      }
      else Some (m, AF_RPC_ERR_BAD_TLV))"

section \<open>The common step\<close>

text \<open>
  The three stores of every writer (type word, payload, new length), on the bytes that the
  whole buffer holds.
\<close>

lemma write_tlv:
  fixes m :: mem and buf :: ptr
  assumes ld: "load m buf n = Some bs" and fits: "used bs + length (enc_tlv t) \<le> n"
  defines "m1 \<equiv> overwrite m buf (poke bs (used bs) (be16 (tlv_type t)))"
  defines "m2 \<equiv> overwrite m buf (poke bs (used bs) (enc_tlv t))"
  shows write_type: "setlen m (ptr_add buf (int (used bs))) (tlv_type t) = Some m1"
    and write_payload:
      "store m1 (ptr_add buf (int (used bs) + 2)) (tlv_payload t) = Some m2"
    and write_length: "2 \<le> n \<Longrightarrow>
      setlen m2 buf (word_of_int (int (used bs) + 2 + int (length (tlv_payload t)))) =
      Some (overwrite m buf (append_tlv bs t))"
    and load_type: "load m1 buf n = Some (poke bs (used bs) (be16 (tlv_type t)))"
  unfolding m1_def m2_def
proof -
  let ?u = "used bs"
  let ?m2 = "overwrite m buf (poke bs ?u (enc_tlv t))"
  have n: "length bs = n" using ld by (rule length_load)
  have ld2: "load ?m2 buf n = Some (poke bs ?u (enc_tlv t))"
    using ld fits n by (simp add: load_overwrite)
  have eq: "word_of_int (int ?u + 2 + int (length (tlv_payload t))) =
      (word_of_nat (?u + length (enc_tlv t)) :: u16)"
    by (simp add: length_enc_tlv)
  show "setlen ?m2 buf (word_of_int (int ?u + 2 + int (length (tlv_payload t)))) =
      Some (overwrite m buf (append_tlv bs t))" if "2 \<le> n"
    unfolding eq using setlen_slice [OF ld2, of 0] that ld n fits
    by (simp add: append_tlv_def overwrite_overwrite)
qed (use poke_two [OF ld fits] in auto)

section \<open>The contract of the writers\<close>

text \<open>
  A writer \<open>add\<close> of arguments \<open>v\<close>; \<open>src m buf n v t\<close> says that in memory \<open>m\<close> the arguments
  denote the value \<open>t\<close>, the buffer being the \<open>n\<close> bytes at \<open>buf\<close>.
\<close>

locale tlv_adder =
  fixes add :: "mem \<Rightarrow> ptr \<Rightarrow> int \<Rightarrow> 'v \<Rightarrow> (mem \<times> int) option"
    and src :: "mem \<Rightarrow> ptr \<Rightarrow> nat \<Rightarrow> 'v \<Rightarrow> tlv \<Rightarrow> bool"
  assumes src_wf: "src m buf n v t \<Longrightarrow> tlv_wf t"
    and add_null: "buf = NULL \<or> bufSize \<le> 0 \<Longrightarrow> add m buf bufSize v = Some (m, AF_RPC_ERR_BAD_PARAM)"
    and add_tiny: "buf \<noteq> NULL \<Longrightarrow> src m buf 1 v t \<Longrightarrow> add m buf 1 v = Some (m, AF_RPC_ERR_BAD_TLV)"
    and add_full: "load m buf (nat bufSize) = Some bs \<Longrightarrow> 2 \<le> bufSize \<Longrightarrow> bufSize < 2 ^ 31 \<Longrightarrow>
      src m buf (nat bufSize) v t \<Longrightarrow> int (used bs + length (enc_tlv t)) > bufSize \<Longrightarrow>
      add m buf bufSize v = Some (m, AF_RPC_ERR_BUFFER_OVERFLOW)"
    and add_fits: "load m buf (nat bufSize) = Some bs \<Longrightarrow> 2 \<le> bufSize \<Longrightarrow> bufSize < 2 ^ 31 \<Longrightarrow>
      src m buf (nat bufSize) v t \<Longrightarrow> int (used bs + length (enc_tlv t)) \<le> bufSize \<Longrightarrow>
      add m buf bufSize v =
        Some (overwrite m buf (append_tlv bs t), int (used bs + length (enc_tlv t)))"
begin

lemma add_refines_append:
  assumes "load m buf (nat bufSize) = Some bs" "holds bs ts" "2 \<le> bufSize" "bufSize < 2 ^ 16"
    "src m buf (nat bufSize) v t" "int (msg_len (ts @ [t])) \<le> bufSize"
  obtains m' bs' where "add m buf bufSize v = Some (m', int (msg_len (ts @ [t])))"
    "load m' buf (nat bufSize) = Some bs'" "holds bs' (ts @ [t])"
    "m' = overwrite m buf bs'" "drop (msg_len (ts @ [t])) bs' = drop (msg_len (ts @ [t])) bs"
proof -
  have u: "used bs = msg_len ts" using assms(2) by (rule holds_used)
  have len: "length bs = nat bufSize" using assms(1) by (rule length_load)
  let ?bs = "append_tlv bs t"
  have fits: "msg_len ts + length (enc_tlv t) \<le> length bs" using assms(6) len by simp
  have len': "length ?bs = length bs"
    using fits u by (simp add: append_tlv_def length_enc_tlv)
  have "holds ?bs (ts @ [t])"
    using assms(4,6) len by (intro holds_append [OF assms(2)]) auto
  moreover have "add m buf bufSize v = Some (overwrite m buf ?bs, int (msg_len (ts @ [t])))"
    using add_fits [OF assms(1,3) _ assms(5)] assms(4,6) u by simp
  moreover have "load (overwrite m buf ?bs) buf (nat bufSize) = Some ?bs"
    using assms(1) len len' by (simp add: load_overwrite)
  moreover have "drop (msg_len (ts @ [t])) ?bs = drop (msg_len (ts @ [t])) bs"
    using fits u by (simp add: append_tlv_def poke_def length_enc_tlv)
  ultimately show thesis using that by blast
qed

lemma add_total:
  assumes "buf = NULL \<or> load m buf (nat bufSize) \<noteq> None" "bufSize < 2 ^ 31"
    "src m buf (nat bufSize) v t"
  shows "add m buf bufSize v \<noteq> None"
proof (cases "buf = NULL \<or> bufSize \<le> 0")
  case True
  then show ?thesis using add_null by auto
next
  case False
  then obtain bs where ld: "load m buf (nat bufSize) = Some bs" using assms(1) by auto
  show ?thesis
  proof (cases "bufSize = 1")
    case True
    with False assms(3) add_tiny show ?thesis by auto
  next
    case ne: False
    with False have "2 \<le> bufSize" by auto
    then show ?thesis
      using add_full [OF ld _ assms(2,3)] add_fits [OF ld _ assms(2,3)]
      by (cases "int (used bs + length (enc_tlv t)) \<le> bufSize") auto
  qed
qed

end

text \<open>The seven writers satisfy it.\<close>

lemmas add_ops = af_rpc_add_uint8_to_buffer_def af_rpc_add_uint16_to_buffer_def
  af_rpc_add_uint32_to_buffer_def af_rpc_add_int8_to_buffer_def af_rpc_add_int16_to_buffer_def
  af_rpc_add_int32_to_buffer_def af_rpc_add_blob_to_buffer_def

lemma csize_over_iff:
  "2 \<le> bufSize \<Longrightarrow> bufSize < 2 ^ 31 \<Longrightarrow> k \<le> 2 ^ 16 \<Longrightarrow>
   csize (int (used bs) + int k) > csize bufSize \<longleftrightarrow> int (used bs) + int k > bufSize"
  using used_less [of bs] by simp


text \<open>
  The six integer writers are one routine at six types: the reference \<open>add_scalar\<close> takes the
  type word and the payload from the specification.
\<close>

definition add_scalar :: "mem \<Rightarrow> ptr \<Rightarrow> int \<Rightarrow> tlv \<Rightarrow> (mem \<times> int) option" where
  "add_scalar m buf bufSize t =
     (if buf = NULL \<or> bufSize \<le> 0 then Some (m, AF_RPC_ERR_BAD_PARAM)
      else if csize bufSize \<ge> LENGTH_SIZE then do {
        len \<leftarrow> getlen m buf;
        let pos = uint len;
        if csize (pos + TYPE_SIZE + int (length (tlv_payload t))) > csize bufSize
        then Some (m, AF_RPC_ERR_BUFFER_OVERFLOW)
        else do {
          m \<leftarrow> setlen m (ptr_add buf pos) (tlv_type t);
          let pos = pos + TYPE_SIZE;
          m \<leftarrow> store m (ptr_add buf pos) (tlv_payload t);
          let pos = pos + int (length (tlv_payload t));
          m \<leftarrow> setlen m buf (word_of_int pos);
          Some (m, pos)
        }
      }
      else Some (m, AF_RPC_ERR_BAD_TLV))"

lemma add_eq_scalar:
  "af_rpc_add_uint8_to_buffer m buf n v8 = add_scalar m buf n (TU8 v8)"
  "af_rpc_add_uint16_to_buffer m buf n v16 = add_scalar m buf n (TU16 v16)"
  "af_rpc_add_uint32_to_buffer m buf n v32 = add_scalar m buf n (TU32 v32)"
  "af_rpc_add_int8_to_buffer m buf n v8 = add_scalar m buf n (TI8 v8)"
  "af_rpc_add_int16_to_buffer m buf n v16 = add_scalar m buf n (TI16 v16)"
  "af_rpc_add_int32_to_buffer m buf n v32 = add_scalar m buf n (TI32 v32)"
  by (simp_all add: add_ops add_scalar_def bytes_htons cong: if_cong)

lemma payload_bound: "tlv_wf t \<Longrightarrow> 2 + length (tlv_payload t) \<le> 2 ^ 16"
  by (cases t) (auto simp: rpc_sizes)

lemma csize_over_tlv:
  assumes "2 \<le> bufSize" "bufSize < 2 ^ 31" "tlv_wf t"
  shows "csize (int (used bs) + TYPE_SIZE + int (length (tlv_payload t))) > csize bufSize \<longleftrightarrow>
    int (used bs + length (enc_tlv t)) > bufSize"
  using csize_over_iff [OF assms(1,2) payload_bound [OF assms(3)], of bs]
  by (simp add: rpc_sizes length_enc_tlv algebra_simps)

lemma add_scalar_fits:
  assumes ld: "load m buf (nat bufSize) = Some bs" and size: "2 \<le> bufSize" "bufSize < 2 ^ 31"
    and wf: "tlv_wf t" and fits: "int (used bs + length (enc_tlv t)) \<le> bufSize"
  shows "add_scalar m buf bufSize t =
    Some (overwrite m buf (append_tlv bs t), int (used bs + length (enc_tlv t)))"
proof -
  have "used bs + length (enc_tlv t) \<le> nat bufSize" "2 \<le> nat bufSize" using fits size by auto
  note w = write_type [OF ld this(1)] write_payload [OF ld this(1)] write_length [OF ld this]
  show ?thesis
    using size uint_of_used [OF ld] load_not_null [OF ld] w
      csize_over_tlv [OF size wf, of bs] fits
    by (simp add: add_scalar_def TYPE_SIZE_def LENGTH_SIZE_def length_enc_tlv add.assoc)
qed

lemma add_scalar_adder:
  assumes wf: "\<And>v. tlv_wf (mk v)"
  shows "tlv_adder (\<lambda>m buf n v. add_scalar m buf n (mk v)) (\<lambda>m buf n v t. t = mk v)"
proof unfold_locales
  fix m buf bufSize bs v t
  assume ld: "load m buf (nat bufSize) = Some bs" and size: "2 \<le> bufSize" "bufSize < 2 ^ 31"
    and t: "t = mk v"
  have "tlv_wf t" using wf t by simp
  note over = csize_over_tlv [OF size this, of bs]
  show "add_scalar m buf bufSize (mk v) = Some (m, AF_RPC_ERR_BUFFER_OVERFLOW)"
    if "int (used bs + length (enc_tlv t)) > bufSize"
    using size uint_of_used [OF ld] load_not_null [OF ld] over that t
    by (simp add: add_scalar_def LENGTH_SIZE_def)
  show "add_scalar m buf bufSize (mk v) =
      Some (overwrite m buf (append_tlv bs t), int (used bs + length (enc_tlv t)))"
    if "int (used bs + length (enc_tlv t)) \<le> bufSize"
    using add_scalar_fits [OF ld size] wf t that by simp
qed (use wf in \<open>auto simp: add_scalar_def LENGTH_SIZE_def\<close>)

interpretation add_u8: tlv_adder af_rpc_add_uint8_to_buffer "\<lambda>m buf n v t. t = TU8 v"
  unfolding add_eq_scalar [abs_def] by (rule add_scalar_adder) simp
interpretation add_u16: tlv_adder af_rpc_add_uint16_to_buffer "\<lambda>m buf n v t. t = TU16 v"
  unfolding add_eq_scalar [abs_def] by (rule add_scalar_adder) simp
interpretation add_u32: tlv_adder af_rpc_add_uint32_to_buffer "\<lambda>m buf n v t. t = TU32 v"
  unfolding add_eq_scalar [abs_def] by (rule add_scalar_adder) simp
interpretation add_i8: tlv_adder af_rpc_add_int8_to_buffer "\<lambda>m buf n v t. t = TI8 v"
  unfolding add_eq_scalar [abs_def] by (rule add_scalar_adder) simp
interpretation add_i16: tlv_adder af_rpc_add_int16_to_buffer "\<lambda>m buf n v t. t = TI16 v"
  unfolding add_eq_scalar [abs_def] by (rule add_scalar_adder) simp
interpretation add_i32: tlv_adder af_rpc_add_int32_to_buffer "\<lambda>m buf n v t. t = TI32 v"
  unfolding add_eq_scalar [abs_def] by (rule add_scalar_adder) simp

text \<open>
  The arguments of the blob writer are a pointer and a size; the bytes they denote lie in
  memory, outside the buffer.
\<close>

definition blob_arg :: "mem \<Rightarrow> ptr \<Rightarrow> nat \<Rightarrow> ptr \<times> int \<Rightarrow> tlv \<Rightarrow> bool" where
  "blob_arg m buf n a t \<longleftrightarrow> (case a of (p, k) \<Rightarrow> 0 \<le> k \<and> k \<le> AF_RPC_MAX_BLOB_SIZE \<and>
     (if k = 0 then t = TBlob False []
      else (case load m p (nat k) of None \<Rightarrow> False
        | Some xs \<Rightarrow> t = TBlob False xs \<and> \<not> overlaps buf n p (nat k))))"

lemma blob_argE:
  assumes "blob_arg m buf n (p, k) t"
  obtains (empty) "k = 0" "t = TBlob False []"
  | (some) xs where "0 < k" "k \<le> AF_RPC_MAX_BLOB_SIZE" "load m p (nat k) = Some xs"
      "t = TBlob False xs" "\<not> overlaps buf n p (nat k)" "length xs = nat k" "p \<noteq> NULL"
proof (cases "k = 0")
  case True
  with assms empty show thesis by (auto simp: blob_arg_def)
next
  case False
  with assms obtain xs where "load m p (nat k) = Some xs" "t = TBlob False xs"
    "\<not> overlaps buf n p (nat k)" "0 \<le> k" "k \<le> AF_RPC_MAX_BLOB_SIZE"
    by (auto simp: blob_arg_def split: option.splits)
  with False some length_load load_not_null show thesis by force
qed

lemma add_blob_fits:
  assumes ld: "load m buf (nat bufSize) = Some bs" and size: "2 \<le> bufSize" "bufSize < 2 ^ 31"
    and src: "blob_arg m buf (nat bufSize) (p, k) t"
    and fits: "int (used bs + length (enc_tlv t)) \<le> bufSize"
  shows "af_rpc_add_blob_to_buffer m buf bufSize p k =
    Some (overwrite m buf (append_tlv bs t), int (used bs + length (enc_tlv t)))"
proof -
  have n: "used bs + length (enc_tlv t) \<le> nat bufSize" "2 \<le> nat bufSize" using fits size by auto
  note w = write_type [OF ld n(1)] write_payload [OF ld n(1)] write_length [OF ld n]
  note ld1 = load_type [OF ld n(1)]
  from src show ?thesis
  proof (cases rule: blob_argE)
    case empty
    have "overwrite m buf (poke bs (used bs) (be16 (tlv_type t))) =
        overwrite m buf (poke bs (used bs) (enc_tlv t))"
      using empty by (simp add: enc_tlv_def)
    then show ?thesis
      using size uint_of_used [OF ld] load_not_null [OF ld] w fits empty
        csize_over_tlv [OF size, of t bs]
      by (simp add: add_ops rpc_sizes length_enc_tlv)
  next
    case (some xs)
    let ?m1 = "overwrite m buf (poke bs (used bs) (be16 (tlv_type t)))"
    have "length (poke bs (used bs) (be16 (tlv_type t))) = nat bufSize"
      using n length_load [OF ld] by (simp add: length_enc_tlv)
    with ld some(5) have "load ?m1 p (nat k) = load m p (nat k)"
      by (intro load_overwrite_other) auto
    then have "load ?m1 p (nat k) = Some xs" using some(3) by simp
    moreover have "\<not> overlaps (ptr_add buf (int (used bs) + 2)) (nat k) p (nat k)"
      using n some by (intro overlaps_slice [OF some(5)]) (auto simp: length_enc_tlv)
    ultimately have "memcpy ?m1 (ptr_add buf (int (used bs) + 2)) p (nat k) =
        store ?m1 (ptr_add buf (int (used bs) + 2)) xs"
      by (rule memcpy_eq_store)
    then show ?thesis
      using size uint_of_used [OF ld] load_not_null [OF ld] w fits some
        csize_over_tlv [OF size, of t bs]
      by (simp add: add_ops rpc_sizes length_enc_tlv add.assoc)
  qed
qed

lemma add_blob_full:
  assumes ld: "load m buf (nat bufSize) = Some bs" and size: "2 \<le> bufSize" "bufSize < 2 ^ 31"
    and src: "blob_arg m buf (nat bufSize) (p, k) t"
    and full: "int (used bs + length (enc_tlv t)) > bufSize"
  shows "af_rpc_add_blob_to_buffer m buf bufSize p k = Some (m, AF_RPC_ERR_BUFFER_OVERFLOW)"
  using src
proof (cases rule: blob_argE)
  case empty
  then show ?thesis
    using full size uint_of_used [OF ld] load_not_null [OF ld] csize_over_tlv [OF size, of t bs]
    by (simp add: add_ops rpc_sizes length_enc_tlv)
next
  case (some xs)
  then show ?thesis
    using full size uint_of_used [OF ld] load_not_null [OF ld] csize_over_tlv [OF size, of t bs]
    by (simp add: add_ops rpc_sizes length_enc_tlv)
qed

interpretation add_blob: tlv_adder "\<lambda>m buf n a. af_rpc_add_blob_to_buffer m buf n (fst a) (snd a)" blob_arg
proof unfold_locales
  show "tlv_wf t" if "blob_arg m buf n v t" for m buf n v t
    using that by (cases v) (auto elim!: blob_argE simp: rpc_sizes)
  show "af_rpc_add_blob_to_buffer m buf bufSize (fst v) (snd v) = Some (m, AF_RPC_ERR_BAD_PARAM)"
    if "buf = NULL \<or> bufSize \<le> 0" for m buf bufSize and v :: "ptr \<times> int"
    using that by (auto simp: add_ops)
  show "af_rpc_add_blob_to_buffer m buf 1 (fst v) (snd v) = Some (m, AF_RPC_ERR_BAD_TLV)"
    if "buf \<noteq> NULL" "blob_arg m buf 1 v t" for m buf v t
    using that by (cases v) (auto simp: add_ops rpc_sizes elim!: blob_argE)
qed (auto simp: add_blob_fits add_blob_full simp flip: of_nat_add)

end
