(* ===== verification/Rpc_Params.thy ===== *)
theory Rpc_Params
  imports Rpc_Spec
begin

text \<open>
  The batch interface of \<^verbatim>\<open>src/pkg/src/af_rpc.c\<close>: \<^verbatim>\<open>af_rpc_create_buffer_with_params\<close>
  writes an array of parameters as a message, \<^verbatim>\<open>af_rpc_get_params_from_buffer\<close> reads a
  message back into an array. The parameter array is a list; a read past its end is
  undefined (\<open>None\<close>). A loop body is a definition of its own, with result \<open>Inl e\<close> for
  \<^verbatim>\<open>goto exit\<close> with return value \<open>e\<close>, and \<open>Inr\<close> for the next iteration.
\<close>

section \<open>Writing\<close>

text \<open>\<^verbatim>\<open>(ptrdiff_t)base\<close>: the integer that was cast. The address of an object is not modelled.\<close>

definition ptr_bits :: "ptr \<Rightarrow> u64 option" where
  "ptr_bits p = (case p of VInt w \<Rightarrow> Some w | VPtr _ _ \<Rightarrow> None)"

definition create_param :: "mem \<Rightarrow> ptr \<Rightarrow> int \<Rightarrow> af_rpc_param \<Rightarrow> int \<Rightarrow> (mem \<times> (int + int)) option" where
  "create_param m buf bufSize p pos =
     (let type = (ucast (ptype p) :: u16); size = af_rpc_get_size_of_type type in
      if size < 0 \<or> size > AF_RPC_MAX_BLOB_SIZE then Some (m, Inl AF_RPC_ERR_BAD_TYPE)
      else if csize (pos + 2 + size) > csize bufSize then Some (m, Inl AF_RPC_ERR_BUFFER_OVERFLOW)
      else if AF_RPC_TYPE_IS_INTEGER type then
        (if type AND AF_RPC_TYPE_INTEGER_TYPE_MASK \<noteq> type then Some (m, Inl AF_RPC_ERR_BAD_TYPE)
         else do {
           m \<leftarrow> setlen m (ptr_add buf pos) type;
           let pos = pos + 2;
           if type = AF_RPC_TYPE_INT8 \<or> type = AF_RPC_TYPE_UINT8 then do {
             w \<leftarrow> ptr_bits (base p);
             m \<leftarrow> store m (ptr_add buf pos) [ucast w];
             Some (m, Inr (pos + 1))
           }
           else if type = AF_RPC_TYPE_INT16 \<or> type = AF_RPC_TYPE_UINT16 then do {
             w \<leftarrow> ptr_bits (base p);
             m \<leftarrow> store m (ptr_add buf pos) (bytes16 (htons (ucast w)));
             Some (m, Inr (pos + 2))
           }
           else if type = AF_RPC_TYPE_INT32 \<or> type = AF_RPC_TYPE_UINT32 then do {
             w \<leftarrow> ptr_bits (base p);
             m \<leftarrow> store m (ptr_add buf pos) (bytes32 (htonl (ucast w)));
             Some (m, Inr (pos + 4))
           }
           else Some (m, Inl AF_RPC_ERR_BAD_TYPE)
         })
      else do {
        m \<leftarrow> setlen m (ptr_add buf pos) type;
        let pos = pos + 2;
        if size > 0 then
          (if base p = NULL then Some (m, Inl AF_RPC_ERR_BAD_PARAM)
           else do {
             m \<leftarrow> memcpy m (ptr_add buf pos) (base p) (nat size);
             Some (m, Inr (pos + size))
           })
        else Some (m, Inr (pos + size))
      })"

text \<open>The loop \<^verbatim>\<open>for (i = 0; i < num_params; i++)\<close>; \<open>k\<close> iterations are left.\<close>

fun create_loop ::
    "mem \<Rightarrow> ptr \<Rightarrow> int \<Rightarrow> af_rpc_param list \<Rightarrow> nat \<Rightarrow> int \<Rightarrow> (mem \<times> (int + int)) option" where
  "create_loop m buf bufSize ps 0 pos = Some (m, Inr pos)"
| "create_loop m buf bufSize [] (Suc k) pos = None"
| "create_loop m buf bufSize (p # ps) (Suc k) pos =
     (case create_param m buf bufSize p pos of
        None \<Rightarrow> None
      | Some (m', Inl e) \<Rightarrow> Some (m', Inl e)
      | Some (m', Inr pos') \<Rightarrow> create_loop m' buf bufSize ps k pos')"

definition af_rpc_create_buffer_with_params ::
    "mem \<Rightarrow> ptr \<Rightarrow> int \<Rightarrow> af_rpc_param list option \<Rightarrow> int \<Rightarrow> (mem \<times> int) option" where
  "af_rpc_create_buffer_with_params m buf bufSize params num_params =
     (case params of
        None \<Rightarrow> Some (m, AF_RPC_ERR_BAD_PARAM)
      | Some ps \<Rightarrow>
          if buf = NULL \<or> bufSize \<le> 0 \<or> num_params < 0 then Some (m, AF_RPC_ERR_BAD_PARAM)
          else if csize bufSize \<ge> LENGTH_SIZE then
            (case create_loop m buf bufSize ps (nat num_params) LENGTH_SIZE of
               None \<Rightarrow> None
             | Some (m', Inl e) \<Rightarrow> Some (m', e)
             | Some (m', Inr pos) \<Rightarrow> do {
                 m' \<leftarrow> setlen m' buf (word_of_int pos);
                 Some (m', pos)
               })
          else Some (m, AF_RPC_ERR_BUFFER_OVERFLOW))"

section \<open>Reading\<close>

text \<open>
  One iteration of the reading loop, after the check for too many parameters: the array
  with entry \<open>param\<close> filled, and the next position.
\<close>

definition get_param_step ::
    "mem \<Rightarrow> ptr \<Rightarrow> int \<Rightarrow> int \<Rightarrow> af_rpc_param list \<Rightarrow> nat \<Rightarrow> int \<Rightarrow> (af_rpc_param list \<times> (int + int)) option"
where
  "get_param_step m buf len permissive params param pos =
     (if csize (pos + 2) \<le> csize len then do {
        type \<leftarrow> getlen m (ptr_add buf pos);
        let pos = pos + 2;
        let size = af_rpc_get_size_of_type type;
        if pos + size > len then Some (params, Inl AF_RPC_ERR_BAD_TLV)
        else if param \<ge> length params then None
        else (
          let expType = ptype (params ! param);
              q = (params ! param)\<lparr>ptype := ucast type\<rparr> in
          if AF_RPC_TYPE_IS_INTEGER type then
            (if type AND AF_RPC_TYPE_INTEGER_TYPE_MASK \<noteq> type
             then Some (params, Inl AF_RPC_ERR_BAD_TYPE)
             else if permissive = 0 \<and> expType \<noteq> ucast type
             then Some (params, Inl AF_RPC_ERR_BAD_TYPE)
             else if type = AF_RPC_TYPE_INT8 then do {
               xs \<leftarrow> load m (ptr_add buf pos) 1;
               Some (params[param := q\<lparr>base := VInt (scast (xs ! 0))\<rparr>], Inr (pos + 1))
             }
             else if type = AF_RPC_TYPE_UINT8 then do {
               xs \<leftarrow> load m (ptr_add buf pos) 1;
               Some (params[param := q\<lparr>base := VInt (ucast (xs ! 0))\<rparr>], Inr (pos + 1))
             }
             else if type = AF_RPC_TYPE_INT16 then do {
               xs \<leftarrow> load m (ptr_add buf pos) 2;
               let val = ntohs (word16 xs);
               let val32 = (ucast val :: u32);
               let val32 = (if val AND 0x8000 \<noteq> 0 then val32 OR 0xffff0000 else val32);
               Some (params[param := q\<lparr>base := VInt (ucast val32)\<rparr>], Inr (pos + 2))
             }
             else if type = AF_RPC_TYPE_UINT16 then do {
               xs \<leftarrow> load m (ptr_add buf pos) 2;
               let val = ntohs (word16 xs);
               Some (params[param := q\<lparr>base := VInt (ucast val)\<rparr>], Inr (pos + 2))
             }
             else if type = AF_RPC_TYPE_INT32 \<or> type = AF_RPC_TYPE_UINT32 then do {
               xs \<leftarrow> load m (ptr_add buf pos) 4;
               let val = ntohl (word32 xs);
               Some (params[param := q\<lparr>base := VInt (ucast val)\<rparr>], Inr (pos + 4))
             }
             else Some (params[param := q], Inl AF_RPC_ERR_BAD_TYPE))
          else if permissive = 0 \<and> \<not> AF_RPC_TYPE_IS_BLOB expType
          then Some (params, Inl AF_RPC_ERR_BAD_TYPE)
          else Some (params[param := q\<lparr>base := ptr_add buf pos\<rparr>], Inr (pos + size)))
      }
      else Some (params, Inl AF_RPC_ERR_BAD_TLV))"

text \<open>
  The loop \<^verbatim>\<open>while (pos < len)\<close>. Every iteration fills an entry, and the loop exits with
  return value 0 when the array is full, so it stops. \<open>Inr (param, pos)\<close> is the normal end.
\<close>

function get_params_loop ::
    "mem \<Rightarrow> ptr \<Rightarrow> int \<Rightarrow> int \<Rightarrow> int \<Rightarrow> af_rpc_param list \<Rightarrow> nat \<Rightarrow> int
     \<Rightarrow> (af_rpc_param list \<times> (int + nat \<times> int)) option"
where
  "get_params_loop m buf len numParams permissive params param pos =
     (if pos < len then
        (if int param \<ge> numParams then Some (params, Inl 0)
         else (case get_param_step m buf len permissive params param pos of
             None \<Rightarrow> None
           | Some (params', Inl e) \<Rightarrow> Some (params', Inl e)
           | Some (params', Inr pos') \<Rightarrow>
               get_params_loop m buf len numParams permissive params' (Suc param) pos'))
      else Some (params, Inr (param, pos)))"
  by pat_completeness auto
termination
  by (relation "measure (\<lambda>(m, buf, len, numParams, permissive, params, param, pos). nat numParams - param)")
    auto

declare get_params_loop.simps [simp del]

definition af_rpc_get_params_from_buffer ::
    "mem \<Rightarrow> af_rpc_param list option \<Rightarrow> int \<Rightarrow> ptr \<Rightarrow> int \<Rightarrow> int
     \<Rightarrow> (af_rpc_param list option \<times> int) option"
where
  "af_rpc_get_params_from_buffer m params numParams buf bufSize permissive =
     (case params of
        None \<Rightarrow> Some (None, AF_RPC_ERR_BAD_PARAM)
      | Some ps \<Rightarrow>
          if numParams < 0 \<or> buf = NULL \<or> bufSize \<le> 0 then Some (params, AF_RPC_ERR_BAD_PARAM)
          else if csize bufSize \<ge> LENGTH_SIZE then do {
            len \<leftarrow> getlen m buf;
            let len = uint len;
            if len > bufSize then Some (params, AF_RPC_ERR_BAD_TLV)
            else (case get_params_loop m buf len numParams permissive ps 0 LENGTH_SIZE of
                None \<Rightarrow> None
              | Some (ps', Inl e) \<Rightarrow> Some (Some ps', e)
              | Some (ps', Inr (param, pos)) \<Rightarrow>
                  Some (Some ps',
                    if permissive = 0 \<and> int param \<noteq> numParams then AF_RPC_ERR_WRONG_NUM_PARAMS
                    else if pos \<noteq> bufSize then AF_RPC_ERR_BAD_TLV
                    else int param))
          }
          else Some (params, AF_RPC_ERR_BAD_TLV))"

section \<open>What a parameter denotes\<close>

definition param_value :: "mem \<Rightarrow> af_rpc_param \<Rightarrow> tlv option" where
  "param_value m p =
     (let t = (ucast (ptype p) :: u16) in
      if AF_RPC_TYPE_IS_INTEGER t then
        (case base p of
           VPtr _ _ \<Rightarrow> None
         | VInt w \<Rightarrow>
             if t = AF_RPC_TYPE_UINT8 then Some (TU8 (ucast w))
             else if t = AF_RPC_TYPE_UINT16 then Some (TU16 (ucast w))
             else if t = AF_RPC_TYPE_UINT32 then Some (TU32 (ucast w))
             else if t = AF_RPC_TYPE_INT8 then Some (TI8 (ucast w))
             else if t = AF_RPC_TYPE_INT16 then Some (TI16 (ucast w))
             else if t = AF_RPC_TYPE_INT32 then Some (TI32 (ucast w))
             else None)
      else let n = unat (AF_RPC_BLOB_SIZE t) in
        if n = 0 then Some (TBlob (AF_RPC_BLOB_IS_STRING t) [])
        else map_option (TBlob (AF_RPC_BLOB_IS_STRING t)) (load m (base p) n))"

text \<open>The blob of a parameter lies outside the \<open>n\<close> bytes at \<open>buf\<close>.\<close>

definition param_apart :: "ptr \<Rightarrow> nat \<Rightarrow> af_rpc_param \<Rightarrow> bool" where
  "param_apart buf n p \<longleftrightarrow>
     (let t = (ucast (ptype p) :: u16) in
      AF_RPC_TYPE_IS_INTEGER t \<or> \<not> overlaps buf n (base p) (unat (AF_RPC_BLOB_SIZE t)))"

text \<open>The reader accepts a value of type \<open>t\<close> where \<open>expType\<close> is expected (strict mode).\<close>

fun accepts :: "u32 \<Rightarrow> tlv \<Rightarrow> bool" where
  "accepts e (TBlob s xs) \<longleftrightarrow> AF_RPC_TYPE_IS_BLOB e"
| "accepts e x \<longleftrightarrow> e = ucast (tlv_type x)"

lemma param_value_cases:
  assumes "param_value m p = Some t"
  obtains (int) w where "base p = VInt w" "AF_RPC_TYPE_IS_INTEGER (tlv_type t)"
      "dec_tlv (tlv_type t) (tlv_payload t) = Some t" "tlv_type t = ucast (ptype p)"
      "\<And>s xs. t \<noteq> TBlob s xs"
  | (blob) s xs where "t = TBlob s xs" "tlv_type t = ucast (ptype p)"
      "\<not> AF_RPC_TYPE_IS_INTEGER (tlv_type t)" "length xs = unat (AF_RPC_BLOB_SIZE (tlv_type t))"
      "xs = [] \<or> load m (base p) (length xs) = Some xs"
proof (cases "AF_RPC_TYPE_IS_INTEGER (ucast (ptype p) :: u16)")
  case True
  with assms obtain w where b: "base p = VInt w"
    by (auto simp: param_value_def Let_def split: ptr.splits)
  with True assms have ty: "tlv_type t = ucast (ptype p)" and nb: "\<And>s xs. t \<noteq> TBlob s xs"
    by (auto simp: param_value_def Let_def split: if_splits)
  from nb have "tlv_wf t" by (cases t) auto
  from int [OF b] True ty nb dec_enc [OF this] show thesis by simp
next
  case False
  let ?t = "ucast (ptype p) :: u16"
  from False assms obtain xs where t: "t = TBlob (AF_RPC_BLOB_IS_STRING ?t) xs"
    and len: "length xs = unat (AF_RPC_BLOB_SIZE ?t)"
    and ld: "xs = [] \<or> load m (base p) (length xs) = Some xs"
    by (auto simp: param_value_def Let_def length_load split: if_splits)
  have "tlv_type t = ?t" unfolding t using False len by (rule blob_type_eq)
  with blob [OF t] False len ld show thesis by simp
qed

lemma param_value_wf: "param_value m p = Some t \<Longrightarrow> tlv_wf t \<and> tlv_type t = ucast (ptype p)"
proof (erule param_value_cases)
  assume "dec_tlv (tlv_type t) (tlv_payload t) = Some t" "tlv_type t = ucast (ptype p)"
  then show ?thesis using enc_dec by simp
next
  fix s xs assume "t = TBlob s xs" "tlv_type t = ucast (ptype p)"
    "length xs = unat (AF_RPC_BLOB_SIZE (tlv_type t))"
  then have "length xs < 2 ^ 14" using blob_size_bound by metis
  with \<open>t = TBlob s xs\<close> \<open>tlv_type t = ucast (ptype p)\<close> show ?thesis
    by (simp add: rpc_sizes)
qed

lemma param_value_frame:
  assumes "load m buf n = Some bs" "length bs' = n" "param_apart buf n p"
  shows "param_value (overwrite m buf bs') p = param_value m p"
proof -
  have "load (overwrite m buf bs') (base p) k = load m (base p) k"
    if "\<not> overlaps buf n (base p) k" for k
    using assms(1,2) that by (intro load_overwrite_other) auto
  then show ?thesis
    using assms(3) by (auto simp: param_value_def param_apart_def Let_def)
qed

section \<open>The writer's loop\<close>

lemma create_param_ok:
  assumes ld: "load m buf (nat bufSize) = Some bs" and size: "2 \<le> bufSize" "bufSize < 2 ^ 31"
    and val: "param_value m p = Some t" and apart: "param_apart buf (nat bufSize) p"
    and fits: "int (pos + length (enc_tlv t)) \<le> bufSize"
  shows "create_param m buf bufSize p (int pos) =
    Some (overwrite m buf (poke bs pos (enc_tlv t)), Inr (int (pos + length (enc_tlv t))))"
proof -
  have n: "pos + length (enc_tlv t) \<le> nat bufSize" using fits size by auto
  note two = poke_two [OF ld n]
  have wf: "tlv_wf t" and ty: "ucast (ptype p) = tlv_type t"
    using param_value_wf [OF val] by auto
  note tsize = size_of_tlv [OF wf]
  have cs: "\<not> csize (int pos + 2 + int (length (tlv_payload t))) > csize bufSize"
    using fits size by (simp add: length_enc_tlv)
  from val show ?thesis
  proof (cases rule: param_value_cases)
    case (int w)
    then show ?thesis
      using val two tsize cs ty
      by (cases t)
        (auto simp: create_param_def param_value_def ptr_bits_def length_enc_tlv rpc_sizes
          bytes_htons, auto simp: rpc_types AF_RPC_TYPE_INTEGER_TYPE_MASK_def ptr_bits_def
          bytes_htons)
  next
    case (blob s xs)
    have max: "int (length xs) \<le> AF_RPC_MAX_BLOB_SIZE" using wf blob by simp
    let ?m1 = "overwrite m buf (poke bs pos (be16 (tlv_type t)))"
    have m1: "xs \<noteq> [] \<Longrightarrow> memcpy ?m1 (ptr_add buf (int pos + 2)) (base p) (length xs) =
        store ?m1 (ptr_add buf (int pos + 2)) xs"
    proof -
      assume "xs \<noteq> []"
      with blob have src: "load m (base p) (length xs) = Some xs" by simp
      have ov: "\<not> overlaps buf (nat bufSize) (base p) (length xs)"
        using apart blob ty by (simp add: param_apart_def)
      have len: "length (poke bs pos (be16 (tlv_type t))) = nat bufSize"
        using two(3) by (rule length_load)
      have "load ?m1 (base p) (length xs) = Some xs"
        using load_overwrite_other [of m buf "poke bs pos (be16 (tlv_type t))" bs] len ld ov src
        by simp
      moreover have "\<not> overlaps (ptr_add buf (int pos + 2)) (length xs) (base p) (length xs)"
        using n blob(1) by (intro overlaps_slice [OF ov]) (auto simp: length_enc_tlv)
      ultimately show ?thesis by (rule memcpy_eq_store)
    qed
    show ?thesis
    proof (cases "xs = []")
      case True
      with blob have "enc_tlv t = be16 (tlv_type t)" by (simp add: enc_tlv_def)
      with True two tsize cs ty blob show ?thesis
        by (simp add: create_param_def rpc_sizes length_enc_tlv del: tlv_type.simps)
    next
      case False
      with blob have "load m (base p) (length xs) = Some xs" by simp
      then have "base p \<noteq> NULL" by (rule load_not_null)
      with False two tsize cs ty blob(1,3) m1 max show ?thesis
        by (simp add: create_param_def length_enc_tlv Let_def del: tlv_type.simps)
    qed
  qed
qed

text \<open>The loop over valid parameters: it writes their encodings, or stops at the first that does not fit.\<close>

lemma create_loop_ok:
  assumes "load m buf (nat bufSize) = Some bs" "2 \<le> bufSize" "bufSize < 2 ^ 31"
    and "map (param_value m) ps = map Some ts" "\<forall>p \<in> set ps. param_apart buf (nat bufSize) p"
    and "int (pos + length (enc_tlvs ts)) \<le> bufSize"
  shows "create_loop m buf bufSize ps (length ps) (int pos) =
    Some (overwrite m buf (poke bs pos (enc_tlvs ts)), Inr (int (pos + length (enc_tlvs ts))))"
  using assms
proof (induction ps arbitrary: m bs pos ts)
  case Nil
  then show ?case by (simp add: overwrite_same)
next
  case (Cons p ps)
  from Cons.prems(4) obtain t us where ts: "ts = t # us" "param_value m p = Some t"
    "map (param_value m) ps = map Some us" by (cases ts) auto
  let ?bs = "poke bs pos (enc_tlv t)" and ?pos = "pos + length (enc_tlv t)"
  have len: "length bs = nat bufSize" using Cons.prems(1) by (rule length_load)
  have fits: "int ?pos \<le> bufSize" using Cons.prems(6) ts by simp
  have len': "length ?bs = nat bufSize" using fits len by simp
  have step: "create_param m buf bufSize p (int pos) = Some (overwrite m buf ?bs, Inr (int ?pos))"
    using Cons.prems(5) fits by (intro create_param_ok [OF Cons.prems(1-3) ts(2)]) auto
  have ld: "load (overwrite m buf ?bs) buf (nat bufSize) = Some ?bs"
    using Cons.prems(1) len' by (rule load_overwrite)
  have vals: "map (param_value (overwrite m buf ?bs)) ps = map Some us"
    using Cons.prems(5) ts(3) param_value_frame [OF Cons.prems(1) len']
    by (metis (no_types, lifting) list.set_intros(2) map_eq_conv)
  have "poke ?bs ?pos (enc_tlvs us) = poke bs pos (enc_tlvs ts)"
    using Cons.prems(6) ts len by (simp add: poke_append)
  moreover have "overwrite (overwrite m buf ?bs) buf (poke ?bs ?pos (enc_tlvs us)) =
      overwrite m buf (poke ?bs ?pos (enc_tlvs us))"
    using Cons.prems(1,6) len' ts by (intro overwrite_overwrite) auto
  ultimately show ?case
    using step Cons.IH [OF ld Cons.prems(2,3) vals, of ?pos] Cons.prems(5,6) ts
    by (simp add: add.assoc)
qed

lemma create_loop_full:
  assumes "load m buf (nat bufSize) = Some bs" "2 \<le> bufSize" "bufSize < 2 ^ 31"
    and "map (param_value m) ps = map Some ts" "\<forall>p \<in> set ps. param_apart buf (nat bufSize) p"
    and "int (pos + length (enc_tlvs ts)) > bufSize" "int pos \<le> bufSize"
  shows "\<exists>bs'. length bs' = length bs \<and> take pos bs' = take pos bs \<and>
    create_loop m buf bufSize ps (length ps) (int pos) =
      Some (overwrite m buf bs', Inl AF_RPC_ERR_BUFFER_OVERFLOW)"
  using assms
proof (induction ps arbitrary: m bs pos ts)
  case Nil
  then show ?case by simp
next
  case (Cons p ps)
  from Cons.prems(4) obtain t us where ts: "ts = t # us" "param_value m p = Some t"
    "map (param_value m) ps = map Some us" by (cases ts) auto
  let ?bs = "poke bs pos (enc_tlv t)" and ?pos = "pos + length (enc_tlv t)"
  have len: "length bs = nat bufSize" using Cons.prems(1) by (rule length_load)
  show ?case
  proof (cases "int ?pos \<le> bufSize")
    case True
    have len': "length ?bs = nat bufSize" using True len by simp
    have step: "create_param m buf bufSize p (int pos) = Some (overwrite m buf ?bs, Inr (int ?pos))"
      using Cons.prems(5) True by (intro create_param_ok [OF Cons.prems(1-3) ts(2)]) auto
    have ld: "load (overwrite m buf ?bs) buf (nat bufSize) = Some ?bs"
      using Cons.prems(1) len' by (rule load_overwrite)
    have vals: "map (param_value (overwrite m buf ?bs)) ps = map Some us"
      using Cons.prems(5) ts(3) param_value_frame [OF Cons.prems(1) len']
      by (metis (no_types, lifting) list.set_intros(2) map_eq_conv)
    from Cons.IH [OF ld Cons.prems(2,3) vals, of ?pos] Cons.prems(5,6) ts True
    obtain bs' where bs': "length bs' = length ?bs" "take ?pos bs' = take ?pos ?bs"
      "create_loop (overwrite m buf ?bs) buf bufSize ps (length ps) (int ?pos) =
        Some (overwrite (overwrite m buf ?bs) buf bs', Inl AF_RPC_ERR_BUFFER_OVERFLOW)"
      by auto
    have "take pos bs' = take pos (take ?pos bs')" by (simp add: min_def)
    also have "\<dots> = take pos bs" using bs'(2) True len by (simp add: min_def take_poke_before)
    finally have "take pos bs' = take pos bs" .
    moreover have "overwrite (overwrite m buf ?bs) buf bs' = overwrite m buf bs'"
      using bs'(1) len' by (intro overwrite_overwrite [OF Cons.prems(1)]) auto
    ultimately show ?thesis using bs' step len len' by auto
  next
    case False
    have wf: "tlv_wf t" and ty: "ucast (ptype p) = tlv_type t"
      using param_value_wf [OF ts(2)] by auto
    have "int (length (tlv_payload t)) \<le> AF_RPC_MAX_BLOB_SIZE"
      using wf by (cases t) (auto simp: rpc_sizes)
    then have "create_param m buf bufSize p (int pos) = Some (m, Inl AF_RPC_ERR_BUFFER_OVERFLOW)"
      using False size_of_tlv [OF wf] ty Cons.prems(2,3,7)
      by (simp add: create_param_def length_enc_tlv rpc_sizes)
    then show ?thesis
      using overwrite_same [OF Cons.prems(1)] by (intro exI [of _ bs]) simp
  qed
qed

text \<open>The message that a batch write produces, on the bytes of the buffer.\<close>

definition write_msg :: "byte list \<Rightarrow> tlv list \<Rightarrow> byte list" where
  "write_msg bs ts = poke bs 0 (enc_msg ts)"

lemma holds_write_msg: "msg_len ts \<le> length bs \<Longrightarrow> msg_len ts < 2 ^ 16 \<Longrightarrow> holds (write_msg bs ts) ts"
  by (simp add: holds_def write_msg_def poke_def)

lemma create_ok:
  assumes ld: "load m buf (nat bufSize) = Some bs" and size: "2 \<le> bufSize" "bufSize < 2 ^ 31"
    and vals: "map (param_value m) ps = map Some ts"
    and apart: "\<forall>p \<in> set ps. param_apart buf (nat bufSize) p"
    and fits: "int (msg_len ts) \<le> bufSize"
  shows "af_rpc_create_buffer_with_params m buf bufSize (Some ps) (int (length ps)) =
    Some (overwrite m buf (write_msg bs ts), int (msg_len ts))"
proof -
  let ?bs = "poke bs 2 (enc_tlvs ts)"
  have len: "length bs = nat bufSize" using ld by (rule length_load)
  have fits': "2 + length (enc_tlvs ts) \<le> length bs" using fits len by (simp add: msg_len_def)
  have loop: "create_loop m buf bufSize ps (length ps) 2 =
      Some (overwrite m buf ?bs, Inr (int (msg_len ts)))"
    using create_loop_ok [OF ld size vals apart, of 2] fits by (simp add: msg_len_def)
  have ld': "load (overwrite m buf ?bs) buf (nat bufSize) = Some ?bs"
    using ld fits' len by (simp add: load_overwrite)
  have "poke ?bs 0 (be16 (word_of_nat (msg_len ts))) = write_msg bs ts"
    using fits' by (simp add: write_msg_def poke_def enc_msg_def)
  then have "setlen (overwrite m buf ?bs) buf (word_of_nat (msg_len ts)) =
      Some (overwrite m buf (write_msg bs ts))"
    using setlen_slice [OF ld', of 0] size ld len fits'
    by (simp add: overwrite_overwrite [OF ld] write_msg_def msg_len_def)
  then show ?thesis
    using loop size load_not_null [OF ld]
    by (simp add: af_rpc_create_buffer_with_params_def rpc_sizes)
qed

lemma create_full:
  assumes ld: "load m buf (nat bufSize) = Some bs" and size: "2 \<le> bufSize" "bufSize < 2 ^ 31"
    and vals: "map (param_value m) ps = map Some ts"
    and apart: "\<forall>p \<in> set ps. param_apart buf (nat bufSize) p"
    and full: "int (msg_len ts) > bufSize"
  obtains bs' where "length bs' = length bs" "take 2 bs' = take 2 bs"
    "af_rpc_create_buffer_with_params m buf bufSize (Some ps) (int (length ps)) =
      Some (overwrite m buf bs', AF_RPC_ERR_BUFFER_OVERFLOW)"
proof -
  from create_loop_full [OF ld size vals apart, of 2] full size obtain bs' where
    "length bs' = length bs" "take 2 bs' = take 2 bs"
    "create_loop m buf bufSize ps (length ps) 2 =
      Some (overwrite m buf bs', Inl AF_RPC_ERR_BUFFER_OVERFLOW)"
    by (auto simp: msg_len_def)
  with that size load_not_null [OF ld] show thesis
    by (simp add: af_rpc_create_buffer_with_params_def rpc_sizes)
qed

end
