(* ===== verification/Rpc_Params_Read.thy ===== *)
theory Rpc_Params_Read
  imports Rpc_Params
begin

text \<open>
  Correctness of \<^verbatim>\<open>af_rpc_get_params_from_buffer\<close> (\<^verbatim>\<open>src/pkg/src/af_rpc.c\<close>, modelled in
  \<^verbatim>\<open>Rpc_Params\<close>): what one iteration does on any bytes, then what the loop does on any
  buffer and on a buffer that holds a message.
\<close>

section \<open>One iteration\<close>

text \<open>The \<^verbatim>\<open>base\<close> field the reader writes for a value found at position \<open>pos\<close>.\<close>

fun read_base :: "ptr \<Rightarrow> int \<Rightarrow> tlv \<Rightarrow> ptr" where
  "read_base buf pos (TU8 v) = VInt (ucast v)"
| "read_base buf pos (TU16 v) = VInt (ucast v)"
| "read_base buf pos (TU32 v) = VInt (ucast v)"
| "read_base buf pos (TI8 v) = VInt (scast v)"
| "read_base buf pos (TI16 v) =
     VInt (ucast (if v AND 0x8000 \<noteq> 0 then ucast v OR 0xffff0000 else ucast v :: u32))"
| "read_base buf pos (TI32 v) = VInt (ucast v)"
| "read_base buf pos (TBlob s xs) = ptr_add buf (pos + 2)"

definition read_param :: "ptr \<Rightarrow> int \<Rightarrow> tlv \<Rightarrow> af_rpc_param" where
  "read_param buf pos t = \<lparr>base = read_base buf pos t, ptype = ucast (tlv_type t)\<rparr>"

lemma param_filled [simp]: "r\<lparr>ptype := a, base := b\<rparr> = \<lparr>base = b, ptype = a\<rparr>" for r :: af_rpc_param
  by (cases r) simp

lemma ucast_ucast_16 [simp]: "(ucast (ucast (t :: u16) :: u32) :: u16) = t"
  by (rule bit_word_eqI) (auto simp: bit_simps)

lemma ucast_back [simp]:
  "(ucast (ucast (v :: byte) :: u64) :: byte) = v"
  "(ucast (ucast (w :: u16) :: u64) :: u16) = w"
  "(ucast (ucast (x :: u32) :: u64) :: u32) = x"
  "(ucast (scast (v :: byte) :: u64) :: byte) = v"
  "(ucast (ucast (ucast (w :: u16) :: u32) :: u64) :: u16) = w"
  by (rule bit_word_eqI; auto simp: bit_simps)+

lemma ucast_high [simp]:
  "(ucast (ucast ((ucast (w :: u16) :: u32) OR 0xffff0000) :: u64) :: u16) = w"
proof -
  have high: "(0xffff0000 :: u32) = push_bit 16 (mask 16)"
    by (simp add: mask_eq_exp_minus_1 push_bit_eq_mult)
  show ?thesis unfolding high by (rule bit_word_eqI) (auto simp: bit_simps)
qed

text \<open>
  What is written denotes the value: the integer macros of \<^verbatim>\<open>af_rpc.h\<close> recover the scalars,
  and a blob's pointer leads to its bytes inside the receive buffer.
\<close>

lemma param_value_read:
  assumes "tlv_wf t" "load m buf n = Some bs" "0 \<le> pos" "nat pos + length (enc_tlv t) \<le> n"
    "take (length (enc_tlv t)) (drop (nat pos) bs) = enc_tlv t"
  shows "param_value m (read_param buf pos t) = Some t"
proof (cases t)
  case (TBlob s xs)
  have len: "length xs < 2 ^ 14" using assms(1) TBlob by (simp add: rpc_sizes)
  note ty = blob_types [OF len, where s = s and xs = xs]
  have "xs = take (length xs) (drop 2 (enc_tlv t))" using TBlob by (simp add: enc_tlv_def)
  also have "\<dots> = take (length xs) (drop 2 (take (length (enc_tlv t)) (drop (nat pos) bs)))"
    using assms(5) by simp
  also have "\<dots> = take (length xs) (drop (nat (pos + 2)) bs)"
    using TBlob assms(3) by (simp add: length_enc_tlv drop_take nat_add_distrib add.commute)
  finally have xs: "take (length xs) (drop (nat (pos + 2)) bs) = xs" by simp
  have "load m (ptr_add buf (pos + 2)) (length xs) = Some xs"
    using load_slice [OF assms(2), of "pos + 2" "length xs"] assms(3,4) TBlob xs
    by (simp add: length_enc_tlv nat_add_distrib)
  with TBlob ty show ?thesis
    by (auto simp: param_value_def read_param_def Let_def simp del: tlv_type.simps)
qed (simp_all add: param_value_def read_param_def rpc_types AF_RPC_TYPE_IS_INTEGER_def)

lemma integer_types_masked:
  "t \<in> {AF_RPC_TYPE_UINT8, AF_RPC_TYPE_UINT16, AF_RPC_TYPE_UINT32, AF_RPC_TYPE_INT8,
      AF_RPC_TYPE_INT16, AF_RPC_TYPE_INT32} \<Longrightarrow> t AND AF_RPC_TYPE_INTEGER_TYPE_MASK = t"
  by (auto simp: rpc_types AF_RPC_TYPE_INTEGER_TYPE_MASK_def)

text \<open>
  An iteration that finds a well-formed value of an accepted type fills the entry and moves
  past the value.
\<close>

lemma get_param_step_ok:
  assumes ld: "load m buf n = Some bs" and "0 \<le> pos" "pos \<le> 2 ^ 16" "0 \<le> len" "len \<le> int n" "len < 2 ^ 16"
    and fits: "pos + int (length (enc_tlv t)) \<le> len"
    and enc: "take (length (enc_tlv t)) (drop (nat pos) bs) = enc_tlv t"
    and wf: "tlv_wf t" and p: "param < length params"
    and acc: "permissive = 0 \<longrightarrow> accepts (ptype (params ! param)) t"
  shows "get_param_step m buf len permissive params param pos =
    Some (params[param := read_param buf pos t], Inr (pos + int (length (enc_tlv t))))"
proof -
  let ?xs = "tlv_payload t"
  have fits': "nat pos + 2 + length ?xs \<le> n" using fits assms(2,5) by (simp add: length_enc_tlv)
  have ty: "getlen m (ptr_add buf pos) = Some (tlv_type t)"
  proof -
    have "take 2 (drop (nat pos) bs) = take 2 (take (length (enc_tlv t)) (drop (nat pos) bs))"
      by (simp add: length_enc_tlv min_def)
    also have "\<dots> = be16 (tlv_type t)" unfolding enc by (simp add: enc_tlv_def)
    finally show ?thesis using getlen_slice [OF ld assms(2)] fits' by simp
  qed
  have pl: "load m (ptr_add buf (pos + 2)) (length ?xs) = Some ?xs"
  proof -
    have "?xs = drop 2 (take (length (enc_tlv t)) (drop (nat pos) bs))"
      unfolding enc by (simp add: enc_tlv_def)
    then have "take (length ?xs) (drop (nat (pos + 2)) bs) = ?xs"
      using assms(2) by (simp add: length_enc_tlv drop_take nat_add_distrib add.commute)
    then show ?thesis
      using load_slice [OF ld, of "pos + 2" "length ?xs"] fits' assms(2)
      by (simp add: nat_add_distrib)
  qed
  have pos: "csize (pos + 2) \<le> csize len" "\<not> pos + 2 + int (length ?xs) > len"
    using assms(2-6) fits by (simp_all add: length_enc_tlv)
  note sz = size_of_tlv [OF wf]
  have blob: "\<not> AF_RPC_TYPE_IS_INTEGER (tlv_type t)" if "t = TBlob s ys" for s ys
    using blob_types(1) [of 0 s ys] that by simp
  show ?thesis
  proof (cases t)
    case (TBlob s ys)
    with blob [OF TBlob] ty pos sz p acc show ?thesis
      by (auto simp: get_param_step_def read_param_def length_enc_tlv Let_def simp del: tlv_type.simps)
  qed (use ty pl pos sz p acc integer_types_masked [of "tlv_type t"] in
      \<open>auto simp: get_param_step_def read_param_def length_enc_tlv Let_def simp flip: of_be16_def of_be32_def\<close>)
qed

text \<open>
  On any bytes an iteration either fails with a bad-TLV or bad-type error, or it has found
  the encoding of a well-formed value inside the announced length. It never reads outside.
\<close>

definition step_fails :: "af_rpc_param list \<Rightarrow> (af_rpc_param list \<times> (int + int)) option \<Rightarrow> bool" where
  "step_fails params r \<longleftrightarrow> (case r of
     Some (params', Inl e) \<Rightarrow> length params' = length params \<and> (e = AF_RPC_ERR_BAD_TLV \<or> e = AF_RPC_ERR_BAD_TYPE)
   | _ \<Rightarrow> False)"

lemma dec_total_blob:
  assumes "\<not> AF_RPC_TYPE_IS_INTEGER t" "int (length xs) = af_rpc_get_size_of_type t"
  shows "dec_tlv t xs \<noteq> None"
proof -
  from assms have "length xs = unat (AF_RPC_BLOB_SIZE t)"
    by (metis size_of_type_blob of_nat_eq_iff)
  then show ?thesis using assms(1) by (simp only: dec_tlv_def) simp
qed

lemma get_param_step_cases:
  assumes ld: "load m buf n = Some bs" and pos: "0 \<le> pos" "pos \<le> 2 ^ 16"
    and len: "0 \<le> len" "len \<le> int n" "len < 2 ^ 16" and p: "param < length params"
  obtains (bad) "step_fails params (get_param_step m buf len permissive params param pos)"
  | (ok) t where "pos + int (length (enc_tlv t)) \<le> len" "tlv_wf t"
      "take (length (enc_tlv t)) (drop (nat pos) bs) = enc_tlv t"
      "permissive = 0 \<longrightarrow> accepts (ptype (params ! param)) t"
      "get_param_step m buf len permissive params param pos =
         Some (params[param := read_param buf pos t], Inr (pos + int (length (enc_tlv t))))"
proof (cases "pos + 2 \<le> len")
  case False
  then have "step_fails params (get_param_step m buf len permissive params param pos)"
    using pos len by (simp add: get_param_step_def step_fails_def)
  then show thesis by (rule bad)
next
  case in_len: True
  define t where "t = of_be16 (take 2 (drop (nat pos) bs))"
  define k where "k = af_rpc_get_size_of_type t"
  have n: "length bs = n" using ld by (rule length_load)
  have ty: "getlen m (ptr_add buf pos) = Some t"
    using getlen_slice [OF ld pos(1)] in_len len pos(1) by (simp add: t_def)
  have cs: "csize (pos + 2) \<le> csize len" using pos len in_len by simp
  define step where "step = get_param_step m buf len permissive params param pos"
  have found: thesis
    if x: "dec_tlv t xs = Some x" and xs: "xs = take (nat k) (drop (nat pos + 2) bs)"
      and k: "0 \<le> k" "pos + 2 + k \<le> len"
      and acc: "permissive = 0 \<longrightarrow> accepts (ptype (params ! param)) x" for x xs
  proof -
    have lx: "length xs = nat k" using xs k len n pos by simp
    have ex: "enc_tlv x = be16 t @ xs" using enc_dec [OF x] by (simp add: enc_tlv_def)
    then have L: "length (enc_tlv x) = 2 + nat k" using lx by simp
    have "be16 t = take 2 (drop (nat pos) bs)"
      using in_len len n pos by (simp add: t_def)
    then have "enc_tlv x = take 2 (drop (nat pos) bs) @ xs" using ex by simp
    also have "\<dots> = take (2 + nat k) (drop (nat pos) bs)"
      unfolding xs using take_add [of 2 "nat k" "drop (nat pos) bs"] by simp
    finally have enc: "take (length (enc_tlv x)) (drop (nat pos) bs) = enc_tlv x"
      unfolding L by (rule sym)
    have fits: "pos + int (length (enc_tlv x)) \<le> len"
      using L k by simp
    have wf: "tlv_wf x" using x by (rule enc_dec)
    show thesis
      using ok [OF fits wf enc acc get_param_step_ok [OF ld pos len fits enc wf p acc]] .
  qed
  show thesis
  proof (cases "pos + 2 + k > len")
    case True
    then have "step_fails params step"
      using ty cs by (simp add: step_def get_param_step_def step_fails_def k_def)
    then show thesis using bad by (simp add: step_def)
  next
    case False
    note in_k = False
    let ?xs = "take (nat k) (drop (nat pos + 2) bs)"
    show thesis
    proof (cases "AF_RPC_TYPE_IS_INTEGER t")
      case True
      show thesis
      proof (cases "t AND AF_RPC_TYPE_INTEGER_TYPE_MASK = t \<and>
          (permissive = 0 \<longrightarrow> ptype (params ! param) = ucast t) \<and>
          t \<in> {AF_RPC_TYPE_UINT8, AF_RPC_TYPE_UINT16, AF_RPC_TYPE_UINT32, AF_RPC_TYPE_INT8,
            AF_RPC_TYPE_INT16, AF_RPC_TYPE_INT32}")
        case good: True
        then have k: "0 \<le> k" by (auto simp: k_def)
        have "length ?xs = nat k" using k in_k len n pos by simp
        with good True obtain x where x: "dec_tlv t ?xs = Some x"
          by (auto simp: dec_tlv_def k_def)
        then have "tlv_type x = t" by (rule enc_dec)
        with True good have "permissive = 0 \<longrightarrow> accepts (ptype (params ! param)) x"
          using blob_types(1) [of 0] by (cases x) (auto simp del: tlv_type.simps)
        with found [OF x refl k] in_k show thesis by simp
      next
        case wrong: False
        have "step_fails params step"
          using wrong True ty cs in_k p
          by (auto simp: step_def get_param_step_def step_fails_def k_def Let_def)
        then show thesis using bad by (simp add: step_def)
      qed
    next
      case blob: False
      then have k: "0 \<le> k" by (simp add: k_def size_of_type_blob)
      have "int (length ?xs) = k" using k in_k len n pos by simp
      with dec_total_blob [OF blob] have "dec_tlv t ?xs \<noteq> None" unfolding k_def by blast
      then obtain x where x: "dec_tlv t ?xs = Some x" by blast
      then obtain s ys where xb: "x = TBlob s ys"
        using blob by (auto simp: dec_tlv_def split: if_splits)
      show thesis
      proof (cases "permissive = 0 \<and> \<not> AF_RPC_TYPE_IS_BLOB (ptype (params ! param))")
        case True
        then have "step_fails params step"
          using blob ty cs in_k p
          by (simp add: step_def get_param_step_def step_fails_def k_def Let_def)
        then show thesis using bad by (simp add: step_def)
      next
        case False
        with found [OF x refl k] in_k xb show thesis by auto
      qed
    qed
  qed
qed

section \<open>The loop\<close>

fun read_params :: "ptr \<Rightarrow> int \<Rightarrow> tlv list \<Rightarrow> af_rpc_param list" where
  "read_params buf pos [] = []"
| "read_params buf pos (t # ts) =
     read_param buf pos t # read_params buf (pos + int (length (enc_tlv t))) ts"

lemma length_read_params [simp]: "length (read_params buf pos ts) = length ts"
  by (induction ts arbitrary: pos) simp_all

text \<open>Strict mode: the values \<open>ts\<close> are acceptable to the entries from \<open>param\<close> on.\<close>

definition all_accepted :: "af_rpc_param list \<Rightarrow> tlv list \<Rightarrow> bool" where
  "all_accepted ps ts \<longleftrightarrow> list_all2 (\<lambda>p t. accepts (ptype p) t) (take (length ts) ps) ts"

lemma all_accepted_Cons:
  "param < length ps \<Longrightarrow> all_accepted (drop param ps) (t # ts) \<longleftrightarrow>
   accepts (ptype (ps ! param)) t \<and> all_accepted (drop (Suc param) ps) ts"
  by (simp add: all_accepted_def take_Suc_conv_app_nth flip: Cons_nth_drop_Suc)

lemma poke_Cons:
  "param < length ps \<Longrightarrow> Suc param + length xs \<le> length ps \<Longrightarrow>
   poke (ps[param := x]) (Suc param) xs = poke ps param (x # xs)"
  by (rule nth_equalityI) (auto simp: nth_poke nth_list_update nth_Cons split: nat.split
      intro!: arg_cong [of _ _ "(!) xs"])

text \<open>The bytes from \<open>pos\<close> on begin with the encodings of \<open>ts\<close>.\<close>

definition encoded_at :: "byte list \<Rightarrow> int \<Rightarrow> tlv list \<Rightarrow> bool" where
  "encoded_at bs pos ts \<longleftrightarrow>
     take (length (enc_tlvs ts)) (drop (nat pos) bs) = enc_tlvs ts \<and> list_all tlv_wf ts"

lemma encoded_at_Cons:
  assumes "0 \<le> pos"
  shows "encoded_at bs pos (t # ts) \<longleftrightarrow>
    take (length (enc_tlv t)) (drop (nat pos) bs) = enc_tlv t \<and> tlv_wf t \<and>
    encoded_at bs (pos + int (length (enc_tlv t))) ts"
proof -
  let ?k = "length (enc_tlv t)" and ?l = "length (enc_tlvs ts)" and ?d = "drop (nat pos) bs"
  have "take (?k + ?l) ?d = take ?k ?d @ take ?l (drop ?k ?d)" by (rule take_add)
  then have "take (?k + ?l) ?d = enc_tlv t @ enc_tlvs ts \<longleftrightarrow>
      take ?k ?d @ take ?l (drop ?k ?d) = enc_tlv t @ enc_tlvs ts" by simp
  also have "\<dots> \<longleftrightarrow> take ?k ?d = enc_tlv t \<and> take ?l (drop ?k ?d) = enc_tlvs ts"
    by (cases "?k \<le> length ?d") (auto dest: arg_cong [of _ _ length])
  finally show ?thesis
    using assms by (auto simp: encoded_at_def nat_add_distrib add.commute)
qed

lemma get_params_loop_cases:
  assumes ld: "load m buf n = Some bs" and "0 \<le> len" "len \<le> int n" "len < 2 ^ 16"
    and "0 \<le> pos" "pos \<le> 2 ^ 16" "numParams \<le> int (length params)"
  obtains (exit) params' e where
      "get_params_loop m buf len numParams permissive params param pos = Some (params', Inl e)"
      "length params' = length params" "e \<in> {0, AF_RPC_ERR_BAD_TLV, AF_RPC_ERR_BAD_TYPE}"
  | (fin) ts where
      "get_params_loop m buf len numParams permissive params param pos =
        Some (poke params param (read_params buf pos ts),
          Inr (param + length ts, pos + int (length (enc_tlvs ts))))"
      "encoded_at bs pos ts" "ts \<noteq> [] \<longrightarrow> int (param + length ts) \<le> numParams"
      "if pos \<le> len then pos + int (length (enc_tlvs ts)) = len else ts = []"
      "permissive = 0 \<longrightarrow> all_accepted (drop param params) ts"
  using assms
proof (induction m buf len numParams permissive params param pos arbitrary: thesis
    rule: get_params_loop.induct)
  case (1 m buf len numParams permissive params param pos)
  note defs = get_params_loop.simps [of m buf len numParams permissive params param pos]
  show ?case
  proof (cases "pos < len \<and> int param < numParams")
    case False
    show ?thesis
    proof (cases "pos < len")
      case True
      with False 1(2) [of params 0] show ?thesis by (simp add: defs)
    next
      case False
      then show ?thesis
        by (intro 1(3) [of "[]"]) (auto simp: defs encoded_at_def all_accepted_def)
    qed
  next
    case True
    then have p: "param < length params" using 1(10) by simp
    show ?thesis
    proof (rule get_param_step_cases [OF 1(4,8,9,5-7) p, where permissive = permissive], goal_cases)
      case bad: 1
      then obtain params' e where "get_param_step m buf len permissive params param pos = Some (params', Inl e)"
        "length params' = length params" "e \<in> {AF_RPC_ERR_BAD_TLV, AF_RPC_ERR_BAD_TYPE}"
        by (auto simp: step_fails_def split: option.splits prod.splits sum.splits)
      with True 1(2) [of params' e] show ?thesis by (simp add: defs)
    next
      case ok: (2 t)
      let ?ps = "params[param := read_param buf pos t]" and ?pos = "pos + int (length (enc_tlv t))"
      have loop: "get_params_loop m buf len numParams permissive params param pos =
          get_params_loop m buf len numParams permissive ?ps (Suc param) ?pos"
        using True ok(5) by (simp add: defs)
      have pos': "0 \<le> ?pos" "?pos \<le> 2 ^ 16" using ok(1) 1(7,8) by auto
      have "numParams \<le> int (length ?ps)" using 1(10) by simp
      note IH = 1(1) [OF _ _ ok(5) refl refl, OF _ _ _ _ 1(4-7) pos' this]
      show ?thesis
      proof (rule IH, goal_cases)
        case (3 params' e)
        with 1(2) [of params' e] loop show ?case by simp
      next
        case (4 ts)
        have len: "int (Suc param + length ts) \<le> numParams"
          using 4(3) True by (cases "ts = []") auto
        have 5: "get_params_loop m buf len numParams permissive params param pos =
          Some (poke params param (read_params buf pos (t # ts)),
            Inr (param + length (t # ts), pos + int (length (enc_tlvs (t # ts)))))"
          using 4(1) loop len 1(10) p by (simp add: poke_Cons add.assoc)
        have 6: "encoded_at bs pos (t # ts)"
          using ok 4(2) 1(8) by (simp add: encoded_at_Cons)
        have "drop (Suc param) ?ps = drop (Suc param) params" by simp
        then have 7: "permissive = 0 \<longrightarrow> all_accepted (drop param params) (t # ts)"
          using ok(4) 4(5) p by (simp add: all_accepted_Cons)
        show ?case
          using 1(3) [OF 5 6 _ _ 7] 4(4) ok(1) True len by simp
      qed (use True in auto)
    qed
  qed
qed

text \<open>On a buffer that does hold values, the loop finds exactly those.\<close>

lemma get_params_loop_ok:
  assumes "load m buf n = Some bs" "0 \<le> pos" "len \<le> int n" "len < 2 ^ 16"
    "encoded_at bs pos ts" "pos + int (length (enc_tlvs ts)) = len"
    "numParams \<le> int (length params)" "int (param + length ts) \<le> numParams"
    "permissive = 0 \<longrightarrow> all_accepted (drop param params) ts"
  shows "get_params_loop m buf len numParams permissive params param pos =
    Some (poke params param (read_params buf pos ts), Inr (param + length ts, len))"
  using assms
proof (induction ts arbitrary: params param pos)
  case Nil
  then show ?case by (simp add: get_params_loop.simps)
next
  case (Cons t ts)
  let ?pos = "pos + int (length (enc_tlv t))"
  let ?ps = "params[param := read_param buf pos t]"
  have p: "param < length params" using Cons.prems by simp
  have at: "take (length (enc_tlv t)) (drop (nat pos) bs) = enc_tlv t" "tlv_wf t"
      "encoded_at bs ?pos ts"
    using Cons.prems(2,5) by (auto simp: encoded_at_Cons)
  have acc: "permissive = 0 \<longrightarrow> accepts (ptype (params ! param)) t"
      "permissive = 0 \<longrightarrow> all_accepted (drop (Suc param) ?ps) ts"
    using Cons.prems(9) p by (auto simp: all_accepted_Cons)
  have step: "get_param_step m buf len permissive params param pos =
      Some (?ps, Inr ?pos)"
    using Cons.prems at acc p by (intro get_param_step_ok [OF Cons.prems(1)]) auto
  have lt: "pos < len" using Cons.prems(6) by (simp add: length_enc_tlv)
  have "get_params_loop m buf len numParams permissive ?ps (Suc param) ?pos =
      Some (poke ?ps (Suc param) (read_params buf ?pos ts), Inr (Suc param + length ts, len))"
    using Cons.prems at acc by (intro Cons.IH) auto
  then show ?case
    using step lt Cons.prems(7,8) p
    by (simp add: get_params_loop.simps [of _ _ _ _ _ params] poke_Cons)
qed

text \<open>
  Too many values: when the array is full and values are left, the loop takes the error exit,
  with return value 0 (the \<^verbatim>\<open>retVal\<close> that was never set).
\<close>

lemma get_params_loop_many:
  assumes "load m buf n = Some bs" "0 \<le> pos" "len \<le> int n" "len < 2 ^ 16"
    "encoded_at bs pos ts" "pos + int (length (enc_tlvs ts)) = len"
    "numParams \<le> int (length params)" "int (param + length ts) > numParams" "int param \<le> numParams"
    "permissive = 0 \<longrightarrow> all_accepted (drop param params) (take (nat numParams - param) ts)"
  shows "\<exists>params'. length params' = length params \<and>
    get_params_loop m buf len numParams permissive params param pos = Some (params', Inl 0)"
  using assms
proof (induction ts arbitrary: params param pos)
  case Nil
  then show ?case by simp
next
  case (Cons t ts)
  let ?pos = "pos + int (length (enc_tlv t))"
  let ?ps = "params[param := read_param buf pos t]"
  have lt: "pos < len" using Cons.prems(6) by (simp add: length_enc_tlv)
  show ?case
  proof (cases "int param = numParams")
    case True
    with lt show ?thesis by (simp add: get_params_loop.simps)
  next
    case False
    with Cons.prems have p: "param < length params" "int (Suc param) \<le> numParams" by auto
    then have k: "nat numParams - param = Suc (nat numParams - Suc param)" by auto
    have at: "take (length (enc_tlv t)) (drop (nat pos) bs) = enc_tlv t" "tlv_wf t"
        "encoded_at bs ?pos ts"
      using Cons.prems(2,5) by (auto simp: encoded_at_Cons)
    have acc: "permissive = 0 \<longrightarrow> accepts (ptype (params ! param)) t"
        "permissive = 0 \<longrightarrow> all_accepted (drop (Suc param) ?ps) (take (nat numParams - Suc param) ts)"
      using Cons.prems(10) p(1) unfolding k by (auto simp: all_accepted_Cons)
    have step: "get_param_step m buf len permissive params param pos = Some (?ps, Inr ?pos)"
      using Cons.prems at acc p by (intro get_param_step_ok [OF Cons.prems(1)]) auto
    have "\<exists>params'. length params' = length ?ps \<and>
        get_params_loop m buf len numParams permissive ?ps (Suc param) ?pos = Some (params', Inl 0)"
      using Cons.prems at acc p by (intro Cons.IH) auto
    then show ?thesis
      using step lt p by (auto simp: get_params_loop.simps [of _ _ _ _ _ params])
  qed
qed

end
