(* ===== verification/Rpc_Get.thy ===== *)
theory Rpc_Get
  imports Rpc_Spec
begin

text \<open>
  The incremental readers of \<^verbatim>\<open>src/pkg/src/af_rpc.c\<close>: six scalar readers and the blob reader,
  each written out as in the source. The value is stored through the caller's pointer
  \<open>valuep\<close>; a scalar local is its bytes. The position is a C \<open>int\<close>: where the code compares
  it with a \<open>size_t\<close> sum, it is converted first (\<open>csize\<close>), also when it is negative.
\<close>

section \<open>The operations\<close>

definition af_rpc_get_uint8_from_buffer_at_pos ::
    "mem \<Rightarrow> ptr \<Rightarrow> ptr \<Rightarrow> int \<Rightarrow> int \<Rightarrow> (mem \<times> int) option" where
  "af_rpc_get_uint8_from_buffer_at_pos m valuep buf bufSize pos =
     (if valuep = NULL \<or> buf = NULL \<or> csize bufSize \<le> LENGTH_SIZE
      then Some (m, AF_RPC_ERR_BAD_PARAM)
      else do {
        len \<leftarrow> getlen m buf;
        if uint len > bufSize then Some (m, AF_RPC_ERR_BAD_TLV)
        else (
          let pos = (if pos = 0 then LENGTH_SIZE else pos) in
          if pos > uint len then Some (m, AF_RPC_ERR_BAD_PARAM)
          else if csize (pos + TYPE_SIZE + 1) > csize (uint len) then Some (m, AF_RPC_ERR_BAD_TLV)
          else do {
            type \<leftarrow> getlen m (ptr_add buf pos);
            if type \<noteq> AF_RPC_TYPE_UINT8 then Some (m, AF_RPC_ERR_BAD_TYPE)
            else do {
              let pos = pos + TYPE_SIZE;
              iVal \<leftarrow> load m (ptr_add buf pos) 1;
              m \<leftarrow> store m valuep (iVal);
              Some (m, pos + 1)
            }
          })
      })"

definition af_rpc_get_uint16_from_buffer_at_pos ::
    "mem \<Rightarrow> ptr \<Rightarrow> ptr \<Rightarrow> int \<Rightarrow> int \<Rightarrow> (mem \<times> int) option" where
  "af_rpc_get_uint16_from_buffer_at_pos m valuep buf bufSize pos =
     (if valuep = NULL \<or> buf = NULL \<or> csize bufSize \<le> LENGTH_SIZE
      then Some (m, AF_RPC_ERR_BAD_PARAM)
      else do {
        len \<leftarrow> getlen m buf;
        if uint len > bufSize then Some (m, AF_RPC_ERR_BAD_TLV)
        else (
          let pos = (if pos = 0 then LENGTH_SIZE else pos) in
          if pos > uint len then Some (m, AF_RPC_ERR_BAD_PARAM)
          else if csize (pos + TYPE_SIZE + 2) > csize (uint len) then Some (m, AF_RPC_ERR_BAD_TLV)
          else do {
            type \<leftarrow> getlen m (ptr_add buf pos);
            if type \<noteq> AF_RPC_TYPE_UINT16 then Some (m, AF_RPC_ERR_BAD_TYPE)
            else do {
              let pos = pos + TYPE_SIZE;
              iVal \<leftarrow> load m (ptr_add buf pos) 2;
              m \<leftarrow> store m valuep (bytes16 (ntohs (word16 iVal)));
              Some (m, pos + 2)
            }
          })
      })"

definition af_rpc_get_uint32_from_buffer_at_pos ::
    "mem \<Rightarrow> ptr \<Rightarrow> ptr \<Rightarrow> int \<Rightarrow> int \<Rightarrow> (mem \<times> int) option" where
  "af_rpc_get_uint32_from_buffer_at_pos m valuep buf bufSize pos =
     (if valuep = NULL \<or> buf = NULL \<or> csize bufSize \<le> LENGTH_SIZE
      then Some (m, AF_RPC_ERR_BAD_PARAM)
      else do {
        len \<leftarrow> getlen m buf;
        if uint len > bufSize then Some (m, AF_RPC_ERR_BAD_TLV)
        else (
          let pos = (if pos = 0 then LENGTH_SIZE else pos) in
          if pos > uint len then Some (m, AF_RPC_ERR_BAD_PARAM)
          else if csize (pos + TYPE_SIZE + 4) > csize (uint len) then Some (m, AF_RPC_ERR_BAD_TLV)
          else do {
            type \<leftarrow> getlen m (ptr_add buf pos);
            if type \<noteq> AF_RPC_TYPE_UINT32 then Some (m, AF_RPC_ERR_BAD_TYPE)
            else do {
              let pos = pos + TYPE_SIZE;
              iVal \<leftarrow> load m (ptr_add buf pos) 4;
              m \<leftarrow> store m valuep (bytes32 (ntohl (word32 iVal)));
              Some (m, pos + 4)
            }
          })
      })"

definition af_rpc_get_int8_from_buffer_at_pos ::
    "mem \<Rightarrow> ptr \<Rightarrow> ptr \<Rightarrow> int \<Rightarrow> int \<Rightarrow> (mem \<times> int) option" where
  "af_rpc_get_int8_from_buffer_at_pos m valuep buf bufSize pos =
     (if valuep = NULL \<or> buf = NULL \<or> csize bufSize \<le> LENGTH_SIZE
      then Some (m, AF_RPC_ERR_BAD_PARAM)
      else do {
        len \<leftarrow> getlen m buf;
        if uint len > bufSize then Some (m, AF_RPC_ERR_BAD_TLV)
        else (
          let pos = (if pos = 0 then LENGTH_SIZE else pos) in
          if pos > uint len then Some (m, AF_RPC_ERR_BAD_PARAM)
          else if csize (pos + TYPE_SIZE + 1) > csize (uint len) then Some (m, AF_RPC_ERR_BAD_TLV)
          else do {
            type \<leftarrow> getlen m (ptr_add buf pos);
            if type \<noteq> AF_RPC_TYPE_INT8 then Some (m, AF_RPC_ERR_BAD_TYPE)
            else do {
              let pos = pos + TYPE_SIZE;
              iVal \<leftarrow> load m (ptr_add buf pos) 1;
              m \<leftarrow> store m valuep (iVal);
              Some (m, pos + 1)
            }
          })
      })"

definition af_rpc_get_int16_from_buffer_at_pos ::
    "mem \<Rightarrow> ptr \<Rightarrow> ptr \<Rightarrow> int \<Rightarrow> int \<Rightarrow> (mem \<times> int) option" where
  "af_rpc_get_int16_from_buffer_at_pos m valuep buf bufSize pos =
     (if valuep = NULL \<or> buf = NULL \<or> csize bufSize \<le> LENGTH_SIZE
      then Some (m, AF_RPC_ERR_BAD_PARAM)
      else do {
        len \<leftarrow> getlen m buf;
        if uint len > bufSize then Some (m, AF_RPC_ERR_BAD_TLV)
        else (
          let pos = (if pos = 0 then LENGTH_SIZE else pos) in
          if pos > uint len then Some (m, AF_RPC_ERR_BAD_PARAM)
          else if csize (pos + TYPE_SIZE + 2) > csize (uint len) then Some (m, AF_RPC_ERR_BAD_TLV)
          else do {
            type \<leftarrow> getlen m (ptr_add buf pos);
            if type \<noteq> AF_RPC_TYPE_INT16 then Some (m, AF_RPC_ERR_BAD_TYPE)
            else do {
              let pos = pos + TYPE_SIZE;
              iVal \<leftarrow> load m (ptr_add buf pos) 2;
              m \<leftarrow> store m valuep (bytes16 (ntohs (word16 iVal)));
              Some (m, pos + 2)
            }
          })
      })"

definition af_rpc_get_int32_from_buffer_at_pos ::
    "mem \<Rightarrow> ptr \<Rightarrow> ptr \<Rightarrow> int \<Rightarrow> int \<Rightarrow> (mem \<times> int) option" where
  "af_rpc_get_int32_from_buffer_at_pos m valuep buf bufSize pos =
     (if valuep = NULL \<or> buf = NULL \<or> csize bufSize \<le> LENGTH_SIZE
      then Some (m, AF_RPC_ERR_BAD_PARAM)
      else do {
        len \<leftarrow> getlen m buf;
        if uint len > bufSize then Some (m, AF_RPC_ERR_BAD_TLV)
        else (
          let pos = (if pos = 0 then LENGTH_SIZE else pos) in
          if pos > uint len then Some (m, AF_RPC_ERR_BAD_PARAM)
          else if csize (pos + TYPE_SIZE + 4) > csize (uint len) then Some (m, AF_RPC_ERR_BAD_TLV)
          else do {
            type \<leftarrow> getlen m (ptr_add buf pos);
            if type \<noteq> AF_RPC_TYPE_INT32 then Some (m, AF_RPC_ERR_BAD_TYPE)
            else do {
              let pos = pos + TYPE_SIZE;
              iVal \<leftarrow> load m (ptr_add buf pos) 4;
              m \<leftarrow> store m valuep (bytes32 (ntohl (word32 iVal)));
              Some (m, pos + 4)
            }
          })
      })"

text \<open>\<open>blobSizep\<close> points to the size of the caller's buffer, and receives the blob's size.\<close>

definition af_rpc_get_blob_with_length_from_buffer_at_pos ::
    "mem \<Rightarrow> ptr \<Rightarrow> ptr \<Rightarrow> ptr \<Rightarrow> int \<Rightarrow> int \<Rightarrow> (mem \<times> int) option" where
  "af_rpc_get_blob_with_length_from_buffer_at_pos m blob blobSizep buf bufSize pos =
     (if buf = NULL \<or> csize bufSize \<le> LENGTH_SIZE \<or> blob = NULL \<or> blobSizep = NULL
      then Some (m, AF_RPC_ERR_BAD_PARAM)
      else do {
        maxSize \<leftarrow> load_int m blobSizep;
        if maxSize \<le> 0 then Some (m, AF_RPC_ERR_BAD_PARAM)
        else do {
          len \<leftarrow> getlen m buf;
          if uint len > bufSize then Some (m, AF_RPC_ERR_BAD_TLV)
          else (
            let pos = (if pos = 0 then LENGTH_SIZE else pos) in
            if pos > uint len then Some (m, AF_RPC_ERR_BAD_PARAM)
            else do {
              type \<leftarrow> getlen m (ptr_add buf pos);
              if \<not> AF_RPC_TYPE_IS_BLOB type then Some (m, AF_RPC_ERR_BAD_TYPE)
              else (
                let pos = pos + TYPE_SIZE;
                    size = uint (AF_RPC_BLOB_SIZE type) in
                if pos + size > uint len then Some (m, AF_RPC_ERR_BAD_TLV)
                else if size > maxSize then Some (m, AF_RPC_ERR_BUFFER_OVERFLOW)
                else do {
                  m \<leftarrow> (if size \<noteq> 0 then memcpy m blob (ptr_add buf pos) (nat size) else Some m);
                  m \<leftarrow> store_int m blobSizep size;
                  Some (m, pos + size)
                })
            })
        }
      })"

section \<open>The contract of the scalar readers\<close>

text \<open>
  \<open>mk v\<close> is the value in the message and \<open>repr v\<close> its object representation at the caller.
\<close>

locale tlv_getter =
  fixes get :: "mem \<Rightarrow> ptr \<Rightarrow> ptr \<Rightarrow> int \<Rightarrow> int \<Rightarrow> (mem \<times> int) option"
    and mk :: "'v \<Rightarrow> tlv"
    and repr :: "'v \<Rightarrow> byte list"
  assumes get_first: "get m valuep buf bufSize 0 = get m valuep buf bufSize 2"
    and get_found: "load m buf (nat bufSize) = Some bs \<Longrightarrow> 2 < bufSize \<Longrightarrow> bufSize < 2 ^ 31 \<Longrightarrow>
      load m valuep (length (repr v)) \<noteq> None \<Longrightarrow> int (used bs) \<le> bufSize \<Longrightarrow>
      0 < p \<Longrightarrow> p + length (enc_tlv (mk v)) \<le> used bs \<Longrightarrow>
      take (length (enc_tlv (mk v))) (drop p bs) = enc_tlv (mk v) \<Longrightarrow>
      get m valuep buf bufSize (int p) =
        Some (overwrite m valuep (repr v), int (p + length (enc_tlv (mk v))))"
    and get_other: "load m buf (nat bufSize) = Some bs \<Longrightarrow> 2 < bufSize \<Longrightarrow> bufSize < 2 ^ 31 \<Longrightarrow>
      valuep \<noteq> NULL \<Longrightarrow> int (used bs) \<le> bufSize \<Longrightarrow>
      0 < p \<Longrightarrow> p + length (enc_tlv (mk v)) \<le> used bs \<Longrightarrow>
      take 2 (drop p bs) \<noteq> be16 (tlv_type (mk v)) \<Longrightarrow>
      get m valuep buf bufSize (int p) = Some (m, AF_RPC_ERR_BAD_TYPE)"
    and get_short: "load m buf (nat bufSize) = Some bs \<Longrightarrow> 2 < bufSize \<Longrightarrow> bufSize < 2 ^ 31 \<Longrightarrow>
      valuep \<noteq> NULL \<Longrightarrow> int (used bs) \<le> bufSize \<Longrightarrow>
      0 < p \<Longrightarrow> p \<le> used bs \<Longrightarrow> used bs < p + length (enc_tlv (mk v)) \<Longrightarrow>
      get m valuep buf bufSize (int p) = Some (m, AF_RPC_ERR_BAD_TLV)"
    and get_before: "load m buf (nat bufSize) = Some bs \<Longrightarrow> 2 < bufSize \<Longrightarrow> bufSize < 2 ^ 31 \<Longrightarrow>
      valuep \<noteq> NULL \<Longrightarrow> length (enc_tlv (mk v)) \<le> used bs \<Longrightarrow> int (used bs) \<le> bufSize \<Longrightarrow>
      buf = VPtr b 0 \<Longrightarrow> - (2 ^ 31) \<le> pos \<Longrightarrow> pos < 0 \<Longrightarrow>
      get m valuep buf bufSize pos =
        (if - int (length (enc_tlv (mk v))) \<le> pos then None else Some (m, AF_RPC_ERR_BAD_TLV))"
    and get_safe: "load m buf (nat bufSize) \<noteq> None \<Longrightarrow> load m valuep (length (repr v)) \<noteq> None \<Longrightarrow>
      2 < bufSize \<Longrightarrow> bufSize < 2 ^ 31 \<Longrightarrow> 0 \<le> pos \<Longrightarrow> pos < 2 ^ 31 \<Longrightarrow>
      \<exists>m' r. get m valuep buf bufSize pos = Some (m', r) \<and>
        (if r < 0 then m' = m \<and> r \<in> {AF_RPC_ERR_BAD_PARAM, AF_RPC_ERR_BAD_TYPE, AF_RPC_ERR_BAD_TLV}
         else r \<le> bufSize \<and> (\<exists>xs. length xs = length (repr v) \<and> m' = overwrite m valuep xs))"
begin

text \<open>In a buffer that holds a message, the reader at a value's position returns it.\<close>

lemma get_nth:
  assumes "load m buf (nat bufSize) = Some bs" "2 < bufSize" "bufSize < 2 ^ 31"
    and "load m valuep (length (repr v)) \<noteq> None" "holds bs (ts @ mk v # us)"
  shows "get m valuep buf bufSize (int (msg_len ts)) =
    Some (overwrite m valuep (repr v), int (msg_len (ts @ [mk v])))"
proof -
  have u: "used bs = msg_len (ts @ mk v # us)" using assms(5) by (rule holds_used)
  moreover have "length bs = nat bufSize" using assms(1) by (rule length_load)
  ultimately have "int (used bs) \<le> bufSize" using assms(2,5) by (auto simp: holds_def)
  then show ?thesis
    using get_found [OF assms(1-4), of "msg_len ts"] holds_at [OF assms(5)] u
    by (simp add: msg_len_def)
qed

end

text \<open>
  The six scalar readers are one routine at six types: the reference \<open>get_scalar\<close> takes the
  type word, the size and the conversion from the message's bytes to the caller's.
\<close>

definition get_scalar ::
    "u16 \<Rightarrow> nat \<Rightarrow> (byte list \<Rightarrow> byte list) \<Rightarrow> mem \<Rightarrow> ptr \<Rightarrow> ptr \<Rightarrow> int \<Rightarrow> int \<Rightarrow> (mem \<times> int) option" where
  "get_scalar t k conv m valuep buf bufSize pos =
     (if valuep = NULL \<or> buf = NULL \<or> csize bufSize \<le> LENGTH_SIZE
      then Some (m, AF_RPC_ERR_BAD_PARAM)
      else do {
        len \<leftarrow> getlen m buf;
        if uint len > bufSize then Some (m, AF_RPC_ERR_BAD_TLV)
        else (
          let pos = (if pos = 0 then LENGTH_SIZE else pos) in
          if pos > uint len then Some (m, AF_RPC_ERR_BAD_PARAM)
          else if csize (pos + TYPE_SIZE + int k) > csize (uint len) then Some (m, AF_RPC_ERR_BAD_TLV)
          else do {
            type \<leftarrow> getlen m (ptr_add buf pos);
            if type \<noteq> t then Some (m, AF_RPC_ERR_BAD_TYPE)
            else do {
              let pos = pos + TYPE_SIZE;
              iVal \<leftarrow> load m (ptr_add buf pos) k;
              m \<leftarrow> store m valuep (conv iVal);
              Some (m, pos + int k)
            }
          })
      })"

lemmas get_ops = af_rpc_get_uint8_from_buffer_at_pos_def af_rpc_get_uint16_from_buffer_at_pos_def
  af_rpc_get_uint32_from_buffer_at_pos_def af_rpc_get_int8_from_buffer_at_pos_def
  af_rpc_get_int16_from_buffer_at_pos_def af_rpc_get_int32_from_buffer_at_pos_def

text \<open>What the caller's 16- and 32-bit objects hold after the conversion to host order.\<close>

definition host16 :: "byte list \<Rightarrow> byte list" where
  "host16 xs = bytes16 (ntohs (word16 xs))"

definition host32 :: "byte list \<Rightarrow> byte list" where
  "host32 xs = bytes32 (ntohl (word32 xs))"

lemma host_be [simp]: "host16 (be16 v) = bytes16 v" "host32 (be32 w) = bytes32 w"
  by (simp_all add: host16_def host32_def flip: of_be16_def of_be32_def)

lemma get_eq_scalar:
  "af_rpc_get_uint8_from_buffer_at_pos = get_scalar AF_RPC_TYPE_UINT8 1 (\<lambda>xs. xs)"
  "af_rpc_get_uint16_from_buffer_at_pos = get_scalar AF_RPC_TYPE_UINT16 2 host16"
  "af_rpc_get_uint32_from_buffer_at_pos = get_scalar AF_RPC_TYPE_UINT32 4 host32"
  "af_rpc_get_int8_from_buffer_at_pos = get_scalar AF_RPC_TYPE_INT8 1 (\<lambda>xs. xs)"
  "af_rpc_get_int16_from_buffer_at_pos = get_scalar AF_RPC_TYPE_INT16 2 host16"
  "af_rpc_get_int32_from_buffer_at_pos = get_scalar AF_RPC_TYPE_INT32 4 host32"
  by (intro ext, simp add: get_ops get_scalar_def host16_def host32_def cong: if_cong)+

lemma get_scalar_getter:
  assumes k: "k \<le> 4" and ty: "\<And>v. tlv_type (mk v) = t" and pl: "\<And>v. length (tlv_payload (mk v)) = k"
    and rl: "\<And>v. length (repr v) = k" and conv: "\<And>v. conv (tlv_payload (mk v)) = repr v"
    and onto: "\<And>xs. length xs = k \<Longrightarrow> \<exists>v. tlv_payload (mk v) = xs"
  shows "tlv_getter (get_scalar t k conv) mk repr"
proof unfold_locales
  show "get_scalar t k conv m valuep buf bufSize 0 = get_scalar t k conv m valuep buf bufSize 2"
    for m valuep buf bufSize
    by (simp add: get_scalar_def rpc_sizes cong: if_cong)
next
  fix m buf bufSize bs valuep v p
  assume ld: "load m buf (nat bufSize) = Some bs" and size: "2 < bufSize" "bufSize < 2 ^ 31"
    and used: "int (used bs) \<le> bufSize" and p: "0 < p" "p + length (enc_tlv (mk v)) \<le> used bs"
  have n: "2 \<le> nat bufSize" using size by simp
  have L: "length (enc_tlv (mk v)) = 2 + k" by (simp add: length_enc_tlv pl)
  have cs: "csize (int p + TYPE_SIZE + int k) = int p + 2 + int k"
    using p(2) L used_less [of bs] by (simp add: rpc_sizes)
  have le: "nat (int p) + 2 \<le> nat bufSize" using p(2) L used by simp
  note pre = uint_of_used [OF ld n] getlen_slice [OF ld _ le] load_not_null [OF ld]
    size used p L cs
  {
    assume vp: "load m valuep (length (repr v)) \<noteq> None"
      and enc: "take (length (enc_tlv (mk v))) (drop p bs) = enc_tlv (mk v)"
    have vn: "valuep \<noteq> NULL" using vp load_not_null by blast
    have "take 2 (drop p bs) = take 2 (take (length (enc_tlv (mk v))) (drop p bs))"
      by (simp add: L min_def)
    then have t2: "take 2 (drop p bs) = be16 t" unfolding enc by (simp add: enc_tlv_def ty)
    have "tlv_payload (mk v) = drop 2 (take (length (enc_tlv (mk v))) (drop p bs))"
      unfolding enc by (simp add: enc_tlv_def)
    then have "take k (drop (p + 2) bs) = tlv_payload (mk v)"
      by (simp add: L drop_take add.commute)
    then have "load m (ptr_add buf (int p + 2)) k = Some (tlv_payload (mk v))"
      using load_slice [OF ld, of "int p + 2" k] p L used by (simp add: nat_add_distrib)
    then show "get_scalar t k conv m valuep buf bufSize (int p) =
        Some (overwrite m valuep (repr v), int (p + length (enc_tlv (mk v))))"
      using vn t2 pre vp
      by (auto simp: get_scalar_def rpc_sizes store_def conv split: option.splits)
  next
    assume vn: "valuep \<noteq> NULL" and other: "take 2 (drop p bs) \<noteq> be16 (tlv_type (mk v))"
    have "length (take 2 (drop p bs)) = 2" using p L used length_load [OF ld] by simp
    then have "of_be16 (take 2 (drop p bs)) \<noteq> t" using other ty be_of_be(1) by metis
    then show "get_scalar t k conv m valuep buf bufSize (int p) = Some (m, AF_RPC_ERR_BAD_TYPE)"
      using vn pre by (simp add: get_scalar_def rpc_sizes)
  }
next
  fix m buf bufSize bs valuep v p
  assume ld: "load m buf (nat bufSize) = Some bs" and size: "2 < bufSize" "bufSize < 2 ^ 31"
    and used: "int (used bs) \<le> bufSize" and p: "0 < p" "p \<le> used bs"
      "used bs < p + length (enc_tlv (mk v))" and vn: "valuep \<noteq> NULL"
  have n: "2 \<le> nat bufSize" using size by simp
  have "\<not> csize (int p + TYPE_SIZE + int k) \<le> csize (int (used bs))"
    using p used_less [of bs] k by (simp add: rpc_sizes length_enc_tlv pl)
  then show "get_scalar t k conv m valuep buf bufSize (int p) = Some (m, AF_RPC_ERR_BAD_TLV)"
    using vn uint_of_used [OF ld n] load_not_null [OF ld] size used p
    by (simp add: get_scalar_def LENGTH_SIZE_def)
next
  fix m buf bufSize bs valuep v b pos
  assume ld: "load m buf (nat bufSize) = Some bs" and size: "2 < bufSize" "bufSize < 2 ^ 31"
    and used: "length (enc_tlv (mk v)) \<le> used bs" "int (used bs) \<le> bufSize"
    and buf: "buf = VPtr b 0" and pos: "- (2 ^ 31) \<le> pos" "pos < (0 :: int)" and vn: "valuep \<noteq> NULL"
  have n: "2 \<le> nat bufSize" using size by simp
  have out: "getlen m (ptr_add buf pos) = None"
    using pos by (auto simp: buf getlen_def load_def split: option.splits)
  have over: "csize (pos + TYPE_SIZE + int k) > csize (int (used bs)) \<longleftrightarrow> pos < - (2 + int k)"
  proof (cases "pos < - (2 + int k)")
    case True
    then have "csize (pos + TYPE_SIZE + int k) = pos + 2 + int k + 2 ^ 64"
      using pos by (subst csize_negative) (auto simp: rpc_sizes)
    then show ?thesis using True pos used_less [of bs] by simp
  next
    case False
    then show ?thesis
      using used pos k used_less [of bs] by (simp add: rpc_sizes length_enc_tlv pl)
  qed
  have q: "pos \<noteq> 0" "\<not> pos > int (used bs)" using pos by auto
  show "get_scalar t k conv m valuep buf bufSize pos =
      (if - int (length (enc_tlv (mk v))) \<le> pos then None else Some (m, AF_RPC_ERR_BAD_TLV))"
  proof (cases "pos < - (2 + int k)")
    case True
    then show ?thesis
      using vn uint_of_used [OF ld n] load_not_null [OF ld] size used(2) q over
      by (simp add: get_scalar_def LENGTH_SIZE_def length_enc_tlv pl)
  next
    case False
    then show ?thesis
      using vn uint_of_used [OF ld n] load_not_null [OF ld] size used(2) q over out
      by (simp add: get_scalar_def LENGTH_SIZE_def length_enc_tlv pl)
  qed
next
  fix m buf bufSize valuep v and pos :: int
  assume "load m buf (nat bufSize) \<noteq> None" and vp: "load m valuep (length (repr v)) \<noteq> None"
    and size: "2 < bufSize" "bufSize < 2 ^ 31" and pos: "0 \<le> pos" "pos < 2 ^ 31"
  then obtain bs where ld: "load m buf (nat bufSize) = Some bs" by blast
  have vn: "valuep \<noteq> NULL" using vp load_not_null by blast
  define q where "q = (if pos = 0 then LENGTH_SIZE else pos)"
  have q: "0 < q" "q < 2 ^ 31" using pos by (auto simp: q_def rpc_sizes)
  have n: "2 \<le> nat bufSize" using size by simp
  note pre = uint_of_used [OF ld n] load_not_null [OF ld] size vn
  show "\<exists>m' r. get_scalar t k conv m valuep buf bufSize pos = Some (m', r) \<and>
      (if r < 0 then m' = m \<and> r \<in> {AF_RPC_ERR_BAD_PARAM, AF_RPC_ERR_BAD_TYPE, AF_RPC_ERR_BAD_TLV}
       else r \<le> bufSize \<and> (\<exists>xs. length xs = length (repr v) \<and> m' = overwrite m valuep xs))"
  proof (cases "int (used bs) \<le> bufSize \<and> q + 2 + int k \<le> int (used bs)")
    case False
    then show ?thesis
      using pre q k used_less [of bs] by (auto simp: get_scalar_def rpc_errs TYPE_SIZE_def LENGTH_SIZE_def q_def)
  next
    case True
    have in2: "nat q + 2 \<le> nat bufSize" and ink: "nat (q + 2) + k \<le> nat bufSize"
      using True q by auto
    have ld2: "load m (ptr_add buf (q + 2)) k = Some (take k (drop (nat (q + 2)) bs))"
      using load_slice [OF ld _ ink] q by simp
    have "length (take k (drop (nat (q + 2)) bs)) = k" using ld2 by (rule length_load)
    then obtain w where w: "tlv_payload (mk w) = take k (drop (nat (q + 2)) bs)"
      using onto by blast
    have st: "store m valuep (repr w) = Some (overwrite m valuep (repr w))"
      using vp rl by (auto simp: store_def split: option.splits)
    have run: "get_scalar t k conv m valuep buf bufSize pos =
        (if of_be16 (take 2 (drop (nat q) bs)) \<noteq> t then Some (m, AF_RPC_ERR_BAD_TYPE)
         else Some (overwrite m valuep (repr w), q + 2 + int k))"
      using pre q k True getlen_slice [OF ld _ in2] ld2 st used_less [of bs] conv [of w]
      by (auto simp: get_scalar_def TYPE_SIZE_def LENGTH_SIZE_def q_def w)
    show ?thesis
      using True q by (auto simp: run rpc_errs rl intro: exI [of _ "repr w"])
  qed
qed

lemma onto_payload:
  "length xs = 1 \<Longrightarrow> \<exists>v. [v] = xs" "length xs = 2 \<Longrightarrow> \<exists>v. be16 v = xs"
  "length xs = 4 \<Longrightarrow> \<exists>v. be32 v = xs"
proof -
  show "length xs = 1 \<Longrightarrow> \<exists>v. [v] = xs" by (cases xs) auto
qed (metis be_of_be(1), metis be_of_be(2))

interpretation get_u8: tlv_getter af_rpc_get_uint8_from_buffer_at_pos TU8 "\<lambda>v. [v]"
  unfolding get_eq_scalar by (rule get_scalar_getter) (simp_all add: onto_payload)
interpretation get_u16: tlv_getter af_rpc_get_uint16_from_buffer_at_pos TU16 bytes16
  unfolding get_eq_scalar by (rule get_scalar_getter) (simp_all add: onto_payload)
interpretation get_u32: tlv_getter af_rpc_get_uint32_from_buffer_at_pos TU32 bytes32
  unfolding get_eq_scalar by (rule get_scalar_getter) (simp_all add: onto_payload)
interpretation get_i8: tlv_getter af_rpc_get_int8_from_buffer_at_pos TI8 "\<lambda>v. [v]"
  unfolding get_eq_scalar by (rule get_scalar_getter) (simp_all add: onto_payload)
interpretation get_i16: tlv_getter af_rpc_get_int16_from_buffer_at_pos TI16 bytes16
  unfolding get_eq_scalar by (rule get_scalar_getter) (simp_all add: onto_payload)
interpretation get_i32: tlv_getter af_rpc_get_int32_from_buffer_at_pos TI32 bytes32
  unfolding get_eq_scalar by (rule get_scalar_getter) (simp_all add: onto_payload)

section \<open>The blob reader\<close>

text \<open>The bytes of a value in place: its type word, and its payload two bytes later.\<close>

lemma value_in_place:
  assumes ld: "load m buf n = Some bs" and fits: "p + length (enc_tlv t) \<le> n"
    and enc: "take (length (enc_tlv t)) (drop p bs) = enc_tlv t"
  shows "getlen m (ptr_add buf (int p)) = Some (tlv_type t)"
    and "load m (ptr_add buf (int p + 2)) (length (tlv_payload t)) = Some (tlv_payload t)"
proof -
  have "take 2 (drop p bs) = take 2 (take (length (enc_tlv t)) (drop p bs))"
    by (simp add: length_enc_tlv min_def)
  also have "\<dots> = be16 (tlv_type t)" unfolding enc by (simp add: enc_tlv_def)
  finally show "getlen m (ptr_add buf (int p)) = Some (tlv_type t)"
    using getlen_slice [OF ld, of "int p"] fits by (simp add: length_enc_tlv)
  have "tlv_payload t = drop 2 (take (length (enc_tlv t)) (drop p bs))"
    unfolding enc by (simp add: enc_tlv_def)
  then have "take (length (tlv_payload t)) (drop (p + 2) bs) = tlv_payload t"
    by (simp add: length_enc_tlv drop_take add.commute)
  then show "load m (ptr_add buf (int p + 2)) (length (tlv_payload t)) = Some (tlv_payload t)"
    using load_slice [OF ld, of "int p + 2" "length (tlv_payload t)"] fits
    by (simp add: nat_add_distrib length_enc_tlv)
qed

text \<open>The reader once its pointers and the type word are known to be readable.\<close>

lemma get_blob_run:
  assumes ld: "load m buf (nat bufSize) = Some bs" and size: "2 < bufSize" "bufSize < 2 ^ 31"
    and sz: "load_int m blobSizep = Some maxSize" and nn: "blob \<noteq> NULL"
    and q: "q = (if pos = 0 then LENGTH_SIZE else pos)"
    and ty: "getlen m (ptr_add buf q) = Some ty" and k: "unat (AF_RPC_BLOB_SIZE ty) = k"
  shows "af_rpc_get_blob_with_length_from_buffer_at_pos m blob blobSizep buf bufSize pos =
      (if maxSize \<le> 0 then Some (m, AF_RPC_ERR_BAD_PARAM)
       else if int (used bs) > bufSize then Some (m, AF_RPC_ERR_BAD_TLV)
       else if q > int (used bs) then Some (m, AF_RPC_ERR_BAD_PARAM)
       else if \<not> AF_RPC_TYPE_IS_BLOB ty then Some (m, AF_RPC_ERR_BAD_TYPE)
       else if q + 2 + int k > int (used bs) then Some (m, AF_RPC_ERR_BAD_TLV)
       else if int k > maxSize then Some (m, AF_RPC_ERR_BUFFER_OVERFLOW)
       else do {
         m \<leftarrow> (if k \<noteq> 0 then memcpy m blob (ptr_add buf (q + 2)) k else Some m);
         m \<leftarrow> store_int m blobSizep (int k);
         Some (m, q + 2 + int k)
       })"
proof -
  have n: "2 \<le> nat bufSize" using size by simp
  have uk: "uint (AF_RPC_BLOB_SIZE ty) = int k" unfolding k [symmetric] by (rule uint_nat)
  have nn': "blobSizep \<noteq> NULL" "buf \<noteq> NULL"
    using sz ld load_not_null by (auto simp: load_int_def)
  show ?thesis
    using uint_of_used [OF ld n] nn nn' size sz ty uk
    unfolding af_rpc_get_blob_with_length_from_buffer_at_pos_def q [symmetric] Let_def TYPE_SIZE_def
    by (simp add: LENGTH_SIZE_def k cong: if_cong)
qed

text \<open>
  At the position of a blob the reader copies the payload, sets the size and moves on; it
  reports a caller's buffer that is too small.
\<close>

lemma get_blob_found:
  assumes ld: "load m buf (nat bufSize) = Some bs" and size: "2 < bufSize" "bufSize < 2 ^ 31"
    and sz: "load_int m blobSizep = Some maxSize" "0 < maxSize"
    and blob: "load m blob (nat maxSize) \<noteq> None"
    and apart: "\<not> overlaps blob (nat maxSize) buf (nat bufSize)"
    and at: "holds bs (ts @ TBlob s xs # us)" "length xs < 2 ^ 14"
    and len: "int (length xs) \<le> maxSize"
    and store: "store_int (overwrite m blob xs) blobSizep (int (length xs)) = Some m'"
  shows "af_rpc_get_blob_with_length_from_buffer_at_pos m blob blobSizep buf bufSize (int (msg_len ts)) =
    Some (m', int (msg_len (ts @ [TBlob s xs])))"
proof -
  let ?t = "TBlob s xs" and ?p = "msg_len ts"
  have u: "used bs = msg_len (ts @ ?t # us)" using at(1) by (rule holds_used)
  have n: "length bs = nat bufSize" "2 \<le> nat bufSize" using length_load [OF ld] size by auto
  have "used bs \<le> nat bufSize" using at(1) u n by (simp add: holds_def)
  then have used: "int (used bs) \<le> bufSize" using size by linarith
  have L: "length (enc_tlv ?t) = 2 + length xs" by (simp add: length_enc_tlv)
  have fits: "?p + length (enc_tlv ?t) \<le> used bs" using holds_at(2) [OF at(1)] u by simp
  then have fits': "?p + length (enc_tlv ?t) \<le> nat bufSize" using used by simp
  have pos: "(if int ?p = 0 then LENGTH_SIZE else int ?p) = int ?p" by (simp add: msg_len_def)
  note here = value_in_place [OF ld fits' holds_at(1) [OF at(1)]]
  note ty = blob_types [OF at(2), where s = s and xs = xs]
  have isb: "AF_RPC_TYPE_IS_BLOB (tlv_type ?t)"
    using ty(1) by (simp add: AF_RPC_TYPE_IS_BLOB_def AF_RPC_TYPE_IS_INTEGER_def del: tlv_type.simps)
  have copy: "(if int (length xs) \<noteq> 0 then memcpy m blob (ptr_add buf (int ?p + 2)) (length xs) else Some m)
      = Some (overwrite m blob xs)"
  proof (cases "xs = []")
    case True
    have "overwrite m blob [] = m"
      using blob by (auto simp: overwrite_def split: ptr.splits option.splits)
    with True show ?thesis by simp
  next
    case False
    have fi: "int ?p + 2 + int (length xs) \<le> bufSize" using fits' L size by linarith
    have "\<not> overlaps blob (length xs) (ptr_add buf (int ?p + 2)) (length xs)"
      using apart len fi size by (cases blob; cases buf) auto
    moreover obtain old where old: "load m blob (nat maxSize) = Some old" using blob by blast
    moreover have "length xs \<le> nat maxSize" using len by simp
    ultimately show ?thesis
      using False here(2) by (simp add: memcpy_def store_def load_le)
  qed
  have "blob \<noteq> NULL" using blob load_not_null by blast
  note run = get_blob_run [OF ld size sz(1) this pos [symmetric] here(1) ty(3) [OF refl]]
  show ?thesis
    using used fits isb copy store len L sz by (simp add: run del: tlv_type.simps)
qed

text \<open>
  On any bytes, at a position that leaves room for a type word, the reader makes only valid
  accesses; it either fails with a negative code and changes nothing, or returns a position
  inside the buffer.
\<close>

lemma store_valid: "load m p (length xs) \<noteq> None \<Longrightarrow> store m p xs = Some (overwrite m p xs)"
  by (auto simp: store_def split: option.splits)

lemma overwrite_valid:
  assumes "load m p (length xs) \<noteq> None" "load m q k \<noteq> None"
  shows "load (overwrite m p xs) q k \<noteq> None"
  using assms by (auto simp: load_def overwrite_def poke_def split: ptr.splits option.splits if_splits)

lemma get_blob_safe:
  assumes ld: "load m buf (nat bufSize) \<noteq> None" and size: "2 < bufSize" "bufSize < 2 ^ 31"
    and sz: "load_int m blobSizep = Some maxSize" and blob: "load m blob (nat maxSize) \<noteq> None"
    and apart: "\<not> overlaps blob (nat maxSize) buf (nat bufSize)"
    and pos: "0 \<le> pos" "(if pos = 0 then 2 else pos) + 2 \<le> bufSize"
  shows "\<exists>m' r. af_rpc_get_blob_with_length_from_buffer_at_pos m blob blobSizep buf bufSize pos = Some (m', r) \<and>
    (r < 0 \<longrightarrow> m' = m) \<and> r \<le> bufSize"
proof -
  obtain bs where bs: "load m buf (nat bufSize) = Some bs" using ld by blast
  have n: "2 \<le> nat bufSize" using size by simp
  define q where "q = (if pos = 0 then LENGTH_SIZE else pos)"
  have q: "0 < q" "q + 2 \<le> bufSize" "nat q + 2 \<le> nat bufSize"
    using pos size by (auto simp: q_def rpc_sizes split: if_splits)
  obtain ty where ty: "getlen m (ptr_add buf q) = Some ty"
    using getlen_slice [OF bs _ q(3)] q(1) by simp
  define k where "k = unat (AF_RPC_BLOB_SIZE ty)"
  have "blob \<noteq> NULL" using blob load_not_null by blast
  note run = get_blob_run [OF bs size sz this q_def ty k_def [symmetric]]
  show ?thesis
  proof (cases "0 < maxSize \<and> q + 2 + int k \<le> int (used bs) \<and> int k \<le> maxSize \<and> int (used bs) \<le> bufSize")
    case False
    then show ?thesis using q(1,2) by (auto simp: run rpc_errs)
  next
    case True
    then have kn: "nat (q + 2) + k \<le> nat bufSize" "k \<le> nat maxSize" using q(1) by auto
    have "load m (ptr_add buf (q + 2)) k \<noteq> None"
      using load_slice [OF bs _ kn(1)] q(1) by simp
    then obtain xs where xs: "load m (ptr_add buf (q + 2)) k = Some xs" by blast
    then have lx: "length xs = k" by (rule length_load)
    have "load m blob k \<noteq> None" using blob kn(2) load_le by blast
    then have b: "load m blob (length xs) \<noteq> None" by (simp add: lx)
    have "\<not> overlaps blob k (ptr_add buf (q + 2)) k"
      using apart True q size by (cases blob; cases buf) auto
    then have copy: "(if k \<noteq> 0 then memcpy m blob (ptr_add buf (q + 2)) k else Some m) =
        Some (if k \<noteq> 0 then overwrite m blob xs else m)"
      using xs store_valid [OF b] by (simp add: memcpy_def)
    have "load m blobSizep 4 \<noteq> None" using sz by (auto simp: load_int_def)
    then have "load (if k \<noteq> 0 then overwrite m blob xs else m) blobSizep 4 \<noteq> None"
      using overwrite_valid [OF b] by simp
    then have "\<exists>m'. store_int (if k \<noteq> 0 then overwrite m blob xs else m) blobSizep (int k) = Some m'"
      by (auto simp: store_int_def store_valid)
    then show ?thesis using True q copy by (auto simp: run rpc_errs)
  qed
qed

text \<open>
  The reader checks the position against the length only: at the end of a message that fills
  the buffer it reads a type word past the buffer's end. The scalar readers do not.
\<close>

lemma get_blob_at_end:
  assumes ld: "load m buf (nat bufSize) = Some bs" and size: "2 < bufSize" "bufSize < 2 ^ 31"
    and used: "int (used bs) = bufSize" and object: "load m buf (nat (bufSize + 2)) = None"
    and sz: "load_int m blobSizep = Some maxSize" "0 < maxSize" and blob: "blob \<noteq> NULL"
    and start: "buf = VPtr b 0"
  shows "af_rpc_get_blob_with_length_from_buffer_at_pos m blob blobSizep buf bufSize bufSize = None"
proof -
  have n: "2 \<le> nat bufSize" using size by simp
  have nn: "blobSizep \<noteq> NULL" "buf \<noteq> NULL" using sz ld load_not_null by (auto simp: load_int_def)
  have "load m (ptr_add buf bufSize) 2 = None"
    using object size unfolding start
    by (auto simp: load_def nat_add_distrib split: option.splits if_splits)
  then have "getlen m (ptr_add buf bufSize) = None" by (simp add: getlen_def)
  then show ?thesis
    using uint_of_used [OF ld n] nn size sz blob used
    by (simp add: af_rpc_get_blob_with_length_from_buffer_at_pos_def rpc_sizes)
qed

end
