(* ===== verification/Rpc_Correct.thy ===== *)
theory Rpc_Correct
  imports Rpc_Add Rpc_Params_Read Rpc_Get
begin

text \<open>
  The properties of the TLV library \<^verbatim>\<open>src/pkg/src/af_rpc.c\<close>: the batch writer and reader are
  inverse, the reader is safe and sound on arbitrary bytes, the incremental writers and
  readers agree with the batch ones, and the places where the code leaves its contract.
\<close>

section \<open>Messages in memory\<close>

definition msg_in :: "mem \<Rightarrow> ptr \<Rightarrow> int \<Rightarrow> tlv list \<Rightarrow> bool" where
  "msg_in m buf bufSize ts \<longleftrightarrow>
     (case load m buf (nat bufSize) of None \<Rightarrow> False | Some bs \<Rightarrow> holds bs ts \<and> list_all tlv_wf ts)"

lemma msg_inE:
  assumes "msg_in m buf bufSize ts"
  obtains bs where "load m buf (nat bufSize) = Some bs" "holds bs ts" "list_all tlv_wf ts"
    "length bs = nat bufSize" "used bs = msg_len ts" "msg_len ts \<le> nat bufSize"
  using assms length_load [of m buf "nat bufSize"]
  by (auto simp: msg_in_def holds_used split: option.splits) (auto simp: holds_def)

lemma msg_len_ge: "2 \<le> msg_len ts"
  by (simp add: msg_len_def)

lemma encoded_message:
  assumes "holds bs ts" "list_all tlv_wf ts"
  shows "encoded_at bs 2 ts"
proof -
  have "take (length (enc_tlvs ts)) (drop 2 bs) = drop 2 (take (msg_len ts) bs)"
    by (simp add: msg_len_def drop_take)
  also have "\<dots> = enc_tlvs ts"
    using assms(1) by (simp add: holds_def enc_msg_def)
  finally show ?thesis using assms(2) by (simp add: encoded_at_def)
qed

lemma message_encoded:
  assumes "encoded_at bs 2 ts" "used bs = msg_len ts" "msg_len ts \<le> length bs"
  shows "holds bs ts" "list_all tlv_wf ts"
proof -
  have "length (take 2 bs) = 2" using assms(3) by (simp add: msg_len_def)
  then have "take 2 bs = be16 (word_of_nat (msg_len ts))"
    by (simp flip: assms(2) add: used_def)
  then have "take (2 + length (enc_tlvs ts)) bs = enc_msg ts"
    using assms(1) by (simp only: take_add) (simp add: enc_msg_def encoded_at_def)
  then have "take (msg_len ts) bs = enc_msg ts" by (simp add: msg_len_def)
  then show "holds bs ts"
    using assms used_less [of bs] by (simp add: holds_def)
  show "list_all tlv_wf ts" using assms(1) by (simp add: encoded_at_def)
qed

lemma values_read:
  assumes "load m buf n = Some bs" "0 \<le> pos" "encoded_at bs pos ts"
    "nat pos + length (enc_tlvs ts) \<le> n"
  shows "map (param_value m) (read_params buf pos ts) = map Some ts"
  using assms
proof (induction ts arbitrary: pos)
  case (Cons t ts)
  then have "param_value m (read_param buf pos t) = Some t"
    by (intro param_value_read [OF _ Cons.prems(1)]) (auto simp: encoded_at_Cons)
  with Cons show ?case
    by (simp add: encoded_at_Cons nat_add_distrib)
qed simp

lemma get_params_unfold:
  assumes "load m buf (nat bufSize) = Some bs" "2 \<le> bufSize" "bufSize < 2 ^ 31" "0 \<le> numParams"
  shows "af_rpc_get_params_from_buffer m (Some ps) numParams buf bufSize permissive =
    (if int (used bs) > bufSize then Some (Some ps, AF_RPC_ERR_BAD_TLV)
     else (case get_params_loop m buf (int (used bs)) numParams permissive ps 0 2 of
        None \<Rightarrow> None
      | Some (ps', Inl e) \<Rightarrow> Some (Some ps', e)
      | Some (ps', Inr (param, pos)) \<Rightarrow>
          Some (Some ps',
            if permissive = 0 \<and> int param \<noteq> numParams then AF_RPC_ERR_WRONG_NUM_PARAMS
            else if pos \<noteq> bufSize then AF_RPC_ERR_BAD_TLV
            else int param)))"
proof -
  have "2 \<le> nat bufSize" using assms(2) by simp
  then show ?thesis
    using assms uint_of_used [OF assms(1)] load_not_null [OF assms(1)]
    by (simp add: af_rpc_get_params_from_buffer_def LENGTH_SIZE_def)
qed

lemma get_params_ok:
  assumes "msg_in m buf (int (msg_len ts)) ts" "length ts \<le> n" "n \<le> length qs"
    and "permissive = 0 \<longrightarrow> n = length ts \<and> all_accepted qs ts"
  shows "af_rpc_get_params_from_buffer m (Some qs) (int n) buf (int (msg_len ts)) permissive =
      Some (Some (poke qs 0 (read_params buf 2 ts)), int (length ts))"
    and "map (param_value m) (read_params buf 2 ts) = map Some ts"
proof -
  obtain bs where bs: "load m buf (msg_len ts) = Some bs" "holds bs ts" "list_all tlv_wf ts"
    "used bs = msg_len ts"
    using assms(1) by (rule msg_inE) simp
  then have small: "msg_len ts < 2 ^ 16" by (simp add: holds_def)
  have enc: "encoded_at bs 2 ts" using bs by (intro encoded_message)
  have len: "2 + int (length (enc_tlvs ts)) = int (msg_len ts)" by (simp add: msg_len_def)
  have loop: "get_params_loop m buf (int (msg_len ts)) (int n) permissive qs 0 2 =
      Some (poke qs 0 (read_params buf 2 ts), Inr (0 + length ts, int (msg_len ts)))"
    using assms(2-4) small by (intro get_params_loop_ok [OF bs(1) _ _ _ enc len]) auto
  show "af_rpc_get_params_from_buffer m (Some qs) (int n) buf (int (msg_len ts)) permissive =
      Some (Some (poke qs 0 (read_params buf 2 ts)), int (length ts))"
    using get_params_unfold [of m buf "int (msg_len ts)" bs "int n" qs permissive] loop bs
      small msg_len_ge [of ts] assms(4) by auto
  show "map (param_value m) (read_params buf 2 ts) = map Some ts"
    using bs(1) enc by (intro values_read) (auto simp: msg_len_def)
qed

section \<open>The batch interface\<close>

text \<open>A memory for the examples: a zeroed buffer of 16 bytes and the string \<^verbatim>\<open>abc\<close>.\<close>

definition example_mem :: mem where
  "example_mem = [0 \<mapsto> replicate 16 0, 1 \<mapsto> [0x61, 0x62, 0x63]]"

definition example_params :: "af_rpc_param list" where
  "example_params = [\<lparr>base = VInt 0x1234, ptype = 0xA000\<rparr>, \<lparr>base = VPtr 1 0, ptype = 0x4003\<rparr>]"

definition example_values :: "tlv list" where
  "example_values = [TU16 0x1234, TBlob True [0x61, 0x62, 0x63]]"

definition empty_slots :: "nat \<Rightarrow> af_rpc_param list" where
  "empty_slots n = replicate n \<lparr>base = NULL, ptype = 0\<rparr>"

lemma example_facts:
  "load example_mem (VPtr 0 0) (nat 16) = Some (replicate 16 0)"
  "map (param_value example_mem) example_params = map Some example_values"
  "\<forall>p \<in> set example_params. param_apart (VPtr 0 0) (nat 16) p"
  "msg_len example_values = 11" "length example_params = 2" "length example_values = 2"
  by code_simp+

lemma create_then_get:
  assumes "load m buf (nat bufSize) = Some bs" "2 \<le> bufSize" "bufSize < 2 ^ 31"
    and "map (param_value m) ps = map Some ts"
    and "\<forall>p \<in> set ps. param_apart buf (nat bufSize) p"
    and "int (msg_len ts) \<le> bufSize" "msg_len ts < 2 ^ 16"
    and "length ts \<le> n" "n \<le> length qs"
    and "permissive = 0 \<longrightarrow> n = length ts \<and> all_accepted qs ts"
  shows "\<exists>m' qs'.
    af_rpc_create_buffer_with_params m buf bufSize (Some ps) (int (length ps)) =
      Some (m', int (msg_len ts)) \<and>
    af_rpc_get_params_from_buffer m' (Some qs) (int n) buf (int (msg_len ts)) permissive =
      Some (Some qs', int (length ts)) \<and>
    map (param_value m') (take (length ts) qs') = map Some ts \<and>
    drop (length ts) qs' = drop (length ts) qs"
proof -
  let ?bs = "write_msg bs ts"
  let ?m = "overwrite m buf ?bs"
  have len: "msg_len ts \<le> length bs" "length bs = nat bufSize"
    using assms(6) length_load [OF assms(1)] by auto
  have wf: "list_all tlv_wf ts"
    using assms(4) param_value_wf
    by (metis (no_types, lifting) in_set_conv_nth length_map list_all_iff nth_map)
  have ld: "load ?m buf (nat bufSize) = Some ?bs"
    using assms(1) len by (simp add: load_overwrite write_msg_def)
  have holds: "holds ?bs ts" using len(1) assms(7) by (rule holds_write_msg)
  then have "holds (take (msg_len ts) ?bs) ts" using len by (simp add: holds_def)
  then have "msg_in ?m buf (int (msg_len ts)) ts"
    using load_le [OF ld] len wf by (simp add: msg_in_def)
  note read = get_params_ok [OF this assms(8-10)]
  have "take (length ts) (poke qs 0 (read_params buf 2 ts)) = read_params buf 2 ts"
    "drop (length ts) (poke qs 0 (read_params buf 2 ts)) = drop (length ts) qs"
    using assms(8,9) by (simp_all add: poke_def)
  with read create_ok [OF assms(1-6)] show ?thesis by auto
qed

text \<open>
  C1. Round trip of the batch interface. If the parameters denote the values \<open>ts\<close> and their
  message fits the buffer and a 16-bit length, \<^verbatim>\<open>af_rpc_create_buffer_with_params\<close> returns the
  message's length, and \<^verbatim>\<open>af_rpc_get_params_from_buffer\<close> on the written bytes returns the number
  of values and fills the array with parameters that denote exactly \<open>ts\<close>: in permissive mode
  whenever the array has enough entries, in strict mode when it has the expected types.
\<close>

theorem create_get_roundtrip:
  assumes "load m buf (nat bufSize) = Some bs" "2 \<le> bufSize" "bufSize < 2 ^ 31"
    and "map (param_value m) ps = map Some ts"
    and "\<forall>p \<in> set ps. param_apart buf (nat bufSize) p"
    and "int (msg_len ts) \<le> bufSize" "msg_len ts < 2 ^ 16"
    and "length ts \<le> n" "n \<le> length qs"
    and "permissive = 0 \<longrightarrow> n = length ts \<and> all_accepted qs ts"
  shows "\<exists>m' qs'.
    af_rpc_create_buffer_with_params m buf bufSize (Some ps) (int (length ps)) =
      Some (m', int (msg_len ts)) \<and>
    af_rpc_get_params_from_buffer m' (Some qs) (int n) buf (int (msg_len ts)) permissive =
      Some (Some qs', int (length ts)) \<and>
    map (param_value m') (take (length ts) qs') = map Some ts \<and>
    drop (length ts) qs' = drop (length ts) qs"
  using assms by (rule create_then_get)

theorem create_get_roundtrip_example:
  "\<exists>m' qs'.
    af_rpc_create_buffer_with_params example_mem (VPtr 0 0) 16 (Some example_params) 2 = Some (m', 11) \<and>
    af_rpc_get_params_from_buffer m' (Some (empty_slots 3)) 3 (VPtr 0 0) 11 1 = Some (Some qs', 2) \<and>
    map (param_value m') (take 2 qs') = map Some example_values \<and>
    drop 2 qs' = drop 2 (empty_slots 3)"
  using create_get_roundtrip [OF example_facts(1) _ _ example_facts(2,3), of 3 "empty_slots 3" 1]
  by (simp add: example_facts empty_slots_def)

text \<open>
  C2. The batch writer refines the abstract operation: it writes exactly the encoding of the
  denoted values at the start of the buffer and touches no other byte of memory, or, if the
  encoding does not fit, it returns \<^verbatim>\<open>AF_RPC_ERR_BUFFER_OVERFLOW\<close> and leaves the length field
  and everything outside the buffer as it was.
\<close>

theorem create_refines:
  assumes "load m buf (nat bufSize) = Some bs" "2 \<le> bufSize" "bufSize < 2 ^ 31"
    and "map (param_value m) ps = map Some ts"
    and "\<forall>p \<in> set ps. param_apart buf (nat bufSize) p"
  shows "\<exists>bs'. length bs' = length bs \<and>
    af_rpc_create_buffer_with_params m buf bufSize (Some ps) (int (length ps)) =
      Some (overwrite m buf bs',
        if int (msg_len ts) \<le> bufSize then int (msg_len ts) else AF_RPC_ERR_BUFFER_OVERFLOW) \<and>
    (if int (msg_len ts) \<le> bufSize then bs' = write_msg bs ts else take 2 bs' = take 2 bs)"
proof (cases "int (msg_len ts) \<le> bufSize")
  case True
  then have "length (write_msg bs ts) = length bs"
    using length_load [OF assms(1)] by (simp add: write_msg_def)
  then show ?thesis using create_ok [OF assms True] True by auto
next
  case False
  then show ?thesis using create_full [OF assms] by auto
qed

theorem create_refines_example:
  "\<exists>bs'. length bs' = 10 \<and>
    af_rpc_create_buffer_with_params example_mem (VPtr 0 0) 10 (Some example_params) 2 =
      Some (overwrite example_mem (VPtr 0 0) bs', AF_RPC_ERR_BUFFER_OVERFLOW) \<and> take 2 bs' = [0, 0]"
proof -
  have "load example_mem (VPtr 0 0) (nat 10) = Some (replicate 10 0)"
    "\<forall>p \<in> set example_params. param_apart (VPtr 0 0) (nat 10) p" by code_simp+
  from create_refines [OF this(1) _ _ example_facts(2) this(2)]
  show ?thesis by (simp add: example_facts numeral_eq_Suc)
qed

text \<open>
  C3. The reader is safe and total on arbitrary bytes: if the buffer has the announced number of
  bytes and the array the announced number of entries, it makes only valid accesses, keeps
  the array's length, and returns a count between 0 and \<^verbatim>\<open>numParams\<close> or one of its errors.
\<close>

theorem get_params_safe:
  assumes "load m buf (nat bufSize) \<noteq> None" "bufSize < 2 ^ 31" "numParams \<le> int (length ps)"
  shows "\<exists>ps' r. af_rpc_get_params_from_buffer m (Some ps) numParams buf bufSize permissive = Some (Some ps', r) \<and>
    length ps' = length ps \<and>
    (r \<in> {AF_RPC_ERR_BAD_PARAM, AF_RPC_ERR_BAD_TLV, AF_RPC_ERR_BAD_TYPE, AF_RPC_ERR_WRONG_NUM_PARAMS}
     \<or> 0 \<le> r \<and> r \<le> numParams)"
proof (cases "numParams < 0 \<or> bufSize \<le> 1")
  case True
  then show ?thesis
    using load_not_null assms(1)
    by (cases "bufSize = 1") (auto simp: af_rpc_get_params_from_buffer_def rpc_sizes)
next
  case False
  then have size: "2 \<le> bufSize" "0 \<le> numParams" by auto
  obtain bs where bs: "load m buf (nat bufSize) = Some bs" using assms(1) by blast
  note run = get_params_unfold [OF bs size(1) assms(2) size(2), of ps permissive]
  show ?thesis
  proof (cases "int (used bs) \<le> bufSize")
    case True
    have "int (used bs) \<le> int (nat bufSize)" "int (used bs) < 2 ^ 16"
      using True size used_less [of bs] by auto
    note cases = get_params_loop_cases [OF bs _ this, where pos = 2 and numParams = numParams
        and params = ps and permissive = permissive and param = 0]
    show ?thesis
    proof (rule cases, goal_cases)
      case (5 ps' e)
      with size show ?case by (auto simp: run)
    next
      case (6 ts)
      then have "length (poke ps 0 (read_params buf 2 ts)) = length ps"
        using assms(3) by (cases ts) auto
      then show ?case using 6 size by (cases ts) (auto simp: run)
    qed (use assms(3) in auto)
  next
    case False
    then show ?thesis by (simp add: run)
  qed
qed

theorem get_params_safe_example:
  "\<exists>ps' r. af_rpc_get_params_from_buffer [0 \<mapsto> [0, 9, 0xFF, 0xFF]] (Some (empty_slots 1)) 1 (VPtr 0 0) 4 0 =
      Some (Some ps', r) \<and> length ps' = 1 \<and>
    (r \<in> {AF_RPC_ERR_BAD_PARAM, AF_RPC_ERR_BAD_TLV, AF_RPC_ERR_BAD_TYPE, AF_RPC_ERR_WRONG_NUM_PARAMS}
     \<or> 0 \<le> r \<and> r \<le> 1)"
  using get_params_safe [of "[0 \<mapsto> [0, 9, 0xFF, 0xFF]]" "VPtr 0 0" 4 1 "empty_slots 1" 0]
  by (simp add: load_def empty_slots_def)

text \<open>
  C4. The reader is sound on arbitrary bytes: a positive return value \<open>r\<close> means that the
  bytes are exactly a message of \<open>r\<close> well-formed values, and the array's first \<open>r\<close> entries
  denote them; in strict mode \<open>r\<close> is the expected number and the types are the expected ones.
\<close>

theorem get_params_sound:
  assumes "load m buf (nat bufSize) = Some bs" "bufSize < 2 ^ 31" "numParams \<le> int (length ps)"
    and "af_rpc_get_params_from_buffer m (Some ps) numParams buf bufSize permissive = Some (Some ps', r)"
    and "0 < r"
  shows "\<exists>ts. bs = enc_msg ts \<and> msg_in m buf bufSize ts \<and> r = int (length ts) \<and>
    map (param_value m) (take (length ts) ps') = map Some ts \<and>
    drop (length ts) ps' = drop (length ts) ps \<and>
    (permissive = 0 \<longrightarrow> r = numParams \<and> all_accepted ps ts)"
proof -
  have size: "2 \<le> bufSize" "0 \<le> numParams"
    using assms(4,5) load_not_null [OF assms(1)] csize_le [of bufSize]
    by (auto simp: af_rpc_get_params_from_buffer_def rpc_errs rpc_sizes split: if_splits)
  note run = get_params_unfold [OF assms(1) size(1) assms(2) size(2), of ps permissive]
  have used: "int (used bs) \<le> bufSize"
    using assms(4,5) by (auto simp: run rpc_errs split: if_splits)
  then have "int (used bs) \<le> int (nat bufSize)" "int (used bs) < 2 ^ 16"
    using size used_less [of bs] by auto
  note cases = get_params_loop_cases [OF assms(1) _ this, where pos = 2 and numParams = numParams
      and params = ps and permissive = permissive and param = 0]
  show ?thesis
  proof (rule cases, goal_cases)
    case (5 ps' e)
    with assms(4,5) used show ?case by (auto simp: run rpc_errs)
  next
    case (6 ts)
    from 6(1) assms(4,5) used
    have end': "2 + int (length (enc_tlvs ts)) = bufSize" "r = int (length ts)"
      "ps' = poke ps 0 (read_params buf 2 ts)" "permissive = 0 \<longrightarrow> r = numParams"
      by (auto simp: run rpc_errs split: if_splits)
    have len: "used bs = msg_len ts" "msg_len ts = length bs" "nat bufSize = msg_len ts"
      using 6(4) end'(1,2) assms(5) used length_load [OF assms(1)]
      by (auto simp: msg_len_def split: if_splits)
    have msg: "holds bs ts" "list_all tlv_wf ts" using message_encoded [OF 6(2)] len by auto
    have "map (param_value m) (read_params buf 2 ts) = map Some ts"
      using len by (intro values_read [OF assms(1) _ 6(2)]) (auto simp: msg_len_def)
    moreover have "length ts \<le> length ps" using 6(3) assms(3) by (cases ts) auto
    ultimately have out: "map (param_value m) (take (length ts) ps') = map Some ts"
      "drop (length ts) ps' = drop (length ts) ps"
      unfolding end'(3) by (simp_all add: poke_def)
    have "take (length bs) bs = enc_msg ts" using msg(1) len(2) by (simp add: holds_def)
    then have "bs = enc_msg ts" by simp
    moreover have "msg_in m buf bufSize ts" using msg assms(1) by (simp add: msg_in_def)
    ultimately show ?case
      using out end'(2,4) 6(5) unfolding drop_0 by blast
  qed (use assms(3) in auto)
qed

definition example_mem' :: mem where
  "example_mem' = [0 \<mapsto> [0, 11, 0xA0, 0, 0x12, 0x34, 0x40, 3, 0x61, 0x62, 0x63]]"

lemma example_read:
  "load example_mem' (VPtr 0 0) (nat 11) = Some [0, 11, 0xA0, 0, 0x12, 0x34, 0x40, 3, 0x61, 0x62, 0x63]"
  "af_rpc_get_params_from_buffer example_mem' (Some (empty_slots 2)) 2 (VPtr 0 0) 11 1 =
    Some (Some [\<lparr>base = VInt 0x1234, ptype = 0xA000\<rparr>, \<lparr>base = VPtr 0 8, ptype = 0x4003\<rparr>], 2)"
  by code_simp+

theorem get_params_sound_example:
  "\<exists>ts. [0, 11, 0xA0, 0, 0x12, 0x34, 0x40, 3, 0x61, 0x62, 0x63] = enc_msg ts \<and>
    msg_in example_mem' (VPtr 0 0) 11 ts \<and> length ts = 2"
  using get_params_sound [OF example_read(1) _ _ example_read(2)] by (auto simp: empty_slots_def)

lemma example_in: "msg_in example_mem' (VPtr 0 0) 11 example_values"
proof -
  have "enc_msg example_values = [0, 11, 0xA0, 0, 0x12, 0x34, 0x40, 3, 0x61, 0x62, 0x63]"
    "list_all tlv_wf example_values" by code_simp+
  then show ?thesis
    using example_read(1) by (simp add: msg_in_def holds_def example_facts)
qed

text \<open>
  A message with more values than the array has entries is not reported: the reader logs
  the error and returns 0, the value that also means an empty message.
\<close>

theorem get_params_too_many:
  assumes "msg_in m buf (int (msg_len ts)) ts" "n < length ts" "n \<le> length qs"
    and "permissive = 0 \<longrightarrow> all_accepted qs (take n ts)"
  shows "\<exists>qs'. length qs' = length qs \<and>
    af_rpc_get_params_from_buffer m (Some qs) (int n) buf (int (msg_len ts)) permissive =
      Some (Some qs', 0)"
proof -
  obtain bs where bs: "load m buf (msg_len ts) = Some bs" "holds bs ts" "list_all tlv_wf ts"
    "used bs = msg_len ts"
    using assms(1) by (rule msg_inE) simp
  then have small: "msg_len ts < 2 ^ 16" by (simp add: holds_def)
  have enc: "encoded_at bs 2 ts" using bs by (intro encoded_message)
  have len: "2 + int (length (enc_tlvs ts)) = int (msg_len ts)" by (simp add: msg_len_def)
  have "\<exists>qs'. length qs' = length qs \<and>
      get_params_loop m buf (int (msg_len ts)) (int n) permissive qs 0 2 = Some (qs', Inl 0)"
    using assms(2-4) small
    by (intro get_params_loop_many [OF bs(1) _ _ _ enc len]) auto
  then show ?thesis
    using get_params_unfold [of m buf "int (msg_len ts)" bs "int n" qs permissive] bs
      small msg_len_ge [of ts] by auto
qed

theorem get_params_too_many_example:
  "\<exists>qs'. length qs' = 1 \<and>
    af_rpc_get_params_from_buffer example_mem' (Some (empty_slots 1)) 1 (VPtr 0 0) 11 1 = Some (Some qs', 0)"
proof -
  have "msg_in example_mem' (VPtr 0 0) (int (msg_len example_values)) example_values"
    using example_in by (simp add: example_facts)
  from get_params_too_many [OF this, of 1 "empty_slots 1" 1] show ?thesis
    by (simp add: example_facts empty_slots_def)
qed

text \<open>
  The macros. \<open>set_param\<close> sets a parameter for a value whose bytes, if it is a blob, lie at \<open>p\<close>;
  \<open>get_param\<close> reads a parameter back with the macro of the value's type.
\<close>

fun set_param :: "ptr \<Rightarrow> tlv \<Rightarrow> af_rpc_param" where
  "set_param p (TU8 v) = AF_RPC_SET_PARAM_AS_UINT8 v"
| "set_param p (TU16 v) = AF_RPC_SET_PARAM_AS_UINT16 v"
| "set_param p (TU32 v) = AF_RPC_SET_PARAM_AS_UINT32 v"
| "set_param p (TI8 v) = AF_RPC_SET_PARAM_AS_INT8 v"
| "set_param p (TI16 v) = AF_RPC_SET_PARAM_AS_INT16 v"
| "set_param p (TI32 v) = AF_RPC_SET_PARAM_AS_INT32 v"
| "set_param p (TBlob s xs) = (if s then AF_RPC_SET_PARAM_AS_STRING p (int (length xs))
     else AF_RPC_SET_PARAM_AS_BLOB p (int (length xs)))"

fun get_param :: "mem \<Rightarrow> af_rpc_param \<Rightarrow> tlv \<Rightarrow> tlv option" where
  "get_param m p (TU8 _) = map_option TU8 (AF_RPC_GET_UINT8_PARAM p)"
| "get_param m p (TU16 _) = map_option TU16 (AF_RPC_GET_UINT16_PARAM p)"
| "get_param m p (TU32 _) = map_option TU32 (AF_RPC_GET_UINT32_PARAM p)"
| "get_param m p (TI8 _) = map_option TI8 (AF_RPC_GET_INT8_PARAM p)"
| "get_param m p (TI16 _) = map_option TI16 (AF_RPC_GET_INT16_PARAM p)"
| "get_param m p (TI32 _) = map_option TI32 (AF_RPC_GET_INT32_PARAM p)"
| "get_param m p (TBlob s xs) =
     (if xs = [] then Some (TBlob s [])
      else map_option (TBlob s) (load m (AF_RPC_GET_BLOB_PARAM p) (length xs)))"

fun at_ptr :: "mem \<Rightarrow> ptr \<Rightarrow> tlv \<Rightarrow> bool" where
  "at_ptr m p (TBlob s xs) \<longleftrightarrow> xs = [] \<or> load m p (length xs) = Some xs"
| "at_ptr m p _ \<longleftrightarrow> True"

lemma ucast_scast_id [simp]:
  "(ucast (scast (w :: u16) :: u64) :: u16) = w" "(ucast (scast (x :: u32) :: u64) :: u32) = x"
  by (rule bit_word_eqI; auto simp: bit_simps)+

lemma ptype_blob:
  "ucast (word_of_int (int n) AND 0x3fff :: u32) = (word_of_int (int n) AND 0x3fff :: u16)"
proof -
  have m32: "(0x3fff :: u32) = mask 14" by (simp add: mask_eq_exp_minus_1)
  show ?thesis unfolding mask14 m32 by (intro bit_word_eqI) (auto simp: bit_simps)
qed

lemma set_param_type: "ucast (ptype (set_param p t)) = tlv_type t"
proof (cases t)
  case (TBlob s xs)
  have "ucast (ucast AF_RPC_TYPE_FLAG_BLOB_IS_STRING OR w :: u32) = (ucast w OR AF_RPC_TYPE_FLAG_BLOB_IS_STRING :: u16)" for w
    by (rule bit_word_eqI) (auto simp: bit_simps)
  from this [of "word_of_int (int (length xs)) AND 0x3fff"] show ?thesis
    using TBlob ptype_blob [of "length xs"]
    by (simp add: set_params AF_RPC_TYPE_BLOB_def AF_RPC_TYPE_STRING_def)
qed (simp_all add: set_params)

lemma set_param_value:
  assumes "tlv_wf t" "at_ptr m p t"
  shows "param_value m (set_param p t) = Some t"
proof (cases t)
  case (TBlob s xs)
  have len: "length xs < 2 ^ 14" using assms(1) TBlob by (simp add: rpc_sizes)
  have base: "base (set_param p t) = p" using TBlob by (simp add: set_params)
  note bt = blob_types [OF len, where s = s and xs = xs]
  show ?thesis
    using TBlob bt assms(2) set_param_type [of p t] base
    by (auto simp: param_value_def Let_def simp del: tlv_type.simps set_param.simps)
qed (use set_param_type [of p t] in \<open>simp_all add: param_value_def set_params\<close>)

lemma get_param_value:
  assumes "param_value m q = Some t"
  shows "get_param m q t = Some t"
  using assms
proof (cases rule: param_value_cases)
  case (int w)
  with assms show ?thesis
    by (cases t) (auto simp: get_params param_value_def Let_def split: if_splits)
next
  case (blob s xs)
  then show ?thesis by (auto simp: get_params)
qed

text \<open>
  C8. The documented use of the library, end to end: parameters set with the macros, written
  as a message, read from it in permissive mode and accessed with the macros give the same
  values.
\<close>

theorem macros_roundtrip:
  assumes "load m buf (nat bufSize) = Some bs" "2 \<le> bufSize" "bufSize < 2 ^ 31"
    and "list_all2 (at_ptr m) as ts" "list_all tlv_wf ts"
    and "\<forall>p \<in> set (map2 set_param as ts). param_apart buf (nat bufSize) p"
    and "int (msg_len ts) \<le> bufSize" "msg_len ts < 2 ^ 16" "length ts \<le> length qs"
  shows "\<exists>m' qs'.
    af_rpc_create_buffer_with_params m buf bufSize (Some (map2 set_param as ts)) (int (length ts)) =
      Some (m', int (msg_len ts)) \<and>
    af_rpc_get_params_from_buffer m' (Some qs) (int (length qs)) buf (int (msg_len ts)) 1 =
      Some (Some qs', int (length ts)) \<and>
    (\<forall>i < length ts. get_param m' (qs' ! i) (ts ! i) = Some (ts ! i))"
proof -
  have len: "length as = length ts" using assms(4) by (rule list_all2_lengthD)
  have vals: "map (param_value m) (map2 set_param as ts) = map Some ts"
    using assms(4,5) set_param_value by (induction rule: list_all2_induct) auto
  have "length (map2 set_param as ts) = length ts" using len by simp
  with create_then_get [OF assms(1-3) vals assms(6-9) order_refl, of 1]
  obtain m' qs' where run:
    "af_rpc_create_buffer_with_params m buf bufSize (Some (map2 set_param as ts)) (int (length ts)) =
      Some (m', int (msg_len ts))"
    "af_rpc_get_params_from_buffer m' (Some qs) (int (length qs)) buf (int (msg_len ts)) 1 =
      Some (Some qs', int (length ts))"
    "map (param_value m') (take (length ts) qs') = map Some ts" by auto
  have "get_param m' (qs' ! i) (ts ! i) = Some (ts ! i)" if "i < length ts" for i
  proof (rule get_param_value)
    have "length (take (length ts) qs') = length ts" using run(3) by (metis length_map)
    then show "param_value m' (qs' ! i) = Some (ts ! i)"
      using that run(3) by (metis nth_map nth_take)
  qed
  with run show ?thesis by blast
qed

theorem macros_roundtrip_example:
  "\<exists>m' qs'.
    af_rpc_create_buffer_with_params example_mem (VPtr 0 0) 16
      (Some [AF_RPC_SET_PARAM_AS_INT8 0xFF, AF_RPC_SET_PARAM_AS_STRING (VPtr 1 0) 3]) 2 = Some (m', 10) \<and>
    af_rpc_get_params_from_buffer m' (Some (empty_slots 2)) 2 (VPtr 0 0) 10 1 = Some (Some qs', 2) \<and>
    (\<forall>i < 2. get_param m' (qs' ! i) ([TI8 0xFF, TBlob True [0x61, 0x62, 0x63]] ! i) =
      Some ([TI8 0xFF, TBlob True [0x61, 0x62, 0x63]] ! i))"
proof -
  let ?ts = "[TI8 0xFF, TBlob True [0x61, 0x62, 0x63]]" and ?as = "[NULL, VPtr 1 0]"
  have ps: "map2 set_param ?as ?ts = [AF_RPC_SET_PARAM_AS_INT8 0xFF, AF_RPC_SET_PARAM_AS_STRING (VPtr 1 0) 3]"
    by simp
  have "list_all2 (at_ptr example_mem) ?as ?ts" "list_all tlv_wf ?ts"
    "\<forall>p \<in> set (map2 set_param ?as ?ts). param_apart (VPtr 0 0) (nat 16) p" "msg_len ?ts = 10"
    by code_simp+
  from macros_roundtrip [OF example_facts(1) _ _ this(1-3), of "empty_slots 2"] this(4)
  show ?thesis unfolding ps by (simp add: empty_slots_def flip: numeral_2_eq_2)
qed

section \<open>The incremental interface\<close>

text \<open>One call of a writer, with the value the arguments denote.\<close>

datatype add_call = AddU8 byte | AddU16 u16 | AddU32 u32 | AddI8 byte | AddI16 u16 | AddI32 u32
  | AddBlob ptr int

fun rpc_add :: "mem \<Rightarrow> ptr \<Rightarrow> int \<Rightarrow> add_call \<Rightarrow> (mem \<times> int) option" where
  "rpc_add m buf n (AddU8 v) = af_rpc_add_uint8_to_buffer m buf n v"
| "rpc_add m buf n (AddU16 v) = af_rpc_add_uint16_to_buffer m buf n v"
| "rpc_add m buf n (AddU32 v) = af_rpc_add_uint32_to_buffer m buf n v"
| "rpc_add m buf n (AddI8 v) = af_rpc_add_int8_to_buffer m buf n v"
| "rpc_add m buf n (AddI16 v) = af_rpc_add_int16_to_buffer m buf n v"
| "rpc_add m buf n (AddI32 v) = af_rpc_add_int32_to_buffer m buf n v"
| "rpc_add m buf n (AddBlob p k) = af_rpc_add_blob_to_buffer m buf n p k"

fun add_denotes :: "mem \<Rightarrow> ptr \<Rightarrow> nat \<Rightarrow> add_call \<Rightarrow> tlv \<Rightarrow> bool" where
  "add_denotes m buf n (AddU8 v) t \<longleftrightarrow> t = TU8 v"
| "add_denotes m buf n (AddU16 v) t \<longleftrightarrow> t = TU16 v"
| "add_denotes m buf n (AddU32 v) t \<longleftrightarrow> t = TU32 v"
| "add_denotes m buf n (AddI8 v) t \<longleftrightarrow> t = TI8 v"
| "add_denotes m buf n (AddI16 v) t \<longleftrightarrow> t = TI16 v"
| "add_denotes m buf n (AddI32 v) t \<longleftrightarrow> t = TI32 v"
| "add_denotes m buf n (AddBlob p k) t \<longleftrightarrow> blob_arg m buf n (p, k) t"

text \<open>All the writers together satisfy the contract of each.\<close>

interpretation add_any: tlv_adder rpc_add add_denotes
proof unfold_locales
  fix m buf n v t assume "add_denotes m buf n v t"
  then show "tlv_wf t" using add_blob.src_wf by (cases v) auto
next
  fix m :: mem and buf v and bufSize :: int assume "buf = NULL \<or> bufSize \<le> 0"
  then show "rpc_add m buf bufSize v = Some (m, AF_RPC_ERR_BAD_PARAM)"
    by (cases v) (auto simp: add_ops)
next
  fix m buf v t assume "buf \<noteq> NULL" "add_denotes m buf 1 v t"
  then show "rpc_add m buf 1 v = Some (m, AF_RPC_ERR_BAD_TLV)"
    using add_u8.add_tiny add_u16.add_tiny add_u32.add_tiny add_i8.add_tiny add_i16.add_tiny
      add_i32.add_tiny add_blob.add_tiny by (cases v) auto
next
  fix m buf bufSize bs v t
  assume *: "load m buf (nat bufSize) = Some bs" "2 \<le> bufSize" "bufSize < 2 ^ 31"
    "add_denotes m buf (nat bufSize) v t"
  {
    assume "int (used bs + length (enc_tlv t)) > bufSize"
    with * show "rpc_add m buf bufSize v = Some (m, AF_RPC_ERR_BUFFER_OVERFLOW)"
      using add_u8.add_full add_u16.add_full add_u32.add_full add_i8.add_full add_i16.add_full
        add_i32.add_full add_blob.add_full by (cases v) auto
  next
    assume "int (used bs + length (enc_tlv t)) \<le> bufSize"
    with * show "rpc_add m buf bufSize v =
        Some (overwrite m buf (append_tlv bs t), int (used bs + length (enc_tlv t)))"
      using add_u8.add_fits add_u16.add_fits add_u32.add_fits add_i8.add_fits add_i16.add_fits
        add_i32.add_fits add_blob.add_fits by (cases v) auto
  }
qed

lemma add_denotes_frame:
  assumes "load m buf n = Some bs" "length bs' = n" "add_denotes m buf n c t"
  shows "add_denotes (overwrite m buf bs') buf n c t"
proof (cases c)
  case (AddBlob p k)
  with assms(3) have "blob_arg m buf n (p, k) t" by simp
  then have "blob_arg (overwrite m buf bs') buf n (p, k) t"
  proof (cases rule: blob_argE)
    case empty
    then show ?thesis by (simp add: blob_arg_def rpc_sizes)
  next
    case (some xs)
    then have "load (overwrite m buf bs') p (nat k) = Some xs"
      using assms(1,2) by (subst load_overwrite_other) auto
    with some show ?thesis by (simp add: blob_arg_def)
  qed
  with AddBlob show ?thesis by simp
qed (use assms(3) in simp_all)

text \<open>A client's sequence of writer calls, which it stops at the first error.\<close>

fun rpc_adds :: "mem \<Rightarrow> ptr \<Rightarrow> int \<Rightarrow> add_call list \<Rightarrow> int \<Rightarrow> (mem \<times> int) option" where
  "rpc_adds m buf n [] r = Some (m, r)"
| "rpc_adds m buf n (c # cs) r =
     do { (m, r) \<leftarrow> rpc_add m buf n c; if r < 0 then Some (m, r) else rpc_adds m buf n cs r }"

definition rpc_build :: "mem \<Rightarrow> ptr \<Rightarrow> int \<Rightarrow> add_call list \<Rightarrow> (mem \<times> int) option" where
  "rpc_build m buf n cs =
     do { (m, r) \<leftarrow> af_rpc_init_buffer m buf n; if r < 0 then Some (m, r) else rpc_adds m buf n cs r }"

lemma rpc_adds_ok:
  assumes "load m buf (nat bufSize) = Some bs" "2 \<le> bufSize" "bufSize < 2 ^ 16" "holds bs us"
    "list_all2 (add_denotes m buf (nat bufSize)) cs ts" "int (msg_len (us @ ts)) \<le> bufSize"
  shows "\<exists>bs'. rpc_adds m buf bufSize cs (int (msg_len us)) =
      Some (overwrite m buf bs', int (msg_len (us @ ts))) \<and> length bs' = length bs \<and>
    holds bs' (us @ ts) \<and> drop (msg_len (us @ ts)) bs' = drop (msg_len (us @ ts)) bs"
  using assms
proof (induction cs arbitrary: m bs us ts)
  case Nil
  then have "m = overwrite m buf bs" using overwrite_same by metis
  with Nil show ?case by auto
next
  case (Cons c cs)
  from Cons.prems(5) obtain t ts' where ts: "ts = t # ts'" "add_denotes m buf (nat bufSize) c t"
    "list_all2 (add_denotes m buf (nat bufSize)) cs ts'" by (auto simp: list_all2_Cons1)
  have eq: "us @ ts = (us @ [t]) @ ts'" using ts(1) by simp
  have fits: "int (msg_len (us @ [t])) \<le> bufSize" using Cons.prems(6) ts by (simp add: msg_len_def)
  obtain m1 bs1 where add: "rpc_add m buf bufSize c = Some (m1, int (msg_len (us @ [t])))"
    and m1: "load m1 buf (nat bufSize) = Some bs1" "m1 = overwrite m buf bs1"
    and bs1: "holds bs1 (us @ [t])" "drop (msg_len (us @ [t])) bs1 = drop (msg_len (us @ [t])) bs"
    using add_any.add_refines_append [OF Cons.prems(1,4,2,3) ts(2) fits] by metis
  have len: "length bs1 = nat bufSize" "length bs = nat bufSize"
    using m1(1) Cons.prems(1) by (auto dest: length_load)
  have den: "list_all2 (add_denotes m1 buf (nat bufSize)) cs ts'"
    unfolding m1(2)
    by (rule list_all2_mono [OF ts(3)]) (rule add_denotes_frame [OF Cons.prems(1) len(1)])
  have "int (msg_len ((us @ [t]) @ ts')) \<le> bufSize" using Cons.prems(6) ts by simp
  from Cons.IH [OF m1(1) Cons.prems(2,3) bs1(1) den this]
  obtain bs' where IH: "rpc_adds m1 buf bufSize cs (int (msg_len (us @ [t]))) =
      Some (overwrite m1 buf bs', int (msg_len (us @ ts)))" "length bs' = length bs1"
    "holds bs' (us @ ts)" "drop (msg_len (us @ ts)) bs' = drop (msg_len (us @ ts)) bs1"
    unfolding eq by blast
  have "overwrite m1 buf bs' = overwrite m buf bs'"
    unfolding m1(2) using IH(2) len by (intro overwrite_overwrite [OF Cons.prems(1)]) auto
  moreover have "drop (msg_len (us @ ts)) bs1 = drop (msg_len (us @ ts)) bs"
  proof -
    have ge: "msg_len (us @ ts) = (msg_len (us @ ts) - msg_len (us @ [t])) + msg_len (us @ [t])"
      using ts by (simp add: msg_len_def)
    show ?thesis by (subst (1 2) ge) (simp only: bs1(2) flip: drop_drop)
  qed
  ultimately show ?case using add IH len by auto
qed

lemma init_buffer_ok:
  assumes "load m buf (nat bufSize) = Some bs" "2 \<le> bufSize" "bufSize < 2 ^ 31"
  shows "af_rpc_init_buffer m buf bufSize = Some (overwrite m buf (poke bs 0 (be16 2)), 2)"
    and "holds (poke bs 0 (be16 2)) []"
proof -
  have n: "2 \<le> nat bufSize" using assms(2) by simp
  show "af_rpc_init_buffer m buf bufSize = Some (overwrite m buf (poke bs 0 (be16 2)), 2)"
    using assms load_not_null [OF assms(1)] setlen_slice [OF assms(1), of 0 "word_of_int 2"] n
    by (simp add: af_rpc_init_buffer_def LENGTH_SIZE_def)
  show "holds (poke bs 0 (be16 2)) []"
    using n length_load [OF assms(1)] by (intro holds_empty) simp
qed

text \<open>
  C5. Building a message call by call gives the same memory and the same return value as
  the batch writer on parameters that denote the same values.
\<close>

theorem build_equals_create:
  assumes "load m buf (nat bufSize) = Some bs" "2 \<le> bufSize" "bufSize < 2 ^ 16"
    and "list_all2 (add_denotes m buf (nat bufSize)) cs ts"
    and "map (param_value m) ps = map Some ts"
    and "\<forall>p \<in> set ps. param_apart buf (nat bufSize) p" "int (msg_len ts) \<le> bufSize"
  shows "rpc_build m buf bufSize cs =
    af_rpc_create_buffer_with_params m buf bufSize (Some ps) (int (length ps))"
proof -
  let ?bs = "poke bs 0 (be16 2)"
  let ?m = "overwrite m buf ?bs"
  have small: "bufSize < 2 ^ 31" using assms(3) by simp
  note init = init_buffer_ok [OF assms(1,2) small]
  have len: "length bs = nat bufSize" using assms(1) by (rule length_load)
  then have len': "length ?bs = nat bufSize" using assms(2) by simp
  have ld: "load ?m buf (nat bufSize) = Some ?bs" using assms(1) len' by (rule load_overwrite)
  have den: "list_all2 (add_denotes ?m buf (nat bufSize)) cs ts"
    by (rule list_all2_mono [OF assms(4)]) (rule add_denotes_frame [OF assms(1) len'])
  have "int (msg_len ([] @ ts)) \<le> bufSize" using assms(7) by simp
  from rpc_adds_ok [OF ld assms(2,3) init(2) den this]
  obtain bs' where bs': "rpc_adds ?m buf bufSize cs 2 = Some (overwrite ?m buf bs', int (msg_len ts))"
    "length bs' = length ?bs" "holds bs' ts" "drop (msg_len ts) bs' = drop (msg_len ts) ?bs"
    by auto
  have "drop (msg_len ts) ?bs = drop (msg_len ts) bs"
    using len assms(2) by (simp add: poke_def msg_len_def)
  then have "bs' = enc_msg ts @ drop (msg_len ts) bs"
    using bs'(3,4) append_take_drop_id [of "msg_len ts" bs'] by (simp add: holds_def)
  then have "bs' = write_msg bs ts" by (simp add: write_msg_def poke_def)
  moreover have "overwrite ?m buf bs' = overwrite m buf bs'"
    using bs'(2) len' by (intro overwrite_overwrite [OF assms(1)]) auto
  ultimately show ?thesis
    using init(1) bs'(1) create_ok [OF assms(1,2) small assms(5-7)] by (simp add: rpc_build_def)
qed

theorem build_equals_create_example:
  "rpc_build example_mem (VPtr 0 0) 16 [AddU16 0x1234, AddBlob (VPtr 1 0) 3] =
   af_rpc_create_buffer_with_params example_mem (VPtr 0 0) 16
     (Some [\<lparr>base = VInt 0x1234, ptype = 0xA000\<rparr>, \<lparr>base = VPtr 1 0, ptype = 3\<rparr>]) 2"
proof -
  let ?ts = "[TU16 0x1234, TBlob False [0x61, 0x62, 0x63]]"
  have "list_all2 (add_denotes example_mem (VPtr 0 0) (nat 16)) [AddU16 0x1234, AddBlob (VPtr 1 0) 3] ?ts"
    "map (param_value example_mem) [\<lparr>base = VInt 0x1234, ptype = 0xA000\<rparr>, \<lparr>base = VPtr 1 0, ptype = 3\<rparr>] =
      map Some ?ts"
    "\<forall>p \<in> set [\<lparr>base = VInt 0x1234, ptype = 0xA000\<rparr>, \<lparr>base = VPtr 1 0, ptype = 3\<rparr>].
      param_apart (VPtr 0 0) (nat 16) p" "int (msg_len ?ts) = 11" by code_simp+
  from build_equals_create [OF example_facts(1) _ _ this(1-3)] this(4) show ?thesis by simp
qed

text \<open>
  C6. One writer call on a buffer that holds a message either appends the value, in place and
  with the new length as result, or returns \<^verbatim>\<open>AF_RPC_ERR_BUFFER_OVERFLOW\<close> and changes nothing.
\<close>

theorem add_appends_or_overflows:
  assumes "load m buf (nat bufSize) = Some bs" "holds bs ts" "2 \<le> bufSize" "bufSize < 2 ^ 16"
    and "add_denotes m buf (nat bufSize) c t"
  shows "if int (msg_len (ts @ [t])) \<le> bufSize
    then \<exists>bs'. rpc_add m buf bufSize c = Some (overwrite m buf bs', int (msg_len (ts @ [t]))) \<and>
      length bs' = length bs \<and> holds bs' (ts @ [t]) \<and>
      drop (msg_len (ts @ [t])) bs' = drop (msg_len (ts @ [t])) bs
    else rpc_add m buf bufSize c = Some (m, AF_RPC_ERR_BUFFER_OVERFLOW)"
proof (cases "int (msg_len (ts @ [t])) \<le> bufSize")
  case True
  obtain m' bs' where "rpc_add m buf bufSize c = Some (m', int (msg_len (ts @ [t])))"
    "load m' buf (nat bufSize) = Some bs'" "holds bs' (ts @ [t])" "m' = overwrite m buf bs'"
    "drop (msg_len (ts @ [t])) bs' = drop (msg_len (ts @ [t])) bs"
    by (rule add_any.add_refines_append [OF assms True])
  moreover have "length bs' = length bs"
    using length_load [OF assms(1)] length_load [OF \<open>load m' buf _ = _\<close>] by simp
  ultimately show ?thesis using True by auto
next
  case False
  with add_any.add_full [OF assms(1,3) _ assms(5)] assms(4) show ?thesis
    by (simp add: holds_used [OF assms(2)])
qed

theorem add_appends_or_overflows_example:
  "rpc_add [0 \<mapsto> [0, 2, 0, 0]] (VPtr 0 0) 4 (AddU8 7) = Some ([0 \<mapsto> [0, 2, 0, 0]], AF_RPC_ERR_BUFFER_OVERFLOW)"
proof -
  have "load [0 \<mapsto> [0, 2, 0, 0]] (VPtr 0 0) (nat 4) = Some [0, 2, 0, 0]"
    "enc_msg [] = [0, 2]" "msg_len [TU8 7] = 5" by code_simp+
  moreover from this(2) have "holds [0, 2, 0, 0] []" by (simp add: holds_def)
  ultimately show ?thesis
    using add_appends_or_overflows [of "[0 \<mapsto> [0, 2, 0, 0]]" "VPtr 0 0" 4 "[0, 2, 0, 0]" "[]" "AddU8 7" "TU8 7"]
    by simp
qed

text \<open>
  A buffer of more than 65535 bytes: the overflow check is against the buffer's size, but
  the length field has 16 bits. A value that crosses that bound is accepted, with the new
  position as result, and the length field wraps: the message is lost.
\<close>

theorem add_wraps_length:
  assumes "load m buf (nat bufSize) = Some bs" "holds bs ts" "bufSize < 2 ^ 31"
    and "add_denotes m buf (nat bufSize) c t"
    and "2 ^ 16 \<le> msg_len (ts @ [t])" "int (msg_len (ts @ [t])) \<le> bufSize"
  shows "\<exists>bs'. rpc_add m buf bufSize c = Some (overwrite m buf bs', int (msg_len (ts @ [t]))) \<and>
    used bs' = msg_len (ts @ [t]) - 2 ^ 16 \<and> used bs' < used bs"
proof -
  let ?n = "msg_len ts + length (enc_tlv t)"
  have u: "used bs = msg_len ts" using assms(2) by (rule holds_used)
  have wf: "tlv_wf t" using assms(4) by (rule add_any.src_wf)
  have small: "length (enc_tlv t) \<le> 2 ^ 14 + 1" "msg_len ts < 2 ^ 16"
    using wf assms(2) by (cases t; simp add: length_enc_tlv rpc_sizes holds_def)+
  have "used (poke xs 0 (be16 w)) = unat w" for xs w by (simp add: used_def poke_def)
  then have "used (append_tlv bs t) = unat (word_of_nat ?n :: u16)"
    unfolding append_tlv_def u .
  also have "\<dots> = ?n mod 2 ^ 16" by (simp only: unat_of_nat) simp
  also have "\<dots> = ?n - 2 ^ 16"
    using assms(5) small by (simp add: mod_if)
  finally have "used (append_tlv bs t) = msg_len (ts @ [t]) - 2 ^ 16" by simp
  moreover have "rpc_add m buf bufSize c =
      Some (overwrite m buf (append_tlv bs t), int (msg_len (ts @ [t])))"
    using add_any.add_fits [OF assms(1) _ assms(3,4)] assms(5,6) by (simp add: u)
  ultimately show ?thesis using assms(5) small u by auto
qed

theorem add_wraps_length_example:
  "\<exists>m bs'. rpc_add m (VPtr 0 0) 70000 (AddU32 7) = Some (overwrite m (VPtr 0 0) bs', 65540) \<and>
    used bs' = 4"
proof -
  obtain xs :: "byte list" where xs: "length xs = 16381" by (metis Ex_list_of_length)
  obtain ys :: "byte list" where ys: "length ys = 70000 - 65534" by (metis Ex_list_of_length)
  let ?b = "TBlob False xs"
  let ?ts = "[?b, ?b, ?b, ?b]"
  let ?bs = "enc_msg ?ts @ ys"
  have len: "msg_len ?ts = 65534" "msg_len (?ts @ [TU32 7]) = 65540"
    by (simp_all add: msg_len_def length_enc_tlv xs)
  then have "holds ?bs ?ts" by (simp add: holds_def)
  moreover have "load [0 \<mapsto> ?bs] (VPtr 0 0) (nat 70000) = Some ?bs"
    using len ys by (simp add: load_def)
  ultimately show ?thesis
    using add_wraps_length [of "[0 \<mapsto> ?bs]" "VPtr 0 0" 70000 ?bs ?ts "AddU32 7" "TU32 7"] len
    by auto
qed

text \<open>The scalar readers by type, and the caller's object for a value.\<close>

datatype scalar = U8 | U16 | U32 | I8 | I16 | I32

fun scalar_type :: "scalar \<Rightarrow> u16" where
  "scalar_type U8 = AF_RPC_TYPE_UINT8" | "scalar_type U16 = AF_RPC_TYPE_UINT16"
| "scalar_type U32 = AF_RPC_TYPE_UINT32" | "scalar_type I8 = AF_RPC_TYPE_INT8"
| "scalar_type I16 = AF_RPC_TYPE_INT16" | "scalar_type I32 = AF_RPC_TYPE_INT32"

fun scalar_size :: "scalar \<Rightarrow> nat" where
  "scalar_size U8 = 1" | "scalar_size U16 = 2" | "scalar_size U32 = 4"
| "scalar_size I8 = 1" | "scalar_size I16 = 2" | "scalar_size I32 = 4"

fun rpc_get :: "scalar \<Rightarrow> mem \<Rightarrow> ptr \<Rightarrow> ptr \<Rightarrow> int \<Rightarrow> int \<Rightarrow> (mem \<times> int) option" where
  "rpc_get U8 = af_rpc_get_uint8_from_buffer_at_pos"
| "rpc_get U16 = af_rpc_get_uint16_from_buffer_at_pos"
| "rpc_get U32 = af_rpc_get_uint32_from_buffer_at_pos"
| "rpc_get I8 = af_rpc_get_int8_from_buffer_at_pos"
| "rpc_get I16 = af_rpc_get_int16_from_buffer_at_pos"
| "rpc_get I32 = af_rpc_get_int32_from_buffer_at_pos"

fun host_repr :: "tlv \<Rightarrow> byte list" where
  "host_repr (TU8 v) = [v]" | "host_repr (TU16 v) = bytes16 v" | "host_repr (TU32 v) = bytes32 v"
| "host_repr (TI8 v) = [v]" | "host_repr (TI16 v) = bytes16 v" | "host_repr (TI32 v) = bytes32 v"
| "host_repr (TBlob s xs) = xs"

lemma scalar_values:
  assumes "tlv_type t = scalar_type s" "tlv_wf t"
  obtains v where "s = U8" "t = TU8 v" | v where "s = U16" "t = TU16 v" | v where "s = U32" "t = TU32 v"
  | v where "s = I8" "t = TI8 v" | v where "s = I16" "t = TI16 v" | v where "s = I32" "t = TI32 v"
proof -
  have "AF_RPC_TYPE_IS_INTEGER (tlv_type t)" unfolding assms(1) by (cases s) simp_all
  then have "\<And>b xs. t \<noteq> TBlob b xs" using blob_types(1) [of 0] by auto
  with assms(1) that show thesis by (cases t; cases s) auto
qed

lemmas getters_nth = get_u8.get_nth get_u16.get_nth get_u32.get_nth
  get_i8.get_nth get_i16.get_nth get_i32.get_nth

text \<open>
  C7. The scalar readers on a buffer that holds a message: at the position of a value of its own
  type a reader stores exactly that value at the caller's pointer and returns the position of
  the next one; a value of another type is rejected and nothing is written. Position 0 stands
  for the first value.
\<close>

theorem get_scalar_at_value:
  assumes "msg_in m buf bufSize (ts @ t # us)" "bufSize < 2 ^ 31"
    and "load m valuep (scalar_size s) \<noteq> None"
    and "pos = int (msg_len ts) \<or> pos = 0 \<and> ts = []"
  shows "rpc_get s m valuep buf bufSize pos =
    (if tlv_type t = scalar_type s
     then Some (overwrite m valuep (host_repr t), int (msg_len (ts @ [t])))
     else if msg_len ts + 2 + scalar_size s \<le> msg_len (ts @ t # us)
     then Some (m, AF_RPC_ERR_BAD_TYPE) else Some (m, AF_RPC_ERR_BAD_TLV))"
proof -
  obtain bs where bs: "load m buf (nat bufSize) = Some bs" "holds bs (ts @ t # us)"
    "list_all tlv_wf (ts @ t # us)" "used bs = msg_len (ts @ t # us)"
    "msg_len (ts @ t # us) \<le> nat bufSize"
    using assms(1) by (rule msg_inE)
  note at = holds_at [OF bs(2)]
  have size: "2 < bufSize" using bs(5) at(2) msg_len_ge [of ts] by (simp add: length_enc_tlv)
  have used: "int (used bs) \<le> bufSize" using bs(4,5) size by linarith
  have vn: "valuep \<noteq> NULL" using assms(3) load_not_null by blast
  have p: "0 < msg_len ts" "msg_len ts \<le> used bs" using at(2) bs(4) by (auto simp: msg_len_def)
  have first: "rpc_get s m valuep buf bufSize 0 = rpc_get s m valuep buf bufSize 2"
    using get_u8.get_first get_u16.get_first get_u32.get_first get_i8.get_first
      get_i16.get_first get_i32.get_first by (cases s) auto
  have pos: "rpc_get s m valuep buf bufSize pos = rpc_get s m valuep buf bufSize (int (msg_len ts))"
    using assms(4) first by auto
  note pre = bs(1) size assms(2)
  show ?thesis
  proof (cases "tlv_type t = scalar_type s")
    case True
    have "tlv_wf t" using bs(3) by simp
    with True have "rpc_get s m valuep buf bufSize (int (msg_len ts)) =
        Some (overwrite m valuep (host_repr t), int (msg_len (ts @ [t])))"
    proof (cases rule: scalar_values)
    qed (use assms(3) bs(2) getters_nth [OF pre] in \<open>simp_all del: msg_len_simps\<close>)
    then show ?thesis using True by (simp add: pos)
  next
    case False
    have ty: "take 2 (drop (msg_len ts) bs) = be16 (tlv_type t)"
    proof -
      have "take 2 (drop (msg_len ts) bs) = take 2 (take (length (enc_tlv t)) (drop (msg_len ts) bs))"
        by (simp add: length_enc_tlv min_def)
      then show ?thesis unfolding at(1) by (simp add: enc_tlv_def)
    qed
    have other: "take 2 (drop (msg_len ts) bs) \<noteq> be16 (scalar_type s)"
      using False ty of_be_be(1) by metis
    show ?thesis
    proof (cases "msg_len ts + 2 + scalar_size s \<le> used bs")
      case True
      then have "rpc_get s m valuep buf bufSize (int (msg_len ts)) = Some (m, AF_RPC_ERR_BAD_TYPE)"
        using other get_u8.get_other [OF pre vn used p(1)] get_u16.get_other [OF pre vn used p(1)]
          get_u32.get_other [OF pre vn used p(1)] get_i8.get_other [OF pre vn used p(1)]
          get_i16.get_other [OF pre vn used p(1)] get_i32.get_other [OF pre vn used p(1)]
        by (cases s) (simp_all add: length_enc_tlv)
      then show ?thesis using True False bs(4) by (simp add: pos)
    next
      case short: False
      then have "rpc_get s m valuep buf bufSize (int (msg_len ts)) = Some (m, AF_RPC_ERR_BAD_TLV)"
        using get_u8.get_short [OF pre vn used p] get_u16.get_short [OF pre vn used p]
          get_u32.get_short [OF pre vn used p] get_i8.get_short [OF pre vn used p]
          get_i16.get_short [OF pre vn used p] get_i32.get_short [OF pre vn used p]
        by (cases s) (simp_all add: length_enc_tlv)
      then show ?thesis using short False bs(4) by (simp add: pos)
    qed
  qed
qed

theorem get_scalar_at_value_example:
  "rpc_get U16 (example_mem'(2 \<mapsto> [0, 0])) (VPtr 2 0) (VPtr 0 0) 11 0 =
     Some (overwrite (example_mem'(2 \<mapsto> [0, 0])) (VPtr 2 0) [0x34, 0x12], 6)"
proof -
  have "[TU16 0x1234] @ [TBlob True [0x61, 0x62, 0x63]] = example_values"
    by (simp add: example_values_def)
  moreover have "msg_in (example_mem'(2 \<mapsto> [0, 0])) (VPtr 0 0) 11 example_values"
    using example_in by (simp add: msg_in_def load_def)
  moreover have "msg_len ([] @ [TU16 0x1234]) = 6" "bytes16 0x1234 = [0x34, 0x12]" by code_simp+
  ultimately show ?thesis
    using get_scalar_at_value [of "example_mem'(2 \<mapsto> [0, 0])" "VPtr 0 0" 11 "[]" "TU16 0x1234"
        "[TBlob True [0x61, 0x62, 0x63]]" "VPtr 2 0" U16 0]
    by (simp add: load_def)
qed

text \<open>
  The scalar readers are safe on arbitrary bytes at every position that is not negative:
  all accesses are valid, a failure is one of three codes and leaves memory as it was, and
  otherwise the result is a position inside the buffer and one value was stored.
\<close>

theorem get_scalar_safe:
  assumes "load m buf (nat bufSize) \<noteq> None" "2 < bufSize" "bufSize < 2 ^ 31"
    and "load m valuep (scalar_size s) \<noteq> None" "0 \<le> pos" "pos < 2 ^ 31"
  shows "\<exists>m' r. rpc_get s m valuep buf bufSize pos = Some (m', r) \<and>
    (if r < 0 then m' = m \<and> r \<in> {AF_RPC_ERR_BAD_PARAM, AF_RPC_ERR_BAD_TYPE, AF_RPC_ERR_BAD_TLV}
     else r \<le> bufSize \<and> (\<exists>xs. length xs = scalar_size s \<and> m' = overwrite m valuep xs))"
proof -
  note pre = assms(1) _ assms(2,3,5,6)
  show ?thesis
    using assms(4) get_u8.get_safe [OF pre] get_u16.get_safe [OF pre] get_u32.get_safe [OF pre]
      get_i8.get_safe [OF pre] get_i16.get_safe [OF pre] get_i32.get_safe [OF pre]
    by (cases s) (simp_all split del: if_split cong: if_cong)
qed

theorem get_scalar_safe_example:
  "\<exists>m' r. rpc_get I32 [0 \<mapsto> [0, 9, 0xFF], 1 \<mapsto> [0, 0, 0, 0]] (VPtr 1 0) (VPtr 0 0) 3 7 = Some (m', r) \<and>
    (if r < 0 then m' = [0 \<mapsto> [0, 9, 0xFF], 1 \<mapsto> [0, 0, 0, 0]] \<and>
       r \<in> {AF_RPC_ERR_BAD_PARAM, AF_RPC_ERR_BAD_TYPE, AF_RPC_ERR_BAD_TLV}
     else r \<le> 3 \<and> (\<exists>xs. length xs = 4 \<and>
       m' = overwrite [0 \<mapsto> [0, 9, 0xFF], 1 \<mapsto> [0, 0, 0, 0]] (VPtr 1 0) xs))"
  using get_scalar_safe [of "[0 \<mapsto> [0, 9, 0xFF], 1 \<mapsto> [0, 0, 0, 0]]" "VPtr 0 0" 3 "VPtr 1 0" I32 7]
  by (simp add: load_def split del: if_split cong: if_cong)

text \<open>
  A negative position, such as the error code of an earlier call passed on, is not
  caught when it is close to 0: the comparison adds a \<^verbatim>\<open>size_t\<close>, so a position not below
  \<open>-(2 + size)\<close> passes it, and the reader accesses memory before the buffer.
\<close>

theorem get_scalar_negative_pos:
  assumes "load m (VPtr b 0) (nat bufSize) = Some bs" "2 < bufSize" "bufSize < 2 ^ 31"
    and "valuep \<noteq> NULL" "2 + scalar_size s \<le> used bs" "int (used bs) \<le> bufSize"
    and "- (2 ^ 31) \<le> pos" "pos < 0"
  shows "rpc_get s m valuep (VPtr b 0) bufSize pos =
    (if - int (2 + scalar_size s) \<le> pos then None else Some (m, AF_RPC_ERR_BAD_TLV))"
proof -
  note pre = assms(1-4) _ assms(6) refl assms(7,8)
  show ?thesis
    using assms(5) get_u8.get_before [OF pre] get_u16.get_before [OF pre] get_u32.get_before [OF pre]
      get_i8.get_before [OF pre] get_i16.get_before [OF pre] get_i32.get_before [OF pre]
    by (cases s) (simp_all add: length_enc_tlv)
qed

theorem get_scalar_negative_pos_example:
  "rpc_get U16 example_mem' (VPtr 2 0) (VPtr 0 0) 11 AF_RPC_ERR_BAD_TLV = None"
proof -
  have "used [0, 11, 0xA0, 0, 0x12, 0x34, 0x40, 3, 0x61, 0x62, 0x63] = 11" by code_simp
  then show ?thesis
    using get_scalar_negative_pos [OF example_read(1), of "VPtr 2 0" U16 "-4"]
    by (simp add: NULL_def rpc_errs)
qed

text \<open>
  The blob reader at the position of a blob copies exactly its bytes, stores its size and
  returns the next position; a caller's buffer that is too small is reported and unchanged.
\<close>

theorem get_blob_at_value:
  assumes "msg_in m buf bufSize (ts @ TBlob s xs # us)" "bufSize < 2 ^ 31"
    and "load_int m blobSizep = Some maxSize" "0 < maxSize" "load m blob (nat maxSize) \<noteq> None"
    and "\<not> overlaps blob (nat maxSize) buf (nat bufSize)"
  shows "af_rpc_get_blob_with_length_from_buffer_at_pos m blob blobSizep buf bufSize (int (msg_len ts)) =
    (if int (length xs) \<le> maxSize
     then map_option (\<lambda>m'. (m', int (msg_len (ts @ [TBlob s xs]))))
       (store_int (overwrite m blob xs) blobSizep (int (length xs)))
     else Some (m, AF_RPC_ERR_BUFFER_OVERFLOW))"
proof -
  let ?t = "TBlob s xs"
  obtain bs where bs: "load m buf (nat bufSize) = Some bs" "holds bs (ts @ ?t # us)"
    "list_all tlv_wf (ts @ ?t # us)" "used bs = msg_len (ts @ ?t # us)"
    "msg_len (ts @ ?t # us) \<le> nat bufSize"
    using assms(1) by (rule msg_inE)
  note at = holds_at [OF bs(2)]
  have size: "2 < bufSize" using bs(5) at(2) msg_len_ge [of ts] by (simp add: length_enc_tlv)
  have xs: "length xs < 2 ^ 14" using bs(3) by (simp add: rpc_sizes)
  show ?thesis
  proof (cases "int (length xs) \<le> maxSize")
    case True
    then have "length xs \<le> nat maxSize" by simp
    then have vb: "load m blob (length xs) \<noteq> None" using assms(5) load_le by blast
    have "load m blobSizep 4 \<noteq> None" using assms(3) by (auto simp: load_int_def)
    then obtain m' where m': "store_int (overwrite m blob xs) blobSizep (int (length xs)) = Some m'"
      using overwrite_valid [OF vb] by (auto simp: store_int_def store_valid)
    from get_blob_found [OF bs(1) size assms(2-6) bs(2) xs True m'] True m' show ?thesis by simp
  next
    case False
    have fits: "msg_len ts + length (enc_tlv ?t) \<le> nat bufSize" using at(2) bs(5) by simp
    note ty = value_in_place(1) [OF bs(1) fits at(1)]
    note bt = blob_types [OF xs, where s = s and xs = xs]
    have isb: "AF_RPC_TYPE_IS_BLOB (tlv_type ?t)"
      using bt(1) by (simp add: AF_RPC_TYPE_IS_BLOB_def AF_RPC_TYPE_IS_INTEGER_def del: tlv_type.simps)
    have "blob \<noteq> NULL" using assms(5) load_not_null by blast
    moreover have "int (msg_len ts) = (if int (msg_len ts) = 0 then LENGTH_SIZE else int (msg_len ts))"
      by (simp add: msg_len_def)
    moreover have "int (used bs) \<le> bufSize" using bs(4,5) size by linarith
    ultimately show ?thesis
      using get_blob_run [OF bs(1) size assms(2,3) _ _ ty bt(3) [OF refl]] assms(4) False isb at(2) bs(4)
      by (simp add: length_enc_tlv del: tlv_type.simps)
  qed
qed

theorem get_blob_at_value_example:
  "af_rpc_get_blob_with_length_from_buffer_at_pos (example_mem'(2 \<mapsto> [8, 0, 0, 0], 3 \<mapsto> replicate 8 0))
     (VPtr 3 0) (VPtr 2 0) (VPtr 0 0) 11 6 =
   Some (example_mem'(2 \<mapsto> [3, 0, 0, 0], 3 \<mapsto> [0x61, 0x62, 0x63, 0, 0, 0, 0, 0]), 11)"
proof -
  let ?m = "example_mem'(2 \<mapsto> [8, 0, 0, 0], 3 \<mapsto> replicate 8 0)"
  have ts: "[TU16 0x1234] @ TBlob True [0x61, 0x62, 0x63] # [] = example_values"
    by (simp add: example_values_def)
  have "msg_in ?m (VPtr 0 0) 11 example_values"
    using example_in by (simp add: msg_in_def load_def)
  then have msg: "msg_in ?m (VPtr 0 0) 11 ([TU16 0x1234] @ TBlob True [0x61, 0x62, 0x63] # [])"
    by (simp only: ts)
  have "load_int ?m (VPtr 2 0) = Some 8" "msg_len [TU16 0x1234] = 6"
    "msg_len [TU16 0x1234, TBlob True [0x61, 0x62, 0x63]] = 11" by code_simp+
  moreover have "overwrite ?m (VPtr 3 0) [0x61, 0x62, 0x63] =
      example_mem'(2 \<mapsto> [8, 0, 0, 0], 3 \<mapsto> [0x61, 0x62, 0x63, 0, 0, 0, 0, 0])"
    by (simp add: overwrite_def poke_def numeral_eq_Suc)
  moreover have "store_int (example_mem'(2 \<mapsto> [8, 0, 0, 0], 3 \<mapsto> [0x61, 0x62, 0x63, 0, 0, 0, 0, 0])) (VPtr 2 0) 3 =
      Some (example_mem'(2 \<mapsto> [3, 0, 0, 0], 3 \<mapsto> [0x61, 0x62, 0x63, 0, 0, 0, 0, 0]))"
  proof -
    have "bytes32 3 = [3, 0, 0, 0]" by code_simp
    then show ?thesis
      by (simp add: store_int_def store_def load_def overwrite_def poke_def fun_upd_twist)
  qed
  ultimately show ?thesis
    using get_blob_at_value [OF msg, of "VPtr 2 0" 8 "VPtr 3 0"] by (simp add: load_def)
qed

text \<open>
  The blob reader at the end of a message that fills its buffer: the position is
  accepted, and the type word is read past the end of the buffer. (At the same position the
  scalar readers return \<^verbatim>\<open>AF_RPC_ERR_BAD_TLV\<close>.)
\<close>

theorem get_blob_past_end:
  assumes "msg_in m (VPtr b 0) bufSize ts" "int (msg_len ts) = bufSize" "2 < bufSize" "bufSize < 2 ^ 31"
    and "load m (VPtr b 0) (nat (bufSize + 2)) = None"
    and "load_int m blobSizep = Some maxSize" "0 < maxSize" "blob \<noteq> NULL"
    and "load m valuep (scalar_size s) \<noteq> None"
  shows "af_rpc_get_blob_with_length_from_buffer_at_pos m blob blobSizep (VPtr b 0) bufSize bufSize = None \<and>
    rpc_get s m valuep (VPtr b 0) bufSize bufSize = Some (m, AF_RPC_ERR_BAD_TLV)"
proof -
  obtain bs where bs: "load m (VPtr b 0) (nat bufSize) = Some bs" "used bs = msg_len ts"
    using assms(1) by (rule msg_inE)
  have used: "int (used bs) = bufSize" using bs(2) assms(2) by simp
  have vn: "valuep \<noteq> NULL" using assms(9) load_not_null by blast
  have le: "int (used bs) \<le> bufSize" and p: "0 < used bs" "used bs \<le> used bs"
    using used assms(3) by auto
  note pre = bs(1) assms(3,4) vn le p
  have "rpc_get s m valuep (VPtr b 0) bufSize (int (used bs)) = Some (m, AF_RPC_ERR_BAD_TLV)"
    using get_u8.get_short [OF pre] get_u16.get_short [OF pre] get_u32.get_short [OF pre]
      get_i8.get_short [OF pre] get_i16.get_short [OF pre] get_i32.get_short [OF pre]
    by (cases s) (simp_all add: length_enc_tlv)
  moreover have "af_rpc_get_blob_with_length_from_buffer_at_pos m blob blobSizep (VPtr b 0) bufSize bufSize = None"
    by (rule get_blob_at_end [OF bs(1) assms(3,4) used assms(5-8) refl])
  ultimately show ?thesis by (simp add: used)
qed

theorem get_blob_past_end_example:
  "af_rpc_get_blob_with_length_from_buffer_at_pos (example_mem'(2 \<mapsto> [8, 0, 0, 0], 3 \<mapsto> replicate 8 0))
     (VPtr 3 0) (VPtr 2 0) (VPtr 0 0) 11 11 = None"
proof -
  let ?m = "example_mem'(2 \<mapsto> [8, 0, 0, 0], 3 \<mapsto> replicate 8 0)"
  have msg: "msg_in ?m (VPtr 0 0) 11 example_values"
    using example_in by (simp add: msg_in_def load_def)
  have "load_int ?m (VPtr 2 0) = Some 8" by code_simp
  moreover have "load ?m (VPtr 0 0) (nat (11 + 2)) = None" "load ?m (VPtr 3 0) (scalar_size U8) \<noteq> None"
    by (simp_all add: load_def example_mem'_def)
  ultimately show ?thesis
    using get_blob_past_end [OF msg, of "VPtr 2 0" 8 "VPtr 3 0" "VPtr 3 0" U8]
    by (simp add: example_facts NULL_def)
qed

text \<open>
  \<^verbatim>\<open>af_rpc_init_buffer\<close> makes a buffer of at least two bytes hold the empty message; a size
  of 0 or 1 is rejected, but every negative size is accepted, because it is compared as a
  \<^verbatim>\<open>size_t\<close>.
\<close>

theorem init_buffer_behaviour:
  assumes "load m buf k = Some bs" "2 \<le> k" "- (2 ^ 31) \<le> bufSize" "bufSize < 2 ^ 31"
  shows "af_rpc_init_buffer m buf bufSize =
    (if bufSize = 0 \<or> bufSize = 1 then Some (m, AF_RPC_ERR_BAD_PARAM)
     else Some (overwrite m buf (poke bs 0 (be16 2)), 2)) \<and> holds (poke bs 0 (be16 2)) []"
proof -
  have "csize bufSize < LENGTH_SIZE \<longleftrightarrow> bufSize = 0 \<or> bufSize = 1"
    using assms(3,4) csize_negative [of bufSize] by (cases "0 \<le> bufSize") (auto simp: rpc_sizes)
  then show ?thesis
    using assms load_not_null [OF assms(1)] setlen_slice [OF assms(1), of 0 "word_of_int 2"]
      length_load [OF assms(1)] holds_empty [of bs]
    by (simp add: af_rpc_init_buffer_def LENGTH_SIZE_def)
qed

theorem init_buffer_behaviour_example:
  "af_rpc_init_buffer [0 \<mapsto> [9, 9]] (VPtr 0 0) (-1) = Some ([0 \<mapsto> [0, 2]], 2)"
proof -
  have "be16 2 = [0, 2]" by code_simp
  then show ?thesis
    using init_buffer_behaviour [of "[0 \<mapsto> [9, 9]]" "VPtr 0 0" 2 "[9, 9]" "-1"]
    by (simp add: load_def overwrite_def poke_def)
qed

end
