(* ===== verification/Ipc_Types.thy ===== *)
theory Ipc_Types
  imports Prelude
begin

text \<open>
  \<^verbatim>\<open>src/pkg/src/af_ipc_prv.h\<close> and \<^verbatim>\<open>af_ipc_common.h\<close>: sequence numbers, the message header,
  the pending-request database, and the world the IPC code runs in. The world holds the
  request databases and requests by address, the live libevent events, a log of what was done
  to sockets, and the results of the calls outside the repository (\<open>outcomes\<close>, one entry per
  call, consumed in order): memory pools, libevent, sockets. Use of an object that is not
  live, and locking a mutex that is held or was not created, is undefined: \<open>None\<close>.
\<close>

section \<open>Sequence numbers\<close>

definition AF_IPC_STATUS_OK :: int where "AF_IPC_STATUS_OK = 0"
definition AF_IPC_STATUS_ERROR :: int where "AF_IPC_STATUS_ERROR = -1"
definition AF_IPC_STATUS_TIMEOUT :: int where "AF_IPC_STATUS_TIMEOUT = -10"
definition AF_IPC_MAX_MSGLEN :: int where "AF_IPC_MAX_MSGLEN = 4096"

lemmas ipc_status = AF_IPC_STATUS_OK_def AF_IPC_STATUS_ERROR_def AF_IPC_STATUS_TIMEOUT_def

definition AF_IPC_GET_CLIENT_ID :: "u32 \<Rightarrow> u32" where
  "AF_IPC_GET_CLIENT_ID seqNum = drop_bit 16 seqNum"
definition AF_IPC_GET_SEQ_ID :: "u32 \<Rightarrow> u32" where
  "AF_IPC_GET_SEQ_ID seqNum = seqNum AND 0xFFFF"
definition AF_IPC_SEQNUM_NEW_REQUEST_MASK :: u32 where
  "AF_IPC_SEQNUM_NEW_REQUEST_MASK = push_bit 15 1"
definition AF_IPC_SEQNUM_IS_NEW_REQUEST :: "u32 \<Rightarrow> bool" where
  "AF_IPC_SEQNUM_IS_NEW_REQUEST seqNum \<longleftrightarrow> seqNum AND AF_IPC_SEQNUM_NEW_REQUEST_MASK \<noteq> 0"
definition AF_IPC_BUILD_SEQNUM :: "u32 \<Rightarrow> u32 \<Rightarrow> u32" where
  "AF_IPC_BUILD_SEQNUM clientId seqId = push_bit 16 clientId OR seqId"

definition af_ipc_get_client_id_from_seq_num :: "u32 \<Rightarrow> u16" where
  "af_ipc_get_client_id_from_seq_num seqNum = ucast (AF_IPC_GET_CLIENT_ID seqNum)"
definition af_ipc_seq_num_is_request :: "u32 \<Rightarrow> bool" where
  "af_ipc_seq_num_is_request seqNum \<longleftrightarrow> AF_IPC_GET_SEQ_ID seqNum \<noteq> 0"

section \<open>The message header\<close>

text \<open>
  \<^verbatim>\<open>struct af_ipc_msghdr\<close> on the wire: the object representation, with two bytes of padding
  (\<^verbatim>\<open>sizeof\<close> is 8), zero because the sender clears the structure.
\<close>

record af_ipc_msghdr =
  hdr_seqNum :: u32
  hdr_len :: u16

definition AF_IPC_MSGHDR_LEN :: int where "AF_IPC_MSGHDR_LEN = 8"

definition hdr_bytes :: "af_ipc_msghdr \<Rightarrow> byte list" where
  "hdr_bytes h = bytes32 (hdr_seqNum h) @ bytes16 (hdr_len h) @ [0, 0]"

definition read_hdr :: "byte list \<Rightarrow> int \<Rightarrow> af_ipc_msghdr option" where
  "read_hdr buf pos =
     (if 0 \<le> pos \<and> nat pos + 8 \<le> length buf
      then Some \<lparr>hdr_seqNum = word32 (take 4 (drop (nat pos) buf)),
                 hdr_len = word16 (take 2 (drop (nat pos + 4) buf))\<rparr>
      else None)"

section \<open>The state\<close>

text \<open>\<^verbatim>\<open>af_ipc_request_t\<close>; callbacks, contexts and events are named by numbers, \<^verbatim>\<open>NULL\<close> is \<open>None\<close>.\<close>

record af_ipc_request =
  rq_seqNum :: u32
  rq_event :: "nat option"
  rq_timeout_val :: int
  rq_req_control :: "nat option"
  rq_responseCallback :: "nat option"
  rq_responseContext :: nat

text \<open>
  \<^verbatim>\<open>af_ipc_req_control_t\<close>: the list through \<^verbatim>\<open>next\<close> is a list of addresses. A pool is the list
  of addresses allocated from it; after \<^verbatim>\<open>af_mempool_destroy\<close> the pointer is not cleared.
\<close>

datatype pool = Pool_null | Pool_live "nat list" | Pool_freed

record af_ipc_req_control =
  rc_lastSeqId :: u16
  rc_mutexCreated :: bool
  rc_mutex_held :: bool
  rc_pendingRequests :: "nat list"
  rc_reqPool :: pool

text \<open>
  An event: the handler libevent calls with its argument, and the timeout once it is added.
  \<open>On_user k\<close> is a timer of the application.
\<close>

datatype handler = On_timeout nat | On_recv nat | On_accept nat | On_user nat

record ev =
  ev_handler :: handler
  ev_added :: bool
  ev_timeout :: "(int \<times> int) option"

datatype how = SHUT_RD | SHUT_RDWR

datatype io = Sent int "byte list" | Connect int string | Unlink string | Bind int string
  | Listen int | Shutdown int how | Closed int

text \<open>
  The result of an external call: whether a pointer is null, an integer and the errno of a
  failure, and for \<^verbatim>\<open>recv\<close> the errno or the bytes.
\<close>

record ext =
  ext_null :: bool
  ext_ret :: int
  ext_errno :: int
  ext_recv :: "int + byte list"

record world =
  ctls :: "nat \<Rightarrow> af_ipc_req_control option"
  reqs :: "nat \<Rightarrow> af_ipc_request option"
  events :: "nat \<Rightarrow> ev option"
  io_log :: "io list"
  cerrno :: int
  tick :: nat
  outcomes :: "nat \<Rightarrow> ext"

text \<open>
  An application callback: function, status, sequence number, data, context. It may change
  the world in any way the application can, and may itself be undefined.
\<close>

type_synonym 'a runner = "nat \<Rightarrow> int \<Rightarrow> u32 \<Rightarrow> byte list \<Rightarrow> nat \<Rightarrow> 'a world_scheme \<Rightarrow> 'a world_scheme option"

section \<open>Calls outside the repository\<close>

text \<open>The result of the next external call. Its number is also the address of what it allocates.\<close>

definition ext_now :: "'a world_scheme \<Rightarrow> ext" where
  "ext_now w = outcomes w (tick w)"

definition next_tick :: "'a world_scheme \<Rightarrow> 'a world_scheme" where
  "next_tick w = w\<lparr>tick := Suc (tick w)\<rparr>"

definition set_errno :: "int \<Rightarrow> 'a world_scheme \<Rightarrow> 'a world_scheme" where
  "set_errno e w = w\<lparr>cerrno := e\<rparr>"

definition log_io :: "io \<Rightarrow> 'a world_scheme \<Rightarrow> 'a world_scheme" where
  "log_io x w = w\<lparr>io_log := io_log w @ [x]\<rparr>"

definition upd_ctl :: "nat \<Rightarrow> (af_ipc_req_control \<Rightarrow> af_ipc_req_control) \<Rightarrow> 'a world_scheme \<Rightarrow> 'a world_scheme option" where
  "upd_ctl c f w = (case ctls w c of None \<Rightarrow> None
     | Some rc \<Rightarrow> Some (w\<lparr>ctls := (ctls w)(c \<mapsto> f rc)\<rparr>))"

definition upd_req :: "nat \<Rightarrow> (af_ipc_request \<Rightarrow> af_ipc_request) \<Rightarrow> 'a world_scheme \<Rightarrow> 'a world_scheme option" where
  "upd_req a f w = (case reqs w a of None \<Rightarrow> None
     | Some r \<Rightarrow> Some (w\<lparr>reqs := (reqs w)(a \<mapsto> f r)\<rparr>))"

definition mutex_lock :: "nat \<Rightarrow> 'a world_scheme \<Rightarrow> 'a world_scheme option" where
  "mutex_lock c w = (case ctls w c of None \<Rightarrow> None
     | Some rc \<Rightarrow> if rc_mutexCreated rc \<and> \<not> rc_mutex_held rc
         then Some (w\<lparr>ctls := (ctls w)(c \<mapsto> rc\<lparr>rc_mutex_held := True\<rparr>)\<rparr>) else None)"

definition mutex_unlock :: "nat \<Rightarrow> 'a world_scheme \<Rightarrow> 'a world_scheme option" where
  "mutex_unlock c w = (case ctls w c of None \<Rightarrow> None
     | Some rc \<Rightarrow> if rc_mutexCreated rc \<and> rc_mutex_held rc
         then Some (w\<lparr>ctls := (ctls w)(c \<mapsto> rc\<lparr>rc_mutex_held := False\<rparr>)\<rparr>) else None)"

definition blank_request :: af_ipc_request where
  "blank_request = \<lparr>rq_seqNum = 0, rq_event = None, rq_timeout_val = 0, rq_req_control = None,
     rq_responseCallback = None, rq_responseContext = 0\<rparr>"

text \<open>\<^verbatim>\<open>af_mempool_alloc\<close>, \<^verbatim>\<open>af_mempool_free\<close> and \<^verbatim>\<open>af_mempool_destroy\<close> on the pool of database \<open>c\<close>.\<close>

definition mempool_alloc :: "nat \<Rightarrow> 'a world_scheme \<Rightarrow> (nat option \<times> 'a world_scheme) option" where
  "mempool_alloc c w = (case ctls w c of None \<Rightarrow> None
     | Some rc \<Rightarrow> (case rc_reqPool rc of
           Pool_live pool \<Rightarrow>
             if ext_null (ext_now w) then Some (None, next_tick w)
             else Some (Some (tick w), next_tick (w\<lparr>
               ctls := (ctls w)(c \<mapsto> rc\<lparr>rc_reqPool := Pool_live (tick w # pool)\<rparr>),
               reqs := (reqs w)(tick w \<mapsto> blank_request)\<rparr>))
         | _ \<Rightarrow> None))"

definition mempool_free :: "nat \<Rightarrow> nat \<Rightarrow> 'a world_scheme \<Rightarrow> 'a world_scheme option" where
  "mempool_free c a w = (case (ctls w c, reqs w a) of
       (Some rc, Some r) \<Rightarrow> (case rc_reqPool rc of
           Pool_live pool \<Rightarrow> if a \<in> set pool
             then Some (w\<lparr>ctls := (ctls w)(c \<mapsto> rc\<lparr>rc_reqPool := Pool_live (remove1 a pool)\<rparr>),
                          reqs := (reqs w)(a := None)\<rparr>)
             else None
         | _ \<Rightarrow> None)
     | _ \<Rightarrow> None)"

definition mempool_destroy :: "nat \<Rightarrow> 'a world_scheme \<Rightarrow> 'a world_scheme option" where
  "mempool_destroy c w = (case ctls w c of None \<Rightarrow> None
     | Some rc \<Rightarrow> (case rc_reqPool rc of
           Pool_live pool \<Rightarrow> Some (w\<lparr>ctls := (ctls w)(c \<mapsto> rc\<lparr>rc_reqPool := Pool_freed\<rparr>),
             reqs := (\<lambda>a. if a \<in> set pool then None else reqs w a)\<rparr>)
         | _ \<Rightarrow> None))"

text \<open>libevent: \<^verbatim>\<open>evtimer_new\<close>, \<^verbatim>\<open>evtimer_add\<close>, \<^verbatim>\<open>event_del\<close>, \<^verbatim>\<open>event_free\<close> (which also deletes).\<close>

definition event_new :: "handler \<Rightarrow> 'a world_scheme \<Rightarrow> nat option \<times> 'a world_scheme" where
  "event_new h w =
     (if ext_null (ext_now w) then (None, next_tick (set_errno (ext_errno (ext_now w)) w))
      else (Some (tick w), next_tick (w\<lparr>events :=
        (events w)(tick w \<mapsto> \<lparr>ev_handler = h, ev_added = False, ev_timeout = None\<rparr>)\<rparr>)))"

definition event_add :: "nat \<Rightarrow> (int \<times> int) option \<Rightarrow> 'a world_scheme \<Rightarrow> 'a world_scheme option" where
  "event_add e tv w = (case events w e of None \<Rightarrow> None
     | Some v \<Rightarrow> Some (w\<lparr>events := (events w)(e \<mapsto> v\<lparr>ev_added := True, ev_timeout := tv\<rparr>)\<rparr>))"

definition event_del :: "nat \<Rightarrow> 'a world_scheme \<Rightarrow> 'a world_scheme option" where
  "event_del e w = (case events w e of None \<Rightarrow> None
     | Some v \<Rightarrow> Some (w\<lparr>events := (events w)(e \<mapsto> v\<lparr>ev_added := False\<rparr>)\<rparr>))"

definition event_free :: "nat \<Rightarrow> 'a world_scheme \<Rightarrow> 'a world_scheme option" where
  "event_free e w = (case events w e of None \<Rightarrow> None
     | Some v \<Rightarrow> Some (w\<lparr>events := (events w)(e := None)\<rparr>))"

text \<open>
  \<^verbatim>\<open>sendmsg\<close> with two buffers: a buffer size that is not a \<^verbatim>\<open>ssize_t\<close> is refused with
  \<^verbatim>\<open>EINVAL\<close> (22); otherwise it fails, or takes a prefix of the bytes.
\<close>

definition sendmsg :: "int \<Rightarrow> byte list \<Rightarrow> byte list \<Rightarrow> int \<Rightarrow> 'a world_scheme \<Rightarrow> (int \<times> 'a world_scheme) option" where
  "sendmsg fd hdr buf bufLen w =
     (if bufLen < 0 then Some (-1, next_tick (set_errno 22 w))
      else if nat bufLen > length buf then None
      else if ext_ret (ext_now w) < 0
      then Some (-1, next_tick (set_errno (ext_errno (ext_now w)) w))
      else (let frame = hdr @ take (nat bufLen) buf;
                n = min (ext_ret (ext_now w)) (int (length frame)) in
            Some (n, next_tick (log_io (Sent fd (take (nat n) frame)) w))))"

text \<open>
  \<^verbatim>\<open>recv\<close> into a buffer of \<open>n\<close> bytes: the result and the bytes it stored; no bytes means that the
  peer has closed.
\<close>

definition recv :: "nat \<Rightarrow> 'a world_scheme \<Rightarrow> int \<times> byte list \<times> 'a world_scheme" where
  "recv n w = (case ext_recv (ext_now w) of
       Inl e \<Rightarrow> (-1, [], next_tick (set_errno e w))
     | Inr bs \<Rightarrow> (int (length (take n bs)), take n bs, next_tick w))"

text \<open>\<^verbatim>\<open>socket\<close> and other calls that return a negative number and set \<^verbatim>\<open>errno\<close> when they fail.\<close>

definition sys_call :: "'a world_scheme \<Rightarrow> int \<times> 'a world_scheme" where
  "sys_call w = (let x = ext_now w in
     (ext_ret x, next_tick (if ext_ret x < 0 then set_errno (ext_errno x) w else w)))"

text \<open>A cleared database, and the bit of a read event.\<close>

definition cleared_db :: af_ipc_req_control where
  "cleared_db = \<lparr>rc_lastSeqId = 0, rc_mutexCreated = False, rc_mutex_held = False,
     rc_pendingRequests = [], rc_reqPool = Pool_null\<rparr>"

definition EV_READ :: u16 where "EV_READ = 2"

text \<open>
  The prefix of socket paths is a global variable; the functions that open take its value. The
  setter returns the new value.
\<close>

definition IPC_SERVER_DEFAULT_SOCK_PATH_PREFIX :: string where
  "IPC_SERVER_DEFAULT_SOCK_PATH_PREFIX = ''/var/run/''"
definition af_ipc_set_server_sock_path_prefix :: "string \<Rightarrow> string \<Rightarrow> string" where
  "af_ipc_set_server_sock_path_prefix prefix af_ipc_server_sock_path_prefix = prefix"

end
