(* ===== verification/Ipc_Message.thy ===== *)
theory Ipc_Message
  imports Ipc_Requests
begin

text \<open>
  Messages (\<^verbatim>\<open>src/pkg/src/af_ipc_common.c\<close>): \<^verbatim>\<open>af_ipc_send\<close>, the timeout handler, and
  \<^verbatim>\<open>af_ipc_handle_receive_message\<close>. Debug output is left out; application callbacks are run by
  a parameter.
\<close>

section \<open>Sending\<close>

text \<open>
  The registration of a request under the mutex. The result has the request, if there is one,
  its sequence number, and \<^verbatim>\<open>err\<close>. \<^verbatim>\<open>ENOMEM\<close> is 12.
\<close>

definition register_request ::
    "nat \<Rightarrow> nat option \<Rightarrow> nat \<Rightarrow> int \<Rightarrow> 'a world_scheme \<Rightarrow> (nat option \<times> u32 \<times> int \<times> 'a world_scheme) option" where
  "register_request c callback context timeoutMs w = do {
     w \<leftarrow> mutex_lock c w;
     (req, w) \<leftarrow> af_ipc_util_find_unused_request (Some c) w;
     (req, seqNum, err, w) \<leftarrow> (case req of
         None \<Rightarrow> Some (None, 0, 12, w)
       | Some a \<Rightarrow> do {
           (seqNum, w) \<leftarrow> af_ipc_util_gen_seq_id c w;
           w \<leftarrow> upd_req a (\<lambda>r. r\<lparr>rq_seqNum := seqNum\<rparr>) w;
           w \<leftarrow> upd_req a (\<lambda>r. r\<lparr>rq_responseCallback := callback, rq_responseContext := context,
                   rq_req_control := Some c, rq_timeout_val := timeoutMs, rq_event := None\<rparr>) w;
           let (e, w) = event_new (On_timeout a) w;
           case e of
             Some e \<Rightarrow> do {
               w \<leftarrow> upd_req a (\<lambda>r. r\<lparr>rq_event := Some e\<rparr>) w;
               w \<leftarrow> event_add e (Some (timeoutMs div 1000, (timeoutMs mod 1000) * 1000)) w;
               Some (Some a, seqNum, 0, w)
             }
           | None \<Rightarrow> do {
               let err = cerrno w;
               w \<leftarrow> af_ipc_remove_request (Some c) seqNum w;
               Some (None, seqNum, err, w)
             }
         });
     w \<leftarrow> mutex_unlock c w;
     Some (req, seqNum, err, w)
   }"

text \<open>The call of \<^verbatim>\<open>sendmsg\<close>, and the removal of the pending request when it fails.\<close>

definition transmit ::
    "int \<Rightarrow> nat option \<Rightarrow> nat option \<Rightarrow> u32 \<Rightarrow> af_ipc_msghdr \<Rightarrow> byte list \<Rightarrow> int
     \<Rightarrow> 'a world_scheme \<Rightarrow> (int \<times> 'a world_scheme) option" where
  "transmit fd req_control req seqNum hdr txBuffer txBufferSize w = do {
     (n, w) \<leftarrow> sendmsg fd (hdr_bytes hdr) txBuffer txBufferSize w;
     if n < 0 then do {
       let err = cerrno w;
       w \<leftarrow> (case req of
           None \<Rightarrow> Some w
         | Some a \<Rightarrow> do {
             c \<leftarrow> req_control;
             w \<leftarrow> mutex_lock c w;
             w \<leftarrow> cancel_event a w;
             w \<leftarrow> af_ipc_remove_request (Some c) seqNum w;
             mutex_unlock c w
           });
       Some (-1, set_errno err w)
     }
     else Some (0, w)
   }"

definition af_ipc_send ::
    "int \<Rightarrow> nat option \<Rightarrow> u32 \<Rightarrow> byte list \<Rightarrow> int \<Rightarrow> nat option \<Rightarrow> nat \<Rightarrow> int
     \<Rightarrow> 'a world_scheme \<Rightarrow> (int \<times> 'a world_scheme) option" where
  "af_ipc_send fd req_control seqNum txBuffer txBufferSize callback context timeoutMs w =
     (if csize (txBufferSize + AF_IPC_MSGHDR_LEN) > csize AF_IPC_MAX_MSGLEN
      then Some (-1, set_errno 22 w)
      else (
        let len = word_of_int (txBufferSize + AF_IPC_MSGHDR_LEN) in
        if timeoutMs > 0 then
          (case req_control of
             None \<Rightarrow> Some (-1, set_errno 22 w)
           | Some c \<Rightarrow> do {
               (req, seqNum, err, w) \<leftarrow> register_request c callback context timeoutMs w;
               case req of
                 None \<Rightarrow> Some (-1, set_errno err w)
               | Some a \<Rightarrow> transmit fd req_control req seqNum
                   \<lparr>hdr_seqNum = seqNum OR AF_IPC_SEQNUM_NEW_REQUEST_MASK, hdr_len = len\<rparr>
                   txBuffer txBufferSize w
             })
        else transmit fd req_control None seqNum \<lparr>hdr_seqNum = seqNum, hdr_len = len\<rparr>
               txBuffer txBufferSize w))"

section \<open>Timeouts\<close>

definition af_ipc_on_timeout :: "'a runner \<Rightarrow> nat option \<Rightarrow> 'a world_scheme \<Rightarrow> 'a world_scheme option" where
  "af_ipc_on_timeout run arg w =
     (case arg of
        None \<Rightarrow> Some w
      | Some pendingReq \<Rightarrow> do {
          r \<leftarrow> reqs w pendingReq;
          case rq_req_control r of
            None \<Rightarrow> Some w
          | Some rc \<Rightarrow> do {
              w \<leftarrow> mutex_lock rc w;
              w \<leftarrow> (case rq_event r of
                  None \<Rightarrow> Some w
                | Some e \<Rightarrow> do {
                    w \<leftarrow> event_free e w;
                    upd_req pendingReq (rq_event_update (\<lambda>_. None)) w
                  });
              w \<leftarrow> af_ipc_remove_request (Some rc) (rq_seqNum r) w;
              w \<leftarrow> mutex_unlock rc w;
              case rq_responseCallback r of
                None \<Rightarrow> Some w
              | Some callback \<Rightarrow> run callback AF_IPC_STATUS_TIMEOUT 0 [] (rq_responseContext r) w
            }
        })"

text \<open>libevent runs an added timer once: it is no longer added when its handler is called.\<close>

definition fire_timer :: "'a runner \<Rightarrow> nat \<Rightarrow> 'a world_scheme \<Rightarrow> 'a world_scheme option" where
  "fire_timer run e w =
     (case events w e of
        None \<Rightarrow> None
      | Some v \<Rightarrow> (case ev_handler v of
            On_timeout a \<Rightarrow>
              if ev_added v
              then af_ipc_on_timeout run (Some a) (w\<lparr>events := (events w)(e \<mapsto> v\<lparr>ev_added := False\<rparr>)\<rparr>)
              else None
          | _ \<Rightarrow> None))"

section \<open>Receiving\<close>

text \<open>The number under which the application sees a request of client \<open>clientId\<close>.\<close>

definition incoming_seqNum :: "u16 \<Rightarrow> u32 \<Rightarrow> u32" where
  "incoming_seqNum clientId seqNum =
     (seqNum OR push_bit 16 (ucast clientId)) AND NOT AF_IPC_SEQNUM_NEW_REQUEST_MASK"

text \<open>The branch for a reply: find the pending request, cancel its timer, remove it, run its callback.\<close>

definition receive_reply ::
    "'a runner \<Rightarrow> nat option \<Rightarrow> u32 \<Rightarrow> byte list \<Rightarrow> 'a world_scheme \<Rightarrow> 'a world_scheme option" where
  "receive_reply run req_control seqNum payload w = do {
     c \<leftarrow> req_control;
     w \<leftarrow> mutex_lock c w;
     rc \<leftarrow> ctls w c;
     pendingReq \<leftarrow> find_pending (reqs w) seqNum (rc_pendingRequests rc);
     (callback, context, w) \<leftarrow> (case pendingReq of
         None \<Rightarrow> Some (None, 0, w)
       | Some a \<Rightarrow> do {
           r \<leftarrow> reqs w a;
           w \<leftarrow> (if rq_timeout_val r > 0 then cancel_event a w else Some w);
           w \<leftarrow> af_ipc_remove_request (Some c) seqNum w;
           Some (rq_responseCallback r, rq_responseContext r, w)
         });
     w \<leftarrow> mutex_unlock c w;
     case callback of
       None \<Rightarrow> Some w
     | Some cb \<Rightarrow> run cb 0 seqNum payload context w
   }"

text \<open>One message: a request or an unsolicited message goes to the receive callback.\<close>

definition receive_one ::
    "'a runner \<Rightarrow> u16 \<Rightarrow> nat option \<Rightarrow> nat option \<Rightarrow> nat \<Rightarrow> u32 \<Rightarrow> byte list
     \<Rightarrow> 'a world_scheme \<Rightarrow> 'a world_scheme option" where
  "receive_one run clientId req_control receiveCallback context seqNum payload w =
     (if seqNum = 0 \<or> AF_IPC_SEQNUM_IS_NEW_REQUEST seqNum then
        (case receiveCallback of
           None \<Rightarrow> Some w
         | Some cb \<Rightarrow> run cb 0 (incoming_seqNum clientId seqNum) payload context w)
      else receive_reply run req_control seqNum payload w)"

text \<open>The loop \<^verbatim>\<open>while (pos < len)\<close>. A header announces at least its own size, so it ends.\<close>

function receive_loop ::
    "'a runner \<Rightarrow> byte list \<Rightarrow> int \<Rightarrow> u16 \<Rightarrow> nat option \<Rightarrow> nat option \<Rightarrow> nat \<Rightarrow> int
     \<Rightarrow> 'a world_scheme \<Rightarrow> 'a world_scheme option" where
  "receive_loop run buf len clientId req_control receiveCallback context pos w =
     (if pos < len then
        (if csize (pos + AF_IPC_MSGHDR_LEN) \<ge> csize len then Some w
         else (case read_hdr buf pos of
             None \<Rightarrow> None
           | Some msghdr \<Rightarrow>
               let n = uint (hdr_len msghdr) in
               if pos + n > len \<or> n < AF_IPC_MSGHDR_LEN then Some w
               else (case receive_one run clientId req_control receiveCallback context
                         (AF_IPC_GET_SEQ_ID (hdr_seqNum msghdr))
                         (take (nat n - 8) (drop (nat pos + 8) buf)) w of
                   None \<Rightarrow> None
                 | Some w' \<Rightarrow> receive_loop run buf len clientId req_control receiveCallback context
                     (pos + n) w')))
      else Some w)"
  by pat_completeness auto
termination
  by (relation "measure (\<lambda>(run, buf, len, clientId, rc, cb, ctx, pos, w). nat (len - pos))")
    (auto simp: AF_IPC_MSGHDR_LEN_def)

declare receive_loop.simps [simp del]

definition af_ipc_handle_receive_message ::
    "'a runner \<Rightarrow> byte list \<Rightarrow> int \<Rightarrow> u16 \<Rightarrow> nat option \<Rightarrow> nat option \<Rightarrow> nat
     \<Rightarrow> 'a world_scheme \<Rightarrow> 'a world_scheme option" where
  "af_ipc_handle_receive_message run buf len clientId req_control receiveCallback context w =
     receive_loop run buf len clientId req_control receiveCallback context 0 w"

end
