(* ===== verification/Ipc_Invariant.thy ===== *)
theory Ipc_Invariant
  imports Ipc_Message
begin

text \<open>
  The invariant of the IPC state outside the critical sections, and the abstract operations
  \<open>add_pending\<close> and \<open>drop_pending\<close> that the request-database code refines: each critical
  section of \<^verbatim>\<open>af_ipc_common.c\<close> is shown equal to one of them, and both preserve the invariant.
\<close>

section \<open>The invariant\<close>

text \<open>
  A pending request of database \<open>c\<close> is live, belongs to \<open>c\<close>, has an id that fits 15 bits,
  and its timeout event is live, added, and will call the handler with this request.
\<close>

definition request_ok :: "'a world_scheme \<Rightarrow> nat \<Rightarrow> nat \<Rightarrow> bool" where
  "request_ok w c a \<longleftrightarrow> (case reqs w a of None \<Rightarrow> False
     | Some r \<Rightarrow> rq_req_control r = Some c \<and> 0 < rq_timeout_val r
         \<and> 1 \<le> uint (rq_seqNum r) \<and> uint (rq_seqNum r) < 2 ^ 15
         \<and> (case rq_event r of None \<Rightarrow> False
            | Some e \<Rightarrow> (case events w e of None \<Rightarrow> False
                | Some v \<Rightarrow> ev_handler v = On_timeout a \<and> ev_added v)))"

definition seq_of :: "'a world_scheme \<Rightarrow> nat \<Rightarrow> u32" where
  "seq_of w a = (case reqs w a of None \<Rightarrow> 0 | Some r \<Rightarrow> rq_seqNum r)"

definition db_ok :: "'a world_scheme \<Rightarrow> nat \<Rightarrow> af_ipc_req_control \<Rightarrow> bool" where
  "db_ok w c rc \<longleftrightarrow> uint (rc_lastSeqId rc) < 2 ^ 15 \<and> \<not> rc_mutex_held rc \<and>
     (if rc_mutexCreated rc
      then (case rc_reqPool rc of
              Pool_live pool \<Rightarrow> distinct pool \<and> set pool = set (rc_pendingRequests rc)
            | _ \<Rightarrow> False)
        \<and> distinct (rc_pendingRequests rc)
        \<and> inj_on (seq_of w) (set (rc_pendingRequests rc))
        \<and> (\<forall>a \<in> set (rc_pendingRequests rc). request_ok w c a)
      else rc_pendingRequests rc = [] \<and> (\<forall>pool. rc_reqPool rc = Pool_live pool \<longrightarrow> pool = []))"

text \<open>Every live request is pending in its database, and every live timer belongs to its request.\<close>

definition req_owned :: "'a world_scheme \<Rightarrow> nat \<Rightarrow> af_ipc_request \<Rightarrow> bool" where
  "req_owned w a r \<longleftrightarrow> a < tick w \<and> (\<exists>c rc. rq_req_control r = Some c \<and> ctls w c = Some rc \<and>
     rc_mutexCreated rc \<and> a \<in> set (rc_pendingRequests rc))"

definition timer_owned :: "'a world_scheme \<Rightarrow> nat \<Rightarrow> ev \<Rightarrow> bool" where
  "timer_owned w e v \<longleftrightarrow> e < tick w \<and> (\<forall>a. ev_handler v = On_timeout a \<longrightarrow>
     (\<exists>r. reqs w a = Some r \<and> rq_event r = Some e))"

definition world_ok :: "'a world_scheme \<Rightarrow> bool" where
  "world_ok w \<longleftrightarrow> (\<forall>c rc. ctls w c = Some rc \<longrightarrow> db_ok w c rc) \<and>
     (\<forall>a r. reqs w a = Some r \<longrightarrow> req_owned w a r) \<and>
     (\<forall>e v. events w e = Some v \<longrightarrow> timer_owned w e v)"

text \<open>The database of a live connection.\<close>

definition db_open :: "'a world_scheme \<Rightarrow> nat \<Rightarrow> bool" where
  "db_open w c \<longleftrightarrow> (case ctls w c of None \<Rightarrow> False | Some rc \<Rightarrow> rc_mutexCreated rc)"

definition pending :: "'a world_scheme \<Rightarrow> nat \<Rightarrow> nat list" where
  "pending w c = (case ctls w c of None \<Rightarrow> [] | Some rc \<Rightarrow> rc_pendingRequests rc)"

lemma world_okD:
  assumes "world_ok w"
  shows "ctls w c = Some rc \<Longrightarrow> db_ok w c rc" and "reqs w a = Some r \<Longrightarrow> req_owned w a r"
    and "events w e = Some v \<Longrightarrow> timer_owned w e v"
  using assms by (auto simp: world_ok_def)

lemma db_openE:
  assumes "world_ok w" "db_open w c"
  obtains rc pool where "ctls w c = Some rc" "rc_mutexCreated rc" "\<not> rc_mutex_held rc"
    "rc_reqPool rc = Pool_live pool" "distinct pool" "set pool = set (rc_pendingRequests rc)"
    "distinct (rc_pendingRequests rc)" "inj_on (seq_of w) (set (rc_pendingRequests rc))"
    "\<forall>a \<in> set (rc_pendingRequests rc). request_ok w c a" "uint (rc_lastSeqId rc) < 2 ^ 15"
    "pending w c = rc_pendingRequests rc"
proof -
  from assms(2) obtain rc where rc: "ctls w c = Some rc" "rc_mutexCreated rc"
    by (auto simp: db_open_def split: option.splits)
  with world_okD(1) [OF assms(1) rc(1)] that show thesis
    by (auto simp: db_ok_def pending_def split: pool.splits)
qed

lemma db_rcE:
  assumes "world_ok w" "db_open w c" "ctls w c = Some rc"
  obtains pool where "rc_mutexCreated rc" "\<not> rc_mutex_held rc"
    "rc_reqPool rc = Pool_live pool" "distinct pool" "set pool = set (rc_pendingRequests rc)"
    "distinct (rc_pendingRequests rc)" "inj_on (seq_of w) (set (rc_pendingRequests rc))"
    "uint (rc_lastSeqId rc) < 2 ^ 15" "pending w c = rc_pendingRequests rc"
  using assms(1,2)
proof (rule db_openE)
  fix rc' pool'
  assume "ctls w c = Some rc'" "rc_mutexCreated rc'" "\<not> rc_mutex_held rc'"
    "rc_reqPool rc' = Pool_live pool'" "distinct pool'" "set pool' = set (rc_pendingRequests rc')"
    "distinct (rc_pendingRequests rc')" "inj_on (seq_of w) (set (rc_pendingRequests rc'))"
    "uint (rc_lastSeqId rc') < 2 ^ 15" "pending w c = rc_pendingRequests rc'"
  moreover from this(1) assms(3) have "rc' = rc" by simp
  ultimately show thesis using that by blast
qed

lemma request_okE:
  assumes "request_ok w c a"
  obtains r e v where "reqs w a = Some r" "rq_req_control r = Some c" "0 < rq_timeout_val r"
    "1 \<le> uint (rq_seqNum r)" "uint (rq_seqNum r) < 2 ^ 15" "rq_event r = Some e"
    "events w e = Some v" "ev_handler v = On_timeout a" "ev_added v" "seq_of w a = rq_seqNum r"
  using assms by (auto simp: request_ok_def seq_of_def split: option.splits)

section \<open>The abstract operations\<close>

definition drop_pending :: "nat \<Rightarrow> nat \<Rightarrow> 'a world_scheme \<Rightarrow> 'a world_scheme" where
  "drop_pending c a w =
     (case (ctls w c, reqs w a) of
        (Some rc, Some r) \<Rightarrow> w\<lparr>
          ctls := (ctls w)(c \<mapsto> rc\<lparr>rc_pendingRequests := remove1 a (rc_pendingRequests rc),
            rc_reqPool := (case rc_reqPool rc of Pool_live pool \<Rightarrow> Pool_live (remove1 a pool) | p \<Rightarrow> p)\<rparr>),
          reqs := (reqs w)(a := None),
          events := (case rq_event r of None \<Rightarrow> events w | Some e \<Rightarrow> (events w)(e := None))\<rparr>
      | _ \<Rightarrow> w)"

definition add_pending ::
    "nat \<Rightarrow> nat \<Rightarrow> af_ipc_request \<Rightarrow> nat \<Rightarrow> ev \<Rightarrow> 'a world_scheme \<Rightarrow> 'a world_scheme" where
  "add_pending c a r e v w =
     (case ctls w c of
        Some rc \<Rightarrow> w\<lparr>
          ctls := (ctls w)(c \<mapsto> rc\<lparr>rc_lastSeqId := ucast (rq_seqNum r),
            rc_pendingRequests := a # rc_pendingRequests rc,
            rc_reqPool := (case rc_reqPool rc of Pool_live pool \<Rightarrow> Pool_live (a # pool) | p \<Rightarrow> p)\<rparr>),
          reqs := (reqs w)(a \<mapsto> r), events := (events w)(e \<mapsto> v)\<rparr>
      | None \<Rightarrow> w)"

lemma drop_pending_frame:
  "io_log (drop_pending c a w) = io_log w" "tick (drop_pending c a w) = tick w"
  "outcomes (drop_pending c a w) = outcomes w" "cerrno (drop_pending c a w) = cerrno w"
  "c' \<noteq> c \<Longrightarrow> ctls (drop_pending c a w) c' = ctls w c'"
  "b \<noteq> a \<Longrightarrow> reqs (drop_pending c a w) b = reqs w b"
  by (simp_all add: drop_pending_def split: option.splits)

lemma drop_pending_pending:
  assumes "world_ok w" "db_open w c" "a \<in> set (pending w c)"
  shows "pending (drop_pending c a w) c = remove1 a (pending w c)"
    and "set (pending (drop_pending c a w) c) = set (pending w c) - {a}"
    and "db_open (drop_pending c a w) c'  = db_open w c'"
proof -
  obtain rc where rc: "ctls w c = Some rc" "rc_mutexCreated rc" "distinct (rc_pendingRequests rc)"
    "\<forall>a \<in> set (rc_pendingRequests rc). request_ok w c a" "pending w c = rc_pendingRequests rc"
    by (rule db_openE [OF assms(1,2)])
  then obtain r where r: "reqs w a = Some r" using assms(3) by (auto elim: request_okE)
  show "pending (drop_pending c a w) c = remove1 a (pending w c)"
    using rc r by (simp add: drop_pending_def pending_def)
  then show "set (pending (drop_pending c a w) c) = set (pending w c) - {a}"
    using rc(3,5) by simp
  show "db_open (drop_pending c a w) c'  = db_open w c'"
    using rc r by (simp add: drop_pending_def db_open_def)
qed

lemma drop_pending_ok:
  assumes ok: "world_ok w" and op: "db_open w c" and a: "a \<in> set (pending w c)"
  shows "world_ok (drop_pending c a w)"
proof -
  obtain rc pool where rc: "ctls w c = Some rc" "rc_mutexCreated rc" "\<not> rc_mutex_held rc"
    "rc_reqPool rc = Pool_live pool" "distinct pool" "set pool = set (rc_pendingRequests rc)"
    "distinct (rc_pendingRequests rc)" "inj_on (seq_of w) (set (rc_pendingRequests rc))"
    "\<forall>a \<in> set (rc_pendingRequests rc). request_ok w c a" "uint (rc_lastSeqId rc) < 2 ^ 15"
    "pending w c = rc_pendingRequests rc"
    by (rule db_openE [OF ok op])
  from a rc(9,11) have "request_ok w c a" by simp
  then obtain r e v where r: "reqs w a = Some r" "rq_req_control r = Some c" "rq_event r = Some e"
    "events w e = Some v" "ev_handler v = On_timeout a"
    by (rule request_okE)
  let ?w = "drop_pending c a w"
  let ?rc = "rc\<lparr>rc_pendingRequests := remove1 a (rc_pendingRequests rc), rc_reqPool := Pool_live (remove1 a pool)\<rparr>"
  have sel: "ctls ?w = (ctls w)(c \<mapsto> ?rc)" "reqs ?w = (reqs w)(a := None)"
    "events ?w = (events w)(e := None)" "tick ?w = tick w"
    using rc r by (simp_all add: drop_pending_def)
  have req: "request_ok ?w c' b" if b: "request_ok w c' b" "b \<noteq> a" for b c'
  proof -
    obtain r' e' v' where "reqs w b = Some r'" "rq_event r' = Some e'" "events w e' = Some v'"
      "ev_handler v' = On_timeout b" using b(1) by (rule request_okE)
    with r b(2) have "e' \<noteq> e" by auto
    with b \<open>reqs w b = Some r'\<close> \<open>rq_event r' = Some e'\<close> show ?thesis
      by (simp add: request_ok_def sel)
  qed
  have seq: "seq_of ?w b = seq_of w b" if "b \<noteq> a" for b
    using that by (simp add: seq_of_def sel)
  have mine: "db_ok ?w c ?rc"
  proof -
    have "inj_on (seq_of ?w) (set (rc_pendingRequests rc) - {a})"
      using rc(8) seq by (auto simp: inj_on_def)
    moreover have "\<forall>b \<in> set (rc_pendingRequests rc) - {a}. request_ok ?w c b"
      using rc(9) req by auto
    ultimately show ?thesis using rc by (simp add: db_ok_def)
  qed
  have other: "db_ok ?w c' rc'" if "ctls w c' = Some rc'" "c' \<noteq> c" for c' rc'
  proof -
    have db: "db_ok w c' rc'" using ok that(1) by (rule world_okD)
    have "a \<notin> set (rc_pendingRequests rc')"
    proof (cases "rc_mutexCreated rc'")
      case True
      show ?thesis
      proof
        assume "a \<in> set (rc_pendingRequests rc')"
        with True db have "request_ok w c' a" by (auto simp: db_ok_def)
        with r that(2) show False by (auto simp: request_ok_def)
      qed
    next
      case False
      with db show ?thesis by (simp add: db_ok_def)
    qed
    with db req seq show ?thesis
      by (auto simp: db_ok_def inj_on_def split: if_splits pool.splits) metis+
  qed
  have dbs: "db_ok ?w c' rc'" if "ctls ?w c' = Some rc'" for c' rc'
    using that mine other by (auto simp: sel split: if_splits)
  have owned: "req_owned ?w b r'" if "reqs ?w b = Some r'" for b r'
  proof -
    have b: "b \<noteq> a" "reqs w b = Some r'" using that by (auto simp: sel split: if_splits)
    have "req_owned w b r'" using ok b(2) by (rule world_okD)
    with b(1) rc(1) show ?thesis by (auto simp: req_owned_def sel)
  qed
  have timers: "timer_owned ?w e' v'" if "events ?w e' = Some v'" for e' v'
  proof -
    have e': "e' \<noteq> e" "events w e' = Some v'" using that by (auto simp: sel split: if_splits)
    have "timer_owned w e' v'" using ok e'(2) by (rule world_okD)
    with e'(1) r show ?thesis by (auto simp: timer_owned_def sel)
  qed
  show ?thesis using dbs owned timers by (simp add: world_ok_def)
qed

lemma add_pending_ok:
  assumes ok: "world_ok w" and op: "db_open w c"
    and new: "reqs w a = None" "a < tick w" "events w e = None" "e < tick w"
    and r: "rq_req_control r = Some c" "0 < rq_timeout_val r" "1 \<le> uint (rq_seqNum r)"
      "uint (rq_seqNum r) < 2 ^ 15" "rq_event r = Some e"
    and v: "ev_handler v = On_timeout a" "ev_added v"
    and uniq: "rq_seqNum r \<notin> seq_of w ` set (pending w c)"
  shows "world_ok (add_pending c a r e v w)"
proof -
  obtain rc pool where rc: "ctls w c = Some rc" "rc_mutexCreated rc" "\<not> rc_mutex_held rc"
    "rc_reqPool rc = Pool_live pool" "distinct pool" "set pool = set (rc_pendingRequests rc)"
    "distinct (rc_pendingRequests rc)" "inj_on (seq_of w) (set (rc_pendingRequests rc))"
    "\<forall>a \<in> set (rc_pendingRequests rc). request_ok w c a" "uint (rc_lastSeqId rc) < 2 ^ 15"
    "pending w c = rc_pendingRequests rc"
    by (rule db_openE [OF ok op])
  let ?w = "add_pending c a r e v w"
  let ?rc = "rc\<lparr>rc_lastSeqId := ucast (rq_seqNum r), rc_pendingRequests := a # rc_pendingRequests rc,
    rc_reqPool := Pool_live (a # pool)\<rparr>"
  have sel: "ctls ?w = (ctls w)(c \<mapsto> ?rc)" "reqs ?w = (reqs w)(a \<mapsto> r)"
    "events ?w = (events w)(e \<mapsto> v)" "tick ?w = tick w"
    using rc by (simp_all add: add_pending_def)
  have not_a: "b \<noteq> a" if "request_ok w c' b" for b c'
    using that new(1) by (auto simp: request_ok_def)
  have a: "a \<notin> set (rc_pendingRequests rc)" using rc(9) not_a by auto
  have req: "request_ok ?w c' b" if b: "request_ok w c' b" for b c'
  proof -
    obtain r' e' v' where "reqs w b = Some r'" "rq_event r' = Some e'" "events w e' = Some v'"
      using b by (rule request_okE)
    then have "e' \<noteq> e" using new(3) by auto
    with b not_a [OF b] \<open>reqs w b = Some r'\<close> \<open>rq_event r' = Some e'\<close> show ?thesis
      by (simp add: request_ok_def sel)
  qed
  have seq: "seq_of ?w b = seq_of w b" if "b \<noteq> a" for b
    using that by (simp add: seq_of_def sel)
  have mine: "db_ok ?w c ?rc"
  proof -
    have "uint (ucast (rq_seqNum r) :: u16) < 2 ^ 15"
    proof -
      have "uint (ucast (rq_seqNum r) :: u16) = take_bit 16 (uint (rq_seqNum r))"
        by (simp add: unsigned_ucast_eq)
      then show ?thesis using r(4) by (simp add: take_bit_eq_mod)
    qed
    moreover have "seq_of ?w a = rq_seqNum r" by (simp add: seq_of_def sel)
    with uniq rc(8,11) seq a have "inj_on (seq_of ?w) (insert a (set (rc_pendingRequests rc)))"
      by (auto simp: inj_on_def image_iff) metis+
    moreover have "request_ok ?w c a" using r v by (simp add: request_ok_def sel)
    then have "\<forall>b \<in> insert a (set (rc_pendingRequests rc)). request_ok ?w c b"
      using rc(9) req by auto
    moreover have "a \<notin> set pool" using a rc(6) by simp
    ultimately show ?thesis using rc a by (simp add: db_ok_def)
  qed
  have other: "db_ok ?w c' rc'" if "ctls w c' = Some rc'" "c' \<noteq> c" for c' rc'
  proof -
    have db: "db_ok w c' rc'" using ok that(1) by (rule world_okD)
    then have "a \<notin> set (rc_pendingRequests rc')"
      using not_a by (auto simp: db_ok_def split: if_splits)
    with db req seq show ?thesis
      by (auto simp: db_ok_def inj_on_def split: if_splits pool.splits) metis+
  qed
  have dbs: "db_ok ?w c' rc'" if "ctls ?w c' = Some rc'" for c' rc'
    using that mine other by (auto simp: sel split: if_splits)
  have owned: "req_owned ?w b r'" if "reqs ?w b = Some r'" for b r'
  proof (cases "b = a")
    case True
    with that have "r' = r" by (simp add: sel)
    with True r new rc show ?thesis by (simp add: req_owned_def sel)
  next
    case False
    then have "req_owned w b r'" using ok that by (auto simp: sel intro: world_okD)
    with rc(1) show ?thesis by (auto simp: req_owned_def sel)
  qed
  have timers: "timer_owned ?w e' v'" if "events ?w e' = Some v'" for e' v'
  proof (cases "e' = e")
    case True
    with that have "v' = v" by (simp add: sel)
    with True r v new show ?thesis by (simp add: timer_owned_def sel)
  next
    case False
    then have "timer_owned w e' v'" using ok that by (auto simp: sel intro: world_okD)
    with new(1) show ?thesis by (auto simp: timer_owned_def sel)
  qed
  show ?thesis using dbs owned timers by (simp add: world_ok_def)
qed

text \<open>Bookkeeping that the invariant does not look at.\<close>

lemma world_ok_cong:
  assumes "ctls w' = ctls w" "reqs w' = reqs w" "events w' = events w" "tick w \<le> tick w'" "world_ok w"
  shows "world_ok w'"
proof -
  have req: "request_ok w' = request_ok w"
    using assms(2,3) by (auto simp: fun_eq_iff request_ok_def cong: option.case_cong)
  have seq: "seq_of w' = seq_of w" using assms(2) by (simp add: fun_eq_iff seq_of_def)
  have "db_ok w' = db_ok w" by (simp add: fun_eq_iff db_ok_def req seq)
  moreover have "req_owned w a r \<Longrightarrow> req_owned w' a r" for a r
    using assms(1,4) by (auto simp: req_owned_def)
  moreover have "timer_owned w e v \<Longrightarrow> timer_owned w' e v" for e v
    using assms(2,4) by (auto simp: timer_owned_def)
  ultimately show ?thesis using assms(1-3,5) by (simp add: world_ok_def)
qed

lemma world_ok_errno [simp, intro]: "world_ok w \<Longrightarrow> world_ok (set_errno e w)"
  by (rule world_ok_cong [of _ w]) (simp_all add: set_errno_def)

lemma world_ok_log [simp, intro]: "world_ok w \<Longrightarrow> world_ok (log_io x w)"
  by (rule world_ok_cong [of _ w]) (simp_all add: log_io_def)

lemma world_ok_tick [simp, intro]: "world_ok w \<Longrightarrow> world_ok (next_tick w)"
  by (rule world_ok_cong [of _ w]) (simp_all add: next_tick_def)

lemma fresh_tick:
  assumes "world_ok w"
  shows "reqs w (tick w) = None" "events w (tick w) = None"
proof -
  show "reqs w (tick w) = None"
    using world_okD(2) [OF assms] by (cases "reqs w (tick w)") (auto simp: req_owned_def)
  show "events w (tick w) = None"
    using world_okD(3) [OF assms] by (cases "events w (tick w)") (auto simp: timer_owned_def)
qed

end
