(* ===== verification/Ipc_Refine.thy ===== *)
theory Ipc_Refine
  imports Ipc_Invariant
begin

text \<open>
  The critical sections of \<^verbatim>\<open>af_ipc_common.c\<close> as abstract operations: under the invariant, a
  reply, a timeout and a failed \<^verbatim>\<open>sendmsg\<close> each are \<open>drop_pending\<close> of one request, and a
  registration is \<open>add_pending\<close>. All accesses are valid and the mutex is free again.
\<close>

lemmas world_ops = upd_ctl_def upd_req_def mutex_lock_def mutex_unlock_def mempool_alloc_def
  mempool_free_def event_new_def event_add_def event_del_def event_free_def

section \<open>Searching the list\<close>

lemma find_pending_eq:
  "\<forall>a \<in> set as. reqs w a \<noteq> None \<Longrightarrow>
   find_pending (reqs w) sn as = Some (find (\<lambda>a. seq_of w a = sn) as)"
  by (induction as) (auto simp: seq_of_def)

lemma find_unique:
  "inj_on f (set as) \<Longrightarrow> a \<in> set as \<Longrightarrow> find (\<lambda>b. f b = f a) as = Some a"
  by (induction as) (auto simp: inj_on_def)

lemma pending_live:
  assumes "world_ok w" "db_open w c"
  shows "\<forall>a \<in> set (pending w c). request_ok w c a \<and> reqs w a \<noteq> None"
  by (rule db_openE [OF assms]) (auto simp: request_ok_def split: option.splits)

section \<open>Removing one request\<close>

text \<open>
  The steps that a reply, a timeout and a failed send have in common: with the mutex held, free
  the event, clear the pointer, remove the request by its sequence number, unlock.
\<close>

definition locked :: "nat \<Rightarrow> af_ipc_req_control \<Rightarrow> 'a world_scheme \<Rightarrow> 'a world_scheme" where
  "locked c rc w = w\<lparr>ctls := (ctls w)(c \<mapsto> rc\<lparr>rc_mutex_held := True\<rparr>)\<rparr>"

lemma lock_open:
  assumes "world_ok w" "db_open w c" "ctls w c = Some rc"
  shows "mutex_lock c w = Some (locked c rc w)"
  by (rule db_rcE [OF assms]) (use assms(3) in \<open>simp add: mutex_lock_def locked_def\<close>)

lemma unlock_locked:
  assumes "world_ok w" "db_open w c" "ctls w c = Some rc"
  shows "mutex_unlock c (locked c rc w) = Some w"
proof -
  have "rc_mutexCreated rc" "\<not> rc_mutex_held rc"
    by (rule db_rcE [OF assms]; assumption)+
  then have "rc\<lparr>rc_mutex_held := False\<rparr> = rc" by (cases rc) simp
  then show ?thesis
    using \<open>rc_mutexCreated rc\<close> assms(3) by (simp add: mutex_unlock_def locked_def fun_upd_idem)
qed

lemma remove_locked:
  assumes ok: "world_ok w" "db_open w c" "ctls w c = Some rc" and a: "a \<in> set (pending w c)"
    and r: "reqs w a = Some r" "rq_event r = Some e"
  shows "do {
      w \<leftarrow> af_ipc_remove_request (Some c) (rq_seqNum r)
        ((locked c rc w)\<lparr>events := (events w)(e := None), reqs := (reqs w)(a \<mapsto> r\<lparr>rq_event := None\<rparr>)\<rparr>);
      mutex_unlock c w
    } = Some (drop_pending c a w)"
proof -
  obtain pool where rc: "rc_mutexCreated rc" "\<not> rc_mutex_held rc" "rc_reqPool rc = Pool_live pool"
    "set pool = set (rc_pendingRequests rc)" "inj_on (seq_of w) (set (rc_pendingRequests rc))"
    "pending w c = rc_pendingRequests rc"
    by (rule db_rcE [OF ok])
  let ?w = "(locked c rc w)\<lparr>events := (events w)(e := None), reqs := (reqs w)(a \<mapsto> r\<lparr>rq_event := None\<rparr>)\<rparr>"
  have seq: "seq_of ?w = seq_of w" using r by (auto simp: fun_eq_iff seq_of_def)
  have "\<forall>b \<in> set (rc_pendingRequests rc). reqs ?w b \<noteq> None"
    using pending_live [OF ok(1,2)] rc(6) by auto
  then have "find_pending (reqs ?w) (rq_seqNum r) (rc_pendingRequests rc) =
      Some (find (\<lambda>b. seq_of w b = seq_of w a) (rc_pendingRequests rc))"
    using find_pending_eq [of "rc_pendingRequests rc" ?w "rq_seqNum r"] r(1)
    by (simp add: seq) (simp add: seq_of_def)
  then have find: "find_pending (reqs ?w) (rq_seqNum r) (rc_pendingRequests rc) = Some (Some a)"
    using find_unique [OF rc(5)] a rc(6) by simp
  have pool: "a \<in> set pool" using a rc(4,6) by simp
  show ?thesis
    using find ok(3) r rc pool
    by (cases rc; cases w) (simp add: af_ipc_remove_request_def locked_def world_ops drop_pending_def)
qed

lemma cancel_locked:
  assumes "reqs w a = Some r" "rq_event r = Some e" "events w e = Some v"
  shows "cancel_event a (locked c rc w) =
    Some ((locked c rc w)\<lparr>events := (events w)(e := None), reqs := (reqs w)(a \<mapsto> r\<lparr>rq_event := None\<rparr>)\<rparr>)"
proof -
  have "rq_event_update (\<lambda>_. None) r = r\<lparr>rq_event := None\<rparr>" by simp
  then show ?thesis using assms by (simp add: cancel_event_def locked_def world_ops)
qed

lemma reqs_locked [simp]: "reqs (locked c rc w) = reqs w" "events (locked c rc w) = events w"
  "ctls (locked c rc w) c = Some (rc\<lparr>rc_mutex_held := True\<rparr>)"
  by (simp_all add: locked_def)

text \<open>A reply: the matching request, if any, is dropped, and then its callback runs.\<close>

definition find_reply :: "'a world_scheme \<Rightarrow> nat \<Rightarrow> u32 \<Rightarrow> nat option" where
  "find_reply w c seqNum = find (\<lambda>a. seq_of w a = seqNum) (pending w c)"

definition run_callback ::
    "'a runner \<Rightarrow> af_ipc_request \<Rightarrow> int \<Rightarrow> u32 \<Rightarrow> byte list \<Rightarrow> 'a world_scheme \<Rightarrow> 'a world_scheme option" where
  "run_callback run r status seqNum payload w =
     (case rq_responseCallback r of None \<Rightarrow> Some w
      | Some cb \<Rightarrow> run cb status seqNum payload (rq_responseContext r) w)"

lemma find_reply_SomeD:
  "find_reply w c sn = Some a \<Longrightarrow> a \<in> set (pending w c) \<and> seq_of w a = sn"
  by (auto simp: find_reply_def find_Some_iff)

lemma find_reply_unique:
  assumes "world_ok w" "db_open w c" "a \<in> set (pending w c)"
  shows "find_reply w c (seq_of w a) = Some a"
  by (rule db_openE [OF assms(1,2)]) (use assms(3) find_unique in \<open>auto simp: find_reply_def\<close>)

lemma receive_reply_eq:
  assumes ok: "world_ok w" "db_open w c"
  shows "receive_reply run (Some c) sn payload w =
    (case find_reply w c sn of
       None \<Rightarrow> Some w
     | Some a \<Rightarrow> run_callback run (the (reqs w a)) 0 sn payload (drop_pending c a w))"
proof -
  obtain rc where rc: "ctls w c = Some rc" by (rule db_openE [OF ok])
  have pend: "pending w c = rc_pendingRequests rc" by (rule db_rcE [OF ok rc])
  have find: "find_pending (reqs w) sn (rc_pendingRequests rc) = Some (find_reply w c sn)"
    using pending_live [OF ok] find_pending_eq [of "rc_pendingRequests rc" w sn] pend
    by (simp add: find_reply_def)
  show ?thesis
  proof (cases "find_reply w c sn")
    case None
    then show ?thesis
      using find lock_open [OF ok rc] unlock_locked [OF ok rc] by (simp add: receive_reply_def)
  next
    case (Some a)
    then have a: "a \<in> set (pending w c)" "seq_of w a = sn" using find_reply_SomeD by auto
    then have "request_ok w c a" using pending_live [OF ok] by simp
    then obtain r e v where r: "reqs w a = Some r" "0 < rq_timeout_val r" "rq_event r = Some e"
      "events w e = Some v" "seq_of w a = rq_seqNum r" by (rule request_okE)
    note removed = remove_locked [OF ok rc a(1) r(1,3)]
    show ?thesis
      using find lock_open [OF ok rc] Some r a(2) cancel_locked [OF r(1,3,4), of c rc] removed
      by (auto simp: receive_reply_def run_callback_def bind_eq_Some_conv split: option.splits)
  qed
qed

text \<open>A timeout: the request the timer belongs to is dropped, and then its callback runs.\<close>

lemma timer_request:
  assumes "world_ok w" "events w e = Some v" "ev_handler v = On_timeout a"
  obtains r c where "reqs w a = Some r" "rq_event r = Some e" "rq_req_control r = Some c"
    "db_open w c" "a \<in> set (pending w c)"
proof -
  from world_okD(3) [OF assms(1,2)] assms(3) obtain r where r: "reqs w a = Some r" "rq_event r = Some e"
    by (auto simp: timer_owned_def)
  from world_okD(2) [OF assms(1) r(1)] that [OF r] show thesis
    by (auto simp: req_owned_def db_open_def pending_def)
qed

lemma fire_timer_eq:
  assumes ok: "world_ok w" and e: "events w e = Some v" "ev_handler v = On_timeout a"
    and r: "reqs w a = Some r" "rq_req_control r = Some c"
  shows "fire_timer run e w = run_callback run r AF_IPC_STATUS_TIMEOUT 0 [] (drop_pending c a w)"
proof -
  obtain r' c' where "reqs w a = Some r'" "rq_event r' = Some e" "rq_req_control r' = Some c'"
    "db_open w c'" "a \<in> set (pending w c')"
    by (rule timer_request [OF ok e])
  with r have re: "rq_event r = Some e" and op: "db_open w c" and a: "a \<in> set (pending w c)" by auto
  obtain rc where rc: "ctls w c = Some rc" by (rule db_openE [OF ok op])
  have created: "rc_mutexCreated rc" "\<not> rc_mutex_held rc" by (rule db_rcE [OF ok op rc]; assumption)+
  have "request_ok w c a" using pending_live [OF ok op] a by simp
  then have added: "ev_added v" using e re r by (auto simp: request_ok_def)
  let ?w = "w\<lparr>events := (events w)(e \<mapsto> v\<lparr>ev_added := False\<rparr>)\<rparr>"
  have lock: "mutex_lock c ?w = Some (locked c rc ?w)"
    using rc created by (simp add: mutex_lock_def locked_def)
  have free: "do { w \<leftarrow> event_free e (locked c rc ?w); upd_req a (rq_event_update (\<lambda>_. None)) w } =
      Some ((locked c rc w)\<lparr>events := (events w)(e := None), reqs := (reqs w)(a \<mapsto> r\<lparr>rq_event := None\<rparr>)\<rparr>)"
    using r by (simp add: event_free_def upd_req_def locked_def)
  show ?thesis
    using e added r re lock free remove_locked [OF ok op rc a r(1) re]
    by (simp add: fire_timer_def af_ipc_on_timeout_def run_callback_def bind_eq_Some_conv
        split: option.splits) (auto simp: bind_eq_Some_conv)
qed

section \<open>Sending\<close>

text \<open>The request that a send registers when its memory and its timer are allocated.\<close>

definition new_seqNum :: "'a world_scheme \<Rightarrow> nat \<Rightarrow> u32" where
  "new_seqNum w c = (case ctls w c of None \<Rightarrow> 0 | Some rc \<Rightarrow> ucast (next_seq (rc_lastSeqId rc)))"

definition new_request :: "'a world_scheme \<Rightarrow> nat \<Rightarrow> nat option \<Rightarrow> nat \<Rightarrow> int \<Rightarrow> af_ipc_request" where
  "new_request w c callback context timeoutMs =
     \<lparr>rq_seqNum = new_seqNum w c, rq_event = Some (Suc (tick w)), rq_timeout_val = timeoutMs,
      rq_req_control = Some c, rq_responseCallback = callback, rq_responseContext = context\<rparr>"

definition new_timer :: "nat \<Rightarrow> int \<Rightarrow> ev" where
  "new_timer a timeoutMs = \<lparr>ev_handler = On_timeout a, ev_added = True,
     ev_timeout = Some (timeoutMs div 1000, (timeoutMs mod 1000) * 1000)\<rparr>"

definition registered ::
    "nat \<Rightarrow> nat option \<Rightarrow> nat \<Rightarrow> int \<Rightarrow> 'a world_scheme \<Rightarrow> 'a world_scheme" where
  "registered c callback context timeoutMs w =
     add_pending c (tick w) (new_request w c callback context timeoutMs) (Suc (tick w))
       (new_timer (tick w) timeoutMs) (next_tick (next_tick w))"

definition skip_seq :: "nat \<Rightarrow> 'a world_scheme \<Rightarrow> 'a world_scheme" where
  "skip_seq c w = (case ctls w c of None \<Rightarrow> w
     | Some rc \<Rightarrow> w\<lparr>ctls := (ctls w)(c \<mapsto> rc\<lparr>rc_lastSeqId := next_seq (rc_lastSeqId rc)\<rparr>)\<rparr>)"

lemma ucast_back_16: "(ucast (ucast (s :: u16) :: u32) :: u16) = s"
  by (rule bit_word_eqI) (auto simp: bit_simps)

lemma register_request_eq:
  assumes ok: "world_ok w" "db_open w c"
  shows "register_request c callback context timeoutMs w =
    Some (if ext_null (outcomes w (tick w)) then (None, 0, 12, next_tick w)
      else if ext_null (outcomes w (Suc (tick w)))
      then (None, new_seqNum w c, ext_errno (outcomes w (Suc (tick w))),
        set_errno (ext_errno (outcomes w (Suc (tick w)))) (skip_seq c (next_tick (next_tick w))))
      else (Some (tick w), new_seqNum w c, 0, registered c callback context timeoutMs w))"
proof -
  obtain rc where rc: "ctls w c = Some rc" by (rule db_openE [OF ok])
  obtain pool where p: "rc_mutexCreated rc" "\<not> rc_mutex_held rc" "rc_reqPool rc = Pool_live pool"
    "set pool = set (rc_pendingRequests rc)" by (rule db_rcE [OF ok rc])
  have fresh: "reqs w (tick w) = None" using ok(1) by (rule fresh_tick)
  note ops = register_request_def af_ipc_util_find_unused_request_def gen_seq_id_eq
    af_ipc_remove_request_def world_ops ext_now_def next_tick_def set_errno_def
    registered_def add_pending_def new_request_def new_timer_def new_seqNum_def skip_seq_def
    blank_request_def ucast_back_16
  consider (null) "ext_null (outcomes w (tick w))"
    | (timer) "\<not> ext_null (outcomes w (tick w))" "ext_null (outcomes w (Suc (tick w)))"
    | (both) "\<not> ext_null (outcomes w (tick w))" "\<not> ext_null (outcomes w (Suc (tick w)))"
    by blast
  then show ?thesis
  proof cases
    case null
    then show ?thesis using rc p by (cases rc; cases w) (simp add: ops fun_upd_idem)
  next
    case timer
    then show ?thesis using rc p fresh by (cases rc; cases w) (simp add: ops fun_upd_idem)
  next
    case both
    then show ?thesis using rc p by (cases rc; cases w) (simp add: ops)
  qed
qed

lemma skip_seq_ok:
  assumes "world_ok w" "db_open w c"
  shows "world_ok (skip_seq c w)" "db_open (skip_seq c w) c' = db_open w c'"
    "pending (skip_seq c w) c' = pending w c'"
proof -
  obtain rc where rc: "ctls w c = Some rc" by (rule db_openE [OF assms])
  let ?w = "skip_seq c w" and ?rc = "rc\<lparr>rc_lastSeqId := next_seq (rc_lastSeqId rc)\<rparr>"
  have sel: "ctls ?w = (ctls w)(c \<mapsto> ?rc)" "reqs ?w = reqs w" "events ?w = events w" "tick ?w = tick w"
    using rc by (simp_all add: skip_seq_def)
  have req: "request_ok ?w = request_ok w"
    by (auto simp: fun_eq_iff request_ok_def sel cong: option.case_cong)
  have seq: "seq_of ?w = seq_of w" by (simp add: fun_eq_iff seq_of_def sel)
  have "db_ok w c rc" using assms(1) rc by (rule world_okD)
  then have "uint (rc_lastSeqId rc) < 2 ^ 15" by (simp add: db_ok_def)
  then have "uint (next_seq (rc_lastSeqId rc)) < 2 ^ 15" using next_seq_range by blast
  with \<open>db_ok w c rc\<close> have mine: "db_ok ?w c ?rc"
    by (auto simp: db_ok_def req seq split: pool.splits)
  have "db_ok ?w c' rc'" if "ctls ?w c' = Some rc'" for c' rc'
  proof (cases "c' = c")
    case True
    with that mine show ?thesis by (simp add: sel)
  next
    case False
    with that have "db_ok w c' rc'" using world_okD(1) [OF assms(1)] by (simp add: sel)
    then show ?thesis by (simp add: db_ok_def req seq)
  qed
  moreover have "req_owned ?w a r" if "reqs ?w a = Some r" for a r
  proof -
    have "req_owned w a r" using world_okD(2) [OF assms(1)] that by (simp add: sel)
    with rc show ?thesis by (auto simp: req_owned_def sel)
  qed
  moreover have "timer_owned ?w e v" if "events ?w e = Some v" for e v
    using world_okD(3) [OF assms(1)] that by (auto simp: timer_owned_def sel)
  ultimately show "world_ok ?w" by (simp add: world_ok_def)
  show "db_open ?w c' = db_open w c'" "pending ?w c' = pending w c'"
    using rc by (simp_all add: db_open_def pending_def sel)
qed

lemma new_seqNum_range:
  assumes "world_ok w" "db_open w c"
  shows "1 \<le> uint (new_seqNum w c)" "uint (new_seqNum w c) < 2 ^ 15"
proof -
  obtain rc where rc: "ctls w c = Some rc" "uint (rc_lastSeqId rc) < 2 ^ 15" by (rule db_openE [OF assms])
  have "uint (ucast (s :: u16) :: u32) = uint s" for s
    using uint_lt2p [of s] by (simp add: unsigned_ucast_eq take_bit_int_eq_self)
  with next_seq_range [OF rc(2)] rc(1) show "1 \<le> uint (new_seqNum w c)" "uint (new_seqNum w c) < 2 ^ 15"
    by (simp_all add: new_seqNum_def)
qed

lemma registered_sel:
  assumes "db_open w c"
  shows "db_open (registered c callback context timeoutMs w) c' = db_open w c'"
    and "pending (registered c callback context timeoutMs w) c = tick w # pending w c"
    and "c' \<noteq> c \<Longrightarrow> pending (registered c callback context timeoutMs w) c' = pending w c'"
    and "reqs (registered c callback context timeoutMs w) =
      (reqs w)(tick w \<mapsto> new_request w c callback context timeoutMs)"
    and "events (registered c callback context timeoutMs w) =
      (events w)(Suc (tick w) \<mapsto> new_timer (tick w) timeoutMs)"
    and "tick (registered c callback context timeoutMs w) = Suc (Suc (tick w))"
    and "outcomes (registered c callback context timeoutMs w) = outcomes w"
    and "io_log (registered c callback context timeoutMs w) = io_log w"
  using assms
  by (auto simp: registered_def add_pending_def next_tick_def db_open_def pending_def split: option.splits)

lemma registered_ok:
  assumes ok: "world_ok w" "db_open w c" and t: "0 < timeoutMs"
    and fresh: "new_seqNum w c \<notin> seq_of w ` set (pending w c)"
  shows "world_ok (registered c callback context timeoutMs w)"
  unfolding registered_def
proof (rule add_pending_ok)
  let ?w = "next_tick (next_tick w)"
  have seq: "seq_of ?w = seq_of w" "pending ?w = pending w" "db_open ?w = db_open w"
    by (simp_all add: fun_eq_iff seq_of_def pending_def db_open_def next_tick_def)
  show "db_open ?w c" using ok(2) by (simp add: seq)
  show "rq_seqNum (new_request w c callback context timeoutMs) \<notin> seq_of ?w ` set (pending ?w c)"
    using fresh by (simp add: seq new_request_def)
  show "reqs ?w (tick w) = None" "events ?w (Suc (tick w)) = None"
    using fresh_tick [OF ok(1)] fresh_tick [OF world_ok_tick [OF ok(1)]]
    by (simp_all add: next_tick_def)
  show "world_ok ?w" using ok(1) by simp
qed (use t new_seqNum_range [OF ok] in \<open>simp_all add: next_tick_def new_request_def new_timer_def\<close>)

text \<open>Removing the request that was just registered restores everything but the id counter.\<close>

lemma drop_registered:
  assumes ok: "world_ok w" "db_open w c"
  shows "drop_pending c (tick w) (registered c callback context timeoutMs w) =
    skip_seq c (next_tick (next_tick w))"
proof -
  obtain rc where rc: "ctls w c = Some rc" by (rule db_openE [OF ok])
  obtain pool where "rc_reqPool rc = Pool_live pool" by (rule db_rcE [OF ok rc])
  moreover have "reqs w (tick w) = None" "events w (Suc (tick w)) = None"
    using fresh_tick [OF ok(1)] fresh_tick [OF world_ok_tick [OF ok(1)]]
    by (simp_all add: next_tick_def)
  ultimately show ?thesis
    using rc
    by (cases rc; cases w)
      (simp add: drop_pending_def registered_def add_pending_def next_tick_def new_request_def
        new_seqNum_def skip_seq_def ucast_back_16 fun_upd_idem)
qed

text \<open>The bytes of a message on the wire.\<close>

definition frame :: "u32 \<Rightarrow> byte list \<Rightarrow> byte list" where
  "frame seqNum payload = hdr_bytes \<lparr>hdr_seqNum = seqNum, hdr_len = word_of_nat (length payload + 8)\<rparr> @ payload"

lemma length_frame [simp]: "length (frame sn payload) = length payload + 8"
  by (simp add: frame_def hdr_bytes_def)

definition sent :: "int \<Rightarrow> byte list \<Rightarrow> 'a world_scheme \<Rightarrow> 'a world_scheme" where
  "sent fd bs w = next_tick (log_io (Sent fd (take (nat (ext_ret (ext_now w))) bs)) w)"

lemma sendmsg_frame:
  assumes "hdr = \<lparr>hdr_seqNum = sn, hdr_len = word_of_nat (length payload + 8)\<rparr>"
  shows "sendmsg fd (hdr_bytes hdr) payload (int (length payload)) w =
    (if ext_ret (ext_now w) < 0
     then Some (-1, next_tick (set_errno (ext_errno (ext_now w)) w))
     else Some (min (ext_ret (ext_now w)) (int (length payload + 8)), sent fd (frame sn payload) w))"
proof -
  have "take (nat (min (ext_ret (ext_now w)) (int (length payload + 8)))) (frame sn payload) =
      take (nat (ext_ret (ext_now w))) (frame sn payload)"
    by (cases "ext_ret (ext_now w) \<le> int (length payload + 8)") simp_all
  moreover have "hdr_bytes hdr @ take (nat (int (length payload))) payload = frame sn payload"
    by (simp add: frame_def assms)
  ultimately show ?thesis
    unfolding sendmsg_def Let_def by (simp add: sent_def)
qed

lemma csize_fits:
  "csize (int (length payload) + AF_IPC_MSGHDR_LEN) > csize AF_IPC_MAX_MSGLEN \<longleftrightarrow> 4088 < length payload"
  if "length payload < 2 ^ 31"
  using that by (simp add: AF_IPC_MSGHDR_LEN_def AF_IPC_MAX_MSGLEN_def)

lemma hdr_len_eq:
  "word_of_int (int n + AF_IPC_MSGHDR_LEN) = (word_of_nat (n + 8) :: u16)"
  by (simp add: AF_IPC_MSGHDR_LEN_def)

lemma send_fits:
  assumes "length payload \<le> 4088"
  shows "af_ipc_send fd req_control sn payload (int (length payload)) callback ctx timeoutMs w =
    (if timeoutMs > 0 then
       (case req_control of
          None \<Rightarrow> Some (-1, set_errno 22 w)
        | Some c \<Rightarrow> do {
            (req, seqNum, err, w) \<leftarrow> register_request c callback ctx timeoutMs w;
            case req of
              None \<Rightarrow> Some (-1, set_errno err w)
            | Some a \<Rightarrow> transmit fd req_control req seqNum
                \<lparr>hdr_seqNum = seqNum OR AF_IPC_SEQNUM_NEW_REQUEST_MASK, hdr_len = word_of_nat (length payload + 8)\<rparr>
                payload (int (length payload)) w
          })
     else transmit fd req_control None sn \<lparr>hdr_seqNum = sn, hdr_len = word_of_nat (length payload + 8)\<rparr>
            payload (int (length payload)) w)"
proof -
  have "\<not> csize (int (length payload) + AF_IPC_MSGHDR_LEN) > csize AF_IPC_MAX_MSGLEN"
    using assms by (simp add: csize_fits)
  then show ?thesis unfolding af_ipc_send_def Let_def hdr_len_eq by (simp only: if_False)
qed

text \<open>A message without a reply: one \<^verbatim>\<open>sendmsg\<close>, no change to any database.\<close>

lemma send_plain_eq:
  assumes "length payload \<le> 4088" "timeoutMs \<le> 0"
  shows "af_ipc_send fd req_control sn payload (int (length payload)) callback ctx timeoutMs w =
    Some (if ext_ret (ext_now w) < 0
      then (-1, set_errno (ext_errno (ext_now w)) (next_tick w))
      else (0, sent fd (frame sn payload) w))"
  using assms(2) unfolding send_fits [OF assms(1)] transmit_def sendmsg_frame [OF refl]
  by (auto simp: set_errno_def next_tick_def min_less_iff_disj)

text \<open>A request: registered, sent, and taken back if \<^verbatim>\<open>sendmsg\<close> fails.\<close>

lemma send_request_eq:
  fixes w :: "'a world_scheme" and c :: nat and callback :: "nat option" and ctx :: nat and timeoutMs :: int
  assumes ok: "world_ok w" "db_open w c" and t: "0 < timeoutMs"
    and len: "length payload \<le> 4088"
    and fresh: "new_seqNum w c \<notin> seq_of w ` set (pending w c)"
  defines "w1 \<equiv> registered c callback ctx timeoutMs w"
  shows "af_ipc_send fd (Some c) sn payload (int (length payload)) callback ctx timeoutMs w =
    Some (if ext_null (outcomes w (tick w)) then (-1, set_errno 12 (next_tick w))
      else if ext_null (outcomes w (Suc (tick w)))
      then (-1, set_errno (ext_errno (outcomes w (Suc (tick w)))) (skip_seq c (next_tick (next_tick w))))
      else if ext_ret (ext_now w1) < 0
      then (-1, set_errno (ext_errno (ext_now w1)) (skip_seq c (next_tick (next_tick (next_tick w)))))
      else (0, sent fd (frame (new_seqNum w c OR AF_IPC_SEQNUM_NEW_REQUEST_MASK) payload) w1))"
proof -
  have send: "af_ipc_send fd (Some c) sn payload (int (length payload)) callback ctx timeoutMs w = do {
      (req, seqNum, err, w) \<leftarrow> register_request c callback ctx timeoutMs w;
      case req of
        None \<Rightarrow> Some (-1, set_errno err w)
      | Some a \<Rightarrow> transmit fd (Some c) req seqNum
          \<lparr>hdr_seqNum = seqNum OR AF_IPC_SEQNUM_NEW_REQUEST_MASK, hdr_len = word_of_nat (length payload + 8)\<rparr>
          payload (int (length payload)) w
    }"
    using t unfolding send_fits [OF len] by simp
  note reg = register_request_eq [OF ok, of callback ctx timeoutMs]
  show ?thesis
  proof (cases "ext_null (outcomes w (tick w)) \<or> ext_null (outcomes w (Suc (tick w)))")
    case True
    then show ?thesis by (auto simp: send reg) (simp_all add: set_errno_def)
  next
    case False
    have ok1: "world_ok w1" unfolding w1_def using ok t fresh by (rule registered_ok)
    define w2 where "w2 = next_tick (set_errno (ext_errno (ext_now w1)) w1)"
    have ok2: "world_ok w2" unfolding w2_def using ok1 by simp
    have op2: "db_open w2 c" "pending w2 c = tick w # pending w c"
      using ok(2) registered_sel(1,2) [OF ok(2)]
      by (simp_all add: w2_def w1_def pending_def db_open_def next_tick_def set_errno_def)
    obtain rc where rc: "ctls w2 c = Some rc" by (rule db_openE [OF ok2 op2(1)])
    let ?r = "new_request w c callback ctx timeoutMs"
    have r: "reqs w2 (tick w) = Some ?r" "rq_event ?r = Some (Suc (tick w))"
      "events w2 (Suc (tick w)) = Some (new_timer (tick w) timeoutMs)" "rq_seqNum ?r = new_seqNum w c"
      using registered_sel(4,5) [OF ok(2)]
      by (simp_all add: w2_def w1_def next_tick_def set_errno_def new_request_def)
    have a: "tick w \<in> set (pending w2 c)" using op2(2) by simp
    have drop: "drop_pending c (tick w) w2 =
        set_errno (ext_errno (ext_now w1)) (skip_seq c (next_tick (next_tick (next_tick w))))"
    proof -
      have "drop_pending c (tick w) w2 =
          next_tick (set_errno (ext_errno (ext_now w1)) (drop_pending c (tick w) w1))"
        by (simp add: w2_def next_tick_def set_errno_def drop_pending_def split: option.splits)
      also have "\<dots> = set_errno (ext_errno (ext_now w1)) (skip_seq c (next_tick (next_tick (next_tick w))))"
        unfolding w1_def drop_registered [OF ok]
        by (simp add: next_tick_def set_errno_def skip_seq_def split: option.splits)
      finally show ?thesis .
    qed
    have undone: "do {
        w \<leftarrow> mutex_lock c w2;
        w \<leftarrow> cancel_event (tick w0) w;
        w \<leftarrow> af_ipc_remove_request (Some c) (new_seqNum w0 c) w;
        mutex_unlock c w } = Some (drop_pending c (tick w) w2)" if "w0 = w" for w0
      using lock_open [OF ok2 op2(1) rc] cancel_locked [OF r(1-3), of c rc]
        remove_locked [OF ok2 op2(1) rc a r(1,2)] that by (simp add: r(4))
    have run: "transmit fd (Some c) (Some (tick w)) (new_seqNum w c)
          \<lparr>hdr_seqNum = new_seqNum w c OR AF_IPC_SEQNUM_NEW_REQUEST_MASK, hdr_len = word_of_nat (length payload + 8)\<rparr>
          payload (int (length payload)) w1 =
        Some (if ext_ret (ext_now w1) < 0
          then (-1, set_errno (ext_errno (ext_now w1)) (drop_pending c (tick w) w2))
          else (0, sent fd (frame (new_seqNum w c OR AF_IPC_SEQNUM_NEW_REQUEST_MASK) payload) w1))"
    proof (cases "ext_ret (ext_now w1) < 0")
      case True
      have err: "cerrno w2 = ext_errno (ext_now w1)" by (simp add: w2_def next_tick_def set_errno_def)
      show ?thesis
        using True undone [OF refl] unfolding transmit_def sendmsg_frame [OF refl]
        by (auto simp: err bind_eq_Some_conv simp flip: w2_def)
    next
      case False
      then show ?thesis
        unfolding transmit_def sendmsg_frame [OF refl] by (auto simp: min_less_iff_disj)
    qed
    then show ?thesis
      using False unfolding send reg drop
      by (simp flip: w1_def) (simp add: set_errno_def)
  qed
qed

end
