(* ===== verification/Ipc_Receive.thy ===== *)
theory Ipc_Receive
  imports Ipc_Refine
begin

text \<open>
  The receive loop of \<^verbatim>\<open>af_ipc_common.c\<close>: what it does on a stream of well-formed messages, and
  that it is safe on arbitrary bytes. What the code relies on of the application is the locale
  \<open>receiver\<close>: on the messages it accepts, a callback returns and keeps an invariant under which
  the state is consistent and the connection that is being served is open. Applications that answer with messages satisfy it.
\<close>

section \<open>Bits of sequence numbers\<close>

lemma mask_0xFFFF: "(0xFFFF :: u32) = mask 16"
  by (simp add: mask_eq_exp_minus_1)

lemma take_bit_small: "uint w < 2 ^ n \<Longrightarrow> take_bit n w = w" for w :: u32
proof -
  assume "uint w < 2 ^ n"
  have "uint (take_bit n w) = take_bit n (uint w)" by (simp only: unsigned_take_bit_eq)
  also have "\<dots> = uint w" using \<open>uint w < 2 ^ n\<close> by (simp add: take_bit_int_eq_self)
  finally show ?thesis by (simp only: word_uint_eq_iff)
qed

lemma seq_id_small: "uint sn < 2 ^ 16 \<Longrightarrow> AF_IPC_GET_SEQ_ID sn = sn"
  unfolding AF_IPC_GET_SEQ_ID_def mask_0xFFFF
  by (simp only: take_bit_small flip: take_bit_eq_mask)

lemma bit_small:
  assumes "uint (sn :: u32) < 2 ^ 15" "15 \<le> n"
  shows "\<not> bit sn n"
proof -
  have "bit sn n \<longleftrightarrow> bit (take_bit 15 sn) n" by (simp only: take_bit_small [OF assms(1)])
  with assms(2) show ?thesis by (simp add: bit_simps)
qed

lemma bit_mask: "bit AF_IPC_SEQNUM_NEW_REQUEST_MASK n \<longleftrightarrow> n = 15"
  unfolding AF_IPC_SEQNUM_NEW_REQUEST_MASK_def push_bit_of_1 by (subst bit_exp_iff) auto

lemma new_request_bit: "AF_IPC_SEQNUM_IS_NEW_REQUEST sn \<longleftrightarrow> bit sn 15"
  unfolding AF_IPC_SEQNUM_IS_NEW_REQUEST_def AF_IPC_SEQNUM_NEW_REQUEST_MASK_def push_bit_of_1
  by (simp only: and_exp_eq_0_iff_not_bit not_not)

lemma request_id:
  assumes "1 \<le> uint sn" "uint sn < 2 ^ 15"
  defines "out \<equiv> AF_IPC_GET_SEQ_ID (sn OR AF_IPC_SEQNUM_NEW_REQUEST_MASK)"
  shows "AF_IPC_SEQNUM_IS_NEW_REQUEST out" "out \<noteq> 0"
    and "AF_IPC_GET_SEQ_ID (incoming_seqNum cid out) = sn"
    and "af_ipc_get_client_id_from_seq_num (incoming_seqNum cid out) = cid"
    and "incoming_seqNum cid out = AF_IPC_BUILD_SEQNUM (ucast cid) sn"
    and "\<not> AF_IPC_SEQNUM_IS_NEW_REQUEST sn" "sn \<noteq> 0" "AF_IPC_GET_SEQ_ID sn = sn"
proof -
  note small = bit_small [OF assms(2)]
  have b: "bit out n \<longleftrightarrow> bit sn n \<or> n = 15" for n
    using small [of n] bit_imp_le_length [of sn n]
    by (cases "15 \<le> n") (auto simp: out_def AF_IPC_GET_SEQ_ID_def bit_mask mask_0xFFFF bit_simps)
  show new: "AF_IPC_SEQNUM_IS_NEW_REQUEST out" by (simp add: new_request_bit b)
  then show "out \<noteq> 0" by (auto simp: AF_IPC_SEQNUM_IS_NEW_REQUEST_def)
  have s: "bit (incoming_seqNum cid out) n \<longleftrightarrow> bit sn n \<or> 16 \<le> n \<and> n < 32 \<and> bit cid (n - 16)" for n
    using small [of n] bit_imp_le_length [of sn n]
    by (cases "15 \<le> n") (auto simp: incoming_seqNum_def bit_mask bit_simps b)
  show "AF_IPC_GET_SEQ_ID (incoming_seqNum cid out) = sn"
  proof (rule bit_word_eqI)
    fix n show "bit (AF_IPC_GET_SEQ_ID (incoming_seqNum cid out)) n = bit sn n"
      using small [of n] bit_imp_le_length [of sn n]
      by (cases "15 \<le> n") (auto simp: AF_IPC_GET_SEQ_ID_def mask_0xFFFF bit_simps s)
  qed
  show "af_ipc_get_client_id_from_seq_num (incoming_seqNum cid out) = cid"
    using small
    by (intro bit_word_eqI)
      (auto simp: af_ipc_get_client_id_from_seq_num_def AF_IPC_GET_CLIENT_ID_def bit_simps s)
  show "incoming_seqNum cid out = AF_IPC_BUILD_SEQNUM (ucast cid) sn"
    by (intro bit_word_eqI) (auto simp: AF_IPC_BUILD_SEQNUM_def bit_simps s)
  show "\<not> AF_IPC_SEQNUM_IS_NEW_REQUEST sn" using small by (simp add: new_request_bit)
  show "sn \<noteq> 0" using assms(1) by auto
  show "AF_IPC_GET_SEQ_ID sn = sn" using assms(2) by (intro seq_id_small) simp
qed

section \<open>Streams of messages\<close>

lemma read_hdr_frame:
  "read_hdr (pre @ frame sn payload @ rest) (int (length pre)) =
   Some \<lparr>hdr_seqNum = sn, hdr_len = word_of_nat (length payload + 8)\<rparr>"
proof -
  have "take 4 (bytes32 sn @ xs) = bytes32 sn" "take 2 (drop 4 (bytes32 sn @ bytes16 v @ ys)) = bytes16 v"
    for xs v ys by simp_all
  then show ?thesis by (simp add: read_hdr_def frame_def hdr_bytes_def)
qed

lemma uint_frame_len: "length payload \<le> 65527 \<Longrightarrow> uint (word_of_nat (length payload + 8) :: u16) = int (length payload + 8)"
  by (simp only: uint_nat unat_of_nat) simp

type_synonym message = "u32 \<times> byte list"

definition frames :: "message list \<Rightarrow> byte list" where
  "frames fs = concat (map (\<lambda>(sn, payload). frame sn payload) fs)"

lemma frames_simps [simp]: "frames [] = []" "frames ((sn, p) # fs) = frame sn p @ frames fs"
  "frames (fs @ gs) = frames fs @ frames gs"
  by (simp_all add: frames_def)

fun deliver ::
    "'a runner \<Rightarrow> u16 \<Rightarrow> nat option \<Rightarrow> nat option \<Rightarrow> nat \<Rightarrow> message list \<Rightarrow> 'a world_scheme \<Rightarrow> 'a world_scheme option"
where
  "deliver run clientId req_control receiveCallback ctx [] w = Some w"
| "deliver run clientId req_control receiveCallback ctx ((sn, payload) # fs) w = do {
     w \<leftarrow> receive_one run clientId req_control receiveCallback ctx (AF_IPC_GET_SEQ_ID sn) payload w;
     deliver run clientId req_control receiveCallback ctx fs w
   }"

lemma receive_loop_frames:
  assumes "buf = pre @ frames fs @ rest" "length buf < 2 ^ 31"
    and "\<forall>(sn, p) \<in> set fs. length p \<le> 65527"
    and "rest \<noteq> [] \<or> fs = [] \<or> snd (last fs) \<noteq> []"
  shows "receive_loop run buf (int (length buf)) cid rc cb ctx (int (length pre)) w = do {
      w \<leftarrow> deliver run cid rc cb ctx fs w;
      receive_loop run buf (int (length buf)) cid rc cb ctx (int (length pre + length (frames fs))) w
    }"
  using assms
proof (induction fs arbitrary: pre w)
  case Nil
  then show ?case by simp
next
  case (Cons f fs)
  obtain sn p where f: "f = (sn, p)" by (cases f)
  have buf: "buf = pre @ frame sn p @ (frames fs @ rest)" using Cons.prems(1) f by simp
  have p: "length p \<le> 65527" using Cons.prems(3) f by auto
  have "length p + length (frames fs) + length rest > 0"
    using Cons.prems(4) f by (cases fs) (auto simp: frames_def frame_def hdr_bytes_def split: if_splits)
  then have len: "length pre + 8 < length buf" unfolding buf by simp
  have hdr: "read_hdr buf (int (length pre)) = Some \<lparr>hdr_seqNum = sn, hdr_len = word_of_nat (length p + 8)\<rparr>"
    unfolding buf by (rule read_hdr_frame)
  have pay: "take (length p) (drop (length pre + 8) buf) = p"
    unfolding buf by (simp add: frame_def hdr_bytes_def)
  have fits: "int (length pre) + int (length p + 8) \<le> int (length buf)" unfolding buf by simp
  have IH: "receive_loop run buf (int (length buf)) cid rc cb ctx (int (length (pre @ frame sn p))) w' = do {
      w \<leftarrow> deliver run cid rc cb ctx fs w';
      receive_loop run buf (int (length buf)) cid rc cb ctx (int (length (pre @ frame sn p) + length (frames fs))) w
    }" for w'
    using Cons.prems f by (intro Cons.IH) (auto split: if_splits)
  have small: "csize (int (length pre) + AF_IPC_MSGHDR_LEN) < csize (int (length buf))"
    using len Cons.prems(2) by (simp add: AF_IPC_MSGHDR_LEN_def)
  show ?case
    using hdr small len fits pay uint_frame_len [OF p]
    by (simp add: receive_loop.simps [of _ _ _ _ _ _ _ "int (length pre)"] f AF_IPC_MSGHDR_LEN_def
        IH [simplified] Let_def add.assoc nat_add_distrib split: option.split)
qed

lemma receive_tail:
  assumes "pos \<le> len" "len \<le> pos + 8" "0 \<le> pos" "len < 2 ^ 31"
  shows "receive_loop run buf len cid rc cb ctx pos w = Some w"
  using assms by (simp add: receive_loop.simps [of _ _ _ _ _ _ _ pos] AF_IPC_MSGHDR_LEN_def)

lemma handle_frames:
  assumes "length (frames fs @ rest) < 2 ^ 31" "\<forall>(sn, p) \<in> set fs. length p \<le> 65527"
    and "length rest \<le> 8" "rest \<noteq> [] \<or> fs = [] \<or> snd (last fs) \<noteq> []"
  shows "af_ipc_handle_receive_message run (frames fs @ rest) (int (length (frames fs @ rest))) cid rc cb ctx w =
    deliver run cid rc cb ctx fs w"
proof -
  let ?buf = "frames fs @ rest"
  have buf: "?buf = [] @ frames fs @ rest" by simp
  have len: "int (length ?buf) \<le> int (length ([] :: byte list) + length (frames fs)) + 8"
    "int (length ([] :: byte list) + length (frames fs)) \<le> int (length ?buf)"
    "int (length ?buf) < 2 ^ 31"
    using assms(1,3) by simp_all
  have tail: "receive_loop run ?buf (int (length ?buf)) cid rc cb ctx
      (int (length ([] :: byte list) + length (frames fs))) w' = Some w'" for w'
    using len by (intro receive_tail) simp_all
  have "receive_loop run ?buf (int (length ?buf)) cid rc cb ctx (int (length ([] :: byte list))) w =
      deliver run cid rc cb ctx fs w"
    unfolding receive_loop_frames [OF buf assms(1,2,4)] tail by simp
  then show ?thesis by (simp add: af_ipc_handle_receive_message_def)
qed

section \<open>Applications\<close>

locale receiver =
  fixes run :: "'a runner" and c :: nat and inv :: "'a world_scheme \<Rightarrow> bool" and accepts :: "byte list \<Rightarrow> bool"
  assumes inv_ok: "inv w \<Longrightarrow> world_ok w \<and> db_open w c"
    and drop_inv: "inv w \<Longrightarrow> db_open w c' \<Longrightarrow> a \<in> set (pending w c') \<Longrightarrow> inv (drop_pending c' a w)"
    and run_inv: "inv w \<Longrightarrow> accepts payload \<Longrightarrow> \<exists>w'. run cb status sn payload ctx w = Some w' \<and> inv w'"
    and accepts_Nil: "accepts []"
begin

lemma run_callback_inv: "inv w \<Longrightarrow> accepts payload \<Longrightarrow> \<exists>w'. run_callback run r status sn payload w = Some w' \<and> inv w'"
  using run_inv by (auto simp: run_callback_def split: option.split)

lemma receive_one_inv:
  assumes "inv w" "accepts payload"
  shows "\<exists>w'. receive_one run cid (Some c) cb ctx sn payload w = Some w' \<and> inv w'"
proof (cases "sn = 0 \<or> AF_IPC_SEQNUM_IS_NEW_REQUEST sn")
  case True
  then show ?thesis using assms run_inv by (auto simp: receive_one_def split: option.split)
next
  case False
  have ok: "world_ok w" "db_open w c" using inv_ok [OF assms(1)] by simp_all
  show ?thesis
  proof (cases "find_reply w c sn")
    case None
    with False ok assms show ?thesis by (simp add: receive_one_def receive_reply_eq)
  next
    case (Some a)
    then have a: "a \<in> set (pending w c)" using find_reply_SomeD by blast
    from run_callback_inv [OF drop_inv [OF assms(1) ok(2) a] assms(2)] False Some ok show ?thesis
      by (simp add: receive_one_def receive_reply_eq)
  qed
qed

text \<open>On any bytes, the loop makes only valid accesses, ends, and keeps the invariant.\<close>

lemma receive_loop_inv:
  assumes "inv w" "len = int (length buf)" "len < 2 ^ 31" "0 \<le> pos"
    and "\<forall>i\<ge>8. \<forall>k. accepts (take k (drop i buf))"
  shows "\<exists>w'. receive_loop run buf len cid (Some c) cb ctx pos w = Some w' \<and> inv w'"
  using assms
proof (induction "nat (len - pos)" arbitrary: pos w rule: less_induct)
  case less
  note loop = receive_loop.simps [of run buf len cid "Some c" cb ctx pos w]
  show ?case
  proof (cases "pos < len \<and> pos + 8 < len")
    case False
    then have "receive_loop run buf len cid (Some c) cb ctx pos w = Some w"
      using less.prems(3,4) by (auto simp: loop AF_IPC_MSGHDR_LEN_def)
    then show ?thesis using less.prems(1) by simp
  next
    case inside: True
    then have cs: "csize (pos + AF_IPC_MSGHDR_LEN) < csize len"
      using less.prems by (simp add: AF_IPC_MSGHDR_LEN_def)
    have "nat pos + 8 \<le> length buf" using inside less.prems(2,4) by linarith
    then obtain h where h: "read_hdr buf pos = Some h"
      using less.prems(4) by (auto simp: read_hdr_def)
    let ?n = "uint (hdr_len h)"
    show ?thesis
    proof (cases "pos + ?n > len \<or> ?n < 8")
      case True
      then have "receive_loop run buf len cid (Some c) cb ctx pos w = Some w"
        using inside cs h by (simp add: loop AF_IPC_MSGHDR_LEN_def Let_def)
      then show ?thesis using less.prems(1) by simp
    next
      case False
      have acc: "accepts (take (nat ?n - 8) (drop (nat pos + 8) buf))" using less.prems(5) by simp
      obtain w1 where w1: "receive_one run cid (Some c) cb ctx (AF_IPC_GET_SEQ_ID (hdr_seqNum h))
          (take (nat ?n - 8) (drop (nat pos + 8) buf)) w = Some w1" "inv w1"
        using receive_one_inv [OF less.prems(1)] acc by blast
      have "\<exists>w'. receive_loop run buf len cid (Some c) cb ctx (pos + ?n) w1 = Some w' \<and> inv w'"
        using False inside less.prems w1 by (intro less.hyps) auto
      then show ?thesis using False inside cs h w1 by (simp add: loop AF_IPC_MSGHDR_LEN_def Let_def)
    qed
  qed
qed

lemma handle_inv:
  assumes "inv w" "length buf < 2 ^ 31" "\<forall>i\<ge>8. \<forall>k. accepts (take k (drop i buf))"
  shows "\<exists>w'. af_ipc_handle_receive_message run buf (int (length buf)) cid (Some c) cb ctx w = Some w' \<and> inv w'"
  unfolding af_ipc_handle_receive_message_def using assms by (intro receive_loop_inv) auto

lemma fire_timer_inv:
  assumes "inv w" and e: "events w e = Some v" "ev_handler v = On_timeout a"
  shows "\<exists>w'. fire_timer run e w = Some w' \<and> inv w'"
proof -
  have ok: "world_ok w" using inv_ok [OF assms(1)] by simp
  obtain r c' where r: "reqs w a = Some r" "rq_req_control r = Some c'" "db_open w c'"
    "a \<in> set (pending w c')" by (rule timer_request [OF ok e])
  from run_callback_inv [OF drop_inv [OF assms(1) r(3,4)] accepts_Nil]
  show ?thesis by (simp add: fire_timer_eq [OF ok e r(1,2)])
qed

end

text \<open>The weakest such invariant: the state is consistent and the connection open.\<close>

locale callbacks =
  fixes run :: "'a runner" and c :: nat
  assumes run_ok: "world_ok w \<Longrightarrow> db_open w c \<Longrightarrow>
    \<exists>w'. run cb status sn payload ctx w = Some w' \<and> world_ok w' \<and> db_open w' c"

sublocale callbacks \<subseteq> receiver run c "\<lambda>w. world_ok w \<and> db_open w c" "\<lambda>_. True"
proof
  fix w :: "'a world_scheme" and c' a
  assume "world_ok w \<and> db_open w c" "db_open w c'" "a \<in> set (pending w c')"
  then show "world_ok (drop_pending c' a w) \<and> db_open (drop_pending c' a w) c"
    using drop_pending_ok drop_pending_pending(3) by blast
qed (use run_ok in auto)

context callbacks
begin

lemma handle_ok:
  assumes "world_ok w" "db_open w c" "length buf < 2 ^ 31"
  shows "\<exists>w'. af_ipc_handle_receive_message run buf (int (length buf)) cid (Some c) cb ctx w = Some w' \<and>
    world_ok w' \<and> db_open w' c"
  using assms by (intro handle_inv) auto

lemma fire_timer_ok:
  assumes "world_ok w" "events w e = Some v" "ev_handler v = On_timeout a" "db_open w c"
  shows "\<exists>w'. fire_timer run e w = Some w' \<and> world_ok w' \<and> db_open w' c"
  using assms by (intro fire_timer_inv) auto

end

text \<open>
  Applications whose callbacks answer with any messages (replies or unsolicited), computed from
  what they receive, as the programs in \<^verbatim>\<open>src/pkg/src\<close> do.
\<close>

record answer =
  ans_fd :: int
  ans_seqNum :: u32
  ans_payload :: "byte list"

fun send_answers :: "answer list \<Rightarrow> 'a world_scheme \<Rightarrow> 'a world_scheme option" where
  "send_answers [] w = Some w"
| "send_answers (x # xs) w = do {
     (r, w) \<leftarrow> af_ipc_send (ans_fd x) None (ans_seqNum x) (ans_payload x) (int (length (ans_payload x)))
       None 0 0 w;
     send_answers xs w
   }"

definition answering ::
    "(nat \<Rightarrow> int \<Rightarrow> u32 \<Rightarrow> byte list \<Rightarrow> nat \<Rightarrow> answer list) \<Rightarrow> 'a runner" where
  "answering app cb status sn payload ctx w = send_answers (app cb status sn payload ctx) w"

lemma send_plain_ok:
  assumes "timeoutMs \<le> 0"
  shows "\<exists>r w'. af_ipc_send fd rcq sn payload (int (length payload)) cb ctx timeoutMs w = Some (r, w') \<and>
    ctls w' = ctls w \<and> reqs w' = reqs w \<and> events w' = events w \<and> tick w \<le> tick w'"
  using assms
  by (auto simp: af_ipc_send_def transmit_def sendmsg_def set_errno_def next_tick_def log_io_def Let_def)

lemma send_answers_ok:
  "\<exists>w'. send_answers xs w = Some w' \<and> ctls w' = ctls w \<and> reqs w' = reqs w \<and> events w' = events w \<and>
    tick w \<le> tick w'"
proof (induction xs arbitrary: w)
  case (Cons x xs)
  obtain r w1 where w1: "af_ipc_send (ans_fd x) None (ans_seqNum x) (ans_payload x)
      (int (length (ans_payload x))) None 0 0 w = Some (r, w1)"
    "ctls w1 = ctls w" "reqs w1 = reqs w" "events w1 = events w" "tick w \<le> tick w1"
    using send_plain_ok [of 0] by blast
  from Cons.IH [of w1] w1 show ?case by (fastforce intro: order_trans)
qed simp

interpretation answering: callbacks "answering app" c for app c
proof
  fix w :: "'b world_scheme" and cb status sn payload ctx
  assume ok: "world_ok w" "db_open w c"
  obtain w' where w': "send_answers (app cb status sn payload ctx) w = Some w'"
    "ctls w' = ctls w" "reqs w' = reqs w" "events w' = events w" "tick w \<le> tick w'"
    using send_answers_ok by blast
  have "world_ok w'" using w'(2-5) ok(1) by (rule world_ok_cong)
  moreover have "db_open w' c" using ok(2) w'(2) by (simp add: db_open_def)
  ultimately show "\<exists>w'. answering app cb status sn payload ctx w = Some w' \<and> world_ok w' \<and> db_open w' c"
    using w'(1) by (simp add: answering_def)
qed

end
