(* ===== verification/Ipc_Shutdown.thy ===== *)
theory Ipc_Shutdown
  imports Ipc_Receive
begin

text \<open>
  Initialisation and shutdown of a request database (\<^verbatim>\<open>af_ipc_common.c\<close>): shutdown frees every
  pending request and its timer, and nothing else.
\<close>

definition timer_of :: "'a world_scheme \<Rightarrow> nat \<Rightarrow> nat" where
  "timer_of w a = (case reqs w a of None \<Rightarrow> 0
     | Some r \<Rightarrow> (case rq_event r of None \<Rightarrow> 0 | Some e \<Rightarrow> e))"

definition has_timer :: "'a world_scheme \<Rightarrow> nat \<Rightarrow> bool" where
  "has_timer w a \<longleftrightarrow> (\<exists>r. reqs w a = Some r \<and> rq_event r = Some (timer_of w a)) \<and>
     events w (timer_of w a) \<noteq> None"

lemma has_timer_request: "request_ok w c a \<Longrightarrow> has_timer w a \<and> ev_handler (the (events w (timer_of w a))) = On_timeout a"
  by (erule request_okE) (simp add: has_timer_def timer_of_def)

lemma cancel_events_eq:
  assumes "distinct as" "\<forall>a \<in> set as. has_timer w a" "inj_on (timer_of w) (set as)"
  shows "cancel_events as w = Some (w\<lparr>
    events := (\<lambda>e. if e \<in> timer_of w ` set as then None else events w e),
    reqs := (\<lambda>a. if a \<in> set as then map_option (rq_event_update (\<lambda>_. None)) (reqs w a) else reqs w a)\<rparr>)"
  using assms
proof (induction as arbitrary: w)
  case Nil
  then show ?case by simp
next
  case (Cons a as)
  let ?e = "timer_of w a"
  obtain r where r: "reqs w a = Some r" "rq_event r = Some ?e" and e: "events w ?e \<noteq> None"
    using Cons.prems(2) by (auto simp: has_timer_def)
  let ?w = "w\<lparr>events := (events w)(?e := None), reqs := (reqs w)(a \<mapsto> rq_event_update (\<lambda>_. None) r)\<rparr>"
  have step: "cancel_event a w = Some ?w"
    using r e by (auto simp: cancel_event_def event_del_def event_free_def upd_req_def)
  have timer: "timer_of ?w b = timer_of w b" if "b \<in> set as" for b
    using Cons.prems(1) that by (auto simp: timer_of_def)
  have diff: "timer_of w b \<noteq> ?e" if "b \<in> set as" for b
    using Cons.prems(1,3) that by (auto simp: inj_on_def)
  have has: "\<forall>b \<in> set as. has_timer ?w b"
  proof
    fix b assume b: "b \<in> set as"
    then have "has_timer w b" "b \<noteq> a" using Cons.prems(1,2) by auto
    then show "has_timer ?w b"
      using diff [OF b] timer [OF b] by (simp add: has_timer_def)
  qed
  have inj: "inj_on (timer_of ?w) (set as)"
    using Cons.prems(3) timer by (auto simp: inj_on_def)
  have img: "timer_of ?w ` set as = timer_of w ` set as" using timer by auto
  have "cancel_events as ?w = Some (?w\<lparr>
      events := (\<lambda>e. if e \<in> timer_of w ` set as then None else events ?w e),
      reqs := (\<lambda>b. if b \<in> set as then map_option (rq_event_update (\<lambda>_. None)) (reqs ?w b) else reqs ?w b)\<rparr>)"
    using Cons.IH [OF _ has inj] Cons.prems(1) by (simp only: img) simp
  moreover have "(\<lambda>e. if e \<in> timer_of w ` set as then None else events ?w e) =
      (\<lambda>e. if e \<in> timer_of w ` set (a # as) then None else events w e)"
    by (auto simp: fun_eq_iff)
  moreover have "(\<lambda>b. if b \<in> set as then map_option (rq_event_update (\<lambda>_. None)) (reqs ?w b) else reqs ?w b) =
      (\<lambda>b. if b \<in> set (a # as) then map_option (rq_event_update (\<lambda>_. None)) (reqs w b) else reqs w b)"
    using Cons.prems(1) r by (auto simp: fun_eq_iff)
  ultimately show ?case using step by simp
qed

text \<open>The abstract effect of a shutdown.\<close>

definition closed_db :: "nat \<Rightarrow> 'a world_scheme \<Rightarrow> 'a world_scheme" where
  "closed_db c w = (case ctls w c of None \<Rightarrow> w
     | Some rc \<Rightarrow> w\<lparr>
        ctls := (ctls w)(c \<mapsto> rc\<lparr>rc_pendingRequests := [], rc_reqPool := Pool_freed, rc_mutexCreated := False\<rparr>),
        reqs := (\<lambda>a. if a \<in> set (pending w c) then None else reqs w a),
        events := (\<lambda>e. if e \<in> timer_of w ` set (pending w c) then None else events w e)\<rparr>)"

lemma pending_timers:
  assumes ok: "world_ok w" "db_open w c"
  shows "\<forall>a \<in> set (pending w c). has_timer w a" "inj_on (timer_of w) (set (pending w c))"
    and "distinct (pending w c)"
proof -
  have t: "has_timer w a \<and> ev_handler (the (events w (timer_of w a))) = On_timeout a"
    if "a \<in> set (pending w c)" for a
    using pending_live [OF ok] that has_timer_request by blast
  then show "\<forall>a \<in> set (pending w c). has_timer w a" by blast
  show "inj_on (timer_of w) (set (pending w c))"
    using t by (intro inj_onI) (metis handler.inject(1))
  show "distinct (pending w c)" by (rule db_openE [OF ok]) simp
qed

lemma shutdown_eq:
  assumes ok: "world_ok w" "db_open w c"
  shows "af_ipc_util_shutdown_requests (Some c) w = Some (closed_db c w)"
proof -
  obtain rc where rc: "ctls w c = Some rc" by (rule db_openE [OF ok])
  obtain pool where p: "rc_mutexCreated rc" "\<not> rc_mutex_held rc" "rc_reqPool rc = Pool_live pool"
    "set pool = set (rc_pendingRequests rc)" "pending w c = rc_pendingRequests rc"
    by (rule db_rcE [OF ok rc])
  note t = pending_timers [OF ok]
  have tm: "timer_of (locked c rc w) = timer_of w" by (simp add: fun_eq_iff timer_of_def locked_def)
  have ht: "has_timer (locked c rc w) = has_timer w"
    unfolding has_timer_def tm fun_eq_iff by (simp add: locked_def)
  have cancel: "cancel_events (rc_pendingRequests rc) (locked c rc w) = Some ((locked c rc w)\<lparr>
      events := (\<lambda>e. if e \<in> timer_of w ` set (pending w c) then None else events w e),
      reqs := (\<lambda>a. if a \<in> set (pending w c) then map_option (rq_event_update (\<lambda>_. None)) (reqs w a) else reqs w a)\<rparr>)"
    using cancel_events_eq [of "rc_pendingRequests rc" "locked c rc w"] t p(5) by (simp add: tm ht cong: if_cong)
  have lock: "mutex_lock c w = Some (locked c rc w)" by (rule lock_open [OF ok rc])
  show ?thesis
    using rc p lock cancel
    by (cases rc; cases w)
      (simp add: af_ipc_util_shutdown_requests_def upd_ctl_def mempool_destroy_def mutex_unlock_def
        locked_def closed_db_def fun_eq_iff)
qed

lemma closed_db_ok:
  assumes ok: "world_ok w" and op: "db_open w c"
  shows "world_ok (closed_db c w)"
proof -
  obtain rc where rc: "ctls w c = Some rc" by (rule db_openE [OF ok op])
  have db: "uint (rc_lastSeqId rc) < 2 ^ 15" "\<not> rc_mutex_held rc" by (rule db_rcE [OF ok op rc]; assumption)+
  let ?w = "closed_db c w"
  let ?rc = "rc\<lparr>rc_pendingRequests := [], rc_reqPool := Pool_freed, rc_mutexCreated := False\<rparr>"
  have sel: "ctls ?w = (ctls w)(c \<mapsto> ?rc)"
    "reqs ?w = (\<lambda>a. if a \<in> set (pending w c) then None else reqs w a)"
    "events ?w = (\<lambda>e. if e \<in> timer_of w ` set (pending w c) then None else events w e)" "tick ?w = tick w"
    using rc by (simp_all add: closed_db_def)
  have mine: "rq_req_control r = Some c" if "a \<in> set (pending w c)" "reqs w a = Some r" for a r
  proof -
    have "request_ok w c a" using pending_live [OF ok op] that(1) by blast
    with that(2) show ?thesis by (simp add: request_ok_def)
  qed
  have handler: "\<exists>v. events w (timer_of w a) = Some v \<and> ev_handler v = On_timeout a"
    if "a \<in> set (pending w c)" for a
  proof -
    have "request_ok w c a" using pending_live [OF ok op] that by blast
    from has_timer_request [OF this] show ?thesis by (auto simp: has_timer_def)
  qed
  have req: "request_ok ?w c' b" if b: "request_ok w c' b" "c' \<noteq> c" for b c'
  proof -
    obtain r e v where r: "reqs w b = Some r" "rq_req_control r = Some c'" "rq_event r = Some e"
      "events w e = Some v" "ev_handler v = On_timeout b" using b(1) by (rule request_okE)
    then have "b \<notin> set (pending w c)" using mine b(2) by auto
    moreover have "e \<notin> timer_of w ` set (pending w c)"
    proof
      assume "e \<in> timer_of w ` set (pending w c)"
      then obtain a where a: "a \<in> set (pending w c)" "e = timer_of w a" by blast
      with handler [OF a(1)] r(4,5) have "b = a" by simp
      with a \<open>b \<notin> set (pending w c)\<close> show False by simp
    qed
    ultimately show ?thesis using b(1) r by (simp add: request_ok_def sel)
  qed
  have "db_ok ?w c' rc'" if c': "ctls ?w c' = Some rc'" for c' rc'
  proof (cases "c' = c")
    case True
    with c' have rc': "rc' = ?rc" by (simp add: sel)
    show ?thesis unfolding rc' using db True by (simp add: db_ok_def)
  next
    case False
    with c' have "db_ok w c' rc'" using world_okD(1) [OF ok] by (simp add: sel)
    moreover have "a \<in> set (rc_pendingRequests rc') \<Longrightarrow> rc_mutexCreated rc' \<Longrightarrow> seq_of ?w a = seq_of w a" for a
    proof -
      assume "a \<in> set (rc_pendingRequests rc')" "rc_mutexCreated rc'"
      with \<open>db_ok w c' rc'\<close> have "request_ok w c' a" by (simp add: db_ok_def)
      then obtain r where "reqs w a = Some r" "rq_req_control r = Some c'" by (rule request_okE)
      then have "a \<notin> set (pending w c)" using mine False by auto
      then show "seq_of ?w a = seq_of w a" by (simp add: seq_of_def sel)
    qed
    ultimately show ?thesis
      using req False by (auto simp: db_ok_def inj_on_def split: if_splits pool.splits)
  qed
  moreover have "req_owned ?w a r" if r: "reqs ?w a = Some r" for a r
  proof -
    have a: "a \<notin> set (pending w c)" "reqs w a = Some r" using r by (auto simp: sel split: if_splits)
    have "req_owned w a r" using ok a(2) by (rule world_okD)
    then obtain c' rc' where "a < tick w" "rq_req_control r = Some c'" "ctls w c' = Some rc'"
      "rc_mutexCreated rc'" "a \<in> set (rc_pendingRequests rc')" by (auto simp: req_owned_def)
    moreover from this a(1) have "c' \<noteq> c" by (auto simp: pending_def)
    ultimately show ?thesis by (simp add: req_owned_def sel)
  qed
  moreover have "timer_owned ?w e v" if v: "events ?w e = Some v" for e v
  proof -
    have e: "e \<notin> timer_of w ` set (pending w c)" "events w e = Some v"
      using v by (auto simp: sel split: if_splits)
    have "timer_owned w e v" using ok e(2) by (rule world_okD)
    moreover have "a \<notin> set (pending w c)" if "reqs w a = Some r" "rq_event r = Some e" for a r
    proof
      assume "a \<in> set (pending w c)"
      moreover have "timer_of w a = e" using that by (simp add: timer_of_def)
      ultimately show False using e(1) by blast
    qed
    ultimately show ?thesis by (auto simp: timer_owned_def sel)
  qed
  ultimately show ?thesis by (simp add: world_ok_def)
qed

lemma init_eq:
  assumes "ctls w c \<noteq> None"
  shows "af_ipc_util_init_requests (Some c) w = Some
    (let rc = \<lparr>rc_lastSeqId = 0, rc_mutexCreated = False, rc_mutex_held = False,
        rc_pendingRequests = [], rc_reqPool = Pool_null\<rparr> in
     if ext_null (outcomes w (tick w))
     then (-1, set_errno 28 (next_tick (w\<lparr>ctls := (ctls w)(c \<mapsto> rc)\<rparr>)))
     else let ret = ext_ret (outcomes w (Suc (tick w))) in
       (ret, next_tick (next_tick (w\<lparr>ctls := (ctls w)(c \<mapsto>
          rc\<lparr>rc_reqPool := Pool_live [], rc_mutexCreated := (ret = 0)\<rparr>)\<rparr>))))"
  using assms
  by (cases w) (auto simp: af_ipc_util_init_requests_def upd_ctl_def ext_now_def next_tick_def
      set_errno_def Let_def)

end
