(* ===== verification/Ipc_Correct.thy ===== *)
theory Ipc_Correct
  imports Ipc_Shutdown
begin

text \<open>
  The properties of the message layer \<^verbatim>\<open>src/pkg/src/af_ipc_common.c\<close>: requests and replies find
  each other, every request is answered or times out once, streams of messages are split
  correctly, arbitrary bytes are harmless, and the corner cases where this ends.
\<close>

section \<open>A world for the examples\<close>

text \<open>One open database at address 0 without requests; all external calls succeed.\<close>

definition example_db :: af_ipc_req_control where
  "example_db = \<lparr>rc_lastSeqId = 0, rc_mutexCreated = True, rc_mutex_held = False,
     rc_pendingRequests = [], rc_reqPool = Pool_live []\<rparr>"

definition example_world :: world where
  "example_world = \<lparr>ctls = [0 \<mapsto> example_db], reqs = Map.empty, events = Map.empty, io_log = [],
     cerrno = 0, tick = 10,
     outcomes = (\<lambda>n. \<lparr>ext_null = False, ext_ret = 5000, ext_errno = 0, ext_recv = Inr []\<rparr>)\<rparr>"

lemma example_world_ok: "world_ok example_world" "db_open example_world 0" "pending example_world 0 = []"
  by (simp_all add: world_ok_def db_ok_def example_world_def example_db_def db_open_def pending_def)

lemma example_world_sel [simp]: "tick example_world = 10" "io_log example_world = []"
  "outcomes example_world n = \<lparr>ext_null = False, ext_ret = 5000, ext_errno = 0, ext_recv = Inr []\<rparr>"
  "new_seqNum example_world 0 = 1" "reqs example_world = Map.empty"
  by (simp_all add: example_world_def new_seqNum_def example_db_def next_seq_def)

text \<open>The same world with one request, of callback 7 and context 9, that waits a second.\<close>

definition example_waiting :: world where
  "example_waiting = registered 0 (Some 7) 9 1000 example_world"

lemma example_waiting_ok:
  "world_ok example_waiting" "db_open example_waiting 0" "pending example_waiting 0 = [10]"
  "reqs example_waiting 10 = Some (new_request example_world 0 (Some 7) 9 1000)"
  "seq_of example_waiting 10 = 1" "events example_waiting 11 = Some (new_timer 10 1000)"
proof -
  show "world_ok example_waiting"
    unfolding example_waiting_def using example_world_ok by (intro registered_ok) simp_all
  show "db_open example_waiting 0" "pending example_waiting 0 = [10]"
    "reqs example_waiting 10 = Some (new_request example_world 0 (Some 7) 9 1000)"
    "events example_waiting 11 = Some (new_timer 10 1000)"
    using registered_sel [OF example_world_ok(2)] example_world_ok
    by (simp_all add: example_waiting_def)
  then show "seq_of example_waiting 10 = 1" by (simp add: seq_of_def new_request_def)
qed

section \<open>Requests and replies\<close>

lemma sent_sel [simp]: "io_log (sent fd bs w) = io_log w @ [Sent fd (take (nat (ext_ret (ext_now w))) bs)]"
  "ctls (sent fd bs w) = ctls w" "reqs (sent fd bs w) = reqs w" "events (sent fd bs w) = events w"
  "tick (sent fd bs w) = Suc (tick w)" "outcomes (sent fd bs w) = outcomes w"
  by (simp_all add: sent_def log_io_def next_tick_def)

lemma handle_single:
  assumes "payload \<noteq> []" "length payload \<le> 4088"
  shows "af_ipc_handle_receive_message run (frame sn payload) (int (length (frame sn payload))) cid rc cb ctx w =
    receive_one run cid rc cb ctx (AF_IPC_GET_SEQ_ID sn) payload w"
proof -
  have "af_ipc_handle_receive_message run (frames [(sn, payload)] @ []) (int (length (frames [(sn, payload)] @ [])))
      cid rc cb ctx w = deliver run cid rc cb ctx [(sn, payload)] w"
    using assms by (intro handle_frames) auto
  then show ?thesis
    by (cases "receive_one run cid rc cb ctx (AF_IPC_GET_SEQ_ID sn) payload w") (simp_all del: length_frame)
qed

text \<open>
  C9. A request and its reply find each other. A successful request of a non-empty payload
  whose bytes all go out puts exactly one message on the wire. A receiver that serves the
  connection as client \<open>cid\<close> hands it to its receive callback once, under a sequence number
  that carries \<open>cid\<close> and the request's id. A message with that sequence number, when it
  reaches the sender in any later state in which the request is still pending, removes this
  request and its timer and calls the callback of this request, with its context, once.
\<close>

theorem request_reply_exchange:
  assumes "world_ok w" "db_open w c" "0 < timeoutMs" "payload \<noteq> []" "length payload \<le> 4088"
    and "new_seqNum w c \<notin> seq_of w ` set (pending w c)"
    and "af_ipc_send fd (Some c) sn payload (int (length payload)) (Some cb) ctx timeoutMs w = Some (0, w1)"
    and "int (length payload + 8) \<le> ext_ret (outcomes w (tick w + 2))"
  shows "\<exists>bs a. io_log w1 = io_log w @ [Sent fd bs] \<and> pending w1 c = a # pending w c \<and> world_ok w1 \<and>
    (\<forall>(run :: 'b runner) cid rc rcb rctx v.
       af_ipc_handle_receive_message run bs (int (length bs)) cid rc (Some rcb) rctx v =
       run rcb 0 (AF_IPC_BUILD_SEQNUM (ucast cid) (seq_of w1 a)) payload rctx v) \<and>
    (\<forall>(run :: 'a runner) (cid :: u16) cid' rcb rctx answer w2.
       world_ok w2 \<longrightarrow> db_open w2 c \<longrightarrow> a \<in> set (pending w2 c) \<longrightarrow> reqs w2 a = reqs w1 a \<longrightarrow>
       answer \<noteq> [] \<longrightarrow> length answer \<le> 4088 \<longrightarrow>
       af_ipc_handle_receive_message run
         (frame (AF_IPC_BUILD_SEQNUM (ucast cid) (seq_of w1 a)) answer) (int (length answer + 8))
         cid' (Some c) rcb rctx w2 =
       run cb 0 (seq_of w1 a) answer ctx (drop_pending c a w2))"
proof -
  let ?r = "registered c (Some cb) ctx timeoutMs w"
  let ?bs = "frame (new_seqNum w c OR AF_IPC_SEQNUM_NEW_REQUEST_MASK) payload"
  note send = send_request_eq [OF assms(1-3,5,6), of fd sn "Some cb" ctx]
  note sel = registered_sel [OF assms(2)]
  have w1: "w1 = sent fd ?bs ?r" using assms(7) send by (auto split: if_splits)
  have ok_r: "world_ok ?r" by (rule registered_ok [OF assms(1-3,6)])
  have ret: "ext_now ?r = outcomes w (tick w + 2)" using sel(6,7) by (simp add: ext_now_def)
  have log: "io_log w1 = io_log w @ [Sent fd ?bs]"
    using assms(8) sel(8) by (simp add: w1 ret)
  have pend: "pending w1 c = tick w # pending w c"
    using sel(2) by (simp add: w1 pending_def)
  have ok1: "world_ok w1" unfolding w1 sent_def using ok_r by simp
  have seq: "seq_of w1 (tick w) = new_seqNum w c"
    using sel(4) by (simp add: w1 seq_of_def new_request_def)
  note id = request_id [OF new_seqNum_range [OF assms(1,2)]]
  have server: "af_ipc_handle_receive_message run ?bs (int (length ?bs)) cid rc (Some rcb) rctx v =
      run rcb 0 (AF_IPC_BUILD_SEQNUM (ucast cid) (seq_of w1 (tick w))) payload rctx v"
    for run :: "'b runner" and cid rc rcb rctx v
    unfolding handle_single [OF assms(4,5)] using id(1,5) by (simp add: receive_one_def seq)
  have client: "af_ipc_handle_receive_message run
        (frame (AF_IPC_BUILD_SEQNUM (ucast cid) (seq_of w1 (tick w))) answer) (int (length answer + 8))
        cid' (Some c) rcb rctx w2 =
      run cb 0 (seq_of w1 (tick w)) answer ctx (drop_pending c (tick w) w2)"
    if w2: "world_ok w2" "db_open w2 c" "tick w \<in> set (pending w2 c)" "reqs w2 (tick w) = reqs w1 (tick w)"
      and ans: "answer \<noteq> []" "length answer \<le> 4088"
    for run :: "'a runner" and cid cid' :: u16 and rcb rctx answer w2
  proof -
    have r2: "reqs w2 (tick w) = Some (new_request w c (Some cb) ctx timeoutMs)"
      using w2(4) sel(4) by (simp add: w1)
    then have "find_reply w2 c (new_seqNum w c) = Some (tick w)"
      using find_reply_unique [OF w2(1-3)] by (simp add: seq_of_def new_request_def)
    then have "receive_one run cid' (Some c) rcb rctx (new_seqNum w c) answer w2 =
        run cb 0 (new_seqNum w c) answer ctx (drop_pending c (tick w) w2)"
      using id(6,7) r2
      by (simp add: receive_one_def receive_reply_eq [OF w2(1,2)] run_callback_def new_request_def)
    moreover have "AF_IPC_GET_SEQ_ID (AF_IPC_BUILD_SEQNUM (ucast cid) (new_seqNum w c)) = new_seqNum w c"
      using id(3,5) by metis
    ultimately show ?thesis
      using handle_single [OF ans, of run "AF_IPC_BUILD_SEQNUM (ucast cid) (new_seqNum w c)" cid'
          "Some c" rcb rctx w2]
      unfolding length_frame seq by simp
  qed
  show ?thesis
    using log pend ok1 server client by blast
qed

lemma example_send:
  "af_ipc_send 3 (Some 0) 0 [1, 2] 2 (Some 7) 9 1000 example_world =
     Some (0, sent 3 (frame (1 OR AF_IPC_SEQNUM_NEW_REQUEST_MASK) [1, 2]) example_waiting)"
proof -
  have "ext_now example_waiting = \<lparr>ext_null = False, ext_ret = 5000, ext_errno = 0, ext_recv = Inr []\<rparr>"
    using registered_sel(6,7) [OF example_world_ok(2)] by (simp add: ext_now_def example_waiting_def)
  then show ?thesis
    using send_request_eq [OF example_world_ok(1,2), of 1000 "[1, 2]" 3 0 "Some 7" 9] example_world_ok(3)
    by (simp add: example_waiting_def)
qed

theorem request_reply_exchange_example:
  "\<exists>w1 bs a. af_ipc_send 3 (Some 0) 0 [1, 2] 2 (Some 7) 9 1000 example_world = Some (0, w1) \<and>
    io_log w1 = [Sent 3 bs] \<and> pending w1 0 = [a] \<and> world_ok w1 \<and>
    (\<forall>(run :: unit runner) cid rc rcb rctx v.
       af_ipc_handle_receive_message run bs (int (length bs)) cid rc (Some rcb) rctx v =
       run rcb 0 (AF_IPC_BUILD_SEQNUM (ucast cid) (seq_of w1 a)) [1, 2] rctx v)"
proof -
  have "length ([1, 2] :: byte list) \<le> 4088" "([1, 2] :: byte list) \<noteq> []" by simp_all
  from request_reply_exchange [OF example_world_ok(1,2) _ this(2,1), of 1000 3 0 7 9, where 'b = unit]
    example_send example_world_ok(3)
  show ?thesis by fastforce
qed

text \<open>
  C10. A buffer of several messages is split at the right places: it is delivered message by
  message, in order, each with its own sequence id and payload, and what follows the last
  message, if it is at most a header long, is dropped. The last message, if nothing follows
  it, must not be empty.
\<close>

theorem handle_stream:
  assumes "length (frames fs @ rest) < 2 ^ 31" "\<forall>(sn, p) \<in> set fs. length p \<le> 65527"
    and "length rest \<le> 8" "rest \<noteq> [] \<or> fs = [] \<or> snd (last fs) \<noteq> []"
  shows "af_ipc_handle_receive_message run (frames fs @ rest) (int (length (frames fs @ rest))) cid rc cb ctx w =
    deliver run cid rc cb ctx fs w"
  using assms by (rule handle_frames)

theorem handle_stream_example:
  "\<forall>run cid rc cb ctx (w :: world).
   af_ipc_handle_receive_message run (frames [(0, [1]), (5, []), (7, [2])]) 26 cid rc cb ctx w =
   deliver run cid rc cb ctx [(0, [1]), (5, []), (7, [2])] w"
proof (intro allI)
  fix run cid rc cb ctx and w :: world
  show "af_ipc_handle_receive_message run (frames [(0, [1]), (5, []), (7, [2])]) 26 cid rc cb ctx w =
      deliver run cid rc cb ctx [(0, [1]), (5, []), (7, [2])] w"
    using handle_stream [of "[(0, [1]), (5, []), (7, [2])]" "[]" run cid rc cb ctx w] by simp
qed

text \<open>
  Received bytes are harmless whatever they are: with an application that answers with any
  messages, the handler makes only valid accesses, ends, keeps the invariant of the request
  database and leaves the connection open.
\<close>

theorem handle_safe:
  assumes "world_ok w" "db_open w c" "length buf < 2 ^ 31"
  shows "\<exists>w'. af_ipc_handle_receive_message (answering app) buf (int (length buf)) cid (Some c) cb ctx w = Some w' \<and>
    world_ok w' \<and> db_open w' c"
  using assms by (rule answering.handle_ok)

theorem handle_safe_example:
  "\<exists>w'. af_ipc_handle_receive_message
      (answering (\<lambda>f st sn p cx. [\<lparr>ans_fd = 4, ans_seqNum = sn, ans_payload = p\<rparr>]))
      [1, 0, 0, 0, 10, 0, 0, 0, 65, 66, 3, 4, 5] 13 0 (Some 0) (Some 5) 6 example_waiting = Some w' \<and>
    world_ok w' \<and> db_open w' 0"
  using handle_safe [OF example_waiting_ok(1,2), of "[1, 0, 0, 0, 10, 0, 0, 0, 65, 66, 3, 4, 5]"] by simp

text \<open>
  A successful request is pending afterwards, first in the list, with its callback and a
  live timer of the given time; the rest of the database is unchanged and the invariant holds.
\<close>

theorem send_request_registers:
  assumes "world_ok w" "db_open w c" "0 < timeoutMs" "length payload \<le> 4088"
    and "new_seqNum w c \<notin> seq_of w ` set (pending w c)"
    and "af_ipc_send fd (Some c) sn payload (int (length payload)) callback ctx timeoutMs w = Some (0, w1)"
  shows "\<exists>a e. reqs w a = None \<and> events w e = None \<and> pending w1 c = a # pending w c \<and> world_ok w1 \<and>
    reqs w1 = (reqs w)(a \<mapsto> \<lparr>rq_seqNum = new_seqNum w c, rq_event = Some e, rq_timeout_val = timeoutMs,
      rq_req_control = Some c, rq_responseCallback = callback, rq_responseContext = ctx\<rparr>) \<and>
    events w1 = (events w)(e \<mapsto> \<lparr>ev_handler = On_timeout a, ev_added = True,
      ev_timeout = Some (timeoutMs div 1000, (timeoutMs mod 1000) * 1000)\<rparr>)"
proof -
  let ?r = "registered c callback ctx timeoutMs w"
  note sel = registered_sel [OF assms(2)]
  have w1: "w1 = sent fd (frame (new_seqNum w c OR AF_IPC_SEQNUM_NEW_REQUEST_MASK) payload) ?r"
    using assms(6) send_request_eq [OF assms(1-5), of fd sn callback ctx] by (auto split: if_splits)
  have "world_ok w1"
    unfolding w1 sent_def using registered_ok [OF assms(1-3,5)] by simp
  moreover have "pending w1 c = tick w # pending w c" using sel(2) by (simp add: w1 pending_def)
  moreover have "reqs w (tick w) = None" "events w (Suc (tick w)) = None"
    using fresh_tick [OF assms(1)] fresh_tick [OF world_ok_tick [OF assms(1)]]
    by (simp_all add: next_tick_def)
  ultimately show ?thesis
    using sel(4,5) by (intro exI [of _ "tick w"] exI [of _ "Suc (tick w)"])
      (simp add: w1 new_request_def new_timer_def)
qed

theorem send_request_registers_example:
  "\<exists>w1 a. af_ipc_send 3 (Some 0) 0 [1, 2] 2 (Some 7) 9 1000 example_world = Some (0, w1) \<and>
    pending w1 0 = [a] \<and> world_ok w1"
  using send_request_registers [OF example_world_ok(1,2), of 1000 "[1, 2]" 3 0 "Some 7" 9]
    example_send example_world_ok(3) by fastforce

text \<open>
  C11. A request that fails, for whatever reason (no memory, no timer, a send error), leaves
  nothing behind: no pending request, no timer, nothing on the wire; only the id counter
  may have advanced.
\<close>

theorem send_failure_clean:
  assumes "world_ok w" "db_open w c" "0 < timeoutMs" "length payload \<le> 4088"
    and "new_seqNum w c \<notin> seq_of w ` set (pending w c)"
    and "af_ipc_send fd (Some c) sn payload (int (length payload)) callback ctx timeoutMs w = Some (r, w1)"
    and "r \<noteq> 0"
  shows "r = -1 \<and> world_ok w1 \<and> reqs w1 = reqs w \<and> events w1 = events w \<and> io_log w1 = io_log w \<and>
    (\<forall>c'. pending w1 c' = pending w c' \<and> db_open w1 c' = db_open w c')"
proof -
  have skip: "world_ok (skip_seq c v) \<and> reqs (skip_seq c v) = reqs v \<and> events (skip_seq c v) = events v \<and>
      io_log (skip_seq c v) = io_log v \<and> (\<forall>c'. pending (skip_seq c v) c' = pending v c' \<and>
      db_open (skip_seq c v) c' = db_open v c')" if "world_ok v" "db_open v c" for v :: "'a world_scheme"
    using skip_seq_ok [OF that] by (simp add: skip_seq_def split: option.splits)
  have tick: "pending (next_tick v) = pending v" "db_open (next_tick v) = db_open v"
    "reqs (next_tick v) = reqs v" "events (next_tick v) = events v" "io_log (next_tick v) = io_log v"
    for v :: "'a world_scheme"
    by (simp_all add: fun_eq_iff next_tick_def pending_def db_open_def)
  have errno: "pending (set_errno e v) = pending v" "db_open (set_errno e v) = db_open v"
    "reqs (set_errno e v) = reqs v" "events (set_errno e v) = events v" "io_log (set_errno e v) = io_log v"
    for v :: "'a world_scheme" and e
    by (simp_all add: fun_eq_iff set_errno_def pending_def db_open_def)
  note s2 = skip [of "next_tick (next_tick w)"] and s3 = skip [of "next_tick (next_tick (next_tick w))"]
  from assms(6,7) send_request_eq [OF assms(1-5), of fd sn callback ctx]
  show ?thesis
    using s2 s3 assms(1,2) by (auto simp: tick errno split: if_splits)
qed

definition failing_world :: world where
  "failing_world = example_world\<lparr>outcomes := (\<lambda>n. \<lparr>ext_null = False, ext_ret = -1, ext_errno = 32, ext_recv = Inr []\<rparr>)\<rparr>"

lemma failing_world_ok: "world_ok failing_world" "db_open failing_world 0" "pending failing_world 0 = []"
  by (simp_all add: world_ok_def db_ok_def failing_world_def example_world_def example_db_def
      db_open_def pending_def)

theorem send_failure_clean_example:
  "\<exists>w1. af_ipc_send 3 (Some 0) 0 [1, 2] 2 (Some 7) 9 1000 failing_world = Some (-1, w1) \<and>
    reqs w1 = reqs failing_world \<and> events w1 = events failing_world \<and> pending w1 0 = []"
proof -
  have "ext_ret (ext_now (registered 0 (Some 7) 9 1000 failing_world)) = -1"
    using registered_sel(6,7) [OF failing_world_ok(2)] by (simp add: ext_now_def failing_world_def)
  then obtain w1 where "af_ipc_send 3 (Some 0) 0 [1, 2] 2 (Some 7) 9 1000 failing_world = Some (-1, w1)"
    using send_request_eq [OF failing_world_ok(1,2), of 1000 "[1, 2]" 3 0 "Some 7" 9] failing_world_ok(3)
    by (simp add: failing_world_def)
  then show ?thesis
    using send_failure_clean [OF failing_world_ok(1,2), of 1000 "[1, 2]" 3 0 "Some 7" 9 "-1" w1]
      failing_world_ok(3) by simp
qed

lemma dropped:
  assumes ok: "world_ok w" "db_open w c" and a: "a \<in> set (pending w c)"
    and r: "reqs w a = Some r" "rq_event r = Some e"
  shows "world_ok (drop_pending c a w)" "db_open (drop_pending c a w) c"
    and "reqs (drop_pending c a w) a = None" "events (drop_pending c a w) e = None"
    and "find_reply (drop_pending c a w) c (rq_seqNum r) = None"
proof -
  let ?w = "drop_pending c a w"
  obtain rc where rc: "ctls w c = Some rc" by (rule db_openE [OF ok])
  show "world_ok ?w" using ok a by (rule drop_pending_ok)
  show "db_open ?w c" using drop_pending_pending(3) [OF ok a] ok(2) by simp
  show "reqs ?w a = None" "events ?w e = None"
    using rc r by (simp_all add: drop_pending_def)
  have seq1: "seq_of ?w b = seq_of w b" if "b \<noteq> a" for b
    by (simp add: seq_of_def drop_pending_frame(6) [OF that])
  have inj: "inj_on (seq_of w) (set (pending w c))"
    by (rule db_openE [OF ok]) simp
  have "seq_of ?w b \<noteq> rq_seqNum r" if "b \<in> set (pending ?w c)" for b
  proof -
    have b: "b \<in> set (pending w c)" "b \<noteq> a" using that drop_pending_pending(2) [OF ok a] by auto
    then have "seq_of w b \<noteq> seq_of w a" using inj a by (auto simp: inj_on_def)
    then show ?thesis using seq1 [OF b(2)] r(1) by (simp add: seq_of_def)
  qed
  then show "find_reply ?w c (rq_seqNum r) = None"
    by (auto simp: find_reply_def find_None_iff)
qed

text \<open>
  C12. A request is answered at most once. After its reply the request is gone and so is its
  timer, and a second reply with the same sequence id is dropped without calling anything.
\<close>

theorem reply_once:
  assumes "world_ok w" "db_open w c" "a \<in> set (pending w c)"
    and "reqs w a = Some r" "rq_event r = Some e" "rq_responseCallback r = Some cb"
  defines "w1 \<equiv> drop_pending c a w"
  shows "receive_reply run (Some c) (rq_seqNum r) payload w = run cb 0 (rq_seqNum r) payload (rq_responseContext r) w1 \<and>
    reqs w1 a = None \<and> events w1 e = None \<and> world_ok w1 \<and>
    receive_reply run (Some c) (rq_seqNum r) payload' w1 = Some w1"
proof -
  have "find_reply w c (rq_seqNum r) = Some a"
    using find_reply_unique [OF assms(1-3)] assms(4) by (simp add: seq_of_def)
  then show ?thesis
    using dropped [OF assms(1-5)] assms(4,6)
    by (simp add: receive_reply_eq [OF assms(1,2)] receive_reply_eq [OF dropped(1,2) [OF assms(1-5)]]
        run_callback_def w1_def)
qed

theorem reply_once_example:
  "\<exists>w1. (\<forall>run. receive_reply run (Some 0) 1 [65] example_waiting = run 7 0 1 [65] 9 w1 \<and>
      receive_reply run (Some 0) 1 [66] w1 = Some w1) \<and> reqs w1 10 = None \<and> events w1 11 = None"
proof -
  have r: "rq_event (new_request example_world 0 (Some 7) 9 1000) = Some 11"
    "rq_responseCallback (new_request example_world 0 (Some 7) 9 1000) = Some 7"
    "rq_seqNum (new_request example_world 0 (Some 7) 9 1000) = 1"
    "rq_responseContext (new_request example_world 0 (Some 7) 9 1000) = 9"
    by (simp_all add: new_request_def)
  have a: "10 \<in> set (pending example_waiting 0)" by (simp add: example_waiting_ok(3))
  show ?thesis
    using reply_once [OF example_waiting_ok(1,2) a example_waiting_ok(4) r(1,2)]
    by (intro exI [of _ "drop_pending 0 10 example_waiting"]) (simp add: r)
qed

text \<open>
  C13. A timer that fires calls the callback of the request it was set for, once, with
  \<^verbatim>\<open>AF_IPC_STATUS_TIMEOUT\<close> and no data, after the request and the timer are gone; a reply that
  comes later is dropped.
\<close>

theorem timeout_once:
  assumes "world_ok w" "events w e = Some v" "ev_handler v = On_timeout a"
    and "reqs w a = Some r" "rq_req_control r = Some c" "rq_responseCallback r = Some cb"
  defines "w1 \<equiv> drop_pending c a w"
  shows "fire_timer run e w = run cb AF_IPC_STATUS_TIMEOUT 0 [] (rq_responseContext r) w1 \<and>
    reqs w1 a = None \<and> events w1 e = None \<and> world_ok w1 \<and>
    receive_reply run (Some c) (rq_seqNum r) payload w1 = Some w1"
proof -
  obtain r' c' where "reqs w a = Some r'" "rq_event r' = Some e" "rq_req_control r' = Some c'"
    "db_open w c'" "a \<in> set (pending w c')" by (rule timer_request [OF assms(1-3)])
  with assms(4,5) have re: "rq_event r = Some e" and op: "db_open w c" and a: "a \<in> set (pending w c)"
    by auto
  note gone = dropped [OF assms(1) op a assms(4) re]
  show ?thesis
    using gone assms(6) fire_timer_eq [OF assms(1-5)]
    by (simp add: receive_reply_eq [OF gone(1,2)] run_callback_def w1_def)
qed

theorem timeout_once_example:
  "\<exists>w1. (\<forall>run. fire_timer run 11 example_waiting = run 7 AF_IPC_STATUS_TIMEOUT 0 [] 9 w1 \<and>
      receive_reply run (Some 0) 1 [66] w1 = Some w1) \<and> reqs w1 10 = None \<and> events w1 11 = None"
proof -
  have r: "rq_req_control (new_request example_world 0 (Some 7) 9 1000) = Some 0"
    "rq_responseCallback (new_request example_world 0 (Some 7) 9 1000) = Some 7"
    "rq_seqNum (new_request example_world 0 (Some 7) 9 1000) = 1"
    "rq_responseContext (new_request example_world 0 (Some 7) 9 1000) = 9"
    "ev_handler (new_timer 10 1000) = On_timeout 10"
    by (simp_all add: new_request_def new_timer_def)
  show ?thesis
    using timeout_once [OF example_waiting_ok(1,6) r(5) example_waiting_ok(4) r(1,2)]
    by (intro exI [of _ "drop_pending 0 10 example_waiting"]) (simp add: r)
qed

section \<open>All reachable states\<close>

text \<open>
  What can happen to a process with an application that answers messages: a structure with a
  database is set up, a request or another message is sent, bytes arrive, a timer fires, a
  connection shuts down. A request is only sent while its id is not in use (what happens
  otherwise is shown below), and a length is an \<^verbatim>\<open>int\<close>.
\<close>

inductive ipc_step ::
    "(nat \<Rightarrow> int \<Rightarrow> u32 \<Rightarrow> byte list \<Rightarrow> nat \<Rightarrow> answer list) \<Rightarrow> 'a world_scheme \<Rightarrow> 'a world_scheme \<Rightarrow> bool"
  for app where
  Init: "ctls w c = None \<Longrightarrow>
    af_ipc_util_init_requests (Some c) (w\<lparr>ctls := (ctls w)(c \<mapsto> rc)\<rparr>) = Some (0, w') \<Longrightarrow> ipc_step app w w'"
| Request: "db_open w c \<Longrightarrow> 0 < timeoutMs \<Longrightarrow> length payload < 2 ^ 31 \<Longrightarrow>
    new_seqNum w c \<notin> seq_of w ` set (pending w c) \<Longrightarrow>
    af_ipc_send fd (Some c) sn payload (int (length payload)) cb ctx timeoutMs w = Some (r, w') \<Longrightarrow>
    ipc_step app w w'"
| Message: "timeoutMs \<le> 0 \<Longrightarrow>
    af_ipc_send fd rc' sn payload (int (length payload)) cb ctx timeoutMs w = Some (r, w') \<Longrightarrow> ipc_step app w w'"
| Receive: "db_open w c \<Longrightarrow> length buf < 2 ^ 31 \<Longrightarrow>
    af_ipc_handle_receive_message (answering app) buf (int (length buf)) cid (Some c) rcb ctx w = Some w' \<Longrightarrow>
    ipc_step app w w'"
| Timeout: "events w e = Some v \<Longrightarrow> ev_handler v = On_timeout a \<Longrightarrow>
    fire_timer (answering app) e w = Some w' \<Longrightarrow> ipc_step app w w'"
| Shut: "db_open w c \<Longrightarrow> af_ipc_util_shutdown_requests (Some c) w = Some w' \<Longrightarrow> ipc_step app w w'"

inductive ipc_reach ::
    "(nat \<Rightarrow> int \<Rightarrow> u32 \<Rightarrow> byte list \<Rightarrow> nat \<Rightarrow> answer list) \<Rightarrow> 'a world_scheme \<Rightarrow> bool"
  for app where
  Start: "ctls w = Map.empty \<Longrightarrow> reqs w = Map.empty \<Longrightarrow> events w = Map.empty \<Longrightarrow> ipc_reach app w"
| Step: "ipc_reach app w \<Longrightarrow> ipc_step app w w' \<Longrightarrow> ipc_reach app w'"

inductive_cases ipc_stepE: "ipc_step app w w'"

lemma new_db_ok:
  assumes ok: "world_ok w" and c: "ctls w c = None"
    and rc: "rc_pendingRequests rc = []" "\<not> rc_mutex_held rc" "rc_lastSeqId rc = 0"
      "rc_reqPool rc = Pool_live []"
  shows "world_ok (w\<lparr>ctls := (ctls w)(c \<mapsto> rc)\<rparr>)"
proof -
  let ?w = "w\<lparr>ctls := (ctls w)(c \<mapsto> rc)\<rparr>"
  have eq: "request_ok ?w = request_ok w" "seq_of ?w = seq_of w"
    by (simp_all add: fun_eq_iff request_ok_def seq_of_def cong: option.case_cong)
  have "db_ok ?w c' rc'" if "ctls ?w c' = Some rc'" for c' rc'
  proof (cases "c' = c")
    case True
    with that have rc': "rc' = rc" by simp
    show ?thesis unfolding rc' using rc by (simp add: db_ok_def)
  next
    case False
    with that have "db_ok w c' rc'" using world_okD(1) [OF ok] by simp
    then show ?thesis by (simp add: db_ok_def eq)
  qed
  moreover have "req_owned ?w a r" if "reqs ?w a = Some r" for a r
  proof -
    have "req_owned w a r" using world_okD(2) [OF ok] that by simp
    then obtain c' rc' where "a < tick w" "rq_req_control r = Some c'" "ctls w c' = Some rc'"
      "rc_mutexCreated rc'" "a \<in> set (rc_pendingRequests rc')" by (auto simp: req_owned_def)
    with c show ?thesis by (auto simp: req_owned_def)
  qed
  moreover have "timer_owned ?w e v" if "events ?w e = Some v" for e v
    using world_okD(3) [OF ok] that by (auto simp: timer_owned_def)
  ultimately show ?thesis by (simp add: world_ok_def)
qed

lemma run_answering_ok:
  assumes "world_ok w"
  shows "\<exists>w'. run_callback (answering app) r status sn payload w = Some w' \<and> world_ok w'"
proof (cases "rq_responseCallback r")
  case None
  then show ?thesis using assms by (simp add: run_callback_def)
next
  case (Some cb)
  obtain w' where w': "send_answers (app cb status sn payload (rq_responseContext r)) w = Some w'"
    "ctls w' = ctls w" "reqs w' = reqs w" "events w' = events w" "tick w \<le> tick w'"
    using send_answers_ok by blast
  have "world_ok w'" using w'(2-5) assms by (rule world_ok_cong)
  with w'(1) Some show ?thesis by (simp add: run_callback_def answering_def)
qed

lemma timeout_ok:
  assumes ok: "world_ok w" and e: "events w e = Some v" "ev_handler v = On_timeout a"
  shows "\<exists>w'. fire_timer (answering app) e w = Some w' \<and> world_ok w'"
proof -
  obtain r c where r: "reqs w a = Some r" "rq_req_control r = Some c" "db_open w c"
    "a \<in> set (pending w c)" by (rule timer_request [OF ok e])
  show ?thesis
    using run_answering_ok [OF drop_pending_ok [OF ok r(3,4)]] by (simp add: fire_timer_eq [OF ok e r(1,2)])
qed

lemma send_too_long:
  assumes "4088 < length payload" "length payload < 2 ^ 31"
  shows "af_ipc_send fd rcq sn payload (int (length payload)) callback ctx timeoutMs w =
    Some (-1, set_errno 22 w)"
proof -
  have "csize (int (length payload) + AF_IPC_MSGHDR_LEN) > csize AF_IPC_MAX_MSGLEN"
    using assms by (simp add: AF_IPC_MSGHDR_LEN_def AF_IPC_MAX_MSGLEN_def)
  then show ?thesis by (simp add: af_ipc_send_def)
qed

lemma send_request_ok:
  assumes ok: "world_ok w" "db_open w c" and t: "0 < timeoutMs"
    and len: "length payload < 2 ^ 31" and fresh: "new_seqNum w c \<notin> seq_of w ` set (pending w c)"
  shows "\<exists>r w'. af_ipc_send fd (Some c) sn payload (int (length payload)) cb ctx timeoutMs w = Some (r, w') \<and>
    world_ok w'"
proof (cases "length payload \<le> 4088")
  case True
  have skip: "world_ok v \<Longrightarrow> db_open v c \<Longrightarrow> world_ok (skip_seq c v)" for v :: "'a world_scheme"
    by (rule skip_seq_ok)
  have op: "db_open (next_tick v) c = db_open v c" for v :: "'a world_scheme"
    by (simp add: db_open_def next_tick_def)
  have "world_ok (registered c cb ctx timeoutMs w)"
    using ok t fresh by (intro registered_ok) auto
  then show ?thesis
    using send_request_eq [OF ok t True fresh, of fd sn cb ctx] ok
    by (auto simp: sent_def op intro!: skip)
next
  case False
  then show ?thesis using send_too_long [of payload fd "Some c" sn cb ctx timeoutMs w] len ok(1) by simp
qed

lemma init_ok:
  assumes ok: "world_ok w" and c: "ctls w c = None"
  shows "\<exists>r w'. af_ipc_util_init_requests (Some c) (w\<lparr>ctls := (ctls w)(c \<mapsto> rc)\<rparr>) = Some (r, w') \<and>
    (r = 0 \<longrightarrow> world_ok w' \<and> db_open w' c)"
proof -
  let ?rc = "\<lparr>rc_lastSeqId = 0, rc_mutexCreated = True, rc_mutex_held = False,
    rc_pendingRequests = [], rc_reqPool = Pool_live []\<rparr>"
  have "world_ok (w\<lparr>ctls := (ctls w)(c \<mapsto> ?rc)\<rparr>)" using ok c by (intro new_db_ok) auto
  then have "world_ok (next_tick (next_tick (w\<lparr>ctls := (ctls w)(c \<mapsto> ?rc)\<rparr>)))" by simp
  then show ?thesis
    by (subst init_eq) (auto simp: Let_def db_open_def next_tick_def split: if_splits)
qed

lemma ipc_step_ok: "ipc_step app w w' \<Longrightarrow> world_ok w \<Longrightarrow> world_ok w'"
proof (induction rule: ipc_step.induct)
  case (Init w c rc w')
  then show ?case using init_ok [OF Init(3,1), of rc] by auto
next
  case (Request w c timeoutMs payload fd sn cb ctx r w')
  then show ?case using send_request_ok [OF Request(6,1-4), of fd sn cb ctx] by auto
next
  case (Message timeoutMs fd rc' sn payload cb ctx w r w')
  then show ?case using send_plain_ok [OF Message(1)] world_ok_cong by (metis option.inject prod.inject)
next
  case (Receive w c buf cid rcb ctx w')
  then show ?case
    using answering.handle_ok [OF Receive(4,1,2), of app cid rcb ctx] by auto
next
  case (Timeout w e v a w')
  then show ?case using timeout_ok [OF Timeout(4,1,2), of app] by auto
next
  case (Shut w c w')
  then show ?case using shutdown_eq [OF Shut(3,1)] closed_db_ok [OF Shut(3,1)] by simp
qed

lemma ipc_reach_ok: "ipc_reach app w \<Longrightarrow> world_ok w"
proof (induction rule: ipc_reach.induct)
  case (Start w)
  then show ?case by (simp add: world_ok_def)
next
  case (Step w w')
  then show ?case by (simp add: ipc_step_ok)
qed

text \<open>
  C14. Take a process whose application answers what it receives with messages, and which sends
  a request only while the next id is not the id of a pending one (what a second request under
  the same id leads to is shown below). In every state it reaches the invariant
  holds: every pending request is live, has a unique id of 15 bits and a running timer of its
  own, and no other request or timer exists. And nothing it can do there is undefined behaviour:
  setting up another database, sending a request under an unused id and sending a message of any
  length, handling any bytes that arrive, any timer that fires and a shutdown all run to an end.
\<close>

theorem reachable_ok:
  assumes "ipc_reach app w"
  shows "world_ok w \<and>
    (\<forall>c rc. ctls w c = None \<longrightarrow>
      af_ipc_util_init_requests (Some c) (w\<lparr>ctls := (ctls w)(c \<mapsto> rc)\<rparr>) \<noteq> None) \<and>
    (\<forall>c fd sn payload cb ctx timeoutMs. db_open w c \<and> 0 < timeoutMs \<and> length payload < 2 ^ 31 \<and>
        new_seqNum w c \<notin> seq_of w ` set (pending w c) \<longrightarrow>
      af_ipc_send fd (Some c) sn payload (int (length payload)) cb ctx timeoutMs w \<noteq> None) \<and>
    (\<forall>rcq fd sn payload cb ctx timeoutMs. timeoutMs \<le> 0 \<and> length payload < 2 ^ 31 \<longrightarrow>
      af_ipc_send fd rcq sn payload (int (length payload)) cb ctx timeoutMs w \<noteq> None) \<and>
    (\<forall>c buf cid rcb ctx. db_open w c \<and> length buf < 2 ^ 31 \<longrightarrow>
      af_ipc_handle_receive_message (answering app) buf (int (length buf)) cid (Some c) rcb ctx w \<noteq> None) \<and>
    (\<forall>e v a. events w e = Some v \<and> ev_handler v = On_timeout a \<longrightarrow> fire_timer (answering app) e w \<noteq> None) \<and>
    (\<forall>c. db_open w c \<longrightarrow> af_ipc_util_shutdown_requests (Some c) w \<noteq> None)"
proof (intro conjI allI impI)
  show ok: "world_ok w" using assms by (rule ipc_reach_ok)
  show "af_ipc_util_init_requests (Some c) (w\<lparr>ctls := (ctls w)(c \<mapsto> rc)\<rparr>) \<noteq> None"
    if "ctls w c = None" for c rc
    using init_ok [OF ok that, of rc] by auto
  show "af_ipc_send fd (Some c) sn payload (int (length payload)) cb ctx timeoutMs w \<noteq> None"
    if "db_open w c \<and> 0 < timeoutMs \<and> length payload < 2 ^ 31 \<and>
      new_seqNum w c \<notin> seq_of w ` set (pending w c)" for c fd sn payload cb ctx timeoutMs
    using send_request_ok [OF ok, of c timeoutMs payload fd sn cb ctx] that by auto
  show "af_ipc_send fd rcq sn payload (int (length payload)) cb ctx timeoutMs w \<noteq> None"
    if "timeoutMs \<le> 0 \<and> length payload < 2 ^ 31" for rcq fd sn payload cb ctx timeoutMs
    using send_plain_ok [of timeoutMs fd rcq sn payload cb ctx w] that by auto
  show "af_ipc_handle_receive_message (answering app) buf (int (length buf)) cid (Some c) rcb ctx w \<noteq> None"
    if "db_open w c \<and> length buf < 2 ^ 31" for c buf cid rcb ctx
    using answering.handle_ok [OF ok, of c buf app cid rcb ctx] that by auto
  show "fire_timer (answering app) e w \<noteq> None"
    if "events w e = Some v \<and> ev_handler v = On_timeout a" for e v a
    using timeout_ok [OF ok, of e v a app] that by auto
  show "af_ipc_util_shutdown_requests (Some c) w \<noteq> None" if "db_open w c" for c
    using shutdown_eq [OF ok that] by simp
qed

definition empty_world :: world where
  "empty_world = \<lparr>ctls = Map.empty, reqs = Map.empty, events = Map.empty, io_log = [], cerrno = 0, tick = 0,
     outcomes = (\<lambda>n. \<lparr>ext_null = False, ext_ret = 0, ext_errno = 0, ext_recv = Inr []\<rparr>)\<rparr>"

definition opened_world :: world where
  "opened_world = next_tick (next_tick (empty_world\<lparr>ctls := [0 \<mapsto> example_db]\<rparr>))"

lemma opened_reachable: "ipc_reach app opened_world"
proof (rule ipc_reach.Step)
  show "ipc_reach app empty_world" by (rule ipc_reach.Start) (simp_all add: empty_world_def)
  have "ctls (empty_world\<lparr>ctls := [0 \<mapsto> example_db]\<rparr>) 0 \<noteq> None" by simp
  from init_eq [OF this] have "af_ipc_util_init_requests (Some 0) (empty_world\<lparr>ctls := [0 \<mapsto> example_db]\<rparr>) =
      Some (0, opened_world)"
    by (simp add: opened_world_def empty_world_def next_tick_def example_db_def)
  then show "ipc_step app empty_world opened_world"
    by (intro ipc_step.Init [where c = 0 and rc = example_db]) (simp_all add: empty_world_def)
qed

theorem reachable_ok_example:
  "world_ok opened_world \<and> db_open opened_world 0 \<and>
    af_ipc_handle_receive_message (answering (\<lambda>_ _ _ _ _. [])) [1, 2, 3] 3 0 (Some 0) None 0 opened_world \<noteq> None"
proof -
  have "db_open opened_world 0"
    by (simp add: db_open_def opened_world_def empty_world_def next_tick_def example_db_def)
  moreover have "length ([1, 2, 3] :: byte list) < 2 ^ 31" "int (length ([1, 2, 3] :: byte list)) = 3" by simp_all
  ultimately show ?thesis
    using reachable_ok [OF opened_reachable [of "\<lambda>_ _ _ _ _. []"]] by metis
qed

text \<open>
  Shutting a database down frees all of its requests and all of their timers, and nothing
  else: afterwards none of its timers can fire, the other databases keep their requests, and
  nothing was written to a socket.
\<close>

theorem shutdown_frees_all:
  assumes "world_ok w" "db_open w c"
  shows "\<exists>w1. af_ipc_util_shutdown_requests (Some c) w = Some w1 \<and> world_ok w1 \<and>
    \<not> db_open w1 c \<and> pending w1 c = [] \<and> io_log w1 = io_log w \<and>
    (\<forall>a \<in> set (pending w c). reqs w1 a = None \<and> events w1 (timer_of w a) = None) \<and>
    (\<forall>c'. c' \<noteq> c \<longrightarrow> ctls w1 c' = ctls w c' \<and> (\<forall>a \<in> set (pending w c'). db_open w c' \<longrightarrow>
      reqs w1 a = reqs w a \<and> events w1 (timer_of w a) = events w (timer_of w a)))"
proof -
  obtain rc where rc: "ctls w c = Some rc" by (rule db_openE [OF assms])
  have keep: "a \<notin> set (pending w c) \<and> timer_of w a \<notin> timer_of w ` set (pending w c)"
    if "c' \<noteq> c" "db_open w c'" "a \<in> set (pending w c')" for c' a
  proof -
    have ra: "request_ok w c' a" using pending_live [OF assms(1) that(2)] that(3) by blast
    have other: "request_ok w c b \<Longrightarrow> b \<noteq> a" for b
      using ra that(1) by (auto simp: request_ok_def split: option.splits)
    have na: "a \<notin> set (pending w c)" using pending_live [OF assms] other by blast
    have tm: "timer_of w b \<noteq> timer_of w a" if "b \<in> set (pending w c)" for b
    proof -
      have rb: "request_ok w c b" using pending_live [OF assms] that by blast
      show ?thesis
      proof
        assume "timer_of w b = timer_of w a"
        then have "On_timeout b = On_timeout a"
          using has_timer_request [OF ra] has_timer_request [OF rb] by simp
        with other [OF rb] show False by simp
      qed
    qed
    have "timer_of w a \<notin> timer_of w ` set (pending w c)"
    proof
      assume "timer_of w a \<in> timer_of w ` set (pending w c)"
      then obtain b where "b \<in> set (pending w c)" "timer_of w a = timer_of w b" by (rule imageE)
      then show False using tm [of b] by simp
    qed
    with na show ?thesis by simp
  qed
  have "\<not> db_open (closed_db c w) c" "pending (closed_db c w) c = []" "io_log (closed_db c w) = io_log w"
    using rc by (simp_all add: closed_db_def db_open_def pending_def)
  moreover have "\<forall>a \<in> set (pending w c). reqs (closed_db c w) a = None \<and> events (closed_db c w) (timer_of w a) = None"
    using rc by (auto simp: closed_db_def)
  moreover have "\<forall>c'. c' \<noteq> c \<longrightarrow> ctls (closed_db c w) c' = ctls w c' \<and> (\<forall>a \<in> set (pending w c'). db_open w c' \<longrightarrow>
      reqs (closed_db c w) a = reqs w a \<and> events (closed_db c w) (timer_of w a) = events w (timer_of w a))"
    using rc keep by (auto simp: closed_db_def)
  ultimately show ?thesis
    using shutdown_eq [OF assms] closed_db_ok [OF assms] by blast
qed

theorem shutdown_frees_all_example:
  "\<exists>w1. af_ipc_util_shutdown_requests (Some 0) example_waiting = Some w1 \<and> world_ok w1 \<and>
    pending w1 0 = [] \<and> reqs w1 10 = None \<and> events w1 11 = None"
proof -
  have "timer_of example_waiting 10 = 11"
    using example_waiting_ok(4) by (simp add: timer_of_def new_request_def)
  then show ?thesis
    using shutdown_frees_all [OF example_waiting_ok(1,2)] example_waiting_ok(3) by auto
qed

section \<open>Sequence ids\<close>

text \<open>
  The ids that \<^verbatim>\<open>af_ipc_util_gen_seq_id\<close> generates one after the other are between 1 and
  32767 and repeat with period 32767 exactly: any 32767 consecutive ids are distinct, and the
  next one is the first again, whether or not a request still uses it.
\<close>

theorem seq_id_cycle:
  assumes "1 \<le> uint s" "uint s < 2 ^ 15"
  shows "1 \<le> uint ((next_seq ^^ k) s) \<and> uint ((next_seq ^^ k) s) \<le> 32767 \<and>
    ((next_seq ^^ j) s = (next_seq ^^ k) s \<longleftrightarrow> j mod 32767 = k mod 32767) \<and>
    (\<forall>c rc. ctls w c = Some rc \<longrightarrow> af_ipc_util_gen_seq_id c w =
      Some (ucast (next_seq (rc_lastSeqId rc)),
        w\<lparr>ctls := (ctls w)(c \<mapsto> rc\<lparr>rc_lastSeqId := next_seq (rc_lastSeqId rc)\<rparr>)\<rparr>))"
proof -
  note it = next_seq_iterate [OF assms]
  have im: "int n mod 32767 = int (n mod 32767)" for n by (simp add: of_nat_mod)
  have range: "1 \<le> uint ((next_seq ^^ k) s)" "uint ((next_seq ^^ k) s) \<le> 32767"
    using pos_mod_sign [of 32767 "uint s - 1 + int k"] pos_mod_bound [of 32767 "uint s - 1 + int k"]
    by (simp_all add: it)
  have "(next_seq ^^ j) s = (next_seq ^^ k) s \<longleftrightarrow> uint ((next_seq ^^ j) s) = uint ((next_seq ^^ k) s)"
    by (simp add: word_uint_eq_iff)
  also have "\<dots> \<longleftrightarrow> (uint s - 1 + int j) mod 32767 = (uint s - 1 + int k) mod 32767"
    by (simp add: it)
  also have "\<dots> \<longleftrightarrow> int j mod 32767 = int k mod 32767"
    by (simp add: mod_eq_dvd_iff)
  also have "\<dots> \<longleftrightarrow> j mod 32767 = k mod 32767"
    by (simp only: im of_nat_eq_iff)
  finally show ?thesis using range gen_seq_id_eq by blast
qed

theorem seq_id_cycle_example:
  "(next_seq ^^ 32767) 5 = 5 \<and> (next_seq ^^ 32766) 5 \<noteq> (5 :: u16)"
  using seq_id_cycle [of 5 0 32767 example_world] seq_id_cycle [of 5 0 32766 example_world] by simp

text \<open>
  C15. When two pending requests have the same id, the timeout of the older one frees the newer
  one, whose timer keeps running: when that timer fires, the handler is called with a request
  that is not live. The older one stays in the list without a timer.
\<close>

theorem timeout_collision:
  assumes "ctls w c = Some rc" "rc_mutexCreated rc" "\<not> rc_mutex_held rc"
    and "rc_pendingRequests rc = [b, a]" "rc_reqPool rc = Pool_live [b, a]" "a \<noteq> b"
    and "reqs w a = Some ra" "rq_req_control ra = Some c" "rq_event ra = Some ea"
      "rq_responseCallback ra = Some cb"
    and "reqs w b = Some rb" "rq_seqNum rb = rq_seqNum ra" "rq_event rb = Some eb"
    and "events w ea = Some va" "ev_handler va = On_timeout a" "ev_added va"
    and "events w eb = Some vb" "ev_handler vb = On_timeout b" "ev_added vb"
  shows "\<exists>w1. (\<forall>run. fire_timer run ea w = run cb AF_IPC_STATUS_TIMEOUT 0 [] (rq_responseContext ra) w1) \<and>
    pending w1 c = [a] \<and> reqs w1 b = None \<and> map_option rq_event (reqs w1 a) = Some None \<and>
    events w1 ea = None \<and> events w1 eb = Some vb \<and> (\<forall>run. fire_timer run eb w1 = None)"
proof -
  have ne: "ea \<noteq> eb" using assms(6,14,15,17,18) by auto
  let ?rc = "rc\<lparr>rc_pendingRequests := [a], rc_reqPool := Pool_live [a]\<rparr>"
  let ?w = "w\<lparr>ctls := (ctls w)(c \<mapsto> ?rc), reqs := (reqs w)(a \<mapsto> ra\<lparr>rq_event := None\<rparr>, b := None),
    events := (events w)(ea := None)\<rparr>"
  have "fire_timer run ea w = run cb AF_IPC_STATUS_TIMEOUT 0 [] (rq_responseContext ra) ?w" for run
    using assms ne
    by (cases rc; cases w)
      (simp add: fire_timer_def af_ipc_on_timeout_def world_ops af_ipc_remove_request_def)
  moreover have "fire_timer run eb ?w = None" for run
    using assms(6,17,18,19) ne by (simp add: fire_timer_def af_ipc_on_timeout_def)
  ultimately show ?thesis
    using assms(6,17) ne by (intro exI [of _ ?w]) (simp add: pending_def)
qed

text \<open>Two pending requests with the id 1, of callbacks 7 and 8.\<close>

definition collision_world :: world where
  "collision_world = \<lparr>
     ctls = [0 \<mapsto> \<lparr>rc_lastSeqId = 1, rc_mutexCreated = True, rc_mutex_held = False,
       rc_pendingRequests = [3, 1], rc_reqPool = Pool_live [3, 1]\<rparr>],
     reqs = [1 \<mapsto> \<lparr>rq_seqNum = 1, rq_event = Some 2, rq_timeout_val = 1000, rq_req_control = Some 0,
         rq_responseCallback = Some 7, rq_responseContext = 0\<rparr>,
       3 \<mapsto> \<lparr>rq_seqNum = 1, rq_event = Some 4, rq_timeout_val = 1000, rq_req_control = Some 0,
         rq_responseCallback = Some 8, rq_responseContext = 0\<rparr>],
     events = [2 \<mapsto> new_timer 1 1000, 4 \<mapsto> new_timer 3 1000],
     io_log = [], cerrno = 0, tick = 5,
     outcomes = (\<lambda>n. \<lparr>ext_null = False, ext_ret = 0, ext_errno = 0, ext_recv = Inr []\<rparr>)\<rparr>"

theorem timeout_collision_example:
  "\<exists>w1. (\<forall>run. fire_timer run 2 collision_world = run 7 AF_IPC_STATUS_TIMEOUT 0 [] 0 w1) \<and>
    pending w1 0 = [1] \<and> (\<forall>run. fire_timer run 4 w1 = None)"
proof -
  let ?rc = "\<lparr>rc_lastSeqId = 1, rc_mutexCreated = True, rc_mutex_held = False,
       rc_pendingRequests = [3, 1], rc_reqPool = Pool_live [3, 1]\<rparr>"
  let ?ra = "\<lparr>rq_seqNum = 1, rq_event = Some 2, rq_timeout_val = 1000, rq_req_control = Some 0,
         rq_responseCallback = Some 7, rq_responseContext = 0\<rparr>"
  let ?rb = "\<lparr>rq_seqNum = 1, rq_event = Some 4, rq_timeout_val = 1000, rq_req_control = Some 0,
         rq_responseCallback = Some 8, rq_responseContext = 0\<rparr>"
  have "\<exists>w1. (\<forall>run. fire_timer run 2 collision_world =
        run 7 AF_IPC_STATUS_TIMEOUT 0 [] (rq_responseContext ?ra) w1) \<and>
      pending w1 0 = [1] \<and> reqs w1 3 = None \<and> map_option rq_event (reqs w1 1) = Some None \<and>
      events w1 2 = None \<and> events w1 4 = Some (new_timer 3 1000) \<and> (\<forall>run. fire_timer run 4 w1 = None)"
    by (rule timeout_collision [where c = 0 and rc = ?rc and a = 1 and b = 3 and ra = ?ra and rb = ?rb
        and va = "new_timer 1 1000"])
      (simp_all add: collision_world_def new_timer_def)
  then show ?thesis by auto
qed

section \<open>Corner cases of the format\<close>

text \<open>
  An empty message is sent like any other, but the receiver drops it when it is the last
  one of what \<^verbatim>\<open>recv\<close> returned: \<^verbatim>\<open>pos + AF_IPC_MSGHDR_LEN >= len\<close> takes a header without
  payload for a bad packet. In front of another message it is delivered.
\<close>

theorem empty_message_dropped:
  assumes "\<forall>(sn, p) \<in> set fs. length p \<le> 65527" "length (frames fs) + length payload + 16 < 2 ^ 31"
    and "payload \<noteq> []" "length payload \<le> 65527"
    and "0 \<le> ext_ret (ext_now v)" "timeoutMs \<le> 0"
  shows "af_ipc_handle_receive_message run (frames fs @ frame sn []) (int (length (frames fs @ frame sn [])))
      cid rc cb ctx w = deliver run cid rc cb ctx fs w \<and>
    af_ipc_handle_receive_message run (frames (fs @ [(sn, []), (sn', payload)]))
      (int (length (frames (fs @ [(sn, []), (sn', payload)])))) cid rc cb ctx w =
    deliver run cid rc cb ctx (fs @ [(sn, []), (sn', payload)]) w \<and>
    af_ipc_send fd rcq sn [] 0 callback ctx' timeoutMs v = Some (0, sent fd (frame sn []) v)"
proof (intro conjI)
  show "af_ipc_handle_receive_message run (frames fs @ frame sn []) (int (length (frames fs @ frame sn [])))
      cid rc cb ctx w = deliver run cid rc cb ctx fs w"
    using assms(1,2) by (intro handle_frames) (auto simp: frame_def hdr_bytes_def)
  let ?fs = "fs @ [(sn, []), (sn', payload)]"
  have "af_ipc_handle_receive_message run (frames ?fs @ []) (int (length (frames ?fs @ []))) cid rc cb ctx w =
      deliver run cid rc cb ctx ?fs w"
    using assms(1-4) by (intro handle_frames) auto
  then show "af_ipc_handle_receive_message run (frames ?fs) (int (length (frames ?fs))) cid rc cb ctx w =
      deliver run cid rc cb ctx ?fs w" by (simp only: append_Nil2)
  show "af_ipc_send fd rcq sn [] 0 callback ctx' timeoutMs v = Some (0, sent fd (frame sn []) v)"
    using assms(5,6) send_plain_eq [of "[]" timeoutMs fd rcq sn callback ctx' v] by simp
qed

theorem empty_message_dropped_example:
  "\<forall>run cid rc cb ctx (w :: world).
   af_ipc_handle_receive_message run (frame 5 []) 8 cid rc cb ctx w = Some w \<and>
   af_ipc_send 3 None 5 [] 0 None 0 0 example_world = Some (0, sent 3 (frame 5 []) example_world)"
proof (intro allI)
  fix run cid rc cb ctx and w :: world
  show "af_ipc_handle_receive_message run (frame 5 []) 8 cid rc cb ctx w = Some w \<and>
      af_ipc_send 3 None 5 [] 0 None 0 0 example_world = Some (0, sent 3 (frame 5 []) example_world)"
    using empty_message_dropped [of "[]" "[1]" example_world 0 run 5 cid rc cb ctx w 0 3 None None 0]
    by (simp add: ext_now_def)
qed

text \<open>
  A payload of more than 4088 bytes is refused with \<^verbatim>\<open>EINVAL\<close> before anything happens, up
  to 4088 bytes a message goes to the socket: the limit is \<^verbatim>\<open>AF_IPC_MAX_MSGLEN\<close> less the 8 bytes
  of the header.
\<close>

theorem send_size_limit:
  assumes "length payload < 2 ^ 31"
  shows "(4088 < length payload \<longrightarrow>
      af_ipc_send fd rcq sn payload (int (length payload)) callback ctx timeoutMs w = Some (-1, set_errno 22 w)) \<and>
    (length payload \<le> 4088 \<longrightarrow> timeoutMs \<le> 0 \<longrightarrow> int (length payload + 8) \<le> ext_ret (ext_now w) \<longrightarrow>
      (\<exists>w1. af_ipc_send fd rcq sn payload (int (length payload)) callback ctx timeoutMs w = Some (0, w1) \<and>
        io_log w1 = io_log w @ [Sent fd (frame sn payload)]))"
proof (intro conjI impI)
  assume "4088 < length payload"
  then show "af_ipc_send fd rcq sn payload (int (length payload)) callback ctx timeoutMs w =
      Some (-1, set_errno 22 w)"
    using assms by (rule send_too_long)
next
  assume "length payload \<le> 4088" "timeoutMs \<le> 0" "int (length payload + 8) \<le> ext_ret (ext_now w)"
  then show "\<exists>w1. af_ipc_send fd rcq sn payload (int (length payload)) callback ctx timeoutMs w = Some (0, w1) \<and>
      io_log w1 = io_log w @ [Sent fd (frame sn payload)]"
    by (simp add: send_plain_eq)
qed

theorem send_size_limit_example:
  "af_ipc_send 3 None 5 (replicate 4089 0) 4089 None 0 0 example_world = Some (-1, set_errno 22 example_world) \<and>
   (\<exists>w1. af_ipc_send 3 None 5 (replicate 4088 0) 4088 None 0 0 example_world = Some (0, w1))"
  using send_size_limit [of "replicate 4089 0" 3 None 5 None 0 0 example_world]
    send_size_limit [of "replicate 4088 0" 3 None 5 None 0 0 example_world]
  by (auto simp: ext_now_def)

text \<open>
  A request with a timeout of 0 is not a request: it goes out under the sequence number 0,
  its callback is registered nowhere, and the receiver takes it for an unsolicited message,
  which it cannot reply to.
\<close>

theorem request_without_timeout:
  assumes "payload \<noteq> []" "length payload \<le> 4088" "int (length payload + 8) \<le> ext_ret (ext_now w)"
  shows "\<exists>w1. af_ipc_send fd (Some c) 0 payload (int (length payload)) (Some cb) ctx 0 w = Some (0, w1) \<and>
    ctls w1 = ctls w \<and> reqs w1 = reqs w \<and> events w1 = events w \<and>
    io_log w1 = io_log w @ [Sent fd (frame 0 payload)] \<and>
    (\<forall>(run :: 'b runner) cid rc rcb rctx v.
      af_ipc_handle_receive_message run (frame 0 payload) (int (length payload + 8)) cid rc (Some rcb) rctx v =
      run rcb 0 (incoming_seqNum cid 0) payload rctx v \<and>
      \<not> af_ipc_seq_num_is_request (incoming_seqNum cid 0))"
proof -
  have zero: "AF_IPC_GET_SEQ_ID 0 = 0" by (simp add: AF_IPC_GET_SEQ_ID_def)
  have "af_ipc_handle_receive_message run (frame 0 payload) (int (length payload + 8)) cid rc (Some rcb) rctx v =
      run rcb 0 (incoming_seqNum cid 0) payload rctx v" for run :: "'b runner" and cid rc rcb rctx v
    using handle_single [OF assms(1,2), of run 0 cid rc "Some rcb" rctx v] by (simp add: receive_one_def zero)
  moreover have "\<not> af_ipc_seq_num_is_request (incoming_seqNum cid 0)" for cid
    unfolding af_ipc_seq_num_is_request_def not_not
    by (rule bit_word_eqI)
      (auto simp: AF_IPC_GET_SEQ_ID_def incoming_seqNum_def mask_0xFFFF bit_mask bit_simps)
  ultimately show ?thesis
    using assms(2,3) by (simp add: send_plain_eq)
qed

theorem request_without_timeout_example:
  "\<exists>w1. af_ipc_send 3 (Some 0) 0 [65] 1 (Some 7) 9 0 example_world = Some (0, w1) \<and> reqs w1 = Map.empty \<and>
    io_log w1 = [Sent 3 (frame 0 [65])]"
  using request_without_timeout [of "[65]" example_world 3 0 7 9] by (auto simp: ext_now_def)

end
