(* ===== verification/Ipc_Frame.thy ===== *)
theory Ipc_Frame
  imports Ipc_Shutdown
begin

text \<open>
  What the invariant of the request databases does not depend on: events other than timers,
  and databases that are not open. The client and the server keep such things in the state.
\<close>

section \<open>Events and databases that the invariant does not need\<close>

lemma request_ok_events:
  assumes "request_ok w c a" "\<forall>e v. events w e = Some v \<longrightarrow> ev_handler v = On_timeout a \<longrightarrow> events w' e = Some v"
    and "reqs w' = reqs w"
  shows "request_ok w' c a"
proof -
  obtain r e v where "reqs w a = Some r" "rq_req_control r = Some c" "0 < rq_timeout_val r"
    "1 \<le> uint (rq_seqNum r)" "uint (rq_seqNum r) < 2 ^ 15" "rq_event r = Some e"
    "events w e = Some v" "ev_handler v = On_timeout a" "ev_added v"
    using assms(1) by (rule request_okE)
  with assms(2,3) show ?thesis by (simp add: request_ok_def)
qed

text \<open>Only the timers matter.\<close>

lemma world_ok_events:
  assumes ok: "world_ok w"
    and keep: "\<And>e v a. events w e = Some v \<Longrightarrow> ev_handler v = On_timeout a \<Longrightarrow> events w' e = Some v"
    and new: "\<And>e v. events w' e = Some v \<Longrightarrow> timer_owned w e v \<or> e < tick w' \<and> (\<forall>a. ev_handler v \<noteq> On_timeout a)"
    and same: "ctls w' = ctls w" "reqs w' = reqs w" "tick w \<le> tick w'"
  shows "world_ok w'"
proof -
  have req: "request_ok w c a \<Longrightarrow> request_ok w' c a" for c a
    by (rule request_ok_events) (use keep same in auto)
  have seq: "seq_of w' = seq_of w" using same by (simp add: fun_eq_iff seq_of_def)
  have "db_ok w c rc \<Longrightarrow> db_ok w' c rc" for c rc
    using req by (auto simp: db_ok_def seq)
  moreover have "req_owned w a r \<Longrightarrow> req_owned w' a r" for a r
    using same by (auto simp: req_owned_def)
  moreover have "timer_owned w' e v" if "events w' e = Some v" for e v
    using new [OF that] same by (auto simp: timer_owned_def)
  ultimately show ?thesis using ok same by (simp add: world_ok_def)
qed

lemma drop_event_ok:
  assumes "world_ok w" "events w e = Some v" "\<forall>a. ev_handler v \<noteq> On_timeout a"
  shows "world_ok (w\<lparr>events := (events w)(e := None)\<rparr>)"
proof (rule world_ok_events [OF assms(1)])
  fix e' v' a
  assume "events w e' = Some v'" "ev_handler v' = On_timeout a"
  with assms(2,3) have "e' \<noteq> e" by auto
  then show "events (w\<lparr>events := (events w)(e := None)\<rparr>) e' = Some v'" using \<open>events w e' = Some v'\<close> by simp
qed (use assms(1) in \<open>auto split: if_splits intro: world_okD(3)\<close>)

lemma add_event_ok:
  assumes "world_ok w" "events w e = None" "e < tick w" "\<forall>a. ev_handler v \<noteq> On_timeout a"
  shows "world_ok (w\<lparr>events := (events w)(e \<mapsto> v)\<rparr>)"
  by (rule world_ok_events [OF assms(1)])
    (use assms in \<open>auto split: if_splits intro: world_okD(3)\<close>)

lemma drop_db_ok:
  assumes ok: "world_ok w" and c: "\<not> db_open w c"
  shows "world_ok (w\<lparr>ctls := (ctls w)(c := None)\<rparr>)"
proof -
  let ?w = "w\<lparr>ctls := (ctls w)(c := None)\<rparr>"
  have eq: "request_ok ?w = request_ok w" "seq_of ?w = seq_of w"
    by (simp_all add: fun_eq_iff request_ok_def seq_of_def cong: option.case_cong)
  have "db_ok ?w c' rc'" if "ctls ?w c' = Some rc'" for c' rc'
  proof -
    have "ctls w c' = Some rc'" using that by (simp split: if_splits)
    with ok have "db_ok w c' rc'" by (rule world_okD(1))
    then show ?thesis by (simp add: db_ok_def eq)
  qed
  moreover have "req_owned ?w a r" if "reqs ?w a = Some r" for a r
  proof -
    have "req_owned w a r" using world_okD(2) [OF ok] that by simp
    then obtain c' rc' where "a < tick w" "rq_req_control r = Some c'" "ctls w c' = Some rc'"
      "rc_mutexCreated rc'" "a \<in> set (rc_pendingRequests rc')" by (auto simp: req_owned_def)
    moreover from this c have "c' \<noteq> c" by (auto simp: db_open_def)
    ultimately show ?thesis by (auto simp: req_owned_def)
  qed
  moreover have "timer_owned ?w e v" if "events ?w e = Some v" for e v
    using world_okD(3) [OF ok] that by (auto simp: timer_owned_def)
  ultimately show ?thesis by (simp add: world_ok_def)
qed

lemma add_db_ok:
  assumes ok: "world_ok w" and c: "\<not> db_open w c"
    and rc: "rc_pendingRequests rc = []" "\<not> rc_mutex_held rc" "rc_lastSeqId rc = 0"
      "rc_reqPool rc = Pool_live [] \<or> rc_reqPool rc = Pool_null \<and> \<not> rc_mutexCreated rc"
  shows "world_ok (w\<lparr>ctls := (ctls w)(c \<mapsto> rc)\<rparr>)"
proof -
  let ?w = "w\<lparr>ctls := (ctls w)(c \<mapsto> rc)\<rparr>"
  have eq: "request_ok ?w = request_ok w" "seq_of ?w = seq_of w"
    by (simp_all add: fun_eq_iff request_ok_def seq_of_def cong: option.case_cong)
  have "db_ok ?w c' rc'" if "ctls ?w c' = Some rc'" for c' rc'
  proof (cases "c' = c")
    case True
    with that have rc': "rc' = rc" by simp
    show ?thesis unfolding rc' using rc by (auto simp: db_ok_def)
  next
    case False
    with that have "db_ok w c' rc'" using world_okD(1) [OF ok] by simp
    then show ?thesis by (simp add: db_ok_def eq)
  qed
  moreover have "req_owned ?w a r" if "reqs ?w a = Some r" for a r
  proof -
    have "req_owned w a r" using world_okD(2) [OF ok] that by simp
    then obtain c' rc' where "a < tick w" "rq_req_control r = Some c'" "ctls w c' = Some rc'"
      "rc_mutexCreated rc'" "a \<in> set (rc_pendingRequests rc')" by (auto simp: req_owned_def)
    moreover from this c have "c' \<noteq> c" by (auto simp: db_open_def)
    ultimately show ?thesis by (auto simp: req_owned_def)
  qed
  moreover have "timer_owned ?w e v" if "events ?w e = Some v" for e v
    using world_okD(3) [OF ok] that by (auto simp: timer_owned_def)
  ultimately show ?thesis by (simp add: world_ok_def)
qed

section \<open>Receive events\<close>

definition recv_event_ok :: "'a world_scheme \<Rightarrow> handler \<Rightarrow> nat option \<Rightarrow> bool" where
  "recv_event_ok w h event \<longleftrightarrow> (case event of None \<Rightarrow> False
     | Some e \<Rightarrow> (case events w e of None \<Rightarrow> False | Some v \<Rightarrow> ev_handler v = h \<and> ev_added v))"

lemma drop_pending_recv_event:
  assumes ok: "world_ok w" "db_open w c" "a \<in> set (pending w c)" and h: "\<forall>a. h \<noteq> On_timeout a"
    and "recv_event_ok w h e"
  shows "recv_event_ok (drop_pending c a w) h e"
proof -
  have "request_ok w c a" using pending_live [OF ok(1,2)] ok(3) by blast
  then obtain r e' v where r: "reqs w a = Some r" "rq_event r = Some e'" "events w e' = Some v"
    "ev_handler v = On_timeout a" by (rule request_okE)
  obtain rc where "ctls w c = Some rc" by (rule db_openE [OF ok(1,2)])
  with r have "events (drop_pending c a w) = (events w)(e' := None)" by (simp add: drop_pending_def)
  with r h assms(5) show ?thesis by (auto simp: recv_event_ok_def split: option.splits)
qed

text \<open>A database as initialisation leaves it, and an added receive event.\<close>

definition open_db :: "pool \<Rightarrow> bool \<Rightarrow> af_ipc_req_control" where
  "open_db pool created = \<lparr>rc_lastSeqId = 0, rc_mutexCreated = created, rc_mutex_held = False,
     rc_pendingRequests = [], rc_reqPool = pool\<rparr>"

definition recv_ev :: "nat \<Rightarrow> ev" where
  "recv_ev s = \<lparr>ev_handler = On_recv s, ev_added = True, ev_timeout = None\<rparr>"

end
