(* ===== verification/Client.thy ===== *)
theory Client
  imports Ipc_Frame
begin

text \<open>
  The client side, \<^verbatim>\<open>src/pkg/src/af_ipc_client.c\<close>: connecting to a server, the receive handler,
  sending, and closing. The server structures are in the state by address; the request database
  that a structure contains has the same address. The application's callbacks are parameters:
  a runner for the receive callbacks, a closer for the close callback.
\<close>

section \<open>The state\<close>

definition FLAGS_MARKED_FOR_SHUTDOWN :: u16 where "FLAGS_MARKED_FOR_SHUTDOWN = 1"
definition FLAGS_IN_RECEIVE :: u16 where "FLAGS_IN_RECEIVE = 2"

text \<open>\<^verbatim>\<open>struct af_ipcc_server_struct\<close>, without \<^verbatim>\<open>req_control\<close>.\<close>

record af_ipcc_server =
  sv_fd :: int
  sv_event_base :: "nat option"
  sv_lastSeqNum :: u16
  sv_flags :: u16
  sv_receiveCallback :: "nat option"
  sv_closeCallback :: "nat option"
  sv_receiveContext :: nat
  sv_event :: "nat option"

record client_world = world +
  servers :: "nat \<Rightarrow> af_ipcc_server option"

text \<open>A close callback: function, status, context.\<close>

type_synonym 'a closer = "nat \<Rightarrow> int \<Rightarrow> nat \<Rightarrow> 'a client_world_scheme \<Rightarrow> 'a client_world_scheme option"

definition upd_server ::
    "nat \<Rightarrow> (af_ipcc_server \<Rightarrow> af_ipcc_server) \<Rightarrow> 'a client_world_scheme \<Rightarrow> 'a client_world_scheme option" where
  "upd_server s f w = (case servers w s of None \<Rightarrow> None
     | Some sv \<Rightarrow> Some (w\<lparr>servers := (servers w)(s \<mapsto> f sv)\<rparr>))"

definition cleared_server :: af_ipcc_server where
  "cleared_server = \<lparr>sv_fd = 0, sv_event_base = None, sv_lastSeqNum = 0, sv_flags = 0,
     sv_receiveCallback = None, sv_closeCallback = None, sv_receiveContext = 0, sv_event = None\<rparr>"

text \<open>\<^verbatim>\<open>calloc\<close> and \<^verbatim>\<open>free\<close> of a server structure.\<close>

definition calloc_server :: "'a client_world_scheme \<Rightarrow> nat option \<times> 'a client_world_scheme" where
  "calloc_server w =
     (if ext_null (ext_now w) then (None, next_tick w)
      else (Some (tick w), next_tick (w\<lparr>servers := (servers w)(tick w \<mapsto> cleared_server),
        ctls := (ctls w)(tick w \<mapsto> cleared_db)\<rparr>)))"

definition free_server :: "nat \<Rightarrow> 'a client_world_scheme \<Rightarrow> 'a client_world_scheme" where
  "free_server s w = w\<lparr>servers := (servers w)(s := None), ctls := (ctls w)(s := None)\<rparr>"

section \<open>Opening a connection\<close>

text \<open>
  \<^verbatim>\<open>sprintf\<close> into \<^verbatim>\<open>server_path[128]\<close> is undefined when the path does not fit. \<^verbatim>\<open>remote\<close> is not
  initialised, and \<^verbatim>\<open>strncpy\<close> with bound 107 writes no terminator for a path of 107 bytes or
  more, so \<^verbatim>\<open>strlen\<close> then reads the indeterminate last byte of \<^verbatim>\<open>sun_path\<close>: undefined too.
\<close>

definition af_ipcc_open_server ::
    "string \<Rightarrow> nat option \<Rightarrow> string \<Rightarrow> nat option \<Rightarrow> nat \<Rightarrow> nat option
     \<Rightarrow> 'a client_world_scheme \<Rightarrow> (nat option \<times> 'a client_world_scheme) option" where
  "af_ipcc_open_server af_ipc_server_sock_path_prefix base name receiveCallback receiveContext closeCallback w =
     (if base = None then Some (None, w)
      else (case calloc_server w of
          (None, w) \<Rightarrow> Some (None, w)
        | (Some s, w) \<Rightarrow> do {
            w \<leftarrow> upd_server s (\<lambda>sv. sv\<lparr>sv_fd := -1, sv_receiveContext := receiveContext,
                   sv_receiveCallback := receiveCallback, sv_closeCallback := closeCallback,
                   sv_flags := 0\<rparr>) w;
            let (remote_server_fd, w) = sys_call w;
            if remote_server_fd < 0 then Some (None, w)
            else do {
              let server_path = af_ipc_server_sock_path_prefix @ name;
              if length server_path \<ge> 107 then None
              else do {
                let (r, w) = sys_call (log_io (Connect remote_server_fd server_path) w);
                if r < 0 then Some (None, log_io (Closed remote_server_fd) w)
                else do {
                  w \<leftarrow> upd_server s (\<lambda>sv. sv\<lparr>sv_fd := remote_server_fd, sv_event_base := base,
                         sv_event := None\<rparr>) w;
                  (err, w) \<leftarrow> af_ipc_util_init_requests (Some s) w;
                  if err \<noteq> 0 then do {
                    let w = log_io (Closed remote_server_fd) w;
                    w \<leftarrow> upd_server s (sv_fd_update (\<lambda>_. -1)) w;
                    Some (None, w)
                  }
                  else do {
                    let (e, w) = event_new (On_recv s) w;
                    w \<leftarrow> upd_server s (sv_event_update (\<lambda>_. e)) w;
                    e \<leftarrow> e;
                    w \<leftarrow> event_add e None w;
                    Some (Some s, w)
                  }
                }
              }
            }
          }))"

section \<open>Closing\<close>

definition run_close :: "'a closer \<Rightarrow> nat option \<Rightarrow> int \<Rightarrow> nat \<Rightarrow> 'a client_world_scheme \<Rightarrow> 'a client_world_scheme option" where
  "run_close closer closeCb status closeContext w =
     (case closeCb of None \<Rightarrow> Some w | Some f \<Rightarrow> closer f status closeContext w)"

definition close_and_free_server ::
    "'a closer \<Rightarrow> int \<Rightarrow> nat option \<Rightarrow> 'a client_world_scheme \<Rightarrow> 'a client_world_scheme option" where
  "close_and_free_server closer status s w =
     (case s of
        None \<Rightarrow> Some w
      | Some s \<Rightarrow> do {
          sv \<leftarrow> servers w s;
          let closeCb = sv_closeCallback sv;
          let closeContext = sv_receiveContext sv;
          w \<leftarrow> (case sv_event sv of
              None \<Rightarrow> Some w
            | Some e \<Rightarrow> do {
                w \<leftarrow> event_del e w;
                w \<leftarrow> event_free e w;
                upd_server s (sv_event_update (\<lambda>_. None)) w
              });
          w \<leftarrow> (if sv_fd sv \<noteq> -1 then do {
              w \<leftarrow> af_ipc_util_shutdown_requests (Some s) w;
              let w = log_io (Shutdown (sv_fd sv) SHUT_RDWR) w;
              let w = log_io (Closed (sv_fd sv)) w;
              upd_server s (sv_fd_update (\<lambda>_. -1)) w
            } else Some w);
          let w = free_server s w;
          run_close closer closeCb status closeContext w
        })"

definition af_ipcc_close :: "'a closer \<Rightarrow> nat option \<Rightarrow> 'a client_world_scheme \<Rightarrow> 'a client_world_scheme option" where
  "af_ipcc_close closer s w =
     (case s of
        None \<Rightarrow> Some w
      | Some a \<Rightarrow> do {
          sv \<leftarrow> servers w a;
          if sv_flags sv AND FLAGS_IN_RECEIVE \<noteq> 0
          then upd_server a (sv_flags_update (\<lambda>f. f OR FLAGS_MARKED_FOR_SHUTDOWN)) w
          else close_and_free_server closer AF_IPC_STATUS_OK s w
        })"

section \<open>Receiving\<close>

text \<open>
  The loop of the handler runs until \<^verbatim>\<open>recv\<close> has nothing more or the server is closed. The first
  argument bounds the number of rounds; \<open>None\<close> is undefined behaviour or too small a bound.
  \<^verbatim>\<open>EAGAIN\<close> and \<^verbatim>\<open>EWOULDBLOCK\<close> are 11.
\<close>

fun client_recv_loop ::
    "nat \<Rightarrow> 'a client_world_ext runner \<Rightarrow> 'a closer \<Rightarrow> nat
     \<Rightarrow> 'a client_world_scheme \<Rightarrow> 'a client_world_scheme option" where
  "client_recv_loop 0 run closer server w = None"
| "client_recv_loop (Suc n) run closer server w = (
     let (data_len, recv_buffer, w) = recv (nat AF_IPC_MAX_MSGLEN) w in
     if data_len \<le> 0 then
       (if data_len < 0 \<and> cerrno w = 11 then Some w
        else close_and_free_server closer AF_IPC_STATUS_ERROR (Some server) w)
     else do {
       w \<leftarrow> upd_server server (sv_flags_update (\<lambda>f. f OR FLAGS_IN_RECEIVE)) w;
       sv \<leftarrow> servers w server;
       w \<leftarrow> af_ipc_handle_receive_message run recv_buffer data_len 0 (Some server)
              (sv_receiveCallback sv) (sv_receiveContext sv) w;
       w \<leftarrow> upd_server server (sv_flags_update (\<lambda>f. f AND NOT FLAGS_IN_RECEIVE)) w;
       sv \<leftarrow> servers w server;
       if sv_flags sv AND FLAGS_MARKED_FOR_SHUTDOWN \<noteq> 0
       then close_and_free_server closer AF_IPC_STATUS_OK (Some server) w
       else client_recv_loop n run closer server w
     })"

definition af_ipcc_client_on_recv ::
    "nat \<Rightarrow> 'a client_world_ext runner \<Rightarrow> 'a closer \<Rightarrow> u16 \<Rightarrow> nat option
     \<Rightarrow> 'a client_world_scheme \<Rightarrow> 'a client_world_scheme option" where
  "af_ipcc_client_on_recv n run closer evtype arg w =
     (case arg of
        None \<Rightarrow> Some w
      | Some server \<Rightarrow>
          if evtype AND EV_READ \<noteq> 0 then client_recv_loop n run closer server w else Some w)"

section \<open>Sending\<close>

text \<open>The common part of the three functions: a failed message closes the connection.\<close>

definition client_send ::
    "'a closer \<Rightarrow> nat option \<Rightarrow> (int \<Rightarrow> 'a client_world_scheme \<Rightarrow> (int \<times> 'a client_world_scheme) option)
     \<Rightarrow> 'a client_world_scheme \<Rightarrow> (int \<times> 'a client_world_scheme) option" where
  "client_send closer server send w =
     (case server of
        None \<Rightarrow> Some (-1, set_errno 22 w)
      | Some s \<Rightarrow> do {
          sv \<leftarrow> servers w s;
          if sv_fd sv < 0 then Some (-1, set_errno 22 w)
          else do {
            (retVal, w) \<leftarrow> send (sv_fd sv) w;
            w \<leftarrow> (if retVal < 0 then close_and_free_server closer AF_IPC_STATUS_ERROR server w
                   else Some w);
            Some (retVal, w)
          }
        })"

definition af_ipcc_send_request ::
    "'a closer \<Rightarrow> nat option \<Rightarrow> byte list \<Rightarrow> int \<Rightarrow> nat option \<Rightarrow> nat \<Rightarrow> int
     \<Rightarrow> 'a client_world_scheme \<Rightarrow> (int \<times> 'a client_world_scheme) option" where
  "af_ipcc_send_request closer server txBuffer txBufferSize callback ctx timeoutMs w =
     client_send closer server
       (\<lambda>fd. af_ipc_send fd server 0 txBuffer txBufferSize callback ctx timeoutMs) w"

definition af_ipcc_send_response ::
    "'a closer \<Rightarrow> nat option \<Rightarrow> u32 \<Rightarrow> byte list \<Rightarrow> int
     \<Rightarrow> 'a client_world_scheme \<Rightarrow> (int \<times> 'a client_world_scheme) option" where
  "af_ipcc_send_response closer server seqNum txBuffer txBufferSize w =
     client_send closer server
       (\<lambda>fd. af_ipc_send fd None seqNum txBuffer txBufferSize None 0 0) w"

definition af_ipcc_send_unsolicited ::
    "'a closer \<Rightarrow> nat option \<Rightarrow> byte list \<Rightarrow> int
     \<Rightarrow> 'a client_world_scheme \<Rightarrow> (int \<times> 'a client_world_scheme) option" where
  "af_ipcc_send_unsolicited closer server txBuffer txBufferSize w =
     client_send closer server
       (\<lambda>fd. af_ipc_send fd None 0 txBuffer txBufferSize None 0 0) w"

end
