(* ===== verification/Client_Inv.thy ===== *)
theory Client_Inv
  imports Client
begin

text \<open>
  The state of an open connection of the client, the abstract effect of closing it, and the
  contract with the application: the locale \<open>client_receiver\<close> has a round of the receive handler
  for applications that keep the connection, and \<open>client_acting\<close> provides it.
\<close>

section \<open>Open connections\<close>

definition client_open :: "'a client_world_scheme \<Rightarrow> nat \<Rightarrow> bool" where
  "client_open w s \<longleftrightarrow> world_ok w \<and> db_open w s \<and>
     (case servers w s of None \<Rightarrow> False
      | Some sv \<Rightarrow> 0 \<le> sv_fd sv \<and> recv_event_ok w (On_recv s) (sv_event sv))"

lemma client_openE:
  assumes "client_open w s"
  obtains sv e v where "world_ok w" "db_open w s" "servers w s = Some sv" "0 \<le> sv_fd sv"
    "sv_event sv = Some e" "events w e = Some v" "ev_handler v = On_recv s" "ev_added v"
  using assms by (auto simp: client_open_def recv_event_ok_def split: option.splits)

section \<open>The effect of closing\<close>

definition closed_client :: "nat \<Rightarrow> 'a client_world_scheme \<Rightarrow> 'a client_world_scheme" where
  "closed_client s w = (case servers w s of None \<Rightarrow> w
     | Some sv \<Rightarrow> (case sv_event sv of None \<Rightarrow> w
        | Some e \<Rightarrow> (let w1 = closed_db s (w\<lparr>events := (events w)(e := None)\<rparr>) in
            w1\<lparr>io_log := io_log w @ [Shutdown (sv_fd sv) SHUT_RDWR, Closed (sv_fd sv)],
               servers := (servers w)(s := None), ctls := (ctls w1)(s := None)\<rparr>)))"

lemma closed_db_more: "client_world.more (closed_db s w) = client_world.more w" "servers (closed_db s w) = servers w"
  "io_log (closed_db s w) = io_log w" "tick (closed_db s w) = tick w" "outcomes (closed_db s w) = outcomes w"
  by (simp_all add: closed_db_def split: option.splits)

lemma closed_db_servers: "closed_db s (w\<lparr>servers := sv\<rparr>) = (closed_db s w)\<lparr>servers := sv\<rparr>"
  by (cases w) (simp add: closed_db_def pending_def timer_of_def split: option.split cong: if_cong)

lemma close_eq:
  assumes "client_open w s" "servers w s = Some sv"
  shows "close_and_free_server closer status (Some s) w =
    run_close closer (sv_closeCallback sv) status (sv_receiveContext sv) (closed_client s w)"
proof -
  obtain sv' e v where "world_ok w" "db_open w s" "servers w s = Some sv'" "0 \<le> sv_fd sv'"
    "sv_event sv' = Some e" and v: "events w e = Some v" "ev_handler v = On_recv s" "ev_added v"
    using assms(1) by (rule client_openE)
  with assms(2) have s: "world_ok w" "db_open w s" "0 \<le> sv_fd sv" "sv_event sv = Some e" by simp_all
  let ?w1 = "w\<lparr>events := (events w)(e := None)\<rparr>"
  let ?sv = "(servers w)(s \<mapsto> sv\<lparr>sv_event := None\<rparr>)"
  have ok: "world_ok ?w1" using s(1) v by (intro drop_event_ok) auto
  then have ok2: "world_ok (?w1\<lparr>servers := ?sv\<rparr>)" by (rule world_ok_cong [rotated -1]) simp_all
  have op: "db_open (?w1\<lparr>servers := ?sv\<rparr>) s" using s(2) by (simp add: db_open_def)
  have del: "event_del e w = Some (w\<lparr>events := (events w)(e \<mapsto> v\<lparr>ev_added := False\<rparr>)\<rparr>)"
    using v by (simp add: event_del_def)
  have "event_free e (w\<lparr>events := (events w)(e \<mapsto> v\<lparr>ev_added := False\<rparr>)\<rparr>) = Some ?w1"
    by (simp add: event_free_def)
  moreover have "upd_server s (sv_event_update (\<lambda>_. None)) ?w1 = Some (?w1\<lparr>servers := ?sv\<rparr>)"
    using assms(2) by (simp add: upd_server_def)
  moreover have "af_ipc_util_shutdown_requests (Some s) (?w1\<lparr>servers := ?sv\<rparr>) =
      Some ((closed_db s ?w1)\<lparr>servers := ?sv\<rparr>)"
    by (simp only: shutdown_eq [OF ok2 op] closed_db_servers)
  ultimately show ?thesis
    using assms(2) s(3,4) del
    by (simp add: close_and_free_server_def upd_server_def log_io_def free_server_def closed_client_def
        closed_db_more Let_def)
qed

lemma closed_client_sel:
  assumes "client_open w s" "servers w s = Some sv"
  shows "world_ok (closed_client s w)" "servers (closed_client s w) = (servers w)(s := None)"
    and "ctls (closed_client s w) = (ctls w)(s := None)"
    and "io_log (closed_client s w) = io_log w @ [Shutdown (sv_fd sv) SHUT_RDWR, Closed (sv_fd sv)]"
    and "reqs (closed_client s w) = (\<lambda>a. if a \<in> set (pending w s) then None else reqs w a)"
    and "events (closed_client s w) = (\<lambda>e. if e \<in> timer_of w ` set (pending w s) \<or> sv_event sv = Some e
      then None else events w e)"
    and "tick (closed_client s w) = tick w" "outcomes (closed_client s w) = outcomes w"
proof -
  obtain sv' e v where "world_ok w" "db_open w s" "servers w s = Some sv'" "0 \<le> sv_fd sv'"
    "sv_event sv' = Some e" and v: "events w e = Some v" "ev_handler v = On_recv s" "ev_added v"
    using assms(1) by (rule client_openE)
  with assms(2) have s: "world_ok w" "db_open w s" "0 \<le> sv_fd sv" "sv_event sv = Some e" by simp_all
  let ?w1 = "w\<lparr>events := (events w)(e := None)\<rparr>"
  obtain rc where rc: "ctls w s = Some rc" using s(2) by (auto simp: db_open_def split: option.splits)
  have ok: "world_ok ?w1" using s(1) v by (intro drop_event_ok) auto
  have op: "db_open ?w1 s" using s(2) by (simp add: db_open_def)
  have eq: "pending ?w1 = pending w" "timer_of ?w1 = timer_of w"
    by (simp_all add: fun_eq_iff pending_def timer_of_def cong: option.case_cong)
  note def = closed_client_def assms(2) s(4) Let_def
  show "servers (closed_client s w) = (servers w)(s := None)"
    "io_log (closed_client s w) = io_log w @ [Shutdown (sv_fd sv) SHUT_RDWR, Closed (sv_fd sv)]"
    "tick (closed_client s w) = tick w" "outcomes (closed_client s w) = outcomes w"
    by (simp_all add: def closed_db_more)
  show "ctls (closed_client s w) = (ctls w)(s := None)"
    "reqs (closed_client s w) = (\<lambda>a. if a \<in> set (pending w s) then None else reqs w a)"
    using rc by (simp_all add: def closed_db_def eq cong: if_cong)
  show "events (closed_client s w) = (\<lambda>e. if e \<in> timer_of w ` set (pending w s) \<or> sv_event sv = Some e
      then None else events w e)"
    using rc by (auto simp: def closed_db_def eq fun_eq_iff)
  let ?w2 = "closed_db s ?w1"
  have "\<not> db_open ?w2 s" using rc by (simp add: closed_db_def db_open_def)
  with closed_db_ok [OF ok op] have "world_ok (?w2\<lparr>ctls := (ctls ?w2)(s := None)\<rparr>)" by (rule drop_db_ok)
  then show "world_ok (closed_client s w)"
    by (rule world_ok_cong [rotated -1]) (simp_all add: def)
qed

section \<open>Receiving\<close>

text \<open>
  The connection \<open>s\<close> while the receive handler runs callbacks: open, and the structure is \<open>sv\<close>
  except for the flags, which have the receive bit.
\<close>

definition conn ::
    "nat \<Rightarrow> af_ipcc_server \<Rightarrow> (nat \<Rightarrow> ext) \<Rightarrow> nat \<Rightarrow> (u16 \<Rightarrow> bool) \<Rightarrow> 'a client_world_scheme \<Rightarrow> bool" where
  "conn s sv oc t flags w \<longleftrightarrow> client_open w s \<and> outcomes w = oc \<and> t \<le> tick w \<and>
     (\<exists>f. servers w s = Some (sv\<lparr>sv_flags := f\<rparr>) \<and> flags f)"

abbreviation receiving where
  "receiving s sv oc t \<equiv> conn s sv oc t (\<lambda>f. f AND FLAGS_IN_RECEIVE \<noteq> 0)"

abbreviation idle where
  "idle s sv oc t \<equiv> conn s sv oc t (\<lambda>f. f AND FLAGS_IN_RECEIVE = 0 \<and> f AND FLAGS_MARKED_FOR_SHUTDOWN = 0)"

lemma client_open_cong:
  assumes "client_open w s" "ctls w' = ctls w" "reqs w' = reqs w" "events w' = events w" "tick w \<le> tick w'"
    and "servers w s = Some sv" "servers w' s = Some (sv\<lparr>sv_flags := f\<rparr>)"
  shows "client_open w' s"
proof -
  have "world_ok w'" using assms(1-5) by (intro world_ok_cong [of w' w]) (simp_all add: client_open_def)
  with assms show ?thesis by (simp add: client_open_def db_open_def recv_event_ok_def cong: option.case_cong)
qed

lemma conn_cong:
  assumes "conn s sv oc t P w" "ctls w' = ctls w" "reqs w' = reqs w" "events w' = events w"
    and "tick w \<le> tick w'" "outcomes w' = outcomes w"
    and "\<And>f. P f \<Longrightarrow> servers w s = Some (sv\<lparr>sv_flags := f\<rparr>) \<Longrightarrow>
      \<exists>g. servers w' s = Some (sv\<lparr>sv_flags := g\<rparr>) \<and> Q g"
  shows "conn s sv oc t Q w'"
proof -
  obtain f where f: "client_open w s" "outcomes w = oc" "t \<le> tick w" "servers w s = Some (sv\<lparr>sv_flags := f\<rparr>)" "P f"
    using assms(1) by (auto simp: conn_def)
  from assms(7) [OF f(5,4)] obtain g where g: "servers w' s = Some (sv\<lparr>sv_flags := g\<rparr>)" "Q g" by blast
  then have "servers w' s = Some ((sv\<lparr>sv_flags := f\<rparr>)\<lparr>sv_flags := g\<rparr>)" by simp
  from client_open_cong [OF f(1) assms(2-5) f(4) this] f(2,3) g assms(5,6)
  show ?thesis by (auto simp: conn_def)
qed

lemma drop_pending_servers [simp]: "servers (drop_pending c a w) = servers w"
  by (simp add: drop_pending_def split: option.split)

lemma conn_drop:
  assumes "conn s sv oc t P w" "db_open w c" "a \<in> set (pending w c)"
  shows "conn s sv oc t P (drop_pending c a w)"
proof -
  have op: "client_open w s" using assms(1) by (simp add: conn_def)
  then have ok: "world_ok w" by (simp add: client_open_def)
  from op have "client_open (drop_pending c a w) s"
    using drop_pending_ok [OF ok assms(2,3)] drop_pending_pending(3) [OF ok assms(2,3)]
      drop_pending_recv_event [OF ok assms(2,3)]
    by (auto simp: client_open_def split: option.splits)
  with assms(1) show ?thesis by (simp add: conn_def drop_pending_frame)
qed

lemma flag_bits:
  "(f OR FLAGS_IN_RECEIVE) AND FLAGS_IN_RECEIVE \<noteq> 0"
  "(f AND NOT FLAGS_IN_RECEIVE) AND FLAGS_IN_RECEIVE = 0"
  "(f OR FLAGS_MARKED_FOR_SHUTDOWN) AND FLAGS_IN_RECEIVE = f AND FLAGS_IN_RECEIVE"
  "(f OR FLAGS_MARKED_FOR_SHUTDOWN) AND FLAGS_MARKED_FOR_SHUTDOWN \<noteq> 0"
  "(f AND NOT FLAGS_IN_RECEIVE) AND FLAGS_MARKED_FOR_SHUTDOWN = f AND FLAGS_MARKED_FOR_SHUTDOWN"
proof -
  have two: "FLAGS_IN_RECEIVE = push_bit 1 1" and one: "FLAGS_MARKED_FOR_SHUTDOWN = push_bit 0 1"
    by (simp_all add: FLAGS_IN_RECEIVE_def FLAGS_MARKED_FOR_SHUTDOWN_def)
  have b: "bit FLAGS_IN_RECEIVE n \<longleftrightarrow> n = 1" "bit FLAGS_MARKED_FOR_SHUTDOWN n \<longleftrightarrow> n = 0" for n
    unfolding two one push_bit_of_1 by (subst bit_exp_iff; auto)+
  have "bit ((f OR FLAGS_IN_RECEIVE) AND FLAGS_IN_RECEIVE) 1"
    "bit ((f OR FLAGS_MARKED_FOR_SHUTDOWN) AND FLAGS_MARKED_FOR_SHUTDOWN) 0"
    unfolding bit_and_iff bit_or_iff b by simp_all
  then show "(f OR FLAGS_IN_RECEIVE) AND FLAGS_IN_RECEIVE \<noteq> 0"
    "(f OR FLAGS_MARKED_FOR_SHUTDOWN) AND FLAGS_MARKED_FOR_SHUTDOWN \<noteq> 0"
    by auto
  show "(f AND NOT FLAGS_IN_RECEIVE) AND FLAGS_IN_RECEIVE = 0"
    "(f OR FLAGS_MARKED_FOR_SHUTDOWN) AND FLAGS_IN_RECEIVE = f AND FLAGS_IN_RECEIVE"
    "(f AND NOT FLAGS_IN_RECEIVE) AND FLAGS_MARKED_FOR_SHUTDOWN = f AND FLAGS_MARKED_FOR_SHUTDOWN"
    by (rule bit_word_eqI; auto simp: bit_simps b)+
qed

lemma conn_openD: "conn s sv oc t P w \<Longrightarrow> world_ok w \<and> db_open w s"
  by (simp add: conn_def client_open_def)

lemma conn_weaken:
  "conn s sv oc t P w \<Longrightarrow> t' \<le> t \<Longrightarrow> (\<And>f. P f \<Longrightarrow> Q f) \<Longrightarrow> conn s sv oc t' Q w"
  by (auto simp: conn_def)

lemma flag_nonzero [simp]: "FLAGS_IN_RECEIVE \<noteq> 0" "FLAGS_MARKED_FOR_SHUTDOWN \<noteq> 0"
  by (simp_all add: FLAGS_IN_RECEIVE_def FLAGS_MARKED_FOR_SHUTDOWN_def)

section \<open>The contract with the application\<close>

text \<open>
  What the receive handler itself leaves alone, besides its own structure: the environment, the
  state of the application, the events that are not timers of requests, and which structures and
  databases are live. It adds no request.
\<close>

definition lasting :: "'a world_scheme \<Rightarrow> nat \<Rightarrow> ev option" where
  "lasting w e = (case events w e of None \<Rightarrow> None
     | Some v \<Rightarrow> (case ev_handler v of On_timeout a \<Rightarrow> None | _ \<Rightarrow> Some v))"

definition same_rest :: "'a client_world_scheme \<Rightarrow> 'a client_world_scheme \<Rightarrow> bool" where
  "same_rest w w' \<longleftrightarrow> outcomes w' = outcomes w \<and> client_world.more w' = client_world.more w \<and>
     lasting w' = lasting w \<and> dom (ctls w') = dom (ctls w) \<and> dom (servers w') = dom (servers w) \<and>
     (\<forall>c. set (pending w' c) \<subseteq> set (pending w c))"

lemma same_rest_trans [trans]: "same_rest u v \<Longrightarrow> same_rest v w \<Longrightarrow> same_rest u w"
  unfolding same_rest_def by (metis subset_trans)

lemma lasting_cong: "events w' = events w \<Longrightarrow> lasting w' = lasting w"
  by (simp add: fun_eq_iff lasting_def)

lemma pending_cong: "ctls w' = ctls w \<Longrightarrow> pending w' = pending w"
  by (simp add: fun_eq_iff pending_def)

lemma drop_pending_more: "client_world.more (drop_pending c a w) = client_world.more w"
  by (simp add: drop_pending_def split: option.split)

lemma registered_more: "client_world.more (registered c cb ctx t w) = client_world.more w"
  "servers (registered c cb ctx t w) = servers w" "dom (ctls (registered c cb ctx t w)) = dom (ctls w)"
  by (auto simp: registered_def add_pending_def next_tick_def split: option.split)

lemma drop_pending_rest:
  assumes "world_ok w" "db_open w c" "a \<in> set (pending w c)"
  shows "same_rest w (drop_pending c a w)"
proof -
  have "request_ok w c a" using pending_live [OF assms(1,2)] assms(3) by simp
  then obtain r e v where r: "reqs w a = Some r" "rq_event r = Some e" "events w e = Some v"
    "ev_handler v = On_timeout a" by (rule request_okE)
  obtain rc where rc: "ctls w c = Some rc" by (rule db_openE [OF assms(1,2)])
  then have "lasting (drop_pending c a w) = lasting w" "dom (ctls (drop_pending c a w)) = dom (ctls w)"
    using r by (auto simp: drop_pending_def lasting_def fun_eq_iff)
  moreover have "set (pending (drop_pending c a w) c') \<subseteq> set (pending w c')" for c'
    by (cases "c' = c") (auto simp: pending_def drop_pending_def dest: set_remove1_subset [THEN subsetD] split: option.split)
  ultimately show ?thesis by (simp add: same_rest_def drop_pending_frame drop_pending_more)
qed

text \<open>
  A state that is \<open>good\<close> bounds the messages that can arrive to those the callback \<open>accepts\<close>. Such
  a callback returns and keeps the state good and the connection that is being served open; it may
  mark it for shutdown.
\<close>

locale client_receiver =
  fixes run :: "'a client_world_ext runner" and s :: nat and good :: "'a client_world_scheme \<Rightarrow> bool"
    and accepts :: "byte list \<Rightarrow> bool"
  assumes good_rest: "same_rest w w' \<Longrightarrow> good w \<Longrightarrow> good w'"
    and accepts_Nil: "accepts []"
    and accepts_recv: "good w \<Longrightarrow> ext_recv (outcomes w n) = Inr bs \<Longrightarrow> 8 \<le> i \<Longrightarrow> accepts (take k (drop i bs))"
    and run_keeps: "good w \<Longrightarrow> receiving s sv oc t w \<Longrightarrow> accepts payload \<Longrightarrow>
      \<exists>w'. run cb status sn payload ctx w = Some w' \<and> receiving s sv oc t w' \<and> good w'"
begin

lemma keeps_receiver: "receiver run s (\<lambda>w. receiving s sv oc t w \<and> good w) accepts"
proof
  fix w :: "'a client_world_scheme" and c' a cb status sn payload ctx
  show "receiving s sv oc t w \<and> good w \<Longrightarrow> world_ok w \<and> db_open w s" using conn_openD by blast
  show "receiving s sv oc t w \<and> good w \<Longrightarrow> db_open w c' \<Longrightarrow> a \<in> set (pending w c') \<Longrightarrow>
      receiving s sv oc t (drop_pending c' a w) \<and> good (drop_pending c' a w)"
    using conn_drop [of s sv oc t _ w] conn_openD [of s sv oc t _ w] good_rest drop_pending_rest by blast
  show "receiving s sv oc t w \<and> good w \<Longrightarrow> accepts payload \<Longrightarrow>
      \<exists>w'. run cb status sn payload ctx w = Some w' \<and> receiving s sv oc t w' \<and> good w'"
    using run_keeps by blast
qed (rule accepts_Nil)

text \<open>One round with bytes: the connection stays, without the receive bit.\<close>

lemma round:
  assumes "good w" "idle s sv oc t w" "ext_recv (ext_now w) = Inr bs" "bs \<noteq> []"
  shows "\<exists>w1 f. conn s sv oc (Suc (tick w)) (\<lambda>g. g = f \<and> g AND FLAGS_IN_RECEIVE = 0) w1 \<and> good w1 \<and>
    (\<forall>n. client_recv_loop (Suc n) run closer s w =
    (if f AND FLAGS_MARKED_FOR_SHUTDOWN \<noteq> 0
     then run_close closer (sv_closeCallback sv) AF_IPC_STATUS_OK (sv_receiveContext sv) (closed_client s w1)
     else client_recv_loop n run closer s w1))"
proof -
  obtain f where f: "servers w s = Some (sv\<lparr>sv_flags := f\<rparr>)" using assms(2) by (auto simp: conn_def)
  let ?bs = "take 4096 bs"
  let ?w3 = "(next_tick w)\<lparr>servers := (servers w)(s \<mapsto> sv\<lparr>sv_flags := f OR FLAGS_IN_RECEIVE\<rparr>)\<rparr>"
  have rec: "recv (nat AF_IPC_MAX_MSGLEN) w = (int (length ?bs), ?bs, next_tick w)"
    by (simp add: recv_def assms(3) AF_IPC_MAX_MSGLEN_def)
  have "conn s sv oc t (\<lambda>g. g AND FLAGS_IN_RECEIVE \<noteq> 0) ?w3"
    using assms(2) by (rule conn_cong)
      (auto simp: next_tick_def flag_bits intro!: exI [of _ "f OR FLAGS_IN_RECEIVE"])
  then have "receiving s sv oc (Suc (tick w)) ?w3" by (simp add: conn_def next_tick_def)
  moreover have "same_rest w ?w3" using f by (auto simp: same_rest_def next_tick_def pending_def intro!: lasting_cong)
  then have "good ?w3" using assms(1) by (rule good_rest)
  moreover have "accepts (take k (drop i ?bs))" if "8 \<le> i" for i k
    using accepts_recv [OF assms(1), of "tick w" bs i "min k (4096 - i)"] assms(3) that
    by (simp add: ext_now_def drop_take)
  ultimately obtain w4 where w4: "af_ipc_handle_receive_message run ?bs (int (length ?bs)) 0 (Some s)
      (sv_receiveCallback sv) (sv_receiveContext sv) ?w3 = Some w4" "receiving s sv oc (Suc (tick w)) w4" "good w4"
    using receiver.handle_inv [OF keeps_receiver, of sv oc "Suc (tick w)" ?w3 ?bs] by fastforce
  obtain g where g: "servers w4 s = Some (sv\<lparr>sv_flags := g\<rparr>)" using w4(2) by (auto simp: conn_def)
  let ?f = "g AND NOT FLAGS_IN_RECEIVE"
  let ?w1 = "w4\<lparr>servers := (servers w4)(s \<mapsto> sv\<lparr>sv_flags := ?f\<rparr>)\<rparr>"
  have conn: "conn s sv oc (Suc (tick w)) (\<lambda>h. h = ?f \<and> h AND FLAGS_IN_RECEIVE = 0) ?w1"
    using w4(2) by (rule conn_cong) (auto simp: flag_bits)
  have "same_rest w4 ?w1" using g by (auto simp: same_rest_def pending_def intro!: lasting_cong)
  then have good: "good ?w1" using w4(3) by (rule good_rest)
  from conn have "client_open ?w1 s" by (simp add: conn_def)
  from close_eq [OF this, of "sv\<lparr>sv_flags := ?f\<rparr>" closer AF_IPC_STATUS_OK]
  have "close_and_free_server closer AF_IPC_STATUS_OK (Some s) ?w1 =
      run_close closer (sv_closeCallback sv) AF_IPC_STATUS_OK (sv_receiveContext sv) (closed_client s ?w1)"
    by simp
  then have "client_recv_loop (Suc n) run closer s w =
      (if ?f AND FLAGS_MARKED_FOR_SHUTDOWN \<noteq> 0
       then run_close closer (sv_closeCallback sv) AF_IPC_STATUS_OK (sv_receiveContext sv) (closed_client s ?w1)
       else client_recv_loop n run closer s ?w1)" for n
    using assms(4) f g w4(1) by (simp add: rec upd_server_def next_tick_def comp_def min_def)
  with conn good show ?thesis by blast
qed

text \<open>The handler ends when the peer has nothing more to say.\<close>

lemma recv_loop_ends:
  assumes "good w" "\<forall>n\<ge>N. \<forall>bs. ext_recv (oc n) = Inr bs \<longrightarrow> bs = []" "idle s sv oc t w"
  shows "\<exists>w1. good w1 \<and> (
    (\<exists>k. idle s sv oc t w1 \<and> tick w1 = Suc k \<and> (if ext_recv (oc k) = Inl 11
      then \<forall>n > N - tick w. client_recv_loop n run closer s w = Some w1
      else (\<forall>bs. ext_recv (oc k) = Inr bs \<longrightarrow> bs = []) \<and> (\<forall>n > N - tick w. client_recv_loop n run closer s w =
        run_close closer (sv_closeCallback sv) AF_IPC_STATUS_ERROR (sv_receiveContext sv) (closed_client s w1)))) \<or>
    conn s sv oc t (\<lambda>f. f AND FLAGS_IN_RECEIVE = 0 \<and> f AND FLAGS_MARKED_FOR_SHUTDOWN \<noteq> 0) w1 \<and>
      (\<forall>n > N - tick w. client_recv_loop n run closer s w =
      run_close closer (sv_closeCallback sv) AF_IPC_STATUS_OK (sv_receiveContext sv) (closed_client s w1)))"
  using assms(1,3)
proof (induction "N - tick w" arbitrary: w t rule: less_induct)
  case less
  have oc: "ext_now w = oc (tick w)" using less.prems(2) by (simp add: conn_def ext_now_def)
  obtain f where f: "servers w s = Some (sv\<lparr>sv_flags := f\<rparr>)" using less.prems(2) by (auto simp: conn_def)
  have closing: "close_and_free_server closer AF_IPC_STATUS_ERROR (Some s) w' =
      run_close closer (sv_closeCallback sv) AF_IPC_STATUS_ERROR (sv_receiveContext sv) (closed_client s w')"
    if "idle s sv oc t w'" for w'
  proof -
    have "client_open w' s" using that by (simp add: conn_def)
    then show ?thesis using that close_eq [of w' s] by (auto simp: conn_def)
  qed
  show ?case
  proof (cases "ext_recv (ext_now w)")
    case (Inl e)
    let ?w = "next_tick (set_errno e w)"
    have w1: "idle s sv oc t ?w"
      using less.prems(2) by (rule conn_cong) (auto simp: next_tick_def set_errno_def)
    have "same_rest w ?w" by (simp add: same_rest_def next_tick_def set_errno_def lasting_def pending_def fun_eq_iff)
    then have good: "good ?w" using less.prems(1) by (rule good_rest)
    have "client_recv_loop n run closer s w = (if e = 11 then Some ?w
        else close_and_free_server closer AF_IPC_STATUS_ERROR (Some s) ?w)" if "n > N - tick w" for n
      using that by (cases n) (simp_all add: recv_def Inl next_tick_def set_errno_def)
    with good w1 closing [OF w1] Inl oc show ?thesis
      by (intro exI [of _ ?w] conjI disjI1 exI [of _ "tick w"]) (auto simp: next_tick_def set_errno_def)
  next
    case (Inr bs)
    show ?thesis
    proof (cases "bs = []")
      case True
      let ?w = "next_tick w"
      have w1: "idle s sv oc t ?w"
        using less.prems(2) by (rule conn_cong) (auto simp: next_tick_def)
      have "same_rest w ?w" by (simp add: same_rest_def next_tick_def lasting_def pending_def fun_eq_iff)
      then have good: "good ?w" using less.prems(1) by (rule good_rest)
      have "client_recv_loop n run closer s w = close_and_free_server closer AF_IPC_STATUS_ERROR (Some s) ?w"
        if "n > N - tick w" for n
        using that True by (cases n) (simp_all add: recv_def Inr)
      with good w1 closing [OF w1] True Inr oc show ?thesis
        by (intro exI [of _ ?w] conjI disjI1 exI [of _ "tick w"]) (auto simp: next_tick_def)
    next
      case False
      have N: "tick w < N"
      proof (rule ccontr)
        assume "\<not> tick w < N"
        then have "N \<le> tick w" by simp
        moreover have "ext_recv (oc (tick w)) = Inr bs" using Inr oc by simp
        ultimately show False using assms(2) False by blast
      qed
      obtain w1 g where w1: "conn s sv oc (Suc (tick w)) (\<lambda>h. h = g \<and> h AND FLAGS_IN_RECEIVE = 0) w1"
        and good: "good w1" and step: "\<And>n. client_recv_loop (Suc n) run closer s w =
          (if g AND FLAGS_MARKED_FOR_SHUTDOWN \<noteq> 0
           then run_close closer (sv_closeCallback sv) AF_IPC_STATUS_OK (sv_receiveContext sv) (closed_client s w1)
           else client_recv_loop n run closer s w1)"
        using round [OF less.prems Inr False, of closer] by blast
      have t: "t \<le> Suc (tick w)" "Suc (tick w) \<le> tick w1" using less.prems(2) w1 by (simp_all add: conn_def)
      show ?thesis
      proof (cases "g AND FLAGS_MARKED_FOR_SHUTDOWN = 0")
        case False
        have "conn s sv oc t (\<lambda>f. f AND FLAGS_IN_RECEIVE = 0 \<and> f AND FLAGS_MARKED_FOR_SHUTDOWN \<noteq> 0) w1"
          using w1 t(1) by (rule conn_weaken) (use False in auto)
        moreover have "client_recv_loop n run closer s w = run_close closer (sv_closeCallback sv)
            AF_IPC_STATUS_OK (sv_receiveContext sv) (closed_client s w1)" if "n > N - tick w" for n
          using that False step by (cases n) simp_all
        ultimately show ?thesis using good by blast
      next
        case True
        have "idle s sv oc t w1" using w1 t(1) by (rule conn_weaken) (use True in auto)
        moreover have "N - tick w1 < N - tick w" using N t(2) by linarith
        moreover have "client_recv_loop n run closer s w = client_recv_loop (n - 1) run closer s w1 \<and>
            N - tick w1 < n - 1" if "n > N - tick w" for n
          using that True step N t(2) by (cases n) auto
        ultimately show ?thesis using less.hyps [of w1 t] good by fastforce
      qed
    qed
  qed
qed

end

section \<open>Applications that use the interface\<close>

text \<open>
  Callbacks that call the functions of \<^verbatim>\<open>af_ipc_client.h\<close> on the connection that is served: they
  respond, send unsolicited messages and close, in any order.
\<close>

datatype client_action = Respond u32 "byte list" | Notify "byte list" | Close

fun client_acts ::
    "'a closer \<Rightarrow> nat \<Rightarrow> client_action list \<Rightarrow> 'a client_world_scheme \<Rightarrow> 'a client_world_scheme option" where
  "client_acts closer s [] w = Some w"
| "client_acts closer s (Respond sn payload # as) w = do {
     (r, w) \<leftarrow> af_ipcc_send_response closer (Some s) sn payload (int (length payload)) w;
     client_acts closer s as w
   }"
| "client_acts closer s (Notify payload # as) w = do {
     (r, w) \<leftarrow> af_ipcc_send_unsolicited closer (Some s) payload (int (length payload)) w;
     client_acts closer s as w
   }"
| "client_acts closer s (Close # as) w = do {
     w \<leftarrow> af_ipcc_close closer (Some s) w;
     client_acts closer s as w
   }"

type_synonym client_app = "nat \<Rightarrow> int \<Rightarrow> u32 \<Rightarrow> byte list \<Rightarrow> nat \<Rightarrow> client_action list"

definition client_acting :: "'a closer \<Rightarrow> nat \<Rightarrow> client_app \<Rightarrow> 'a client_world_ext runner" where
  "client_acting closer s app cb status sn payload ctx w = client_acts closer s (app cb status sn payload ctx) w"

text \<open>The messages fit, and \<^verbatim>\<open>sendmsg\<close> does not fail.\<close>

definition fits :: "client_action \<Rightarrow> bool" where
  "fits a \<longleftrightarrow> (case a of Respond sn p \<Rightarrow> length p \<le> 4088 | Notify p \<Rightarrow> length p \<le> 4088 | Close \<Rightarrow> True)"

definition polite :: "client_app \<Rightarrow> (nat \<Rightarrow> ext) \<Rightarrow> bool" where
  "polite app oc \<longleftrightarrow> (\<forall>n. 0 \<le> ext_ret (oc n)) \<and>
     (\<forall>cb status sn payload ctx. \<forall>a \<in> set (app cb status sn payload ctx). fits a)"

lemma client_send_keeps:
  assumes "receiving s sv oc t w" "\<forall>n. 0 \<le> ext_ret (oc n)" "length payload \<le> 4088"
  shows "\<exists>w'. client_send closer (Some s)
      (\<lambda>fd. af_ipc_send fd None sn payload (int (length payload)) None 0 0) w = Some (0, w') \<and>
    receiving s sv oc t w'"
proof -
  obtain f where f: "servers w s = Some (sv\<lparr>sv_flags := f\<rparr>)" using assms(1) by (auto simp: conn_def)
  have fd: "0 \<le> sv_fd sv" using assms(1) f by (auto simp: conn_def client_open_def)
  have "0 \<le> ext_ret (ext_now w)" using assms(1,2) by (auto simp: conn_def ext_now_def)
  then have send: "af_ipc_send (sv_fd sv) None sn payload (int (length payload)) None 0 0 w =
      Some (0, sent (sv_fd sv) (frame sn payload) w)"
    using send_plain_eq [OF assms(3), of 0 "sv_fd sv" None sn None 0 w] by simp
  have "receiving s sv oc t (sent (sv_fd sv) (frame sn payload) w)"
    using assms(1) by (rule conn_cong) (auto simp: sent_def log_io_def next_tick_def)
  with f fd send show ?thesis by (simp add: client_send_def)
qed

lemma client_close_keeps:
  assumes "receiving s sv oc t w"
  shows "\<exists>w'. af_ipcc_close closer (Some s) w = Some w' \<and> receiving s sv oc t w'"
proof -
  obtain f where f: "servers w s = Some (sv\<lparr>sv_flags := f\<rparr>)" "f AND FLAGS_IN_RECEIVE \<noteq> 0"
    using assms by (auto simp: conn_def)
  let ?w = "w\<lparr>servers := (servers w)(s \<mapsto> sv\<lparr>sv_flags := f OR FLAGS_MARKED_FOR_SHUTDOWN\<rparr>)\<rparr>"
  have "receiving s sv oc t ?w"
    using assms by (rule conn_cong)
      (use f(2) in \<open>auto simp: flag_bits intro!: exI [of _ "f OR FLAGS_MARKED_FOR_SHUTDOWN"]\<close>)
  with f show ?thesis by (simp add: af_ipcc_close_def upd_server_def comp_def)
qed

lemma client_acts_keeps:
  assumes "receiving s sv oc t w" "\<forall>n. 0 \<le> ext_ret (oc n)" "\<forall>a \<in> set as. fits a"
  shows "\<exists>w'. client_acts closer s as w = Some w' \<and> receiving s sv oc t w'"
  using assms
proof (induction as arbitrary: w)
  case (Cons a as)
  have next_act: "\<exists>w2. client_acts closer s as w1 = Some w2 \<and> receiving s sv oc t w2"
    if "receiving s sv oc t w1" for w1
    using Cons.IH [OF that] Cons.prems by simp
  show ?case
  proof (cases a)
    case (Respond sn p)
    with Cons.prems client_send_keeps [of s sv oc t w p closer sn] next_act show ?thesis
      by (fastforce simp: fits_def af_ipcc_send_response_def)
  next
    case (Notify p)
    with Cons.prems client_send_keeps [of s sv oc t w p closer 0] next_act show ?thesis
      by (fastforce simp: fits_def af_ipcc_send_unsolicited_def)
  next
    case Close
    with Cons.prems client_close_keeps [of s sv oc t w closer] next_act show ?thesis by fastforce
  qed
qed simp

interpretation acting: client_receiver "client_acting closer s app" s "\<lambda>w. polite app (outcomes w)" "\<lambda>_. True"
  for closer s app
proof
  fix oc :: "nat \<Rightarrow> ext" and sv t and w :: "'a client_world_scheme" and cb status sn payload ctx
  assume "polite app (outcomes w)" "receiving s sv oc t w"
  moreover from this have "outcomes w = oc" by (simp add: conn_def)
  ultimately show "\<exists>w'. client_acting closer s app cb status sn payload ctx w = Some w' \<and>
      receiving s sv oc t w' \<and> polite app (outcomes w')"
    using client_acts_keeps [of s sv oc t w "app cb status sn payload ctx" closer]
    by (auto simp: polite_def client_acting_def conn_def)
qed (simp_all add: same_rest_def)

end
