(* ===== verification/Client_Open.thy ===== *)
theory Client_Open
  imports Client_Inv
begin

text \<open>What \<^verbatim>\<open>af_ipcc_open_server\<close> of \<^verbatim>\<open>src/pkg/src/af_ipc_client.c\<close> does when it succeeds and when it fails.\<close>

section \<open>The steps of opening\<close>

text \<open>The structure before and after the connection is made.\<close>

definition new_server :: "int \<Rightarrow> nat option \<Rightarrow> nat option \<Rightarrow> nat \<Rightarrow> nat option \<Rightarrow> nat option \<Rightarrow> af_ipcc_server" where
  "new_server fd base receiveCallback receiveContext closeCallback event =
     \<lparr>sv_fd = fd, sv_event_base = base, sv_lastSeqNum = 0, sv_flags = 0,
      sv_receiveCallback = receiveCallback, sv_closeCallback = closeCallback,
      sv_receiveContext = receiveContext, sv_event = event\<rparr>"

text \<open>A state in which the structure \<open>sv\<close> with the database \<open>rc\<close> has been put at \<open>s\<close>.\<close>

definition with_server ::
    "nat \<Rightarrow> af_ipcc_server \<Rightarrow> af_ipc_req_control \<Rightarrow> 'a client_world_scheme \<Rightarrow> 'a client_world_scheme" where
  "with_server s sv rc w = w\<lparr>ctls := (ctls w)(s \<mapsto> rc), servers := (servers w)(s \<mapsto> sv)\<rparr>"

lemma with_server_simps [simp]:
  "ctls (with_server s sv rc w) = (ctls w)(s \<mapsto> rc)" "servers (with_server s sv rc w) = (servers w)(s \<mapsto> sv)"
  "reqs (with_server s sv rc w) = reqs w" "events (with_server s sv rc w) = events w"
  "io_log (with_server s sv rc w) = io_log w" "tick (with_server s sv rc w) = tick w"
  "outcomes (with_server s sv rc w) = outcomes w" "cerrno (with_server s sv rc w) = cerrno w"
  by (simp_all add: with_server_def)

lemma upd_with_server: "upd_server s f (with_server s sv rc w) = Some (with_server s (f sv) rc w)"
  by (cases w) (simp add: with_server_def upd_server_def)

lemma with_server_frame:
  "next_tick (with_server s sv rc w) = with_server s sv rc (next_tick w)"
  "set_errno e (with_server s sv rc w) = with_server s sv rc (set_errno e w)"
  "log_io x (with_server s sv rc w) = with_server s sv rc (log_io x w)"
  "ext_now (with_server s sv rc w) = ext_now w"
  by (cases w; simp add: with_server_def next_tick_def set_errno_def log_io_def ext_now_def)+

lemma sys_call_with_server:
  "sys_call (with_server s sv rc w) = (fst (sys_call w), with_server s sv rc (snd (sys_call w)))"
  by (simp add: sys_call_def with_server_frame Let_def)

lemma init_with_server:
  "af_ipc_util_init_requests (Some s) (with_server s sv rc w) = Some
    (if ext_null (outcomes w (tick w))
     then (-1, with_server s sv (open_db Pool_null False) (set_errno 28 (next_tick w)))
     else let ret = ext_ret (outcomes w (Suc (tick w))) in
       (ret, with_server s sv (open_db (Pool_live []) (ret = 0)) (next_tick (next_tick w))))"
proof -
  have "ctls (with_server s sv rc w) s \<noteq> None" by simp
  from init_eq [OF this] show ?thesis
    by (cases w) (auto simp: open_db_def with_server_def next_tick_def set_errno_def Let_def)
qed

lemma event_new_with_server:
  "event_new h (with_server s sv rc w) = (fst (event_new h w), with_server s sv rc (snd (event_new h w)))"
  by (cases w) (simp add: event_new_def with_server_def next_tick_def set_errno_def ext_now_def)

lemma event_add_with_server:
  "event_add e tv (with_server s sv rc w) = map_option (with_server s sv rc) (event_add e tv w)"
  by (cases w) (simp add: event_add_def with_server_def split: option.split)

text \<open>The socket calls of a run that connects as \<open>fd\<close>, and what the state looks like afterwards.\<close>

definition connected :: "int \<Rightarrow> string \<Rightarrow> 'a world_scheme \<Rightarrow> 'a world_scheme" where
  "connected fd path w = next_tick (log_io (Connect fd path) (next_tick (next_tick w)))"

lemma connected_sel [simp]:
  "ctls (connected fd path w) = ctls w" "reqs (connected fd path w) = reqs w"
  "events (connected fd path w) = events w" "io_log (connected fd path w) = io_log w @ [Connect fd path]"
  "tick (connected fd path w) = tick w + 3" "outcomes (connected fd path w) = outcomes w"
  "servers (connected fd path v) = servers v"
  by (simp_all add: connected_def next_tick_def log_io_def)

lemma open_eq:
  fixes w :: "'a client_world_scheme" and prefix name :: string and rcb ccb :: "nat option" and ctx b :: nat
  assumes "length (prefix @ name) < 107"
  defines "t \<equiv> tick w" and "o' \<equiv> outcomes w"
  defines "fd \<equiv> ext_ret (o' (t + 1))" and "path \<equiv> prefix @ name"
  defines "sv \<equiv> \<lambda>fd base. new_server fd base rcb ctx ccb"
  shows "af_ipcc_open_server prefix (Some b) name rcb ctx ccb w =
   (if ext_null (o' t) then Some (None, next_tick w)
    else if fd < 0 then Some (None, with_server t (sv (-1) None None) cleared_db
      (next_tick (set_errno (ext_errno (o' (t + 1))) (next_tick w))))
    else if ext_ret (o' (t + 2)) < 0 then Some (None, with_server t (sv (-1) None None) cleared_db
      (log_io (Closed fd) (next_tick (set_errno (ext_errno (o' (t + 2))) (log_io (Connect fd path) (next_tick (next_tick w)))))))
    else if ext_null (o' (t + 3)) then Some (None, with_server t (sv (-1) (Some b) None) (open_db Pool_null False)
      (log_io (Closed fd) (set_errno 28 (next_tick (connected fd path w)))))
    else if ext_ret (o' (t + 4)) \<noteq> 0 then Some (None, with_server t (sv (-1) (Some b) None) (open_db (Pool_live []) False)
      (log_io (Closed fd) (next_tick (next_tick (connected fd path w)))))
    else if ext_null (o' (t + 5)) then None
    else Some (Some t, with_server t (sv fd (Some b) (Some (t + 5))) (open_db (Pool_live []) True)
      ((connected fd path w)\<lparr>tick := t + 6, events := (events w)(t + 5 \<mapsto> recv_ev t)\<rparr>)))"
proof -
  have calloc: "calloc_server w = (if ext_null (o' t) then (None, next_tick w)
      else (Some t, with_server t cleared_server cleared_db (next_tick w)))"
    by (cases w) (simp add: calloc_server_def ext_now_def with_server_def next_tick_def t_def o'_def)
  have srv: "cleared_server\<lparr>sv_fd := -1, sv_receiveContext := ctx, sv_receiveCallback := rcb,
      sv_closeCallback := ccb, sv_flags := 0\<rparr> = sv (-1) None None"
    "(sv x y z)\<lparr>sv_fd := x', sv_event_base := y', sv_event := z'\<rparr> = sv x' y' z'"
    "sv_fd_update (\<lambda>_. x') (sv x y z) = sv x' y z" "sv_event_update (\<lambda>_. z') (sv x y z) = sv x y z'"
    for x x' y y' z z'
    by (simp_all add: cleared_server_def new_server_def sv_def)
  have sel: "tick (next_tick v) = Suc (tick v)" "outcomes (next_tick v) = outcomes v"
    "tick (set_errno e v) = tick v" "outcomes (set_errno e v) = outcomes v"
    "tick (log_io x v) = tick v" "outcomes (log_io x v) = outcomes v" for v :: "'a client_world_scheme" and e x
    by (simp_all add: next_tick_def set_errno_def log_io_def)
  have path: "length path < 107" using assms(1) by (simp add: path_def)
  have num: "t + 1 = Suc t" "t + 2 = Suc (Suc t)" "t + 3 = Suc (Suc (Suc t))" "t + 4 = Suc (Suc (Suc (Suc t)))"
    "t + 5 = Suc (Suc (Suc (Suc (Suc t))))" "t + 6 = Suc (Suc (Suc (Suc (Suc (Suc t)))))" by simp_all
  note simps = af_ipcc_open_server_def calloc upd_with_server srv sys_call_def with_server_frame
    init_with_server event_new_with_server event_add_with_server ext_now_def sel t_def [symmetric]
    o'_def [symmetric] path_def [symmetric] num fd_def connected_def Let_def
  consider (calloc) "ext_null (o' t)" | (socket) "\<not> ext_null (o' t)" "fd < 0"
    | (connect) "\<not> ext_null (o' t)" "0 \<le> fd" "ext_ret (o' (t + 2)) < 0"
    | (pool) "\<not> ext_null (o' t)" "0 \<le> fd" "0 \<le> ext_ret (o' (t + 2))" "ext_null (o' (t + 3))"
    | (mutex) "\<not> ext_null (o' t)" "0 \<le> fd" "0 \<le> ext_ret (o' (t + 2))" "\<not> ext_null (o' (t + 3))"
      "ext_ret (o' (t + 4)) \<noteq> 0"
    | (event) "\<not> ext_null (o' t)" "0 \<le> fd" "0 \<le> ext_ret (o' (t + 2))" "\<not> ext_null (o' (t + 3))"
      "ext_ret (o' (t + 4)) = 0"
    by linarith
  then show ?thesis
  proof cases
    case calloc
    then show ?thesis by (simp add: simps)
  next
    case socket
    then show ?thesis by (simp add: simps)
  next
    case connect
    then show ?thesis using path by (simp add: simps)
  next
    case pool
    then show ?thesis using path by (simp add: simps) (simp add: sv_def new_server_def)
  next
    case mutex
    then show ?thesis using path by (simp add: simps) (simp add: sv_def new_server_def)
  next
    case event
    then show ?thesis using path
      by (simp add: simps)
        (simp add: event_new_def ext_now_def o'_def event_add_def t_def next_tick_def log_io_def recv_ev_def sv_def new_server_def)
  qed
qed

end
