(* ===== verification/Client_Correct.thy ===== *)
theory Client_Correct
  imports Client_Open Ipc_Correct
begin

text \<open>
  The properties of the client \<^verbatim>\<open>src/pkg/src/af_ipc_client.c\<close>: opening, the receive handler,
  closing, and what a failed message does to the connection.
\<close>

section \<open>Opening\<close>

lemma with_server_ok:
  assumes ok: "world_ok v" and c: "\<not> db_open v s" and rc: "rc = open_db (Pool_live []) created \<or>
    rc = open_db Pool_null False \<or> rc = cleared_db"
  shows "world_ok (with_server s sv rc v)"
proof -
  have "world_ok (v\<lparr>ctls := (ctls v)(s \<mapsto> rc)\<rparr>)"
    by (rule add_db_ok [OF ok c]) (use rc in \<open>auto simp: open_db_def cleared_db_def\<close>)
  then show ?thesis by (rule world_ok_cong [rotated -1]) simp_all
qed

lemma connected_ok: "world_ok w \<Longrightarrow> world_ok (connected fd path w)"
  by (simp add: connected_def)

lemma with_server_more: "client_world.more (with_server s sv rc w) = client_world.more w"
  by (simp add: with_server_def)

lemma connected_more: "client_world.more (connected fd path w) = client_world.more w"
  by (simp add: connected_def next_tick_def log_io_def)

lemma open_connects:
  assumes "world_ok w" "ctls w (tick w) = None" "length (prefix @ name) < 107"
    and "af_ipcc_open_server prefix (Some b) name rcb ctx ccb w = Some (Some s, w1)"
  shows "\<exists>fd e. 0 \<le> fd \<and> client_open w1 s \<and> pending w1 s = [] \<and>
    servers w1 = (servers w)(s \<mapsto> new_server fd (Some b) rcb ctx ccb (Some e)) \<and>
    reqs w1 = reqs w \<and> (\<forall>c. c \<noteq> s \<longrightarrow> ctls w1 c = ctls w c) \<and>
    events w e = None \<and> events w1 = (events w)(e \<mapsto> recv_ev s) \<and>
    io_log w1 = io_log w @ [Connect fd (prefix @ name)] \<and>
    outcomes w1 = outcomes w \<and> client_world.more w1 = client_world.more w \<and> tick w \<le> tick w1"
proof -
  let ?fd = "ext_ret (outcomes w (tick w + 1))" and ?e = "tick w + 5"
  let ?v = "(connected ?fd (prefix @ name) w)\<lparr>tick := tick w + 6, events := (events w)(?e \<mapsto> recv_ev (tick w))\<rparr>"
  have s: "s = tick w" "0 \<le> ?fd" and w1: "w1 = with_server s
      (new_server ?fd (Some b) rcb ctx ccb (Some ?e)) (open_db (Pool_live []) True) ?v"
    using assms(4) unfolding open_eq [OF assms(3)] by (auto simp: Let_def split: if_splits)
  have e: "events w ?e = None"
    using world_okD(3) [OF assms(1)] by (cases "events w ?e") (auto simp: timer_owned_def)
  have "world_ok (w\<lparr>events := (events w)(?e \<mapsto> recv_ev s), tick := tick w + 6\<rparr>)"
    by (rule world_ok_events [OF assms(1)])
      (use e in \<open>auto simp: recv_ev_def split: if_splits intro: world_okD(3) [OF assms(1)]\<close>)
  then have "world_ok ?v" by (rule world_ok_cong [rotated -1]) (simp_all add: s)
  moreover have "\<not> db_open ?v s" using assms(2) by (simp add: db_open_def s)
  ultimately have "world_ok w1" unfolding w1 by (rule with_server_ok) blast
  then have "client_open w1 s"
    using s(2) by (simp add: w1 s(1) client_open_def recv_event_ok_def recv_ev_def new_server_def db_open_def open_db_def)
  moreover have "pending w1 s = []" by (simp add: w1 pending_def open_db_def)
  ultimately show ?thesis
    using s(2) e by (intro exI [of _ ?fd] exI [of _ ?e]) (simp add: w1 s(1) with_server_more connected_more)
qed

text \<open>
  C16. A successful open returns an open connection: a live structure with the callbacks and
  without flags, an empty database of requests, and a read event for this structure that is
  added; one connection to the path of the server was made and everything else is unchanged.
\<close>

theorem client_open_connects:
  assumes "world_ok w" "ctls w (tick w) = None" "length (prefix @ name) < 107"
    and "af_ipcc_open_server prefix (Some b) name rcb ctx ccb w = Some (Some s, w1)"
  shows "\<exists>fd e. 0 \<le> fd \<and> client_open w1 s \<and> pending w1 s = [] \<and>
    servers w1 = (servers w)(s \<mapsto> new_server fd (Some b) rcb ctx ccb (Some e)) \<and>
    reqs w1 = reqs w \<and> (\<forall>c. c \<noteq> s \<longrightarrow> ctls w1 c = ctls w c) \<and>
    events w e = None \<and> events w1 = (events w)(e \<mapsto> recv_ev s) \<and>
    io_log w1 = io_log w @ [Connect fd (prefix @ name)]"
  using open_connects [OF assms] by blast

text \<open>With memory for the structure, the database and the event, an open returns in every case.\<close>

lemma open_total:
  fixes w :: "'a client_world_scheme"
  assumes "length (prefix @ name) < 107" "\<forall>n. \<not> ext_null (outcomes w n)"
  shows "\<exists>s w1. af_ipcc_open_server prefix (Some b) name rcb ctx ccb w = Some (s, w1) \<and>
    outcomes w1 = outcomes w \<and> client_world.more w1 = client_world.more w \<and> tick w \<le> tick w1 \<and>
    (s = None \<longrightarrow> world_ok w \<longrightarrow> ctls w (tick w) = None \<longrightarrow> reqs w1 = reqs w \<and> events w1 = events w)"
proof -
  have sel: "outcomes (next_tick v) = outcomes v" "outcomes (set_errno e v) = outcomes v"
    "outcomes (log_io x v) = outcomes v" "client_world.more (next_tick v) = client_world.more v"
    "client_world.more (set_errno e v) = client_world.more v" "client_world.more (log_io x v) = client_world.more v"
    "reqs (next_tick v) = reqs v" "reqs (set_errno e v) = reqs v" "reqs (log_io x v) = reqs v"
    "events (next_tick v) = events v" "events (set_errno e v) = events v" "events (log_io x v) = events v"
    "tick (next_tick v) = Suc (tick v)" "tick (set_errno e v) = tick v" "tick (log_io x v) = tick v"
    for v :: "'a client_world_scheme" and e x
    by (simp_all add: next_tick_def set_errno_def log_io_def)
  show ?thesis
    using assms(2) unfolding open_eq [OF assms(1)]
    by (simp add: with_server_more connected_more sel Let_def)
qed

text \<open>
  An open that fails after the structure was allocated closes its socket, adds no request
  and no event and keeps the invariant, but leaves the structure allocated: no pointer to it
  is returned, and nothing frees it.
\<close>

theorem client_open_failure_leaks:
  assumes "world_ok w" "ctls w (tick w) = None" "length (prefix @ name) < 107"
    and "af_ipcc_open_server prefix (Some b) name rcb ctx ccb w = Some (None, w1)"
  shows "world_ok w1 \<and> reqs w1 = reqs w \<and> events w1 = events w \<and> (\<forall>c. db_open w1 c = db_open w c) \<and>
    (io_log w1 = io_log w \<or> (\<exists>fd. io_log w1 = io_log w @ [Connect fd (prefix @ name), Closed fd])) \<and>
    (if ext_null (outcomes w (tick w)) then servers w1 = servers w
     else \<exists>sv. servers w1 = (servers w)(tick w \<mapsto> sv) \<and> sv_fd sv = -1)"
proof -
  have no: "\<not> db_open w (tick w)" using assms(2) by (simp add: db_open_def)
  have frame: "db_open (next_tick v) = db_open v" "db_open (set_errno x v) = db_open v" "db_open (log_io y v) = db_open v"
    "db_open (connected z p v) = db_open v" for v :: "'a client_world_scheme" and x y z p
    by (simp_all add: fun_eq_iff db_open_def next_tick_def set_errno_def log_io_def)
  have same: "ctls (next_tick v) = ctls v" "reqs (next_tick v) = reqs v" "events (next_tick v) = events v"
    "io_log (next_tick v) = io_log v" "ctls (set_errno x v) = ctls v" "reqs (set_errno x v) = reqs v"
    "events (set_errno x v) = events v" "io_log (set_errno x v) = io_log v"
    "ctls (log_io y v) = ctls v" "reqs (log_io y v) = reqs v" "events (log_io y v) = events v"
    "io_log (log_io y v) = io_log v @ [y]" "servers (next_tick v) = servers v"
    "servers (set_errno x v) = servers v" "servers (log_io y v) = servers v"
    for v :: "'a client_world_scheme" and x y
    by (simp_all add: next_tick_def set_errno_def log_io_def)
  have put: "world_ok (with_server (tick w) sv rc v) \<and> (\<forall>c. db_open (with_server (tick w) sv rc v) c = db_open w c)"
    if "world_ok v" "ctls v = ctls w" "rc = open_db (Pool_live []) False \<or> rc = open_db Pool_null False \<or> rc = cleared_db"
    for v :: "'a client_world_scheme" and sv rc
  proof -
    have "\<not> db_open v (tick w)" using no that(2) by (simp add: db_open_def)
    with that(1) have "world_ok (with_server (tick w) sv rc v)" by (rule with_server_ok) (use that(3) in blast)
    then show ?thesis
      using that(2,3) no by (auto simp: db_open_def open_db_def cleared_db_def)
  qed
  show ?thesis
    using assms(4) unfolding open_eq [OF assms(3)]
    by (simp add: Let_def split: if_splits)
      (use assms(1) in \<open>auto simp: frame same put connected_ok new_server_def\<close>)
qed

text \<open>A client world: one connection, structure at 0, with read event 1 and the close callback 4.\<close>

definition example_environment :: "nat \<Rightarrow> ext" where
  "example_environment n = \<lparr>ext_null = False, ext_ret = (if n = 24 then 0 else 5000), ext_errno = 0,
     ext_recv = (if n = 26 then Inr (frame 0 [7]) else Inl 11)\<rparr>"

definition example_start :: client_world where
  "example_start = \<lparr>ctls = Map.empty, reqs = Map.empty, events = Map.empty, io_log = [], cerrno = 0, tick = 20,
     outcomes = example_environment, servers = Map.empty\<rparr>"

definition example_client :: client_world where
  "example_client = with_server 20 (new_server 5000 (Some 1) (Some 3) 9 (Some 4) (Some 25)) (open_db (Pool_live []) True)
     ((connected 5000 ''/var/run/x'' example_start)\<lparr>tick := 26, events := [25 \<mapsto> recv_ev 20]\<rparr>)"

lemma example_open:
  "af_ipcc_open_server ''/var/run/'' (Some 1) ''x'' (Some 3) 9 (Some 4) example_start = Some (Some 20, example_client)"
proof -
  have "length (''/var/run/'' @ ''x'') < 107" by simp
  from open_eq [OF this, of 1 "Some 3" 9 "Some 4" example_start] show ?thesis
    by (simp add: example_start_def example_environment_def example_client_def)
qed

lemma example_start_ok: "world_ok example_start" "ctls example_start (tick example_start) = None"
  by (simp_all add: example_start_def world_ok_def)

theorem client_open_connects_example:
  "client_open example_client 20 \<and> pending example_client 20 = [] \<and>
    io_log example_client = [Connect 5000 ''/var/run/x'']"
proof -
  have len: "length (''/var/run/'' @ ''x'') < 107" by simp
  have "io_log example_client = [Connect 5000 ''/var/run/x'']" by (simp add: example_client_def example_start_def)
  then show ?thesis using client_open_connects [OF example_start_ok len example_open] by blast
qed

definition refusing_start :: client_world where
  "refusing_start = example_start\<lparr>outcomes := (\<lambda>n. \<lparr>ext_null = False, ext_ret = (if n = 22 then -1 else 5),
     ext_errno = 111, ext_recv = Inl 11\<rparr>)\<rparr>"

theorem client_open_failure_leaks_example:
  "\<exists>w1 sv. af_ipcc_open_server ''/var/run/'' (Some 1) ''x'' None 9 None refusing_start = Some (None, w1) \<and>
    servers w1 20 = Some sv \<and> io_log w1 = [Connect 5 ''/var/run/x'', Closed 5] \<and> world_ok w1"
proof -
  have len: "length (''/var/run/'' @ ''x'') < 107" by simp
  have ok: "world_ok refusing_start" "ctls refusing_start (tick refusing_start) = None"
    by (simp_all add: refusing_start_def example_start_def world_ok_def)
  obtain w1 where w1: "af_ipcc_open_server ''/var/run/'' (Some 1) ''x'' None 9 None refusing_start = Some (None, w1)"
    "io_log w1 = [Connect 5 ''/var/run/x'', Closed 5]"
    using open_eq [OF len, of 1 None 9 None refusing_start]
    by (auto simp: refusing_start_def example_start_def next_tick_def set_errno_def log_io_def)
  show ?thesis
    using client_open_failure_leaks [OF ok len w1(1)] w1 by (auto simp: refusing_start_def example_start_def)
qed

section \<open>The receive handler\<close>

text \<open>
  C17. The receive handler returns, under two conditions (\<open>polite\<close>): every response and message that
  the application sends in its callbacks fits (4088 bytes), and no call fails, so that all of
  them go out. The application may respond, send and close, and the bytes that arrive are
  arbitrary. Then the handler ends after at most as many rounds as the peer has data for, having
  made only valid accesses. (Without the conditions it may not: \<open>client_failed_reply_undefined\<close>
  below shows that a send that fails in a callback is a use of freed memory.) Afterwards the connection is open as
  before if the last \<^verbatim>\<open>recv\<close> failed with \<^verbatim>\<open>EAGAIN\<close>; it was closed with \<^verbatim>\<open>AF_IPC_STATUS_ERROR\<close> if \<^verbatim>\<open>recv\<close>
  failed otherwise or the peer has closed; and exactly if the structure is marked for shutdown (by \<^verbatim>\<open>af_ipcc_close\<close> in a
  callback), it was closed with \<^verbatim>\<open>AF_IPC_STATUS_OK\<close>, after the callbacks and not within them.
\<close>

theorem client_on_recv_ends:
  assumes "polite app (outcomes w)" "client_open w s" "servers w s = Some sv" "sv_flags sv = 0"
    and "\<forall>n\<ge>N. \<forall>bs. ext_recv (outcomes w n) = Inr bs \<longrightarrow> bs = []" "evtype AND EV_READ \<noteq> 0"
  shows "\<exists>w1 f. client_open w1 s \<and> servers w1 s = Some (sv\<lparr>sv_flags := f\<rparr>) \<and> f AND FLAGS_IN_RECEIVE = 0 \<and>
    (if f AND FLAGS_MARKED_FOR_SHUTDOWN = 0
     then \<exists>k. tick w1 = Suc k \<and> (if ext_recv (outcomes w k) = Inl 11
       then \<forall>n > N - tick w. af_ipcc_client_on_recv n (client_acting closer s app) closer evtype (Some s) w = Some w1
       else (\<forall>bs. ext_recv (outcomes w k) = Inr bs \<longrightarrow> bs = []) \<and>
         (\<forall>n > N - tick w. af_ipcc_client_on_recv n (client_acting closer s app) closer evtype (Some s) w =
           run_close closer (sv_closeCallback sv) AF_IPC_STATUS_ERROR (sv_receiveContext sv) (closed_client s w1)))
     else \<forall>n > N - tick w. af_ipcc_client_on_recv n (client_acting closer s app) closer evtype (Some s) w =
       run_close closer (sv_closeCallback sv) AF_IPC_STATUS_OK (sv_receiveContext sv) (closed_client s w1))"
proof -
  have recv: "af_ipcc_client_on_recv n (client_acting closer s app) closer evtype (Some s) w =
      client_recv_loop n (client_acting closer s app) closer s w" for n
    using assms(6) by (simp add: af_ipcc_client_on_recv_def)
  have "servers w s = Some (sv\<lparr>sv_flags := 0\<rparr>)" using assms(3,4) by (cases sv) simp
  then have "idle s sv (outcomes w) (tick w) w" using assms(2) by (auto simp: conn_def intro: exI [of _ 0])
  from acting.recv_loop_ends [OF assms(1,5) this, of closer closer] obtain w1 where
    "(\<exists>k. idle s sv (outcomes w) (tick w) w1 \<and> tick w1 = Suc k \<and> (if ext_recv (outcomes w k) = Inl 11
      then \<forall>n > N - tick w. client_recv_loop n (client_acting closer s app) closer s w = Some w1
      else (\<forall>bs. ext_recv (outcomes w k) = Inr bs \<longrightarrow> bs = []) \<and>
        (\<forall>n > N - tick w. client_recv_loop n (client_acting closer s app) closer s w =
        run_close closer (sv_closeCallback sv) AF_IPC_STATUS_ERROR (sv_receiveContext sv) (closed_client s w1)))) \<or>
    conn s sv (outcomes w) (tick w) (\<lambda>f. f AND FLAGS_IN_RECEIVE = 0 \<and> f AND FLAGS_MARKED_FOR_SHUTDOWN \<noteq> 0) w1 \<and>
      (\<forall>n > N - tick w. client_recv_loop n (client_acting closer s app) closer s w =
      run_close closer (sv_closeCallback sv) AF_IPC_STATUS_OK (sv_receiveContext sv) (closed_client s w1))" by blast
  then show ?thesis
  proof
    assume ends: "\<exists>k. idle s sv (outcomes w) (tick w) w1 \<and> tick w1 = Suc k \<and> (if ext_recv (outcomes w k) = Inl 11
      then \<forall>n > N - tick w. client_recv_loop n (client_acting closer s app) closer s w = Some w1
      else (\<forall>bs. ext_recv (outcomes w k) = Inr bs \<longrightarrow> bs = []) \<and>
        (\<forall>n > N - tick w. client_recv_loop n (client_acting closer s app) closer s w =
        run_close closer (sv_closeCallback sv) AF_IPC_STATUS_ERROR (sv_receiveContext sv) (closed_client s w1)))"
    then obtain f where "client_open w1 s" "servers w1 s = Some (sv\<lparr>sv_flags := f\<rparr>)" "f AND FLAGS_IN_RECEIVE = 0"
      "f AND FLAGS_MARKED_FOR_SHUTDOWN = 0" by (auto simp: conn_def)
    with ends show ?thesis unfolding recv by (intro exI [of _ w1] exI [of _ f]) simp
  next
    assume "conn s sv (outcomes w) (tick w) (\<lambda>f. f AND FLAGS_IN_RECEIVE = 0 \<and> f AND FLAGS_MARKED_FOR_SHUTDOWN \<noteq> 0) w1 \<and>
      (\<forall>n > N - tick w. client_recv_loop n (client_acting closer s app) closer s w =
      run_close closer (sv_closeCallback sv) AF_IPC_STATUS_OK (sv_receiveContext sv) (closed_client s w1))"
    then show ?thesis unfolding recv by (auto simp: conn_def)
  qed
qed

lemma example_client_sel:
  "client_open example_client 20" "tick example_client = 26" "outcomes example_client = example_environment"
  "servers example_client = [20 \<mapsto> new_server 5000 (Some 1) (Some 3) 9 (Some 4) (Some 25)]"
proof -
  have "world_ok example_client"
  proof -
    have "world_ok ((connected 5000 ''/var/run/x'' example_start)\<lparr>tick := 26, events := [25 \<mapsto> recv_ev 20]\<rparr>)"
      by (simp add: world_ok_def connected_def next_tick_def log_io_def example_start_def timer_owned_def recv_ev_def)
    moreover have "\<not> db_open ((connected 5000 ''/var/run/x'' example_start)\<lparr>tick := 26, events := [25 \<mapsto> recv_ev 20]\<rparr>) 20"
      by (simp add: db_open_def example_start_def)
    ultimately show ?thesis unfolding example_client_def by (rule with_server_ok) blast
  qed
  then show "client_open example_client 20"
    by (simp add: client_open_def example_client_def db_open_def open_db_def recv_event_ok_def recv_ev_def new_server_def)
  show "tick example_client = 26" "outcomes example_client = example_environment"
    "servers example_client = [20 \<mapsto> new_server 5000 (Some 1) (Some 3) 9 (Some 4) (Some 25)]"
    by (simp_all add: example_client_def example_start_def)
qed

definition example_app :: client_app where
  "example_app cb status sn payload ctx = [Notify [1], Close]"

definition example_closer :: "'a closer" where
  "example_closer f status ctx w = Some (set_errno (int f) w)"

theorem client_on_recv_ends_example:
  "\<exists>w1. af_ipcc_client_on_recv 2 (client_acting example_closer 20 example_app) example_closer 2 (Some 20) example_client = Some w1"
proof -
  let ?sv = "new_server 5000 (Some 1) (Some 3) 9 (Some 4) (Some 25)"
  have polite: "polite example_app (outcomes example_client)"
    by (simp add: polite_def example_app_def fits_def example_client_sel example_environment_def)
  have quiet: "\<forall>n\<ge>27. \<forall>bs. ext_recv (outcomes example_client n) = Inr bs \<longrightarrow> bs = []"
    by (simp add: example_client_sel example_environment_def)
  have "servers example_client 20 = Some ?sv" "sv_flags ?sv = 0" "(2 :: u16) AND EV_READ \<noteq> 0"
    by (simp_all add: example_client_sel new_server_def EV_READ_def)
  from client_on_recv_ends [OF polite example_client_sel(1) this(1,2) quiet this(3), of example_closer]
  show ?thesis
    by (auto simp: example_client_sel run_close_def new_server_def example_closer_def split: if_splits)
qed

section \<open>Closing\<close>

text \<open>
  Closing a connection outside its receive handler frees everything it has: the structure,
  its database, all pending requests with their timers, and the read event. The socket is shut
  down and closed, everything else stays, and the close callback is called last, once, with
  \<^verbatim>\<open>AF_IPC_STATUS_OK\<close>. A pending request is dropped without a call of its callback.
\<close>

theorem client_close_frees:
  assumes "client_open w s" "servers w s = Some sv" "sv_flags sv AND FLAGS_IN_RECEIVE = 0"
  shows "\<exists>w1. af_ipcc_close closer (Some s) w =
      run_close closer (sv_closeCallback sv) AF_IPC_STATUS_OK (sv_receiveContext sv) w1 \<and>
    world_ok w1 \<and> servers w1 = (servers w)(s := None) \<and> ctls w1 = (ctls w)(s := None) \<and>
    reqs w1 = (\<lambda>a. if a \<in> set (pending w s) then None else reqs w a) \<and>
    events w1 = (\<lambda>e. if e \<in> timer_of w ` set (pending w s) \<or> sv_event sv = Some e then None else events w e) \<and>
    io_log w1 = io_log w @ [Shutdown (sv_fd sv) SHUT_RDWR, Closed (sv_fd sv)]"
  using assms closed_client_sel [OF assms(1,2)] close_eq [OF assms(1,2)]
  by (intro exI [of _ "closed_client s w"]) (simp add: af_ipcc_close_def)

theorem client_close_frees_example:
  "\<exists>w1. af_ipcc_close example_closer (Some 20) example_client = Some w1 \<and> servers w1 = Map.empty \<and>
    ctls w1 = Map.empty \<and> events w1 25 = None"
proof -
  let ?sv = "new_server 5000 (Some 1) (Some 3) 9 (Some 4) (Some 25)"
  have sv: "servers example_client 20 = Some ?sv" "sv_flags ?sv AND FLAGS_IN_RECEIVE = 0" "sv_event ?sv = Some 25"
    by (simp_all add: example_client_sel new_server_def)
  have "ctls example_client = [20 \<mapsto> open_db (Pool_live []) True]"
    by (simp add: example_client_def example_start_def)
  then show ?thesis
    using client_close_frees [OF example_client_sel(1) sv(1,2), of example_closer] sv(3)
    by (auto simp: run_close_def new_server_def example_closer_def example_client_sel set_errno_def)
qed

section \<open>Failed messages\<close>

lemma too_long: "4088 < length payload \<Longrightarrow> length payload < 2 ^ 31 \<Longrightarrow>
  af_ipc_send fd rcq sn payload (int (length payload)) callback ctx timeoutMs w = Some (-1, set_errno 22 w)"
  by (simp add: af_ipc_send_def AF_IPC_MSGHDR_LEN_def AF_IPC_MAX_MSGLEN_def)

lemma client_open_errno: "client_open (set_errno e w) s = client_open w s"
proof -
  have "world_ok (set_errno e w) = world_ok w"
    by (rule iffI, rule world_ok_cong [of w "set_errno e w"])
      (simp_all add: set_errno_def world_ok_cong [of "w\<lparr>cerrno := e\<rparr>" w])
  then show ?thesis
    by (simp add: client_open_def db_open_def recv_event_ok_def set_errno_def cong: option.case_cong)
qed

lemma client_open_tick: "client_open w s \<Longrightarrow> client_open (next_tick w) s"
  by (simp add: client_open_def db_open_def recv_event_ok_def next_tick_def cong: option.case_cong)
    (use world_ok_tick [of w] in \<open>simp add: next_tick_def\<close>)

text \<open>
  A message that is too long closes the connection: the three functions return -1 with the
  connection freed and the close callback called with \<^verbatim>\<open>AF_IPC_STATUS_ERROR\<close>, as if the server
  had failed, although nothing was sent and the connection was sound. The pending requests of
  the connection are lost with it.
\<close>

theorem client_long_message_closes:
  fixes closer :: "'a closer" and w :: "'a client_world_scheme"
  assumes "client_open w s" "servers w s = Some sv" "4088 < length payload" "length payload < 2 ^ 31"
  defines "closed \<equiv> map_option (Pair (-1)) (run_close closer (sv_closeCallback sv) AF_IPC_STATUS_ERROR
      (sv_receiveContext sv) (closed_client s (set_errno 22 w)))"
  shows "af_ipcc_send_request closer (Some s) payload (int (length payload)) callback ctx timeoutMs w = closed \<and>
    af_ipcc_send_response closer (Some s) sn payload (int (length payload)) w = closed \<and>
    af_ipcc_send_unsolicited closer (Some s) payload (int (length payload)) w = closed \<and>
    servers (closed_client s (set_errno 22 w)) s = None \<and> pending (closed_client s (set_errno 22 w)) s = [] \<and>
    io_log (closed_client s (set_errno 22 w)) = io_log w @ [Shutdown (sv_fd sv) SHUT_RDWR, Closed (sv_fd sv)]"
proof -
  let ?w = "set_errno 22 w"
  have op: "client_open ?w s" "servers ?w s = Some sv"
    using assms(1,2) by (simp_all add: client_open_errno) (simp add: set_errno_def)
  have fd: "\<not> sv_fd sv < 0" using assms(1,2) by (simp add: client_open_def)
  have closing: "client_send closer (Some s) send w = closed" if "send (sv_fd sv) w = Some (-1, ?w)" for send
    unfolding closed_def using that assms(2) fd close_eq [OF op, of closer AF_IPC_STATUS_ERROR]
    by (cases "run_close closer (sv_closeCallback sv) AF_IPC_STATUS_ERROR (sv_receiveContext sv) (closed_client s ?w)")
      (simp_all add: client_send_def)
  have "af_ipcc_send_request closer (Some s) payload (int (length payload)) callback ctx timeoutMs w = closed"
    "af_ipcc_send_response closer (Some s) sn payload (int (length payload)) w = closed"
    "af_ipcc_send_unsolicited closer (Some s) payload (int (length payload)) w = closed"
    unfolding af_ipcc_send_request_def af_ipcc_send_response_def af_ipcc_send_unsolicited_def
    by (rule closing, rule too_long [OF assms(3,4)])+
  moreover have "io_log ?w = io_log w" by (simp add: set_errno_def)
  ultimately show ?thesis
    using closed_client_sel(2-4) [OF op] by (simp add: pending_def)
qed

theorem client_long_message_closes_example:
  "\<exists>w1. af_ipcc_send_unsolicited example_closer (Some 20) (replicate 5000 0) 5000 example_client = Some (-1, w1) \<and>
    servers w1 20 = None"
proof -
  have sv: "servers example_client 20 = Some (new_server 5000 (Some 1) (Some 3) 9 (Some 4) (Some 25))"
    by (simp add: example_client_sel)
  have "4088 < length (replicate 5000 (0 :: byte))" "length (replicate 5000 (0 :: byte)) < 2 ^ 31" by simp_all
  from client_long_message_closes [OF example_client_sel(1) sv this, of example_closer None 0 0 0]
  show ?thesis by (simp add: run_close_def new_server_def example_closer_def) (simp add: set_errno_def)
qed

text \<open>
  A message that fails inside a receive callback is undefined behaviour: the structure is
  freed there, and the receive handler uses it when the callback returns. This holds for a
  reply that is too long, and for any reply when \<^verbatim>\<open>sendmsg\<close> fails; the close callback cannot
  prevent it.
\<close>

theorem client_failed_reply_undefined:
  fixes w :: "'a client_world_scheme"
  assumes "client_open w s" "servers w s = Some sv" "sv_receiveCallback sv = Some cb"
    and "ext_recv (ext_now w) = Inr (frame 0 payload)" "payload \<noteq> []" "length payload \<le> 4088"
    and "app cb 0 (incoming_seqNum 0 0) payload (sv_receiveContext sv) = [Respond sn reply]"
    and "4088 < length reply \<and> length reply < 2 ^ 31 \<or>
      length reply \<le> 4088 \<and> ext_ret (outcomes w (Suc (tick w))) < 0"
    and "\<And>f st ctx v v'. closer f st ctx (v :: 'a client_world_scheme) = Some v' \<Longrightarrow> servers v s = None \<Longrightarrow> servers v' s = None"
    and "evtype AND EV_READ \<noteq> 0"
  shows "af_ipcc_client_on_recv n (client_acting closer s app) closer evtype (Some s) w = None"
proof -
  let ?sv = "sv\<lparr>sv_flags := sv_flags sv OR FLAGS_IN_RECEIVE\<rparr>"
  let ?w = "(next_tick w)\<lparr>servers := (servers w)(s \<mapsto> ?sv)\<rparr>"
  have mark: "sv_flags_update (\<lambda>f. f OR FLAGS_IN_RECEIVE) sv = ?sv" by (cases sv) simp
  have op: "client_open ?w s"
    by (rule client_open_cong [OF assms(1), of _ sv "sv_flags sv OR FLAGS_IN_RECEIVE"])
      (use assms(2) in \<open>simp_all add: next_tick_def\<close>)
  have fd: "\<not> sv_fd sv < 0" using assms(1,2) by (simp add: client_open_def)
  obtain w2 where w2: "af_ipc_send (sv_fd sv) None sn reply (int (length reply)) None 0 0 ?w = Some (-1, w2)"
    "client_open w2 s" "servers w2 s = Some ?sv"
  proof (cases "4088 < length reply")
    case True
    then have "length reply < 2 ^ 31" using assms(8) by auto
    from too_long [OF True this, of "sv_fd sv" None sn None 0 0 ?w]
    show ?thesis by (rule that) (use op in \<open>simp_all add: client_open_errno\<close>, simp add: set_errno_def)
  next
    case False
    then have *: "length reply \<le> 4088" "ext_ret (outcomes w (Suc (tick w))) < 0" using assms(8) by auto
    let ?e = "ext_errno (ext_now ?w)"
    have "af_ipc_send (sv_fd sv) None sn reply (int (length reply)) None 0 0 ?w =
        Some (-1, set_errno ?e (next_tick ?w))"
      using send_plain_eq [OF *(1), of 0 "sv_fd sv" None sn None 0 ?w] *(2) by (simp add: ext_now_def next_tick_def)
    then show ?thesis
      by (rule that) (use client_open_tick [OF op] in \<open>simp_all add: client_open_errno\<close>, simp add: set_errno_def next_tick_def)
  qed
  have "client_acts closer s [Respond sn reply] ?w = None \<or>
      (\<exists>w3. client_acts closer s [Respond sn reply] ?w = Some w3 \<and> servers w3 s = None)"
  proof -
    let ?c = "run_close closer (sv_closeCallback ?sv) AF_IPC_STATUS_ERROR (sv_receiveContext ?sv) (closed_client s w2)"
    have "client_acts closer s [Respond sn reply] ?w = ?c"
      using w2(1) fd close_eq [OF w2(2,3), of closer AF_IPC_STATUS_ERROR]
      by (cases ?c) (simp_all add: af_ipcc_send_response_def client_send_def)
    moreover have "servers v s = None" if "?c = Some v" for v
      using that closed_client_sel(2) [OF w2(2,3)] assms(9) by (fastforce simp: run_close_def split: option.splits)
    ultimately show ?thesis by (cases ?c) auto
  qed
  moreover have "af_ipc_handle_receive_message (client_acting closer s app) (frame 0 payload)
      (int (length payload + 8)) 0 (Some s) (Some cb) (sv_receiveContext sv) ?w = client_acts closer s [Respond sn reply] ?w"
    using handle_single [OF assms(5,6), of "client_acting closer s app" 0 0 "Some s" "Some cb" "sv_receiveContext sv" ?w]
    by (simp add: receive_one_def AF_IPC_GET_SEQ_ID_def client_acting_def assms(7))
  ultimately consider "af_ipc_handle_receive_message (client_acting closer s app) (frame 0 payload)
      (int (length payload + 8)) 0 (Some s) (Some cb) (sv_receiveContext sv) ?w = None"
    | w3 where "af_ipc_handle_receive_message (client_acting closer s app) (frame 0 payload)
      (int (length payload + 8)) 0 (Some s) (Some cb) (sv_receiveContext sv) ?w = Some w3" "servers w3 s = None"
    by fastforce
  moreover have "recv (nat AF_IPC_MAX_MSGLEN) w = (int (length payload + 8), frame 0 payload, next_tick w)"
    using assms(4,6) by (simp add: recv_def AF_IPC_MAX_MSGLEN_def)
  ultimately show ?thesis
    using assms(2,3,10)
    by cases (cases n; simp add: af_ipcc_client_on_recv_def upd_server_def next_tick_def mark)+
qed

definition long_reply_app :: client_app where
  "long_reply_app cb status sn payload ctx = [Respond sn (replicate 4089 0)]"

theorem client_failed_reply_undefined_example:
  "\<forall>n. af_ipcc_client_on_recv n (client_acting example_closer 20 long_reply_app) example_closer 2 (Some 20) example_client = None"
proof
  fix n
  let ?sv = "new_server 5000 (Some 1) (Some 3) 9 (Some 4) (Some 25)"
  show "af_ipcc_client_on_recv n (client_acting example_closer 20 long_reply_app) example_closer 2 (Some 20) example_client = None"
  proof (rule client_failed_reply_undefined [where sv = ?sv and cb = 3 and payload = "[7]"
        and sn = "incoming_seqNum 0 0" and reply = "replicate 4089 0"])
    show "client_open example_client 20" by (rule example_client_sel)
    show "ext_recv (ext_now example_client) = Inr (frame 0 [7])"
      by (simp add: ext_now_def example_client_sel example_environment_def)
    show "(2 :: u16) AND EV_READ \<noteq> 0" by (simp add: EV_READ_def)
  qed (auto simp: example_client_sel new_server_def long_reply_app_def example_closer_def set_errno_def)
qed

end
