(* ===== verification/Server.thy ===== *)
theory Server
  imports Ipc_Frame
begin

text \<open>
  The server side, \<^verbatim>\<open>src/pkg/src/af_ipc_server.c\<close>: client ids, the list of clients, accepting,
  receiving, sending and closing. Servers and clients are in the state by address, and the
  request database in a client structure has the address of the client. The application's
  callbacks are parameters; the accept callback also gets the address of the client, in which it
  may set the client context. \<open>None\<close> is undefined behaviour, a function that does not return,
  or a bound on the rounds of a loop that is too small.
\<close>

section \<open>The state\<close>

definition CLIENT_FLAGS_MARKED_FOR_SHUTDOWN :: u16 where "CLIENT_FLAGS_MARKED_FOR_SHUTDOWN = 1"
definition CLIENT_FLAGS_IN_RECEIVE :: u16 where "CLIENT_FLAGS_IN_RECEIVE = 2"
definition SERVER_FLAGS_MUTEX_INITIALIZED :: u16 where "SERVER_FLAGS_MUTEX_INITIALIZED = 1"
definition AF_IPC_STATUS_DONT_CALL_CALLBACK :: int where "AF_IPC_STATUS_DONT_CALL_CALLBACK = 1"

text \<open>\<^verbatim>\<open>struct af_ipcs_client_struct\<close>, without \<^verbatim>\<open>next\<close> and \<^verbatim>\<open>req_control\<close>.\<close>

record af_ipcs_client =
  cl_client_fd :: int
  cl_cid :: u16
  cl_seqNum :: u16
  cl_recv_event :: "nat option"
  cl_server :: "nat option"
  cl_clientContext :: nat
  cl_flags :: u16

text \<open>\<^verbatim>\<open>struct af_ipcs_server_struct\<close>; the list through \<^verbatim>\<open>clients\<close> is a list of addresses.\<close>

datatype mutex = Mutex_unset | Mutex_free | Mutex_held

record af_ipcs_server =
  sr_server_fd :: int
  sr_base :: "nat option"
  sr_listener_event :: "nat option"
  sr_clnt_mutex :: mutex
  sr_clients :: "nat list"
  sr_clientPool :: pool
  sr_lastCid :: u16
  sr_flags :: u16
  sr_acceptCallback :: "nat option"
  sr_acceptContext :: nat
  sr_receiveCallback :: "nat option"
  sr_closeCallback :: "nat option"

record server_world = world +
  srvs :: "nat \<Rightarrow> af_ipcs_server option"
  clis :: "nat \<Rightarrow> af_ipcs_client option"

text \<open>Close callbacks (function, status, id, context), accept callbacks (function, context, id, client).\<close>

type_synonym 'a client_closer =
  "nat \<Rightarrow> int \<Rightarrow> u16 \<Rightarrow> nat \<Rightarrow> 'a server_world_scheme \<Rightarrow> 'a server_world_scheme option"
type_synonym 'a acceptor =
  "nat \<Rightarrow> nat \<Rightarrow> u16 \<Rightarrow> nat \<Rightarrow> 'a server_world_scheme \<Rightarrow> 'a server_world_scheme option"

definition upd_srv ::
    "nat \<Rightarrow> (af_ipcs_server \<Rightarrow> af_ipcs_server) \<Rightarrow> 'a server_world_scheme \<Rightarrow> 'a server_world_scheme option" where
  "upd_srv s f w = (case srvs w s of None \<Rightarrow> None
     | Some sr \<Rightarrow> Some (w\<lparr>srvs := (srvs w)(s \<mapsto> f sr)\<rparr>))"

definition upd_cli ::
    "nat \<Rightarrow> (af_ipcs_client \<Rightarrow> af_ipcs_client) \<Rightarrow> 'a server_world_scheme \<Rightarrow> 'a server_world_scheme option" where
  "upd_cli c f w = (case clis w c of None \<Rightarrow> None
     | Some cl \<Rightarrow> Some (w\<lparr>clis := (clis w)(c \<mapsto> f cl)\<rparr>))"

text \<open>The mutex of the client list; locking it when it is held, or was not created, is undefined.\<close>

definition lock_clients :: "nat \<Rightarrow> 'a server_world_scheme \<Rightarrow> 'a server_world_scheme option" where
  "lock_clients s w = do {
     sr \<leftarrow> srvs w s;
     if sr_clnt_mutex sr = Mutex_free then upd_srv s (sr_clnt_mutex_update (\<lambda>_. Mutex_held)) w else None
   }"

definition unlock_clients :: "nat \<Rightarrow> 'a server_world_scheme \<Rightarrow> 'a server_world_scheme option" where
  "unlock_clients s w = do {
     sr \<leftarrow> srvs w s;
     if sr_clnt_mutex sr = Mutex_held then upd_srv s (sr_clnt_mutex_update (\<lambda>_. Mutex_free)) w else None
   }"

definition cleared_client :: af_ipcs_client where
  "cleared_client = \<lparr>cl_client_fd = 0, cl_cid = 0, cl_seqNum = 0, cl_recv_event = None, cl_server = None,
     cl_clientContext = 0, cl_flags = 0\<rparr>"

text \<open>\<^verbatim>\<open>af_mempool_alloc\<close>, with the \<^verbatim>\<open>memset\<close> that follows it, and \<^verbatim>\<open>af_mempool_free\<close> of a client.\<close>

definition alloc_client :: "nat \<Rightarrow> 'a server_world_scheme \<Rightarrow> (nat option \<times> 'a server_world_scheme) option" where
  "alloc_client s w = do {
     sr \<leftarrow> srvs w s;
     case sr_clientPool sr of
       Pool_live pool \<Rightarrow>
         if ext_null (ext_now w) then Some (None, next_tick w)
         else Some (Some (tick w), next_tick (w\<lparr>
           srvs := (srvs w)(s \<mapsto> sr\<lparr>sr_clientPool := Pool_live (tick w # pool)\<rparr>),
           clis := (clis w)(tick w \<mapsto> cleared_client), ctls := (ctls w)(tick w \<mapsto> cleared_db)\<rparr>))
     | _ \<Rightarrow> None
   }"

definition free_client :: "nat \<Rightarrow> nat \<Rightarrow> 'a server_world_scheme \<Rightarrow> 'a server_world_scheme option" where
  "free_client s c w = do {
     sr \<leftarrow> srvs w s;
     case sr_clientPool sr of
       Pool_live pool \<Rightarrow>
         if c \<in> set pool
         then Some (w\<lparr>srvs := (srvs w)(s \<mapsto> sr\<lparr>sr_clientPool := Pool_live (remove1 c pool)\<rparr>),
           clis := (clis w)(c := None), ctls := (ctls w)(c := None)\<rparr>)
         else None
     | _ \<Rightarrow> None
   }"

section \<open>Client ids and the list of clients\<close>

text \<open>The search \<^verbatim>\<open>for (c = s->clients; c; c = c->next) if (c->cid == cid) break\<close>.\<close>

fun find_cid :: "(nat \<Rightarrow> af_ipcs_client option) \<Rightarrow> int \<Rightarrow> nat list \<Rightarrow> nat option option" where
  "find_cid cs cid [] = Some None"
| "find_cid cs cid (a # as) =
     (case cs a of None \<Rightarrow> None
      | Some cl \<Rightarrow> if uint (cl_cid cl) = cid then Some (Some a) else find_cid cs cid as)"

text \<open>The loop \<^verbatim>\<open>while (1)\<close> may not end.\<close>

partial_function (option) get_next_cid ::
    "nat \<Rightarrow> 'a server_world_scheme \<Rightarrow> (u16 \<times> 'a server_world_scheme) option" where
  "get_next_cid s w = do {
     w \<leftarrow> upd_srv s (\<lambda>sr. sr\<lparr>sr_lastCid := sr_lastCid sr + 1\<rparr>) w;
     sr \<leftarrow> srvs w s;
     w \<leftarrow> (if sr_lastCid sr = 0 then upd_srv s (\<lambda>sr. sr\<lparr>sr_lastCid := sr_lastCid sr + 1\<rparr>) w else Some w);
     sr \<leftarrow> srvs w s;
     c \<leftarrow> find_cid (clis w) (uint (sr_lastCid sr)) (sr_clients sr);
     if c = None then Some (sr_lastCid sr, w) else get_next_cid s w
   }"

definition alloc_and_init_client ::
    "nat \<Rightarrow> 'a server_world_scheme \<Rightarrow> (nat option \<times> 'a server_world_scheme) option" where
  "alloc_and_init_client s w = do {
     (c, w) \<leftarrow> alloc_client s w;
     case c of
       None \<Rightarrow> Some (None, w)
     | Some c \<Rightarrow> do {
         (cid, w) \<leftarrow> get_next_cid s w;
         w \<leftarrow> upd_cli c (\<lambda>cl. cl\<lparr>cl_cid := cid\<rparr>) w;
         (r, w) \<leftarrow> af_ipc_util_init_requests (Some c) w;
         if r < 0 then do {
           w \<leftarrow> free_client s c w;
           Some (None, w)
         }
         else do {
           w \<leftarrow> upd_srv s (\<lambda>sr. sr\<lparr>sr_clients := c # sr_clients sr\<rparr>) w;
           Some (Some c, w)
         }
       }
   }"

definition find_client_by_cid :: "nat \<Rightarrow> int \<Rightarrow> 'a server_world_scheme \<Rightarrow> nat option option" where
  "find_client_by_cid s cid w = do {
     sr \<leftarrow> srvs w s;
     find_cid (clis w) cid (sr_clients sr)
   }"

section \<open>Closing a client\<close>

text \<open>The removal from the list; every element before the client is read.\<close>

fun unlink_client :: "(nat \<Rightarrow> af_ipcs_client option) \<Rightarrow> nat \<Rightarrow> nat list \<Rightarrow> nat list option" where
  "unlink_client cs c [] = Some []"
| "unlink_client cs c (a # as) =
     (case cs a of None \<Rightarrow> None
      | Some cl \<Rightarrow> if a = c then Some as else map_option (Cons a) (unlink_client cs c as))"

definition run_client_close ::
    "'a client_closer \<Rightarrow> nat option \<Rightarrow> int \<Rightarrow> u16 \<Rightarrow> nat \<Rightarrow> 'a server_world_scheme \<Rightarrow> 'a server_world_scheme option" where
  "run_client_close closer closeCallback status cid ctx w =
     (case closeCallback of None \<Rightarrow> Some w | Some f \<Rightarrow> closer f status cid ctx w)"

definition close_client ::
    "'a client_closer \<Rightarrow> int \<Rightarrow> nat option \<Rightarrow> 'a server_world_scheme \<Rightarrow> 'a server_world_scheme option" where
  "close_client closer status client w =
     (case client of
        None \<Rightarrow> Some w
      | Some c \<Rightarrow> do {
          cl \<leftarrow> clis w c;
          case cl_server cl of
            None \<Rightarrow> Some w
          | Some server \<Rightarrow> do {
              let w = log_io (Shutdown (cl_client_fd cl) SHUT_RD) w;
              w \<leftarrow> (case cl_recv_event cl of
                  None \<Rightarrow> Some w
                | Some e \<Rightarrow> do {
                    w \<leftarrow> event_free e w;
                    upd_cli c (cl_recv_event_update (\<lambda>_. None)) w
                  });
              w \<leftarrow> lock_clients server w;
              sr \<leftarrow> srvs w server;
              cs \<leftarrow> unlink_client (clis w) c (sr_clients sr);
              w \<leftarrow> upd_srv server (sr_clients_update (\<lambda>_. cs)) w;
              w \<leftarrow> unlock_clients server w;
              w \<leftarrow> af_ipc_util_shutdown_requests (Some c) w;
              w \<leftarrow> free_client server c w;
              let w = log_io (Closed (cl_client_fd cl)) w;
              sr \<leftarrow> srvs w server;
              if status \<noteq> AF_IPC_STATUS_DONT_CALL_CALLBACK
              then run_client_close closer (sr_closeCallback sr) status (cl_cid cl) (cl_clientContext cl) w
              else Some w
            }
        })"

text \<open>\<^verbatim>\<open>server\<close> is not compared with \<^verbatim>\<open>NULL\<close>.\<close>

definition af_ipcs_close_client ::
    "'a client_closer \<Rightarrow> nat option \<Rightarrow> u16 \<Rightarrow> 'a server_world_scheme \<Rightarrow> (int \<times> 'a server_world_scheme) option" where
  "af_ipcs_close_client closer server clientId w = do {
     s \<leftarrow> server;
     client \<leftarrow> find_client_by_cid s (uint clientId) w;
     if client = None then Some (-1, w)
     else do {
       w \<leftarrow> close_client closer AF_IPC_STATUS_OK client w;
       Some (0, w)
     }
   }"

section \<open>Accepting\<close>

text \<open>\<^verbatim>\<open>client == NULL;\<close> in the error branch has no effect.\<close>

definition add_client ::
    "'a acceptor \<Rightarrow> 'a client_closer \<Rightarrow> nat \<Rightarrow> int \<Rightarrow> 'a server_world_scheme
     \<Rightarrow> (nat option \<times> 'a server_world_scheme) option" where
  "add_client acceptor closer s client_fd w = do {
     w \<leftarrow> lock_clients s w;
     (client, w) \<leftarrow> alloc_and_init_client s w;
     w \<leftarrow> (case client of
         None \<Rightarrow> Some w
       | Some c \<Rightarrow> do {
           w \<leftarrow> upd_cli c (\<lambda>cl. cl\<lparr>cl_server := Some s, cl_client_fd := client_fd\<rparr>) w;
           let (e, w) = event_new (On_recv c) w;
           w \<leftarrow> upd_cli c (cl_recv_event_update (\<lambda>_. e)) w;
           if e = None then close_client closer AF_IPC_STATUS_DONT_CALL_CALLBACK client w else Some w
         });
     w \<leftarrow> unlock_clients s w;
     sr \<leftarrow> srvs w s;
     w \<leftarrow> (case (client, sr_acceptCallback sr) of
         (Some c, Some f) \<Rightarrow> do {
           cl \<leftarrow> clis w c;
           acceptor f (sr_acceptContext sr) (cl_cid cl) c w
         }
       | _ \<Rightarrow> Some w);
     Some (client, w)
   }"

text \<open>\<^verbatim>\<open>FD_SETSIZE\<close> is 1024.\<close>

definition on_accept ::
    "'a acceptor \<Rightarrow> 'a client_closer \<Rightarrow> u16 \<Rightarrow> nat \<Rightarrow> 'a server_world_scheme \<Rightarrow> 'a server_world_scheme option" where
  "on_accept acceptor closer evt s w =
     (if evt AND EV_READ = 0 then Some w
      else do {
        let (client_fd, w) = sys_call w;
        if client_fd < 0 then Some w
        else if client_fd > 1024 then Some (log_io (Closed client_fd) w)
        else do {
          (client, w) \<leftarrow> add_client acceptor closer s client_fd w;
          case client of
            Some c \<Rightarrow> do {
              cl \<leftarrow> clis w c;
              e \<leftarrow> cl_recv_event cl;
              event_add e None w
            }
          | None \<Rightarrow> Some (log_io (Closed client_fd) w)
        }
      })"

end
