(* ===== verification/Server_Cid.thy ===== *)
theory Server_Cid
  imports Server
begin

text \<open>
  Client ids (\<^verbatim>\<open>get_next_cid\<close> of \<^verbatim>\<open>src/pkg/src/af_ipc_server.c\<close>): the ids are tried in a cycle of
  65535 from the last one, and the loop ends exactly if one of them is free.
\<close>

section \<open>The cycle of ids\<close>

definition next_cid :: "u16 \<Rightarrow> u16" where
  "next_cid c = (if c + 1 = 0 then 1 else c + 1)"

lemma next_cid_uint: "uint (next_cid c) = uint c mod 65535 + 1"
proof (cases "uint c = 65535")
  case True
  then have "uint (c + 1) = 0" by (simp add: uint_word_ariths)
  then have "c + 1 = 0" by (simp add: uint_0_iff)
  with True show ?thesis by (simp add: next_cid_def)
next
  case False
  then have c: "0 \<le> uint c" "uint c < 65535" using uint_lt2p [of c] by simp_all
  then have plus: "uint (c + 1) = uint c + 1" by (simp add: uint_word_ariths)
  have "c + 1 \<noteq> 0"
  proof
    assume "c + 1 = 0"
    then have "uint (c + 1) = 0" by simp
    with plus c show False by linarith
  qed
  then show ?thesis using c plus by (simp add: next_cid_def)
qed

lemma next_cid_iterate: "uint ((next_cid ^^ Suc k) c) = (uint c + int k) mod 65535 + 1"
proof (induction k)
  case 0
  then show ?case by (simp add: next_cid_uint)
next
  case (Suc k)
  have "uint ((next_cid ^^ Suc (Suc k)) c) = ((uint c + int k) mod 65535 + 1) mod 65535 + 1"
    unfolding funpow.simps(2) [of "Suc k"] o_apply next_cid_uint Suc by (rule refl)
  also have "\<dots> = (uint c + int (Suc k)) mod 65535 + 1"
    by (simp add: mod_simps algebra_simps)
  finally show ?case .
qed

lemma next_cid_nonzero: "(next_cid ^^ Suc k) c \<noteq> 0"
proof
  assume "(next_cid ^^ Suc k) c = 0"
  then have "uint ((next_cid ^^ Suc k) c) = 0" by simp
  then show False unfolding next_cid_iterate using pos_mod_sign [of 65535 "uint c + int k"] by linarith
qed

lemma next_cid_reaches:
  assumes "d \<noteq> 0"
  shows "\<exists>k. (next_cid ^^ Suc k) c = d"
proof -
  have d: "0 < uint d" "uint d \<le> 65535"
    using assms uint_lt2p [of d] by (simp_all add: word_neq_0_conv [symmetric] less_le uint_0_iff)
  let ?k = "nat ((uint d - 1 - uint c) mod 65535)"
  have "(uint c + int ?k) mod 65535 = (uint d - 1) mod 65535"
    by (simp add: mod_simps)
  also have "\<dots> = uint d - 1" using d by (intro mod_pos_pos_trivial) simp_all
  finally have "uint ((next_cid ^^ Suc ?k) c) = uint d"
    unfolding next_cid_iterate by simp
  then show ?thesis by (intro exI [of _ ?k]) (simp only: word_uint_eq_iff)
qed

section \<open>The search\<close>

definition cid_of :: "'a server_world_scheme \<Rightarrow> nat \<Rightarrow> u16" where
  "cid_of w c = (case clis w c of None \<Rightarrow> 0 | Some cl \<Rightarrow> cl_cid cl)"

definition clients_of :: "'a server_world_scheme \<Rightarrow> nat \<Rightarrow> nat list" where
  "clients_of w s = (case srvs w s of None \<Rightarrow> [] | Some sr \<Rightarrow> sr_clients sr)"

lemma find_cid_eq:
  "\<forall>c \<in> set cs. clis w c \<noteq> None \<Longrightarrow>
    find_cid (clis w) cid cs = Some (find (\<lambda>c. uint (cid_of w c) = cid) cs)"
  by (induction cs) (auto simp: cid_of_def)

lemma find_cid_None:
  "\<forall>c \<in> set cs. clis w c \<noteq> None \<Longrightarrow>
    find_cid (clis w) (uint cid) cs = Some None \<longleftrightarrow> cid \<notin> cid_of w ` set cs"
  by (auto simp: find_cid_eq find_None_iff simp flip: word_uint_eq_iff)

definition with_lastCid :: "nat \<Rightarrow> u16 \<Rightarrow> 'a server_world_scheme \<Rightarrow> 'a server_world_scheme" where
  "with_lastCid s cid w = (case srvs w s of None \<Rightarrow> w
     | Some sr \<Rightarrow> w\<lparr>srvs := (srvs w)(s \<mapsto> sr\<lparr>sr_lastCid := cid\<rparr>)\<rparr>)"

lemma with_lastCid_sel [simp]:
  "clis (with_lastCid s cid w) = clis w" "cid_of (with_lastCid s cid w) = cid_of w"
  "clients_of (with_lastCid s cid w) s' = clients_of w s'"
  "srvs w s = Some sr \<Longrightarrow> srvs (with_lastCid s cid w) s = Some (sr\<lparr>sr_lastCid := cid\<rparr>)"
  "with_lastCid s cid' (with_lastCid s cid w) = with_lastCid s cid' w"
  by (simp_all add: with_lastCid_def clients_of_def cid_of_def fun_eq_iff split: option.split)

definition lastCid_of :: "'a server_world_scheme \<Rightarrow> nat \<Rightarrow> u16" where
  "lastCid_of w s = (case srvs w s of None \<Rightarrow> 0 | Some sr \<Rightarrow> sr_lastCid sr)"

lemma with_lastCid_self: "srvs w s \<noteq> None \<Longrightarrow> with_lastCid s (lastCid_of w s) w = w"
  by (cases w) (auto simp: with_lastCid_def lastCid_of_def fun_eq_iff)

text \<open>One round of the loop.\<close>

lemma get_next_cid_step:
  assumes "srvs w s \<noteq> None" "\<forall>c \<in> set (clients_of w s). clis w c \<noteq> None"
  shows "get_next_cid s (with_lastCid s cid w) =
    (if next_cid cid \<in> cid_of w ` set (clients_of w s) then get_next_cid s (with_lastCid s (next_cid cid) w)
     else Some (next_cid cid, with_lastCid s (next_cid cid) w))"
proof -
  obtain sr where sr: "srvs w s = Some sr" using assms(1) by auto
  let ?w = "with_lastCid s (next_cid cid) w"
  have cs: "sr_clients sr = clients_of w s" using sr by (simp add: clients_of_def)
  have find: "find_cid (clis w) (uint (next_cid cid)) (clients_of w s) = Some None \<longleftrightarrow>
      next_cid cid \<notin> cid_of w ` set (clients_of w s)"
    by (rule find_cid_None [OF assms(2)])
  have total: "find_cid (clis w) (uint (next_cid cid)) (clients_of w s) \<noteq> None"
    using find_cid_eq [OF assms(2)] by simp
  have step: "get_next_cid s (with_lastCid s cid w) = do {
      c \<leftarrow> find_cid (clis w) (uint (next_cid cid)) (clients_of w s);
      if c = None then Some (next_cid cid, ?w) else get_next_cid s ?w }"
    by (subst get_next_cid.simps) (cases "cid + 1 = 0"; simp add: upd_srv_def with_lastCid_def sr cs next_cid_def cong: if_cong)
  show ?thesis
  proof (cases "next_cid cid \<in> cid_of w ` set (clients_of w s)")
    case True
    then obtain c where "find_cid (clis w) (uint (next_cid cid)) (clients_of w s) = Some (Some c)"
      using find total by (cases "find_cid (clis w) (uint (next_cid cid)) (clients_of w s)") fastforce+
    then show ?thesis using True by (simp add: step)
  next
    case False
    then show ?thesis using find by (simp add: step)
  qed
qed

lemma get_next_cid_steps:
  assumes "srvs w s \<noteq> None" "\<forall>c \<in> set (clients_of w s). clis w c \<noteq> None"
    and "\<forall>j<k. (next_cid ^^ Suc j) cid \<in> cid_of w ` set (clients_of w s)"
  shows "get_next_cid s (with_lastCid s cid w) = get_next_cid s (with_lastCid s ((next_cid ^^ k) cid) w)"
  using assms(3)
proof (induction k)
  case (Suc k)
  then have "get_next_cid s (with_lastCid s cid w) = get_next_cid s (with_lastCid s ((next_cid ^^ k) cid) w)"
    by simp
  also have "\<dots> = get_next_cid s (with_lastCid s ((next_cid ^^ Suc k) cid) w)"
    using Suc.prems get_next_cid_step [OF assms(1,2)] by simp
  finally show ?case .
qed simp

text \<open>The first free id after the last one.\<close>

lemma get_next_cid_returns:
  assumes "srvs w s \<noteq> None" "\<forall>c \<in> set (clients_of w s). clis w c \<noteq> None"
    and "d \<noteq> 0" "d \<notin> cid_of w ` set (clients_of w s)"
  shows "\<exists>k. (\<forall>j<k. (next_cid ^^ Suc j) (lastCid_of w s) \<in> cid_of w ` set (clients_of w s)) \<and>
    (next_cid ^^ Suc k) (lastCid_of w s) \<notin> cid_of w ` set (clients_of w s) \<and>
    get_next_cid s w = Some ((next_cid ^^ Suc k) (lastCid_of w s), with_lastCid s ((next_cid ^^ Suc k) (lastCid_of w s)) w)"
proof -
  let ?free = "\<lambda>k. (next_cid ^^ Suc k) (lastCid_of w s) \<notin> cid_of w ` set (clients_of w s)"
  obtain i where "?free i" using next_cid_reaches [OF assms(3), of "lastCid_of w s"] assms(4) by metis
  define k where "k = (LEAST k. ?free k)"
  have k: "?free k" unfolding k_def by (rule LeastI [of ?free i]) fact
  have least: "\<forall>j<k. \<not> ?free j" unfolding k_def using not_less_Least by blast
  have "get_next_cid s w = get_next_cid s (with_lastCid s (lastCid_of w s) w)"
    by (simp add: with_lastCid_self [OF assms(1)])
  also have "\<dots> = get_next_cid s (with_lastCid s ((next_cid ^^ k) (lastCid_of w s)) w)"
    using least by (intro get_next_cid_steps [OF assms(1,2)]) simp
  also have "\<dots> = Some ((next_cid ^^ Suc k) (lastCid_of w s), with_lastCid s ((next_cid ^^ Suc k) (lastCid_of w s)) w)"
    using k get_next_cid_step [OF assms(1,2)] by simp
  finally show ?thesis using k least by blast
qed

text \<open>With all ids in use, no round is the last.\<close>

lemma get_next_cid_some:
  assumes "get_next_cid s w = Some r" "srvs w s \<noteq> None" "\<forall>c \<in> set (clients_of w s). clis w c \<noteq> None"
  shows "fst r \<noteq> 0 \<and> fst r \<notin> cid_of w ` set (clients_of w s)"
proof -
  have "srvs w s \<noteq> None \<longrightarrow> (\<forall>c \<in> set (clients_of w s). clis w c \<noteq> None) \<longrightarrow>
      fst r \<noteq> 0 \<and> fst r \<notin> cid_of w ` set (clients_of w s)"
  proof (rule get_next_cid.raw_induct [where P = "\<lambda>s w r. srvs w s \<noteq> None \<longrightarrow>
      (\<forall>c \<in> set (clients_of w s). clis w c \<noteq> None) \<longrightarrow> fst r \<noteq> 0 \<and> fst r \<notin> cid_of w ` set (clients_of w s)",
      OF _ assms(1)])
    fix f :: "nat \<Rightarrow> 'a server_world_scheme \<Rightarrow> (u16 \<times> 'a server_world_scheme) option" and s w r
    assume IH: "\<And>s w r. f s w = Some r \<Longrightarrow> srvs w s \<noteq> None \<longrightarrow> (\<forall>c \<in> set (clients_of w s). clis w c \<noteq> None) \<longrightarrow>
        fst r \<noteq> 0 \<and> fst r \<notin> cid_of w ` set (clients_of w s)"
      and ret: "do {
       w \<leftarrow> upd_srv s (\<lambda>sr. sr\<lparr>sr_lastCid := sr_lastCid sr + 1\<rparr>) w;
       sr \<leftarrow> srvs w s;
       w \<leftarrow> (if sr_lastCid sr = 0 then upd_srv s (\<lambda>sr. sr\<lparr>sr_lastCid := sr_lastCid sr + 1\<rparr>) w else Some w);
       sr \<leftarrow> srvs w s;
       c \<leftarrow> find_cid (clis w) (uint (sr_lastCid sr)) (sr_clients sr);
       if c = None then Some (sr_lastCid sr, w) else f s w } = Some r"
    show "srvs w s \<noteq> None \<longrightarrow> (\<forall>c \<in> set (clients_of w s). clis w c \<noteq> None) \<longrightarrow>
        fst r \<noteq> 0 \<and> fst r \<notin> cid_of w ` set (clients_of w s)"
    proof (intro impI)
      assume live: "srvs w s \<noteq> None" "\<forall>c \<in> set (clients_of w s). clis w c \<noteq> None"
      then obtain sr where sr: "srvs w s = Some sr" by auto
      let ?d = "next_cid (sr_lastCid sr)"
      let ?w = "with_lastCid s ?d w"
      have cs: "sr_clients sr = clients_of w s" using sr by (simp add: clients_of_def)
      have "do {
          c \<leftarrow> find_cid (clis w) (uint ?d) (clients_of w s);
          if c = None then Some (?d, ?w) else f s ?w } = Some r"
        using ret by (cases "sr_lastCid sr + 1 = 0"; simp add: upd_srv_def with_lastCid_def sr cs next_cid_def cong: if_cong)
      then obtain c where c: "find_cid (clis w) (uint ?d) (clients_of w s) = Some c"
        "(if c = None then Some (?d, ?w) else f s ?w) = Some r"
        by (cases "find_cid (clis w) (uint ?d) (clients_of w s)") auto
      show "fst r \<noteq> 0 \<and> fst r \<notin> cid_of w ` set (clients_of w s)"
      proof (cases "c = None")
        case True
        then have "r = (?d, ?w)" "?d \<notin> cid_of w ` set (clients_of w s)"
          using c find_cid_None [OF live(2)] by auto
        then show ?thesis using next_cid_nonzero [of 0 "sr_lastCid sr"] by simp
      next
        case False
        then have "f s ?w = Some r" using c(2) by (cases c) simp_all
        from IH [OF this] live sr show ?thesis by simp
      qed
    qed
  qed
  then show ?thesis using assms(2,3) by blast
qed

end
