(* ===== verification/Server_Io.thy ===== *)
theory Server_Io
  imports Server
begin

text \<open>
  The second half of \<^verbatim>\<open>src/pkg/src/af_ipc_server.c\<close>: the three sending functions, the receive
  handler of a client, opening and closing the server.
\<close>

section \<open>Sending\<close>

text \<open>
  A message to one client under the mutex. When it fails, the mutex is released first and the
  client is closed.
\<close>

definition send_or_close ::
    "'a client_closer \<Rightarrow> nat \<Rightarrow> nat
     \<Rightarrow> ('a server_world_scheme \<Rightarrow> (int \<times> 'a server_world_scheme) option)
     \<Rightarrow> 'a server_world_scheme \<Rightarrow> (int \<times> 'a server_world_scheme) option" where
  "send_or_close closer s this_client send w = do {
     (result, w) \<leftarrow> send w;
     w \<leftarrow> unlock_clients s w;
     if result < 0 then do {
       w \<leftarrow> close_client closer AF_IPC_STATUS_ERROR (Some this_client) w;
       Some (result, w)
     }
     else Some (result, w)
   }"

definition unlock_return ::
    "nat \<Rightarrow> int \<Rightarrow> 'a server_world_scheme \<Rightarrow> (int \<times> 'a server_world_scheme) option" where
  "unlock_return s result w = do { w \<leftarrow> unlock_clients s w; Some (result, w) }"

definition af_ipcs_send_response ::
    "'a client_closer \<Rightarrow> nat option \<Rightarrow> u32 \<Rightarrow> byte list \<Rightarrow> int
     \<Rightarrow> 'a server_world_scheme \<Rightarrow> (int \<times> 'a server_world_scheme) option" where
  "af_ipcs_send_response closer server seqNum txBuffer txBufferSize w =
     (let seqId = (ucast (AF_IPC_GET_SEQ_ID seqNum) :: u16) in
      case server of
        None \<Rightarrow> Some (-1, set_errno 22 w)
      | Some s \<Rightarrow> do {
          w \<leftarrow> lock_clients s w;
          if seqId \<noteq> 0 then do {
            let clientId = (ucast (AF_IPC_GET_CLIENT_ID seqNum) :: u16);
            this_client \<leftarrow> find_client_by_cid s (uint clientId) w;
            case this_client of
              Some c \<Rightarrow> do {
                cl \<leftarrow> clis w c;
                send_or_close closer s c
                  (af_ipc_send (cl_client_fd cl) None seqNum txBuffer txBufferSize None 0 0) w
              }
            | None \<Rightarrow> unlock_return s (-1) (set_errno 22 w)
          }
          else unlock_return s (-1) (set_errno 22 w)
        })"

text \<open>The loop of a broadcast: the result of each message is ignored.\<close>

fun broadcast ::
    "byte list \<Rightarrow> int \<Rightarrow> nat list \<Rightarrow> 'a server_world_scheme \<Rightarrow> 'a server_world_scheme option" where
  "broadcast txBuffer txBufferSize [] w = Some w"
| "broadcast txBuffer txBufferSize (c # cs) w = do {
     cl \<leftarrow> clis w c;
     (r, w) \<leftarrow> af_ipc_send (cl_client_fd cl) None 0 txBuffer txBufferSize None 0 0 w;
     broadcast txBuffer txBufferSize cs w
   }"

text \<open>\<^verbatim>\<open>ENOENT\<close> is 2.\<close>

definition af_ipcs_send_unsolicited ::
    "'a client_closer \<Rightarrow> nat option \<Rightarrow> u16 \<Rightarrow> byte list \<Rightarrow> int
     \<Rightarrow> 'a server_world_scheme \<Rightarrow> (int \<times> 'a server_world_scheme) option" where
  "af_ipcs_send_unsolicited closer server clientId txBuffer txBufferSize w =
     (case server of
        None \<Rightarrow> Some (-1, set_errno 22 w)
      | Some s \<Rightarrow> do {
          w \<leftarrow> lock_clients s w;
          if clientId = 0 then do {
            sr \<leftarrow> srvs w s;
            w \<leftarrow> broadcast txBuffer txBufferSize (sr_clients sr) w;
            unlock_return s 0 w
          }
          else do {
            this_client \<leftarrow> find_client_by_cid s (uint clientId) w;
            case this_client of
              Some c \<Rightarrow> do {
                cl \<leftarrow> clis w c;
                if cl_client_fd cl \<ge> 0 then
                  send_or_close closer s c
                    (af_ipc_send (cl_client_fd cl) None 0 txBuffer txBufferSize None 0 0) w
                else unlock_return s (-1) (set_errno 22 w)
              }
            | None \<Rightarrow> unlock_return s (-1) (set_errno 2 w)
          }
        })"

definition af_ipcs_send_request ::
    "'a client_closer \<Rightarrow> nat option \<Rightarrow> u16 \<Rightarrow> byte list \<Rightarrow> int \<Rightarrow> nat option \<Rightarrow> nat \<Rightarrow> int
     \<Rightarrow> 'a server_world_scheme \<Rightarrow> (int \<times> 'a server_world_scheme) option" where
  "af_ipcs_send_request closer server clientId txBuffer txBufferSize callback ctx timeoutMs w =
     (case server of
        None \<Rightarrow> Some (-1, set_errno 22 w)
      | Some s \<Rightarrow>
          if clientId = 0 then Some (-1, set_errno 22 w)
          else do {
            w \<leftarrow> lock_clients s w;
            this_client \<leftarrow> find_client_by_cid s (uint clientId) w;
            case this_client of
              Some c \<Rightarrow> do {
                cl \<leftarrow> clis w c;
                if cl_client_fd cl \<ge> 0 then
                  send_or_close closer s c
                    (af_ipc_send (cl_client_fd cl) (Some c) 0 txBuffer txBufferSize callback ctx timeoutMs) w
                else unlock_return s (-1) (set_errno 2 w)
              }
            | None \<Rightarrow> unlock_return s (-1) (set_errno 2 w)
          })"

section \<open>Receiving\<close>

text \<open>The first argument bounds the rounds. \<^verbatim>\<open>EINTR\<close> is 4.\<close>

fun server_recv_loop ::
    "nat \<Rightarrow> 'a server_world_ext runner \<Rightarrow> 'a client_closer \<Rightarrow> nat
     \<Rightarrow> 'a server_world_scheme \<Rightarrow> 'a server_world_scheme option" where
  "server_recv_loop 0 run closer client w = None"
| "server_recv_loop (Suc n) run closer client w = (
     let (recvmsg_len, buf, w) = recv (nat AF_IPC_MAX_MSGLEN) w in
     if recvmsg_len \<le> 0 then
       (if recvmsg_len \<noteq> 0 \<and> (cerrno w = 11 \<or> cerrno w = 4) then Some w
        else close_client closer AF_IPC_STATUS_ERROR (Some client) w)
     else do {
       w \<leftarrow> upd_cli client (cl_flags_update (\<lambda>f. f OR CLIENT_FLAGS_IN_RECEIVE)) w;
       cl \<leftarrow> clis w client;
       s \<leftarrow> cl_server cl;
       sr \<leftarrow> srvs w s;
       w \<leftarrow> af_ipc_handle_receive_message run buf recvmsg_len (cl_cid cl) (Some client)
              (sr_receiveCallback sr) (cl_clientContext cl) w;
       w \<leftarrow> upd_cli client (cl_flags_update (\<lambda>f. f AND NOT CLIENT_FLAGS_IN_RECEIVE)) w;
       cl \<leftarrow> clis w client;
       if cl_flags cl AND CLIENT_FLAGS_MARKED_FOR_SHUTDOWN \<noteq> 0
       then close_client closer AF_IPC_STATUS_OK (Some client) w
       else server_recv_loop n run closer client w
     })"

definition on_recv ::
    "nat \<Rightarrow> 'a server_world_ext runner \<Rightarrow> 'a client_closer \<Rightarrow> u16 \<Rightarrow> nat
     \<Rightarrow> 'a server_world_scheme \<Rightarrow> 'a server_world_scheme option" where
  "on_recv n run closer evt client w =
     (if evt AND EV_READ \<noteq> 0 then server_recv_loop n run closer client w else Some w)"

section \<open>Closing the server\<close>

text \<open>The loop over the clients; they are not removed from the list, and their memory is in the pool.\<close>

fun close_clients ::
    "'a client_closer \<Rightarrow> nat option \<Rightarrow> nat list \<Rightarrow> 'a server_world_scheme \<Rightarrow> 'a server_world_scheme option" where
  "close_clients closer closeCallback [] w = Some w"
| "close_clients closer closeCallback (c # cs) w = do {
     cl \<leftarrow> clis w c;
     let w = log_io (Shutdown (cl_client_fd cl) SHUT_RDWR) w;
     w \<leftarrow> (case cl_recv_event cl of None \<Rightarrow> Some w | Some e \<Rightarrow> event_free e w);
     w \<leftarrow> af_ipc_util_shutdown_requests (Some c) w;
     let w = log_io (Closed (cl_client_fd cl)) w;
     w \<leftarrow> run_client_close closer closeCallback AF_IPC_STATUS_OK (cl_cid cl) (cl_clientContext cl) w;
     close_clients closer closeCallback cs w
   }"

definition destroy_clients :: "nat list \<Rightarrow> 'a server_world_scheme \<Rightarrow> 'a server_world_scheme" where
  "destroy_clients pool w = w\<lparr>clis := (\<lambda>c. if c \<in> set pool then None else clis w c),
     ctls := (\<lambda>c. if c \<in> set pool then None else ctls w c)\<rparr>"

definition af_ipcs_close ::
    "'a client_closer \<Rightarrow> nat option \<Rightarrow> 'a server_world_scheme \<Rightarrow> 'a server_world_scheme option" where
  "af_ipcs_close closer server w =
     (case server of
        None \<Rightarrow> Some w
      | Some s \<Rightarrow> do {
          sr \<leftarrow> srvs w s;
          let w = (if sr_server_fd sr \<noteq> -1 then log_io (Shutdown (sr_server_fd sr) SHUT_RD) w else w);
          w \<leftarrow> (case sr_listener_event sr of None \<Rightarrow> Some w | Some e \<Rightarrow> event_free e w);
          let w = (if sr_server_fd sr \<noteq> -1 then log_io (Closed (sr_server_fd sr)) w else w);
          w \<leftarrow> (if sr_flags sr AND SERVER_FLAGS_MUTEX_INITIALIZED \<noteq> 0 then do {
              w \<leftarrow> close_clients closer (sr_closeCallback sr) (sr_clients sr) w;
              sr \<leftarrow> srvs w s;
              if sr_clnt_mutex sr = Mutex_free then upd_srv s (sr_clnt_mutex_update (\<lambda>_. Mutex_unset)) w
              else None
            } else Some w);
          sr \<leftarrow> srvs w s;
          w \<leftarrow> (case sr_clientPool sr of
              Pool_null \<Rightarrow> Some w
            | Pool_live pool \<Rightarrow> Some (destroy_clients pool w)
            | Pool_freed \<Rightarrow> None);
          Some (w\<lparr>srvs := (srvs w)(s := None)\<rparr>)
        })"

section \<open>Opening the server\<close>

definition cleared_srv :: af_ipcs_server where
  "cleared_srv = \<lparr>sr_server_fd = 0, sr_base = None, sr_listener_event = None, sr_clnt_mutex = Mutex_unset,
     sr_clients = [], sr_clientPool = Pool_null, sr_lastCid = 0, sr_flags = 0, sr_acceptCallback = None,
     sr_acceptContext = 0, sr_receiveCallback = None, sr_closeCallback = None\<rparr>"

definition calloc_srv :: "'a server_world_scheme \<Rightarrow> nat option \<times> 'a server_world_scheme" where
  "calloc_srv w =
     (if ext_null (ext_now w) then (None, next_tick w)
      else (Some (tick w), next_tick (w\<lparr>srvs := (srvs w)(tick w \<mapsto> cleared_srv)\<rparr>)))"

text \<open>The label \<^verbatim>\<open>error\<close>.\<close>

definition open_error ::
    "'a client_closer \<Rightarrow> nat \<Rightarrow> 'a server_world_scheme \<Rightarrow> (nat option \<times> 'a server_world_scheme) option" where
  "open_error closer s w = do { w \<leftarrow> af_ipcs_close closer (Some s) w; Some (None, w) }"

text \<open>
  The calls between the socket and the listener event, in the order of the code: \<^verbatim>\<open>setsockopt\<close>,
  \<^verbatim>\<open>bind\<close>, \<^verbatim>\<open>listen\<close>, \<^verbatim>\<open>pthread_mutex_init\<close>. The result is false when one of them fails.
\<close>

definition open_socket ::
    "nat \<Rightarrow> int \<Rightarrow> string \<Rightarrow> 'a server_world_scheme \<Rightarrow> (bool \<times> 'a server_world_scheme) option" where
  "open_socket s fd ss_path w = do {
     let (r, w) = sys_call w;
     if r \<noteq> 0 then Some (False, w)
     else if length ss_path \<ge> 128 then None
     else do {
       let sun_path = take 107 ss_path;
       let (r, w) = sys_call (log_io (Bind fd sun_path) (log_io (Unlink sun_path) w));
       if r < 0 then Some (False, w)
       else do {
         let (r, w) = sys_call (log_io (Listen fd) w);
         if r < 0 then Some (False, w)
         else do {
           let (err, w) = sys_call w;
           if err \<noteq> 0 then Some (False, w)
           else do {
             w \<leftarrow> upd_srv s (sr_clnt_mutex_update (\<lambda>_. Mutex_free)) w;
             Some (True, w)
           }
         }
       }
     }
   }"

definition af_ipcs_open ::
    "string \<Rightarrow> 'a client_closer \<Rightarrow> nat option \<Rightarrow> string \<Rightarrow> nat option \<Rightarrow> nat \<Rightarrow> nat option \<Rightarrow> nat option
     \<Rightarrow> 'a server_world_scheme \<Rightarrow> (nat option \<times> 'a server_world_scheme) option" where
  "af_ipcs_open af_ipc_server_sock_path_prefix closer base name acceptCallback acceptContext
       receiveCallback closeCallback w =
     (if base = None then Some (None, set_errno 22 w)
      else (case calloc_srv w of
          (None, w) \<Rightarrow> Some (None, set_errno 12 w)
        | (Some s, w) \<Rightarrow> do {
            w \<leftarrow> upd_srv s (sr_server_fd_update (\<lambda>_. -1)) w;
            let (pool, w) = (ext_now w, next_tick w);
            if ext_null pool then open_error closer s (set_errno 28 w)
            else do {
              w \<leftarrow> upd_srv s (sr_clientPool_update (\<lambda>_. Pool_live [])) w;
              let (fd, w) = sys_call w;
              w \<leftarrow> upd_srv s (sr_server_fd_update (\<lambda>_. fd)) w;
              if fd < 0 then open_error closer s w
              else do {
                (ok, w) \<leftarrow> open_socket s fd (af_ipc_server_sock_path_prefix @ name) w;
                if \<not> ok then open_error closer s w
                else do {
                  let (e, w) = event_new (On_accept s) w;
                  w \<leftarrow> upd_srv s (sr_listener_event_update (\<lambda>_. e)) w;
                  case e of
                    None \<Rightarrow> open_error closer s w
                  | Some e \<Rightarrow> do {
                      let (r, w) = sys_call w;
                      if r \<noteq> 0 then open_error closer s w
                      else do {
                        w \<leftarrow> event_add e None w;
                        w \<leftarrow> upd_srv s (\<lambda>sr. sr\<lparr>sr_base := base, sr_acceptContext := acceptContext,
                               sr_acceptCallback := acceptCallback, sr_receiveCallback := receiveCallback,
                               sr_closeCallback := closeCallback, sr_lastCid := 0\<rparr>) w;
                        Some (Some s, w)
                      }
                    }
                }
              }
            }
          }))"

end
