(* ===== verification/Server_Inv.thy ===== *)
theory Server_Inv
  imports Server_Cid Server_Io
begin

text \<open>
  The invariant of a running server and what closing one of its clients does: the client
  disappears from the list and the pool with everything it owns, and the invariant stays.
\<close>

section \<open>The invariant\<close>

definition has_event :: "'a world_scheme \<Rightarrow> handler \<Rightarrow> nat option \<Rightarrow> bool" where
  "has_event w h event \<longleftrightarrow> (case event of None \<Rightarrow> False
     | Some e \<Rightarrow> (case events w e of None \<Rightarrow> False | Some v \<Rightarrow> ev_handler v = h))"

text \<open>A client in the list: its server, id, socket, open database and live receive event.\<close>

definition client_ok :: "'a server_world_scheme \<Rightarrow> nat \<Rightarrow> nat \<Rightarrow> bool" where
  "client_ok w s c \<longleftrightarrow> db_open w c \<and> (case clis w c of None \<Rightarrow> False
     | Some cl \<Rightarrow> cl_server cl = Some s \<and> cl_cid cl \<noteq> 0 \<and> 0 \<le> cl_client_fd cl
         \<and> cl_flags cl AND CLIENT_FLAGS_MARKED_FOR_SHUTDOWN = 0
         \<and> has_event w (On_recv c) (cl_recv_event cl))"

definition server_ok :: "'a server_world_scheme \<Rightarrow> nat \<Rightarrow> bool" where
  "server_ok w s \<longleftrightarrow> world_ok w \<and> (\<forall>c. db_open w c \<longrightarrow> c < tick w) \<and>
     (case srvs w s of None \<Rightarrow> False
      | Some sr \<Rightarrow> sr_clnt_mutex sr = Mutex_free \<and> sr_flags sr = 0 \<and> 0 \<le> sr_server_fd sr
         \<and> has_event w (On_accept s) (sr_listener_event sr)
         \<and> (case sr_clientPool sr of
              Pool_live pool \<Rightarrow> distinct pool \<and> set pool = set (sr_clients sr) | _ \<Rightarrow> False)
         \<and> distinct (sr_clients sr) \<and> inj_on (cid_of w) (set (sr_clients sr))
         \<and> (\<forall>c \<in> set (sr_clients sr). client_ok w s c))"

lemma server_okE:
  assumes "server_ok w s"
  obtains sr pool where "world_ok w" "srvs w s = Some sr" "sr_clnt_mutex sr = Mutex_free" "sr_flags sr = 0"
    "0 \<le> sr_server_fd sr" "has_event w (On_accept s) (sr_listener_event sr)"
    "sr_clientPool sr = Pool_live pool" "distinct pool" "set pool = set (sr_clients sr)"
    "distinct (sr_clients sr)" "inj_on (cid_of w) (set (sr_clients sr))"
    "\<forall>c \<in> set (sr_clients sr). client_ok w s c" "clients_of w s = sr_clients sr"
  using assms by (auto simp: server_ok_def clients_of_def split: option.splits pool.splits)

lemma client_okE:
  assumes "client_ok w s c"
  obtains cl e v where "clis w c = Some cl" "cl_server cl = Some s" "cl_cid cl \<noteq> 0" "0 \<le> cl_client_fd cl"
    "cl_flags cl AND CLIENT_FLAGS_MARKED_FOR_SHUTDOWN = 0" "db_open w c" "cl_recv_event cl = Some e"
    "events w e = Some v" "ev_handler v = On_recv c" "cid_of w c = cl_cid cl"
  using assms by (auto simp: client_ok_def has_event_def cid_of_def split: option.splits)

lemma server_ok_client: "server_ok w s \<Longrightarrow> c \<in> set (clients_of w s) \<Longrightarrow> client_ok w s c"
  by (auto elim: server_okE)

lemma server_ok_live: "server_ok w s \<Longrightarrow> \<forall>c \<in> set (clients_of w s). clis w c \<noteq> None"
  by (auto dest!: server_ok_client elim: client_okE)

lemma has_event_cong: "events w' = events w \<Longrightarrow> has_event w' = has_event w"
  by (simp add: fun_eq_iff has_event_def cong: option.case_cong)

text \<open>What the invariant does not look at.\<close>

lemma server_ok_cong:
  assumes "server_ok w s" "ctls w' = ctls w" "reqs w' = reqs w" "events w' = events w" "tick w \<le> tick w'"
    and "srvs w' s = srvs w s"
    and "\<And>c cl. clis w c = Some cl \<Longrightarrow> \<exists>f x. clis w' c = Some (cl\<lparr>cl_flags := f, cl_clientContext := x\<rparr>)
      \<and> f AND CLIENT_FLAGS_MARKED_FOR_SHUTDOWN = cl_flags cl AND CLIENT_FLAGS_MARKED_FOR_SHUTDOWN"
  shows "server_ok w' s"
proof -
  have ok: "world_ok w'" using assms(1-5) by (intro world_ok_cong [of w' w]) (simp_all add: server_ok_def)
  have db: "db_open w' = db_open w" using assms(2) by (simp add: fun_eq_iff db_open_def)
  note ev = has_event_cong [OF assms(4)]
  obtain sr where sr: "srvs w s = Some sr" "\<forall>c \<in> set (sr_clients sr). client_ok w s c"
    using assms(1) by (rule server_okE)
  have "client_ok w' s c" if c: "client_ok w s c" for c
  proof -
    obtain cl where cl: "clis w c = Some cl" using c by (rule client_okE)
    obtain f x where "clis w' c = Some (cl\<lparr>cl_flags := f, cl_clientContext := x\<rparr>)"
      "f AND CLIENT_FLAGS_MARKED_FOR_SHUTDOWN = cl_flags cl AND CLIENT_FLAGS_MARKED_FOR_SHUTDOWN"
      using assms(7) [OF cl] by blast
    then show ?thesis using c cl by (simp add: client_ok_def db ev)
  qed
  moreover have cid: "cid_of w' c = cid_of w c" if c: "client_ok w s c" for c
  proof -
    obtain cl where cl: "clis w c = Some cl" using c by (rule client_okE)
    from assms(7) [OF cl] cl show ?thesis by (auto simp: cid_of_def)
  qed
  moreover have "inj_on (cid_of w') (set (sr_clients sr)) = inj_on (cid_of w) (set (sr_clients sr))"
    using cid sr(2) by (auto simp: inj_on_def)
  ultimately show ?thesis
    using assms(1,5,6) ok sr by (auto simp: server_ok_def db ev split: option.splits pool.splits intro: less_le_trans)
qed

section \<open>Closing a client\<close>

lemma unlink_client_eq:
  "\<forall>a \<in> set cs. clis w a \<noteq> None \<Longrightarrow> unlink_client (clis w) c cs = Some (remove1 c cs)"
  by (induction cs) auto

definition closed_client_of :: "nat \<Rightarrow> nat \<Rightarrow> 'a server_world_scheme \<Rightarrow> 'a server_world_scheme" where
  "closed_client_of s c w = (case (srvs w s, clis w c) of
       (Some sr, Some cl) \<Rightarrow> (case cl_recv_event cl of
           Some e \<Rightarrow> (let w1 = closed_db c (w\<lparr>events := (events w)(e := None)\<rparr>) in
             w1\<lparr>srvs := (srvs w)(s \<mapsto> sr\<lparr>sr_clients := remove1 c (sr_clients sr),
                  sr_clientPool := (case sr_clientPool sr of Pool_live pool \<Rightarrow> Pool_live (remove1 c pool) | p \<Rightarrow> p)\<rparr>),
                clis := (clis w)(c := None), ctls := (ctls w1)(c := None),
                io_log := io_log w @ [Shutdown (cl_client_fd cl) SHUT_RD, Closed (cl_client_fd cl)]\<rparr>)
         | None \<Rightarrow> w)
     | _ \<Rightarrow> w)"

lemma closed_db_fields:
  "closed_db c (w\<lparr>srvs := x\<rparr>) = (closed_db c w)\<lparr>srvs := x\<rparr>"
  "closed_db c (w\<lparr>clis := y\<rparr>) = (closed_db c w)\<lparr>clis := y\<rparr>"
  "closed_db c (v\<lparr>io_log := z\<rparr>) = (closed_db c v)\<lparr>io_log := z\<rparr>"
proof -
  show "closed_db c (w\<lparr>srvs := x\<rparr>) = (closed_db c w)\<lparr>srvs := x\<rparr>"
    "closed_db c (w\<lparr>clis := y\<rparr>) = (closed_db c w)\<lparr>clis := y\<rparr>"
    by (cases w; simp add: closed_db_def pending_def timer_of_def split: option.split cong: if_cong)+
  show "closed_db c (v\<lparr>io_log := z\<rparr>) = (closed_db c v)\<lparr>io_log := z\<rparr>"
    by (cases v) (simp add: closed_db_def pending_def timer_of_def split: option.split cong: if_cong)
qed

lemma closed_db_keeps:
  "srvs (closed_db c w) = srvs w" "clis (closed_db c w) = clis w" "io_log (closed_db c v) = io_log v"
  "tick (closed_db c v) = tick v" "outcomes (closed_db c v) = outcomes v"
  by (simp_all add: closed_db_def split: option.splits)

lemma close_client_eq:
  assumes ok: "server_ok w s" and c: "c \<in> set (clients_of w s)"
    and sr: "srvs w s = Some sr" and cl: "clis w c = Some cl"
  shows "close_client closer status (Some c) w =
    (if status \<noteq> AF_IPC_STATUS_DONT_CALL_CALLBACK
     then run_client_close closer (sr_closeCallback sr) status (cl_cid cl) (cl_clientContext cl) (closed_client_of s c w)
     else Some (closed_client_of s c w))"
proof -
  obtain sr' pool where "world_ok w" "srvs w s = Some sr'" "sr_clnt_mutex sr' = Mutex_free"
    "sr_clientPool sr' = Pool_live pool" "set pool = set (sr_clients sr')" "clients_of w s = sr_clients sr'"
    by (rule server_okE [OF ok])
  with sr have s: "world_ok w" "sr_clnt_mutex sr = Mutex_free" "sr_clientPool sr = Pool_live pool"
    "c \<in> set pool" "clients_of w s = sr_clients sr" using c by auto
  obtain cl' e v where "clis w c = Some cl'" "cl_server cl' = Some s" "db_open w c" "cl_recv_event cl' = Some e"
    "events w e = Some v" "ev_handler v = On_recv c" by (rule client_okE [OF server_ok_client [OF ok c]])
  with cl have e: "cl_server cl = Some s" "db_open w c" "cl_recv_event cl = Some e" "events w e = Some v"
    "ev_handler v = On_recv c" by simp_all
  let ?we = "w\<lparr>events := (events w)(e := None)\<rparr>"
  let ?io = "io_log w @ [Shutdown (cl_client_fd cl) SHUT_RD]"
  let ?clis = "(clis w)(c \<mapsto> cl\<lparr>cl_recv_event := None\<rparr>)"
  let ?srvs = "(srvs w)(s \<mapsto> sr\<lparr>sr_clients := remove1 c (sr_clients sr)\<rparr>)"
  let ?v = "?we\<lparr>io_log := ?io, clis := ?clis, srvs := ?srvs\<rparr>"
  have order: "w\<lparr>io_log := x, events := y, clis := z, srvs := u\<rparr> = w\<lparr>events := y, io_log := x, clis := z, srvs := u\<rparr>"
    for x y z u by (cases w) simp
  have wok: "world_ok ?we" using s(1) e by (intro drop_event_ok) auto
  have op: "db_open ?v c" using e(2) by (simp add: db_open_def)
  have ok2: "world_ok ?v" by (rule world_ok_cong [OF _ _ _ _ wok]) simp_all
  have shut: "af_ipc_util_shutdown_requests (Some c) ?v = Some ((closed_db c ?we)\<lparr>io_log := ?io, clis := ?clis, srvs := ?srvs\<rparr>)"
    by (simp only: shutdown_eq [OF ok2 op] closed_db_fields)
  have live: "\<forall>a \<in> set (sr_clients sr). ?clis a \<noteq> None" using server_ok_live [OF ok] s(5) by auto
  have unlink: "unlink_client ?clis c (sr_clients sr) = Some (remove1 c (sr_clients sr))"
    using unlink_client_eq [of "sr_clients sr" "w\<lparr>clis := ?clis\<rparr>" c] live by simp
  have mutex: "sr\<lparr>sr_clnt_mutex := Mutex_held, sr_clients := x, sr_clnt_mutex := Mutex_free\<rparr> = sr\<lparr>sr_clients := x\<rparr>" for x
    using s(2) by (cases sr) simp
  have "close_client closer status (Some c) w = do {
      w \<leftarrow> af_ipc_util_shutdown_requests (Some c) ?v;
      w \<leftarrow> free_client s c w;
      let w = log_io (Closed (cl_client_fd cl)) w;
      sr \<leftarrow> srvs w s;
      if status \<noteq> AF_IPC_STATUS_DONT_CALL_CALLBACK
      then run_client_close closer (sr_closeCallback sr) status (cl_cid cl) (cl_clientContext cl) w
      else Some w }"
    using cl e s(2) sr unlink
    by (simp add: close_client_def event_free_def upd_cli_def lock_clients_def upd_srv_def unlock_clients_def
        log_io_def mutex order cong: if_cong)
  also have "\<dots> = (if status \<noteq> AF_IPC_STATUS_DONT_CALL_CALLBACK
     then run_client_close closer (sr_closeCallback sr) status (cl_cid cl) (cl_clientContext cl) (closed_client_of s c w)
     else Some (closed_client_of s c w))"
    using s(3,4) cl e(3) sr
    by (simp add: shut free_client_def log_io_def closed_client_of_def Let_def)
  finally show ?thesis .
qed

lemma closed_client_of_sel:
  assumes ok: "server_ok w s" and c: "c \<in> set (clients_of w s)"
    and sr: "srvs w s = Some sr" and cl: "clis w c = Some cl"
  shows "world_ok (closed_client_of s c w)" "clis (closed_client_of s c w) = (clis w)(c := None)"
    and "ctls (closed_client_of s c w) = (ctls w)(c := None)"
    and "io_log (closed_client_of s c w) = io_log w @ [Shutdown (cl_client_fd cl) SHUT_RD, Closed (cl_client_fd cl)]"
    and "reqs (closed_client_of s c w) = (\<lambda>a. if a \<in> set (pending w c) then None else reqs w a)"
    and "events (closed_client_of s c w) = (\<lambda>e. if e \<in> timer_of w ` set (pending w c) \<or> cl_recv_event cl = Some e
      then None else events w e)"
    and "tick (closed_client_of s c w) = tick w" "outcomes (closed_client_of s c w) = outcomes w"
    and "clients_of (closed_client_of s c w) s = remove1 c (clients_of w s)"
    and "srvs (closed_client_of s c w) = (srvs w)(s \<mapsto> sr\<lparr>sr_clients := remove1 c (sr_clients sr),
      sr_clientPool := (case sr_clientPool sr of Pool_live pool \<Rightarrow> Pool_live (remove1 c pool) | p \<Rightarrow> p)\<rparr>)"
proof -
  have wok: "world_ok w" using ok by (simp add: server_ok_def)
  obtain cl' e v where "clis w c = Some cl'" "db_open w c" "cl_recv_event cl' = Some e"
    "events w e = Some v" "ev_handler v = On_recv c" by (rule client_okE [OF server_ok_client [OF ok c]])
  with cl have e: "db_open w c" "cl_recv_event cl = Some e" "events w e = Some v" "ev_handler v = On_recv c"
    by simp_all
  let ?w1 = "w\<lparr>events := (events w)(e := None)\<rparr>"
  obtain rc where rc: "ctls w c = Some rc" using e(1) by (auto simp: db_open_def split: option.splits)
  have ok1: "world_ok ?w1" using wok e by (intro drop_event_ok) auto
  have op: "db_open ?w1 c" using e(1) by (simp add: db_open_def)
  have eq: "pending ?w1 = pending w" "timer_of ?w1 = timer_of w"
    by (simp_all add: fun_eq_iff pending_def timer_of_def cong: option.case_cong)
  note def = closed_client_of_def sr cl e(2) Let_def
  show "clis (closed_client_of s c w) = (clis w)(c := None)"
    "io_log (closed_client_of s c w) = io_log w @ [Shutdown (cl_client_fd cl) SHUT_RD, Closed (cl_client_fd cl)]"
    "tick (closed_client_of s c w) = tick w" "outcomes (closed_client_of s c w) = outcomes w"
    "clients_of (closed_client_of s c w) s = remove1 c (clients_of w s)"
    "srvs (closed_client_of s c w) = (srvs w)(s \<mapsto> sr\<lparr>sr_clients := remove1 c (sr_clients sr),
      sr_clientPool := (case sr_clientPool sr of Pool_live pool \<Rightarrow> Pool_live (remove1 c pool) | p \<Rightarrow> p)\<rparr>)"
    by (simp_all add: def closed_db_keeps clients_of_def)
  show "ctls (closed_client_of s c w) = (ctls w)(c := None)"
    "reqs (closed_client_of s c w) = (\<lambda>a. if a \<in> set (pending w c) then None else reqs w a)"
    using rc by (simp_all add: def closed_db_def eq cong: if_cong)
  show "events (closed_client_of s c w) = (\<lambda>e. if e \<in> timer_of w ` set (pending w c) \<or> cl_recv_event cl = Some e
      then None else events w e)"
    using rc by (auto simp: def closed_db_def eq fun_eq_iff)
  let ?w2 = "closed_db c ?w1"
  have "\<not> db_open ?w2 c" using rc by (simp add: closed_db_def db_open_def)
  with closed_db_ok [OF ok1 op] have "world_ok (?w2\<lparr>ctls := (ctls ?w2)(c := None)\<rparr>)" by (rule drop_db_ok)
  then show "world_ok (closed_client_of s c w)"
    by (rule world_ok_cong [rotated -1]) (simp_all add: def)
qed

text \<open>Events that are not timers of the client, and not its receive event, stay.\<close>

lemma closed_client_of_event:
  assumes ok: "server_ok w s" and c: "c \<in> set (clients_of w s)"
    and ev: "has_event w h eo" and h: "\<forall>a. h \<noteq> On_timeout a" "h \<noteq> On_recv c"
  shows "has_event (closed_client_of s c w) h eo"
proof -
  obtain sr where sr: "srvs w s = Some sr" by (rule server_okE [OF ok])
  obtain cl e v where cl: "clis w c = Some cl" "cl_recv_event cl = Some e" "events w e = Some v"
    "ev_handler v = On_recv c" "db_open w c" by (rule client_okE [OF server_ok_client [OF ok c]])
  have wok: "world_ok w" using ok by (simp add: server_ok_def)
  obtain e' v' where e': "eo = Some e'" "events w e' = Some v'" "ev_handler v' = h"
    using ev by (auto simp: has_event_def split: option.splits)
  have "e' \<noteq> e" using cl(3,4) e'(2,3) h(2) by auto
  moreover have "e' \<notin> timer_of w ` set (pending w c)"
  proof
    assume "e' \<in> timer_of w ` set (pending w c)"
    then obtain a where a: "a \<in> set (pending w c)" "e' = timer_of w a" by (rule imageE)
    have "request_ok w c a" using pending_live [OF wok cl(5)] a(1) by blast
    from has_timer_request [OF this] e'(2,3) a(2) h(1) show False by simp
  qed
  ultimately show ?thesis
    using e' cl(2) by (simp add: has_event_def closed_client_of_sel(6) [OF ok c sr cl(1)])
qed

lemma closed_client_of_ok:
  assumes ok: "server_ok w s" and c: "c \<in> set (clients_of w s)"
  shows "server_ok (closed_client_of s c w) s"
proof -
  obtain sr pool where sr: "srvs w s = Some sr" "sr_clnt_mutex sr = Mutex_free" "sr_flags sr = 0"
    "0 \<le> sr_server_fd sr" "has_event w (On_accept s) (sr_listener_event sr)"
    "sr_clientPool sr = Pool_live pool" "distinct pool" "set pool = set (sr_clients sr)"
    "distinct (sr_clients sr)" "inj_on (cid_of w) (set (sr_clients sr))"
    "\<forall>c \<in> set (sr_clients sr). client_ok w s c" "clients_of w s = sr_clients sr" by (rule server_okE [OF ok])
  obtain cl where cl: "clis w c = Some cl" by (rule client_okE [OF server_ok_client [OF ok c]])
  note sel = closed_client_of_sel [OF ok c sr(1) cl]
  let ?w = "closed_client_of s c w"
  have rest: "set (remove1 c (sr_clients sr)) = set (sr_clients sr) - {c}" using sr(9) by simp
  have keep: "client_ok ?w s d" if d: "client_ok w s d" "d \<noteq> c" for d
  proof -
    obtain cl' where cl': "clis w d = Some cl'" "has_event w (On_recv d) (cl_recv_event cl')"
      using d(1) by (auto simp: client_ok_def split: option.splits)
    have "has_event ?w (On_recv d) (cl_recv_event cl')"
      by (rule closed_client_of_event [OF ok c cl'(2)]) (use d(2) in auto)
    then show ?thesis using d cl' by (simp add: client_ok_def sel(2,3) db_open_def)
  qed
  have cid: "cid_of ?w d = cid_of w d" if "d \<noteq> c" for d using that by (simp add: cid_of_def sel(2))
  have db: "db_open ?w d \<Longrightarrow> db_open w d" for d by (auto simp: db_open_def sel(3) split: if_splits)
  have "has_event ?w (On_accept s) (sr_listener_event sr)"
    by (rule closed_client_of_event [OF ok c sr(5)]) auto
  moreover have "inj_on (cid_of ?w) (set (sr_clients sr) - {c})"
    using sr(10) by (auto simp: inj_on_def cid)
  moreover have "\<forall>d \<in> set (sr_clients sr) - {c}. client_ok ?w s d" using sr(11) keep by auto
  moreover have "\<forall>d. db_open ?w d \<longrightarrow> d < tick ?w" using ok db sel(7) by (auto simp: server_ok_def)
  ultimately show ?thesis
    using sr sel(1) rest by (simp add: server_ok_def sel(10))
qed

section \<open>Requests that end\<close>

lemma drop_pending_server [simp]: "srvs (drop_pending c a w) = srvs w" "clis (drop_pending c a w) = clis w"
  by (simp_all add: drop_pending_def split: option.split)

lemma drop_pending_event:
  assumes ok: "world_ok w" "db_open w c" "a \<in> set (pending w c)" and h: "\<forall>a. h \<noteq> On_timeout a"
    and "has_event w h e"
  shows "has_event (drop_pending c a w) h e"
proof -
  have "request_ok w c a" using pending_live [OF ok(1,2)] ok(3) by blast
  then obtain r e' v where r: "reqs w a = Some r" "rq_event r = Some e'" "events w e' = Some v"
    "ev_handler v = On_timeout a" by (rule request_okE)
  obtain rc where "ctls w c = Some rc" by (rule db_openE [OF ok(1,2)])
  with r have "events (drop_pending c a w) = (events w)(e' := None)" by (simp add: drop_pending_def)
  with r h assms(5) show ?thesis by (auto simp: has_event_def split: option.splits)
qed

lemma server_ok_drop:
  assumes "server_ok w s" "db_open w c" "a \<in> set (pending w c)"
  shows "server_ok (drop_pending c a w) s"
proof -
  have ok: "world_ok w" using assms(1) by (simp add: server_ok_def)
  note db = drop_pending_pending(3) [OF ok assms(2,3)]
  note ev = drop_pending_event [OF ok assms(2,3)]
  have "client_ok w s d \<Longrightarrow> client_ok (drop_pending c a w) s d" for d
    using ev by (auto simp: client_ok_def db split: option.splits)
  moreover have "cid_of (drop_pending c a w) = cid_of w" by (simp add: fun_eq_iff cid_of_def)
  ultimately show ?thesis
    using assms(1) drop_pending_ok [OF ok assms(2,3)] ev
    by (auto simp: server_ok_def db drop_pending_frame split: option.splits pool.splits)
qed

end
