(* ===== verification/Server_Accept.thy ===== *)
theory Server_Accept
  imports Server_Inv
begin

text \<open>
  What \<^verbatim>\<open>add_client\<close> and \<^verbatim>\<open>on_accept\<close> of \<^verbatim>\<open>src/pkg/src/af_ipc_server.c\<close> do: the state after each
  step is the one before with a server, a client and a database put in it.
\<close>

section \<open>States with a new client\<close>

definition put ::
    "nat \<Rightarrow> af_ipcs_server \<Rightarrow> nat \<Rightarrow> af_ipcs_client \<Rightarrow> af_ipc_req_control
     \<Rightarrow> 'a server_world_scheme \<Rightarrow> 'a server_world_scheme" where
  "put s sr c cl rc w = w\<lparr>ctls := (ctls w)(c \<mapsto> rc), srvs := (srvs w)(s \<mapsto> sr), clis := (clis w)(c \<mapsto> cl)\<rparr>"

lemma put_simps [simp]:
  "ctls (put s sr c cl rc w) = (ctls w)(c \<mapsto> rc)" "srvs (put s sr c cl rc w) = (srvs w)(s \<mapsto> sr)"
  "clis (put s sr c cl rc w) = (clis w)(c \<mapsto> cl)" "reqs (put s sr c cl rc w) = reqs w"
  "events (put s sr c cl rc w) = events w" "io_log (put s sr c cl rc w) = io_log w"
  "tick (put s sr c cl rc w) = tick w" "outcomes (put s sr c cl rc w) = outcomes w"
  "cerrno (put s sr c cl rc w) = cerrno w"
  by (simp_all add: put_def)

lemma upd_put:
  "upd_srv s f (put s sr c cl rc w) = Some (put s (f sr) c cl rc w)"
  "upd_cli c g (put s sr c cl rc w) = Some (put s sr c (g cl) rc w)"
  by (cases w; simp add: put_def upd_srv_def upd_cli_def)+

lemma put_frame:
  "next_tick (put s sr c cl rc w) = put s sr c cl rc (next_tick w)"
  "set_errno e (put s sr c cl rc w) = put s sr c cl rc (set_errno e w)"
  "log_io x (put s sr c cl rc w) = put s sr c cl rc (log_io x w)"
  "ext_now (put s sr c cl rc w) = ext_now w"
  by (cases w; simp add: put_def next_tick_def set_errno_def log_io_def ext_now_def)+

lemma init_put:
  "af_ipc_util_init_requests (Some c) (put s sr c cl rc w) = Some
    (if ext_null (outcomes w (tick w))
     then (-1, put s sr c cl (open_db Pool_null False) (set_errno 28 (next_tick w)))
     else let ret = ext_ret (outcomes w (Suc (tick w))) in
       (ret, put s sr c cl (open_db (Pool_live []) (ret = 0)) (next_tick (next_tick w))))"
proof -
  have "ctls (put s sr c cl rc w) c \<noteq> None" by simp
  from init_eq [OF this] show ?thesis
    by (cases w) (auto simp: open_db_def put_def next_tick_def set_errno_def Let_def)
qed

lemma event_new_put:
  "event_new h (put s sr c cl rc w) = (fst (event_new h w), put s sr c cl rc (snd (event_new h w)))"
  by (cases w) (simp add: event_new_def put_def next_tick_def set_errno_def ext_now_def)

lemma alloc_put:
  assumes "srvs w s = Some sr" "sr_clientPool sr = Pool_live pool"
  shows "alloc_client s w = Some (if ext_null (outcomes w (tick w)) then (None, next_tick w)
    else (Some (tick w), put s (sr\<lparr>sr_clientPool := Pool_live (tick w # pool)\<rparr>) (tick w) cleared_client cleared_db
      (next_tick w)))"
  using assms by (cases w) (simp add: alloc_client_def put_def next_tick_def ext_now_def)

lemma with_lastCid_put:
  "with_lastCid s cid (put s sr c cl rc w) = put s (sr\<lparr>sr_lastCid := cid\<rparr>) c cl rc w"
  by (cases w) (simp add: with_lastCid_def put_def)

lemma lock_eq: "srvs w s = Some sr \<Longrightarrow> sr_clnt_mutex sr = Mutex_free \<Longrightarrow>
    lock_clients s w = Some (w\<lparr>srvs := (srvs w)(s \<mapsto> sr\<lparr>sr_clnt_mutex := Mutex_held\<rparr>)\<rparr>)"
  by (simp add: lock_clients_def upd_srv_def)

lemma unlock_put:
  "sr_clnt_mutex sr = Mutex_held \<Longrightarrow>
    unlock_clients s (put s sr c cl rc w) = Some (put s (sr\<lparr>sr_clnt_mutex := Mutex_free\<rparr>) c cl rc w)"
  by (simp add: unlock_clients_def upd_put)

section \<open>The new client\<close>

lemma pigeonhole_cid:
  fixes f :: "nat \<Rightarrow> u16"
  assumes "length cs < 65535"
  shows "\<exists>d. d \<noteq> 0 \<and> d \<notin> f ` set cs"
proof (rule ccontr)
  assume "\<not> ?thesis"
  then have "UNIV - {0} \<subseteq> f ` set cs" by auto
  then have "card (UNIV - {0 :: u16}) \<le> card (f ` set cs)" by (intro card_mono) auto
  also have "\<dots> \<le> length cs" using card_image_le [of "set cs" f] card_length [of cs] by simp
  finally show False using assms by (simp add: card_Diff_singleton card_word)
qed

definition new_client :: "nat \<Rightarrow> int \<Rightarrow> u16 \<Rightarrow> nat option \<Rightarrow> af_ipcs_client" where
  "new_client s fd cid e = \<lparr>cl_client_fd = fd, cl_cid = cid, cl_seqNum = 0, cl_recv_event = e,
     cl_server = Some s, cl_clientContext = 0, cl_flags = 0\<rparr>"

lemma next_cid_put:
  assumes "\<forall>c \<in> set (sr_clients sr). clis w c \<noteq> None" "t \<notin> set (sr_clients sr)" "length (sr_clients sr) < 65535"
  obtains cid where "cid \<noteq> 0" "cid \<notin> cid_of w ` set (sr_clients sr)"
    "get_next_cid s (put s sr t cl rc w) = Some (cid, put s (sr\<lparr>sr_lastCid := cid\<rparr>) t cl rc w)"
proof -
  let ?w = "put s sr t cl rc w"
  have cs: "clients_of ?w s = sr_clients sr" by (simp add: clients_of_def)
  have cid: "cid_of ?w ` set (sr_clients sr) = cid_of w ` set (sr_clients sr)"
    using assms(2) by (intro image_cong) (auto simp: cid_of_def)
  have live: "srvs ?w s \<noteq> None" "\<forall>c \<in> set (clients_of ?w s). clis ?w c \<noteq> None"
    using assms(1) by (auto simp: cs)
  obtain d where d: "d \<noteq> 0" "d \<notin> cid_of ?w ` set (clients_of ?w s)"
    using pigeonhole_cid [OF assms(3)] by (metis cs)
  from get_next_cid_returns [OF live d] obtain k where
    "(next_cid ^^ Suc k) (lastCid_of ?w s) \<notin> cid_of ?w ` set (clients_of ?w s)"
    "get_next_cid s ?w = Some ((next_cid ^^ Suc k) (lastCid_of ?w s), with_lastCid s ((next_cid ^^ Suc k) (lastCid_of ?w s)) ?w)"
    by blast
  then show thesis
    using that [of "(next_cid ^^ Suc k) (lastCid_of ?w s)"] next_cid_nonzero
    by (simp add: with_lastCid_put cs cid del: funpow.simps)
qed

text \<open>
  The state in which \<^verbatim>\<open>add_client\<close> calls the accept callback: the client has address \<open>tick w\<close> and
  its event has the address three calls later.
\<close>

definition accepted :: "nat \<Rightarrow> int \<Rightarrow> u16 \<Rightarrow> 'a server_world_scheme \<Rightarrow> 'a server_world_scheme" where
  "accepted s fd cid w = (case srvs w s of None \<Rightarrow> w
     | Some sr \<Rightarrow> put s (sr\<lparr>sr_clients := tick w # sr_clients sr, sr_lastCid := cid,
           sr_clientPool := (case sr_clientPool sr of Pool_live pool \<Rightarrow> Pool_live (tick w # pool) | p \<Rightarrow> p)\<rparr>)
         (tick w) (new_client s fd cid (Some (tick w + 3))) (open_db (Pool_live []) True)
         (w\<lparr>tick := tick w + 4, events := (events w)(tick w + 3 \<mapsto>
            \<lparr>ev_handler = On_recv (tick w), ev_added = False, ev_timeout = None\<rparr>)\<rparr>))"

lemma add_client_eq:
  fixes w :: "'a server_world_scheme"
  assumes ok: "server_ok w s" and sr: "srvs w s = Some sr" and len: "length (sr_clients sr) < 65535"
    and new: "tick w \<notin> set (sr_clients sr)"
    and env: "\<not> ext_null (outcomes w (tick w))" "\<not> ext_null (outcomes w (tick w + 1))"
      "ext_ret (outcomes w (tick w + 2)) = 0" "\<not> ext_null (outcomes w (tick w + 3))"
  shows "\<exists>cid. cid \<noteq> 0 \<and> cid \<notin> cid_of w ` set (sr_clients sr) \<and>
    add_client acceptor closer s fd w = do {
      w1 \<leftarrow> (case sr_acceptCallback sr of None \<Rightarrow> Some (accepted s fd cid w)
        | Some f \<Rightarrow> acceptor f (sr_acceptContext sr) cid (tick w) (accepted s fd cid w));
      Some (Some (tick w), w1) }"
proof -
  obtain sr' pool where "srvs w s = Some sr'" "sr_clnt_mutex sr' = Mutex_free" "sr_clientPool sr' = Pool_live pool"
    "clients_of w s = sr_clients sr'" by (rule server_okE [OF ok])
  with sr have s: "sr_clnt_mutex sr = Mutex_free" "sr_clientPool sr = Pool_live pool" "clients_of w s = sr_clients sr"
    by simp_all
  let ?t = "tick w" and ?sr = "sr\<lparr>sr_clnt_mutex := Mutex_held\<rparr>"
  let ?w1 = "w\<lparr>srvs := (srvs w)(s \<mapsto> ?sr)\<rparr>"
  let ?sr2 = "?sr\<lparr>sr_clientPool := Pool_live (?t # pool)\<rparr>"
  have put1: "put s x c cl rc (next_tick ?w1) = put s x c cl rc (next_tick w)" for x c cl rc
    by (cases w) (simp add: put_def next_tick_def)
  have "srvs ?w1 s = Some ?sr" "sr_clientPool ?sr = Pool_live pool" using s(2) by simp_all
  note alloc = alloc_put [OF this]
  have live: "\<forall>c \<in> set (sr_clients ?sr2). clis (next_tick w) c \<noteq> None"
    using server_ok_live [OF ok] s(3) by (simp add: next_tick_def)
  obtain cid where cid: "cid \<noteq> 0" "cid \<notin> cid_of (next_tick w) ` set (sr_clients ?sr2)"
    "get_next_cid s (put s ?sr2 ?t cleared_client cleared_db (next_tick w)) =
      Some (cid, put s (?sr2\<lparr>sr_lastCid := cid\<rparr>) ?t cleared_client cleared_db (next_tick w))"
    by (rule next_cid_put [OF live]) (use new len in simp_all)
  have fresh: "cid \<notin> cid_of w ` set (sr_clients sr)"
    using cid(2) by (simp add: cid_of_def next_tick_def)
  have "add_client acceptor closer s fd w = do {
      w1 \<leftarrow> (case sr_acceptCallback sr of None \<Rightarrow> Some (accepted s fd cid w)
        | Some f \<Rightarrow> acceptor f (sr_acceptContext sr) cid (tick w) (accepted s fd cid w));
      Some (Some (tick w), w1) }"
  proof -
    have sel: "tick (next_tick v) = Suc (tick v)" "outcomes (next_tick v) = outcomes v" for v :: "'a server_world_scheme"
      by (simp_all add: next_tick_def)
    let ?sr4 = "?sr2\<lparr>sr_lastCid := cid, sr_clients := ?t # sr_clients sr\<rparr>"
    let ?w4 = "next_tick (next_tick (next_tick w))"
    have alloc_init: "alloc_and_init_client s ?w1 = Some (Some ?t,
        put s ?sr4 ?t (cleared_client\<lparr>cl_cid := cid\<rparr>) (open_db (Pool_live []) True) ?w4)"
      using env cid(3) by (simp add: alloc_and_init_client_def alloc put1 upd_put init_put sel Let_def)
    have ev: "event_new (On_recv ?t) ?w4 = (Some (?t + 3), w\<lparr>tick := ?t + 4,
        events := (events w)(?t + 3 \<mapsto> \<lparr>ev_handler = On_recv ?t, ev_added = False, ev_timeout = None\<rparr>)\<rparr>)"
      using env(4) by (cases w) (simp add: event_new_def ext_now_def next_tick_def numeral_eq_Suc)
    have fin: "put s (?sr4\<lparr>sr_clnt_mutex := Mutex_free\<rparr>) ?t
        ((cleared_client\<lparr>cl_cid := cid, cl_server := Some s, cl_client_fd := fd\<rparr>)\<lparr>cl_recv_event := Some (?t + 3)\<rparr>)
        (open_db (Pool_live []) True) (w\<lparr>tick := ?t + 4,
        events := (events w)(?t + 3 \<mapsto> \<lparr>ev_handler = On_recv ?t, ev_added = False, ev_timeout = None\<rparr>)\<rparr>) =
      accepted s fd cid w"
      using s sr by (cases sr) (simp add: accepted_def new_client_def cleared_client_def)
    have acc: "srvs (accepted s fd cid w) s = Some sr1 \<Longrightarrow> sr_acceptCallback sr1 = sr_acceptCallback sr \<and>
        sr_acceptContext sr1 = sr_acceptContext sr" for sr1
      using sr by (auto simp: accepted_def)
    have accs: "srvs (accepted s fd cid w) s \<noteq> None" "clis (accepted s fd cid w) ?t = Some (new_client s fd cid (Some (?t + 3)))"
      using sr by (simp_all add: accepted_def)
    then obtain sr1 where sr1: "srvs (accepted s fd cid w) s = Some sr1" by auto
    show ?thesis
      using fin accs acc [OF sr1] sr1
      by (simp add: add_client_def lock_eq [OF sr s(1)] alloc_init upd_put event_new_put ev unlock_put new_client_def
          split: option.split)
  qed
  with cid(1) fresh show ?thesis by blast
qed

end
