(* ===== verification/Server_Send.thy ===== *)
theory Server_Send
  imports Server_Accept
begin

text \<open>
  The accept callback as an interface, and what the sending functions of
  \<^verbatim>\<open>src/pkg/src/af_ipc_server.c\<close> do in a state that satisfies the invariant.
\<close>

section \<open>The invariant with a new client\<close>

lemma not_a_client:
  assumes "server_ok w s"
  shows "tick w \<notin> set (clients_of w s)"
proof
  assume "tick w \<in> set (clients_of w s)"
  with assms have "db_open w (tick w)" by (auto dest: server_ok_client simp: client_ok_def)
  moreover have "\<forall>c. db_open w c \<longrightarrow> c < tick w" using assms by (simp add: server_ok_def)
  ultimately show False by blast
qed

lemma server_ok_next:
  assumes "server_ok w s" "ctls w' = ctls w" "reqs w' = reqs w" "events w' = events w" "tick w \<le> tick w'"
    "srvs w' s = srvs w s" "clis w' = clis w"
  shows "server_ok w' s"
proof (rule server_ok_cong [OF assms(1-6)])
  fix c and cl :: af_ipcs_client
  have "cl = cl\<lparr>cl_flags := cl_flags cl, cl_clientContext := cl_clientContext cl\<rparr>" by simp
  moreover assume "clis w c = Some cl"
  ultimately show "\<exists>f x. clis w' c = Some (cl\<lparr>cl_flags := f, cl_clientContext := x\<rparr>) \<and>
      f AND CLIENT_FLAGS_MARKED_FOR_SHUTDOWN = cl_flags cl AND CLIENT_FLAGS_MARKED_FOR_SHUTDOWN"
    using assms(7) by metis
qed

text \<open>Events may change, as long as those the server and its clients have stay.\<close>

lemma server_ok_events:
  assumes ok: "server_ok w s" and wok: "world_ok w'"
    and same: "db_open w' = db_open w" "tick w \<le> tick w'" "srvs w' = srvs w" "clis w' = clis w"
    and ev: "\<And>h y. (\<forall>a. h \<noteq> On_timeout a) \<Longrightarrow> has_event w h y \<Longrightarrow> has_event w' h y"
  shows "server_ok w' s"
proof -
  note db = same(1)
  have cid: "cid_of w' = cid_of w" using same by (simp add: fun_eq_iff cid_of_def)
  obtain sr where sr: "srvs w s = Some sr" by (rule server_okE [OF ok])
  have keep: "client_ok w s c \<Longrightarrow> client_ok w' s c" for c
    using ev by (auto simp: client_ok_def db same(4) split: option.splits)
  show ?thesis
    using ok wok same(2) keep sr ev [of "On_accept s"]
    by (auto simp: server_ok_def db cid same(3) split: pool.splits intro: less_le_trans)
qed

lemma accepted_sel:
  assumes "srvs w s = Some sr"
  shows "clients_of (accepted s fd cid w) s = tick w # clients_of w s"
    and "clis (accepted s fd cid w) = (clis w)(tick w \<mapsto> new_client s fd cid (Some (tick w + 3)))"
    and "events (accepted s fd cid w) = (events w)(tick w + 3 \<mapsto>
      \<lparr>ev_handler = On_recv (tick w), ev_added = False, ev_timeout = None\<rparr>)"
    and "reqs (accepted s fd cid w) = reqs w" "io_log (accepted s fd cid w) = io_log w"
    and "outcomes (accepted s fd cid w) = outcomes w" "tick (accepted s fd cid w) = tick w + 4"
    and "ctls (accepted s fd cid w) = (ctls w)(tick w \<mapsto> open_db (Pool_live []) True)"
  using assms by (simp_all add: accepted_def clients_of_def)

lemma accepted_ok:
  assumes ok: "server_ok w s" and fd: "0 \<le> fd" and cid: "cid \<noteq> 0" "cid \<notin> cid_of w ` set (clients_of w s)"
  shows "server_ok (accepted s fd cid w) s"
proof -
  obtain sr pool where sr: "world_ok w" "srvs w s = Some sr" "sr_clnt_mutex sr = Mutex_free" "sr_flags sr = 0"
    "0 \<le> sr_server_fd sr" "has_event w (On_accept s) (sr_listener_event sr)"
    "sr_clientPool sr = Pool_live pool" "distinct pool" "set pool = set (sr_clients sr)"
    "distinct (sr_clients sr)" "inj_on (cid_of w) (set (sr_clients sr))"
    "\<forall>c \<in> set (sr_clients sr). client_ok w s c" "clients_of w s = sr_clients sr" by (rule server_okE [OF ok])
  let ?w = "accepted s fd cid w" and ?e = "tick w + 3"
  note sel = accepted_sel [OF sr(2), of fd cid]
  have t: "tick w \<notin> set (sr_clients sr)" using not_a_client [OF ok] sr(13) by simp
  have old: "c < tick w" if "db_open w c" for c using ok that by (simp add: server_ok_def)
  have e: "events w ?e = None"
    using world_okD(3) [OF sr(1)] by (cases "events w ?e") (auto simp: timer_owned_def)
  have "world_ok (w\<lparr>events := (events w)(?e \<mapsto> \<lparr>ev_handler = On_recv (tick w), ev_added = False, ev_timeout = None\<rparr>),
      tick := tick w + 4\<rparr>)"
    by (rule world_ok_events [OF sr(1)]) (use e in \<open>auto split: if_splits intro: world_okD(3) [OF sr(1)]\<close>)
  moreover have "\<not> db_open w (tick w)" using old by blast
  ultimately have "world_ok (w\<lparr>events := (events w)(?e \<mapsto> \<lparr>ev_handler = On_recv (tick w), ev_added = False,
      ev_timeout = None\<rparr>), tick := tick w + 4, ctls := (ctls w)(tick w \<mapsto> open_db (Pool_live []) True)\<rparr>)"
    using add_db_ok [of "w\<lparr>events := (events w)(?e \<mapsto> \<lparr>ev_handler = On_recv (tick w), ev_added = False,
      ev_timeout = None\<rparr>), tick := tick w + 4\<rparr>" "tick w" "open_db (Pool_live []) True"]
    by (simp add: open_db_def db_open_def)
  then have wok: "world_ok ?w" by (rule world_ok_cong [rotated -1]) (simp_all add: sel)
  have ev: "has_event w h x \<Longrightarrow> has_event ?w h x" for h x
    using e by (auto simp: has_event_def sel split: option.splits)
  have keep: "client_ok ?w s c" if "client_ok w s c" "c \<noteq> tick w" for c
    using that ev by (auto simp: client_ok_def db_open_def sel split: option.splits)
  have new: "client_ok ?w s (tick w)"
    using fd cid(1) by (simp add: client_ok_def db_open_def sel new_client_def open_db_def has_event_def)
  have cids: "cid_of ?w (tick w) = cid" "\<And>c. c \<noteq> tick w \<Longrightarrow> cid_of ?w c = cid_of w c"
    by (simp_all add: cid_of_def sel new_client_def)
  have "inj_on (cid_of ?w) (insert (tick w) (set (sr_clients sr)))"
  proof -
    have same: "c \<in> set (sr_clients sr) \<Longrightarrow> cid_of ?w c = cid_of w c" for c
      using t by (cases "c = tick w") (simp_all add: cids(2))
    with sr(11) have "inj_on (cid_of ?w) (set (sr_clients sr))" by (simp add: inj_on_def)
    moreover have "cid_of ?w (tick w) \<notin> cid_of ?w ` set (sr_clients sr)"
      using cid(2) sr(13) same cids(1) by (auto simp: image_iff)
    ultimately show ?thesis using t by simp
  qed
  moreover have "\<forall>c \<in> insert (tick w) (set (sr_clients sr)). client_ok ?w s c"
    using new keep sr(12) t by auto
  moreover have "has_event ?w (On_accept s) (sr_listener_event sr)" using sr(6) by (rule ev)
  moreover have "\<forall>c. db_open ?w c \<longrightarrow> c < tick ?w"
    using old by (fastforce simp: db_open_def sel split: if_splits)
  ultimately show ?thesis
    using sr t wok by (simp add: server_ok_def accepted_def)
qed

section \<open>The accept callback\<close>

text \<open>The context a new client has: what its accept callback gives it, 0 without a callback.\<close>

definition accept_context :: "(nat \<Rightarrow> nat \<Rightarrow> u16 \<Rightarrow> nat) \<Rightarrow> af_ipcs_server \<Rightarrow> u16 \<Rightarrow> nat" where
  "accept_context given sr cid =
     (case sr_acceptCallback sr of None \<Rightarrow> 0 | Some f \<Rightarrow> given f (sr_acceptContext sr) cid)"

text \<open>
  What \<^verbatim>\<open>on_accept\<close> needs of the accept callback: it returns, keeps the invariant, sets the
  context \<open>given\<close>, and leaves the list of clients, the new client's event and the socket alone.
\<close>

locale accept_callback =
  fixes acceptor :: "'a acceptor" and given :: "nat \<Rightarrow> nat \<Rightarrow> u16 \<Rightarrow> nat"
  assumes accept_ok: "server_ok w s \<Longrightarrow> c \<in> set (clients_of w s) \<Longrightarrow> clis w c = Some cl \<Longrightarrow>
    \<exists>w'. acceptor f ctx cid c w = Some w' \<and> server_ok w' s \<and> clients_of w' s = clients_of w s \<and>
      clis w' = (clis w)(c \<mapsto> cl\<lparr>cl_clientContext := given f ctx cid\<rparr>) \<and> events w' = events w \<and> reqs w' = reqs w \<and>
      io_log w' = io_log w"
begin

lemma on_accept_adds:
  fixes w :: "'a server_world_scheme"
  assumes ok: "server_ok w s" and s: "srvs w s = Some sr"
    and len: "length (clients_of w s) < 65535" and evt: "evt AND EV_READ \<noteq> 0"
    and fd: "0 \<le> ext_ret (outcomes w (tick w))" "ext_ret (outcomes w (tick w)) \<le> 1024"
    and env: "\<not> ext_null (outcomes w (tick w + 1))" "\<not> ext_null (outcomes w (tick w + 2))"
      "ext_ret (outcomes w (tick w + 3)) = 0" "\<not> ext_null (outcomes w (tick w + 4))"
  shows "\<exists>w1 c cid e. on_accept acceptor closer evt s w = Some w1 \<and> server_ok w1 s \<and>
    c \<notin> set (clients_of w s) \<and> clients_of w1 s = c # clients_of w s \<and> events w e = None \<and>
    cid \<noteq> 0 \<and> cid \<notin> cid_of w ` set (clients_of w s) \<and>
    clis w1 = (clis w)(c \<mapsto> (new_client s (ext_ret (outcomes w (tick w))) cid (Some e))
      \<lparr>cl_clientContext := accept_context given sr cid\<rparr>) \<and>
    events w1 = (events w)(e \<mapsto> recv_ev c) \<and> reqs w1 = reqs w \<and> io_log w1 = io_log w"
proof -
  let ?fd = "ext_ret (outcomes w (tick w))" and ?v = "next_tick w"
  have v: "server_ok ?v s" by (rule server_ok_next [OF ok]) (simp_all add: next_tick_def)
  have sel: "tick ?v = Suc (tick w)" "outcomes ?v = outcomes w" "clis ?v = clis w" "events ?v = events w"
    "reqs ?v = reqs w" "io_log ?v = io_log w" "clients_of ?v s = clients_of w s" "cid_of ?v = cid_of w"
    by (simp_all add: next_tick_def clients_of_def fun_eq_iff cid_of_def)
  have sr: "srvs ?v s = Some sr" "clients_of ?v s = sr_clients sr"
    using s by (simp_all add: next_tick_def clients_of_def)
  have c: "tick ?v \<notin> set (sr_clients sr)" using not_a_client [OF v] sr(2) by simp
  have ln: "length (sr_clients sr) < 65535" using len sr(2) by (simp add: sel)
  have env': "\<not> ext_null (outcomes ?v (tick ?v))" "\<not> ext_null (outcomes ?v (tick ?v + 1))"
      "ext_ret (outcomes ?v (tick ?v + 2)) = 0" "\<not> ext_null (outcomes ?v (tick ?v + 3))"
    using env by (simp_all add: sel numeral_eq_Suc)
  let ?c = "tick ?v"
  obtain cid where cid: "cid \<noteq> 0" "cid \<notin> cid_of ?v ` set (sr_clients sr)" and add: "add_client acceptor closer s ?fd ?v = do {
      w1 \<leftarrow> (case sr_acceptCallback sr of None \<Rightarrow> Some (accepted s ?fd cid ?v)
        | Some f \<Rightarrow> acceptor f (sr_acceptContext sr) cid ?c (accepted s ?fd cid ?v));
      Some (Some ?c, w1) }"
    using add_client_eq [OF v sr(1) ln c env', of acceptor closer ?fd] by blast
  let ?a = "accepted s ?fd cid ?v"
  note asel = accepted_sel [OF sr(1), of ?fd cid]
  have aok: "server_ok ?a s" using v fd(1) cid sr(2) by (intro accepted_ok) simp_all
  let ?x = "accept_context given sr cid"
  have "\<exists>w1. (case sr_acceptCallback sr of None \<Rightarrow> Some ?a | Some f \<Rightarrow> acceptor f (sr_acceptContext sr) cid ?c ?a) = Some w1 \<and>
      server_ok w1 s \<and> clients_of w1 s = clients_of ?a s \<and>
      clis w1 = (clis ?a)(?c \<mapsto> (new_client s ?fd cid (Some (?c + 3)))\<lparr>cl_clientContext := ?x\<rparr>) \<and>
      events w1 = events ?a \<and> reqs w1 = reqs ?a \<and> io_log w1 = io_log ?a"
  proof (cases "sr_acceptCallback sr")
    case None
    have "new_client s ?fd cid (Some (?c + 3)) = (new_client s ?fd cid (Some (?c + 3)))\<lparr>cl_clientContext := 0\<rparr>"
      by (simp add: new_client_def)
    with None aok show ?thesis by (intro exI [of _ ?a]) (simp add: asel(2) accept_context_def)
  next
    case (Some f)
    have "?c \<in> set (clients_of ?a s)" "clis ?a ?c = Some (new_client s ?fd cid (Some (?c + 3)))"
      by (simp_all add: asel)
    from accept_ok [OF aok this, of f "sr_acceptContext sr" cid] Some show ?thesis by (simp add: accept_context_def)
  qed
  then obtain w1 where w1: "(case sr_acceptCallback sr of None \<Rightarrow> Some ?a | Some f \<Rightarrow> acceptor f (sr_acceptContext sr) cid ?c ?a) = Some w1"
      "server_ok w1 s" "clients_of w1 s = clients_of ?a s"
      "clis w1 = (clis ?a)(?c \<mapsto> (new_client s ?fd cid (Some (?c + 3)))\<lparr>cl_clientContext := ?x\<rparr>)"
      "events w1 = events ?a" "reqs w1 = reqs ?a" "io_log w1 = io_log ?a" by blast
  let ?e = "?c + 3"
  let ?w2 = "w1\<lparr>events := (events w1)(?e \<mapsto> recv_ev ?c)\<rparr>"
  have add_ev: "event_add ?e None w1 = Some ?w2" by (simp add: event_add_def w1(5) asel recv_ev_def)
  have free: "events w ?e = None"
    using world_okD(3) [of w ?e] ok by (cases "events w ?e") (auto simp: timer_owned_def server_ok_def sel)
  have "on_accept acceptor closer evt s w = Some ?w2"
    using evt fd add w1(1,4) add_ev
    by (simp add: on_accept_def sys_call_def ext_now_def new_client_def)
  moreover have "server_ok ?w2 s"
  proof -
    have "has_event w1 h y \<Longrightarrow> has_event ?w2 h y" for h y
      by (auto simp: has_event_def w1(5) asel recv_ev_def split: option.splits if_splits)
    moreover have "world_ok ?w2"
    proof (rule world_ok_events)
      show "world_ok w1" using w1(2) by (simp add: server_ok_def)
      then have owned: "\<And>e v. events w1 e = Some v \<Longrightarrow> timer_owned w1 e v" by (rule world_okD(3))
      have "events w1 ?e = Some \<lparr>ev_handler = On_recv ?c, ev_added = False, ev_timeout = None\<rparr>"
        by (simp add: w1(5) asel)
      from owned [OF this] have "?e < tick w1" by (simp add: timer_owned_def)
      then show "timer_owned w1 e' v' \<or> e' < tick ?w2 \<and> (\<forall>a. ev_handler v' \<noteq> On_timeout a)"
        if "events ?w2 e' = Some v'" for e' v'
        using that owned by (cases "e' = ?e") (auto simp: recv_ev_def)
    qed (auto simp: w1(5) asel split: if_splits)
    ultimately show ?thesis by (intro server_ok_events [OF w1(2), of ?w2]) (simp_all add: fun_eq_iff db_open_def)
  qed
  moreover have "clients_of ?w2 s = ?c # clients_of w s"
  proof -
    have "clients_of ?w2 s = clients_of w1 s" by (simp add: clients_of_def)
    then show ?thesis using w1(3) by (simp only: asel(1) sel)
  qed
  moreover have "?c \<notin> set (clients_of w s)" "cid \<notin> cid_of w ` set (clients_of w s)" using c cid(2) sr(2) by (simp_all add: sel)
  moreover have "clis ?w2 = (clis w)(?c \<mapsto> (new_client s ?fd cid (Some ?e))\<lparr>cl_clientContext := ?x\<rparr>)"
    "events ?w2 = (events w)(?e \<mapsto> recv_ev ?c)" "reqs ?w2 = reqs w" "io_log ?w2 = io_log w"
    using w1(4-7) by (simp_all add: asel sel)
  ultimately show ?thesis using free cid(1) by blast
qed

end

end
