(* ===== verification/Server_Route.thy ===== *)
theory Server_Route
  imports Server_Send
begin

text \<open>
  What the sending functions of \<^verbatim>\<open>src/pkg/src/af_ipc_server.c\<close> do in a state that satisfies the
  invariant: the mutex is released whatever happens, the message goes to the client that has
  the id, and a message that fails closes that client.
\<close>

section \<open>The mutex\<close>

text \<open>The state while the list of clients is locked.\<close>

definition clients_locked :: "nat \<Rightarrow> 'a server_world_scheme \<Rightarrow> 'a server_world_scheme" where
  "clients_locked s w = (case srvs w s of None \<Rightarrow> w
     | Some sr \<Rightarrow> w\<lparr>srvs := (srvs w)(s \<mapsto> sr\<lparr>sr_clnt_mutex := Mutex_held\<rparr>)\<rparr>)"

lemma clients_locked_sel [simp]:
  "clis (clients_locked s w) = clis w" "outcomes (clients_locked s w) = outcomes w"
  "tick (clients_locked s w) = tick w" "ctls (clients_locked s w) = ctls w"
  "reqs (clients_locked s w) = reqs w" "events (clients_locked s w) = events w"
  "(clients_locked s w)\<lparr>srvs := x\<rparr> = w\<lparr>srvs := x\<rparr>"
  by (cases "srvs w s"; cases w; simp add: clients_locked_def)+

lemma lock_ok: "server_ok w s \<Longrightarrow> lock_clients s w = Some (clients_locked s w)"
  by (erule server_okE) (simp add: lock_eq clients_locked_def)

lemma unlock_ok:
  assumes "server_ok w s" "srvs v = srvs (clients_locked s w)"
  shows "unlock_clients s v = Some (v\<lparr>srvs := srvs w\<rparr>)"
proof -
  obtain sr where sr: "srvs w s = Some sr" "sr_clnt_mutex sr = Mutex_free" using assms(1) by (rule server_okE)
  have "sr\<lparr>sr_clnt_mutex := Mutex_held, sr_clnt_mutex := Mutex_free\<rparr> = sr" using sr(2) by (cases sr) simp
  then show ?thesis
    using sr assms(2) by (simp add: unlock_clients_def upd_srv_def clients_locked_def fun_upd_idem)
qed

section \<open>The client with an id\<close>

definition client_with :: "'a server_world_scheme \<Rightarrow> nat \<Rightarrow> u16 \<Rightarrow> nat option" where
  "client_with w s cid = find (\<lambda>c. cid_of w c = cid) (clients_of w s)"

lemma client_with_Some:
  assumes "client_with w s cid = Some c"
  shows "c \<in> set (clients_of w s)" "cid_of w c = cid"
  using assms by (auto simp: client_with_def find_Some_iff)

lemma client_with_unique:
  assumes "server_ok w s" "c \<in> set (clients_of w s)"
  shows "client_with w s (cid_of w c) = Some c"
proof -
  have inj: "inj_on (cid_of w) (set (clients_of w s))" using assms(1) by (auto elim: server_okE)
  obtain d where d: "client_with w s (cid_of w c) = Some d"
    using assms(2) by (cases "client_with w s (cid_of w c)") (auto simp: client_with_def find_None_iff)
  with inj assms(2) show ?thesis by (auto dest: client_with_Some inj_onD)
qed

lemma client_with_zero:
  assumes "server_ok w s"
  shows "client_with w s 0 = None"
proof (rule ccontr)
  assume "client_with w s 0 \<noteq> None"
  then obtain c where "c \<in> set (clients_of w s)" "cid_of w c = 0" by (auto dest: client_with_Some)
  with server_ok_client [OF assms this(1)] show False by (auto elim: client_okE)
qed

lemma find_client_locked:
  assumes "server_ok w s"
  shows "find_client_by_cid s (uint cid) (clients_locked s w) = Some (client_with w s cid)"
    and "find_client_by_cid s (uint cid) w = Some (client_with w s cid)"
proof -
  obtain sr where sr: "srvs w s = Some sr" "clients_of w s = sr_clients sr" using assms by (rule server_okE)
  have "find_cid (clis w) (uint cid) (sr_clients sr) = Some (client_with w s cid)"
    using find_cid_eq [of "clients_of w s" w "uint cid"] server_ok_live [OF assms] sr(2)
    by (simp add: client_with_def flip: word_uint_eq_iff)
  then show "find_client_by_cid s (uint cid) (clients_locked s w) = Some (client_with w s cid)"
    "find_client_by_cid s (uint cid) w = Some (client_with w s cid)"
    using sr by (simp_all add: find_client_by_cid_def clients_locked_def)
qed

section \<open>Closing after a failure\<close>

text \<open>The close callback of the server runs on the state without the client.\<close>

definition closed_by ::
    "'a client_closer \<Rightarrow> int \<Rightarrow> nat \<Rightarrow> nat \<Rightarrow> 'a server_world_scheme \<Rightarrow> 'a server_world_scheme option" where
  "closed_by closer status s c w = (case (srvs w s, clis w c) of
       (Some sr, Some cl) \<Rightarrow>
         run_client_close closer (sr_closeCallback sr) status (cl_cid cl) (cl_clientContext cl) (closed_client_of s c w)
     | _ \<Rightarrow> None)"

lemma close_client_by:
  assumes "server_ok w s" "c \<in> set (clients_of w s)" "status \<noteq> AF_IPC_STATUS_DONT_CALL_CALLBACK"
  shows "close_client closer status (Some c) w = closed_by closer status s c w"
proof -
  obtain sr where sr: "srvs w s = Some sr" using assms(1) by (rule server_okE)
  obtain cl where cl: "clis w c = Some cl" by (rule client_okE [OF server_ok_client [OF assms(1,2)]])
  show ?thesis using close_client_eq [OF assms(1,2) sr cl] assms(3) sr cl by (simp add: closed_by_def)
qed

lemma status_callback [simp]:
  "AF_IPC_STATUS_OK \<noteq> AF_IPC_STATUS_DONT_CALL_CALLBACK" "AF_IPC_STATUS_ERROR \<noteq> AF_IPC_STATUS_DONT_CALL_CALLBACK"
  by (simp_all add: ipc_status AF_IPC_STATUS_DONT_CALL_CALLBACK_def)

text \<open>
  A send under the mutex: when it succeeds the mutex is released, when it fails the client is
  closed after the release.
\<close>

lemma send_or_close_eq:
  assumes ok: "server_ok w s"
    and send: "send (clients_locked s w) = Some (r, v)" and v: "srvs v = srvs (clients_locked s w)"
    and ok': "r < 0 \<Longrightarrow> server_ok (v\<lparr>srvs := srvs w\<rparr>) s \<and> c \<in> set (clients_of w s)"
  shows "send_or_close closer s c send (clients_locked s w) =
    (if r < 0 then map_option (Pair r) (closed_by closer AF_IPC_STATUS_ERROR s c (v\<lparr>srvs := srvs w\<rparr>))
     else Some (r, v\<lparr>srvs := srvs w\<rparr>))"
proof (cases "r < 0")
  case True
  have "c \<in> set (clients_of (v\<lparr>srvs := srvs w\<rparr>) s)" using ok' [OF True] by (simp add: clients_of_def)
  then have "close_client closer AF_IPC_STATUS_ERROR (Some c) (v\<lparr>srvs := srvs w\<rparr>) =
      closed_by closer AF_IPC_STATUS_ERROR s c (v\<lparr>srvs := srvs w\<rparr>)"
    using ok' [OF True] by (intro close_client_by) simp_all
  with True show ?thesis
    by (cases "closed_by closer AF_IPC_STATUS_ERROR s c (v\<lparr>srvs := srvs w\<rparr>)")
      (simp_all add: send_or_close_def send unlock_ok [OF ok v])
next
  case False
  then show ?thesis by (simp add: send_or_close_def send unlock_ok [OF ok v])
qed

section \<open>Messages without a reply\<close>

text \<open>A message that \<^verbatim>\<open>sendmsg\<close> refuses.\<close>

definition refused :: "'a world_scheme \<Rightarrow> 'a world_scheme" where
  "refused w = set_errno (ext_errno (ext_now w)) (next_tick w)"

definition told :: "int \<Rightarrow> byte list \<Rightarrow> 'a world_scheme \<Rightarrow> 'a world_scheme" where
  "told fd bs w = (if ext_ret (ext_now w) < 0 then refused w else sent fd bs w)"

lemma srvs_frame [simp]:
  "srvs (refused w) = srvs w" "srvs (sent fd bs w) = srvs w" "clis (refused w) = clis w" "clis (sent fd bs w) = clis w"
  "srvs (told fd bs w) = srvs w" "clis (told fd bs w) = clis w"
  "srvs (set_errno e w) = srvs w" "clis (set_errno e w) = clis w"
  by (simp_all add: refused_def sent_def set_errno_def next_tick_def log_io_def told_def)

lemma with_srvs [simp]:
  "refused (w\<lparr>srvs := x\<rparr>) = (refused w)\<lparr>srvs := x\<rparr>" "sent fd bs (w\<lparr>srvs := x\<rparr>) = (sent fd bs w)\<lparr>srvs := x\<rparr>"
  "set_errno e (w\<lparr>srvs := x\<rparr>) = (set_errno e w)\<lparr>srvs := x\<rparr>"
  by (cases w; simp add: refused_def sent_def set_errno_def next_tick_def log_io_def ext_now_def)+

lemma locked_back [simp]:
  "(refused (clients_locked s w))\<lparr>srvs := srvs w\<rparr> = refused w"
  "(sent fd bs (clients_locked s w))\<lparr>srvs := srvs w\<rparr> = sent fd bs w"
  "(told fd bs (clients_locked s w))\<lparr>srvs := srvs w\<rparr> = told fd bs w"
  "(set_errno e (clients_locked s w))\<lparr>srvs := srvs w\<rparr> = set_errno e w"
  "ext_now (clients_locked s w) = ext_now w"
proof -
  obtain x where x: "clients_locked s w = w\<lparr>srvs := x\<rparr>"
    by (cases "srvs w s") (auto simp: clients_locked_def intro: that [of "srvs w"])
  have same: "(v\<lparr>srvs := x\<rparr>)\<lparr>srvs := srvs v\<rparr> = v" for v :: "'a server_world_scheme" by (cases v) simp
  show now: "ext_now (clients_locked s w) = ext_now w" by (simp add: ext_now_def)
  show 1: "(refused (clients_locked s w))\<lparr>srvs := srvs w\<rparr> = refused w"
    and 2: "(sent fd bs (clients_locked s w))\<lparr>srvs := srvs w\<rparr> = sent fd bs w"
    and "(set_errno e (clients_locked s w))\<lparr>srvs := srvs w\<rparr> = set_errno e w"
    unfolding x with_srvs using same [of "refused w"] same [of "sent fd bs w"] same [of "set_errno e w"] by simp_all
  show "(told fd bs (clients_locked s w))\<lparr>srvs := srvs w\<rparr> = told fd bs w"
    unfolding told_def now using 1 2 by simp
qed

lemma server_ok_told:
  assumes "server_ok w s"
  shows "server_ok (refused w) s" "server_ok (sent fd bs w) s" "server_ok (told fd bs w) s" "server_ok (set_errno e w) s"
proof -
  show 1: "server_ok (refused w) s" "server_ok (sent fd bs w) s" "server_ok (set_errno e w) s"
    by (rule server_ok_next [OF assms]; simp add: refused_def sent_def set_errno_def next_tick_def log_io_def)+
  from 1 show "server_ok (told fd bs w) s" by (simp add: told_def)
qed

lemma send_plain_told:
  assumes "length payload \<le> 4088"
  shows "af_ipc_send fd req_control sn payload (int (length payload)) callback ctx 0 w =
    Some (if ext_ret (ext_now w) < 0 then -1 else 0, told fd (frame sn payload) w)"
  by (simp add: send_plain_eq [OF assms] told_def refused_def)

text \<open>A message to the client \<open>c\<close>, and the closing of the client when it is refused.\<close>

definition delivered ::
    "'a client_closer \<Rightarrow> nat \<Rightarrow> nat \<Rightarrow> u32 \<Rightarrow> byte list \<Rightarrow> 'a server_world_scheme \<Rightarrow> (int \<times> 'a server_world_scheme) option" where
  "delivered closer s c sn payload w = (case clis w c of None \<Rightarrow> None
     | Some cl \<Rightarrow> if ext_ret (ext_now w) < 0
         then map_option (Pair (-1)) (closed_by closer AF_IPC_STATUS_ERROR s c (refused w))
         else Some (0, sent (cl_client_fd cl) (frame sn payload) w))"

lemma send_plain_locked:
  assumes ok: "server_ok w s" and c: "c \<in> set (clients_of w s)" "clis w c = Some cl" and len: "length payload \<le> 4088"
  shows "send_or_close closer s c
      (af_ipc_send (cl_client_fd cl) None sn payload (int (length payload)) None 0 0) (clients_locked s w) =
    delivered closer s c sn payload w"
proof -
  let ?r = "if ext_ret (ext_now w) < 0 then -1 else (0 :: int)" and ?fd = "cl_client_fd cl"
  have "send_or_close closer s c
      (af_ipc_send ?fd None sn payload (int (length payload)) None 0 0) (clients_locked s w) =
    (if ?r < 0 then map_option (Pair ?r) (closed_by closer AF_IPC_STATUS_ERROR s c (told ?fd (frame sn payload) w))
     else Some (?r, told ?fd (frame sn payload) w))"
    using send_or_close_eq [OF ok, of "af_ipc_send ?fd None sn payload (int (length payload)) None 0 0" ?r
        "told ?fd (frame sn payload) (clients_locked s w)" c closer] c(1) server_ok_told(3) [OF ok]
    by (simp add: send_plain_told [OF len])
  then show ?thesis using c(2) by (simp add: delivered_def told_def)
qed

lemma unlock_return_ok:
  assumes "server_ok w s"
  shows "unlock_return s r (set_errno e (clients_locked s w)) = Some (r, set_errno e w)"
  using unlock_ok [OF assms, of "set_errno e (clients_locked s w)"] by (simp add: unlock_return_def)

lemma seq_id_request: "(ucast (AF_IPC_GET_SEQ_ID seqNum) :: u16) = 0 \<longleftrightarrow> \<not> af_ipc_seq_num_is_request seqNum"
proof -
  have "AF_IPC_GET_SEQ_ID seqNum = 0" if "(ucast (AF_IPC_GET_SEQ_ID seqNum) :: u16) = 0"
  proof (rule bit_word_eqI)
    fix n
    have "\<not> bit (ucast (AF_IPC_GET_SEQ_ID seqNum) :: u16) n" by (simp add: that)
    then show "bit (AF_IPC_GET_SEQ_ID seqNum) n = bit (0 :: u32) n"
      by (auto simp: AF_IPC_GET_SEQ_ID_def mask_0xFFFF bit_simps)
  qed
  then show ?thesis by (auto simp: af_ipc_seq_num_is_request_def)
qed

lemma send_response_eq:
  assumes ok: "server_ok w s" and len: "length payload \<le> 4088"
  shows "af_ipcs_send_response closer (Some s) seqNum payload (int (length payload)) w =
    (if af_ipc_seq_num_is_request seqNum
     then (case client_with w s (af_ipc_get_client_id_from_seq_num seqNum) of
         None \<Rightarrow> Some (-1, set_errno 22 w)
       | Some c \<Rightarrow> delivered closer s c seqNum payload w)
     else Some (-1, set_errno 22 w))"
proof -
  have send: "send_or_close closer s c (af_ipc_send (cl_client_fd cl) None seqNum payload (int (length payload)) None 0 0)
      (clients_locked s w) = delivered closer s c seqNum payload w"
    if "client_with w s cid = Some c" "clis w c = Some cl" for c cl cid
    using send_plain_locked [OF ok client_with_Some(1) [OF that(1)] that(2) len] .
  have live: "clis w c \<noteq> None" if "client_with w s cid = Some c" for c cid
    using server_ok_live [OF ok] client_with_Some(1) [OF that] by blast
  show ?thesis
    using send live
    by (fastforce simp: af_ipcs_send_response_def lock_ok [OF ok] find_client_locked [OF ok] seq_id_request
        unlock_return_ok [OF ok] af_ipc_get_client_id_from_seq_num_def split: option.split)
qed

text \<open>The broadcast: one message per client in the order of the list.\<close>

definition fd_of :: "'a server_world_scheme \<Rightarrow> nat \<Rightarrow> int" where
  "fd_of w c = (case clis w c of None \<Rightarrow> -1 | Some cl \<Rightarrow> cl_client_fd cl)"

definition told_all :: "int list \<Rightarrow> byte list \<Rightarrow> 'a world_scheme \<Rightarrow> 'a world_scheme" where
  "told_all fds bs w = fold (\<lambda>fd. told fd bs) fds w"

lemma broadcast_eq:
  assumes "\<forall>c \<in> set cs. clis w c \<noteq> None" "length payload \<le> 4088"
  shows "broadcast payload (int (length payload)) cs w = Some (told_all (map (fd_of w) cs) (frame 0 payload) w)"
  using assms(1)
proof (induction cs arbitrary: w)
  case (Cons c cs)
  obtain cl where cl: "clis w c = Some cl" using Cons.prems by auto
  let ?w = "told (cl_client_fd cl) (frame 0 payload) w"
  have "fd_of ?w = fd_of w" by (simp add: fun_eq_iff fd_of_def)
  moreover have "\<forall>c \<in> set cs. clis ?w c \<noteq> None" using Cons.prems by simp
  moreover have "fd_of w c = cl_client_fd cl" using cl by (simp add: fd_of_def)
  ultimately show ?case
    using cl Cons.IH [of ?w] by (simp add: send_plain_told [OF assms(2)] told_all_def)
qed (simp add: told_all_def)

lemma told_srvs: "told fd bs (w\<lparr>srvs := x\<rparr>) = (told fd bs w)\<lparr>srvs := x\<rparr>"
  by (simp add: told_def) (simp add: ext_now_def)

lemma told_all_frame:
  "srvs (told_all fds bs w) = srvs w" "clis (told_all fds bs w) = clis w"
  "told_all fds bs (w\<lparr>srvs := x\<rparr>) = (told_all fds bs w)\<lparr>srvs := x\<rparr>"
  by (induction fds arbitrary: w; simp add: told_all_def told_srvs)+

lemma server_ok_told_all: "server_ok w s \<Longrightarrow> server_ok (told_all fds bs w) s"
  by (induction fds arbitrary: w) (simp_all add: told_all_def server_ok_told)

lemma send_unsolicited_eq:
  assumes ok: "server_ok w s" and len: "length payload \<le> 4088"
  shows "af_ipcs_send_unsolicited closer (Some s) cid payload (int (length payload)) w =
    (if cid = 0 then Some (0, told_all (map (fd_of w) (clients_of w s)) (frame 0 payload) w)
     else (case client_with w s cid of
         None \<Rightarrow> Some (-1, set_errno 2 w)
       | Some c \<Rightarrow> delivered closer s c 0 payload w))"
proof (cases "cid = 0")
  case True
  obtain sr where sr: "srvs w s = Some sr" "clients_of w s = sr_clients sr" using ok by (rule server_okE)
  obtain x where x: "clients_locked s w = w\<lparr>srvs := x\<rparr>" using sr(1) by (simp add: clients_locked_def)
  have "fd_of (clients_locked s w) = fd_of w" by (simp add: fun_eq_iff fd_of_def)
  then have cast: "broadcast payload (int (length payload)) (sr_clients sr) (clients_locked s w) =
      Some (told_all (map (fd_of w) (sr_clients sr)) (frame 0 payload) (clients_locked s w))"
    using broadcast_eq [of "sr_clients sr" "clients_locked s w" payload] len server_ok_live [OF ok] sr(2) by simp
  have "unlock_clients s (told_all fds bs (clients_locked s w)) = Some (told_all fds bs w)" for fds bs
  proof -
    let ?v = "told_all fds bs (clients_locked s w)"
    have "?v\<lparr>srvs := srvs w\<rparr> = told_all fds bs w"
      unfolding x told_all_frame(3) using told_all_frame(1) [of fds bs w] by (cases "told_all fds bs w") simp
    then show ?thesis using unlock_ok [OF ok, of ?v] told_all_frame(1) [of fds bs "clients_locked s w"] by simp
  qed
  moreover have "srvs (clients_locked s w) s = Some (sr\<lparr>sr_clnt_mutex := Mutex_held\<rparr>)"
    using sr(1) by (simp add: clients_locked_def)
  ultimately show ?thesis
    using True cast sr(2) by (simp add: af_ipcs_send_unsolicited_def lock_ok [OF ok] unlock_return_def)
next
  case False
  show ?thesis
  proof (cases "client_with w s cid")
    case None
    with False show ?thesis
      by (simp add: af_ipcs_send_unsolicited_def lock_ok [OF ok] find_client_locked [OF ok] unlock_return_ok [OF ok])
  next
    case (Some c)
    obtain cl where cl: "clis w c = Some cl" "0 \<le> cl_client_fd cl"
      by (rule client_okE [OF server_ok_client [OF ok client_with_Some(1) [OF Some]]])
    with False Some show ?thesis
      using send_plain_locked [OF ok client_with_Some(1) [OF Some] cl(1) len, of closer 0]
      by (simp add: af_ipcs_send_unsolicited_def lock_ok [OF ok] find_client_locked [OF ok])
  qed
qed

section \<open>Requests\<close>

text \<open>What a request that fits does, by \<open>send_request_eq\<close>.\<close>

definition request_result ::
    "int \<Rightarrow> nat \<Rightarrow> byte list \<Rightarrow> nat option \<Rightarrow> nat \<Rightarrow> int \<Rightarrow> 'a world_scheme \<Rightarrow> int \<times> 'a world_scheme" where
  "request_result fd c payload callback ctx timeoutMs w =
     (let w1 = registered c callback ctx timeoutMs w in
      if ext_null (outcomes w (tick w)) then (-1, set_errno 12 (next_tick w))
      else if ext_null (outcomes w (Suc (tick w)))
      then (-1, set_errno (ext_errno (outcomes w (Suc (tick w)))) (skip_seq c (next_tick (next_tick w))))
      else if ext_ret (ext_now w1) < 0
      then (-1, set_errno (ext_errno (ext_now w1)) (skip_seq c (next_tick (next_tick (next_tick w)))))
      else (0, sent fd (frame (new_seqNum w c OR AF_IPC_SEQNUM_NEW_REQUEST_MASK) payload) w1))"

lemma request_frame [simp]:
  "srvs (next_tick w) = srvs w" "clis (next_tick w) = clis w" "srvs (skip_seq c w) = srvs w" "clis (skip_seq c w) = clis w"
  "srvs (registered c cb ctx t w) = srvs w" "clis (registered c cb ctx t w) = clis w"
  "next_tick (w\<lparr>srvs := x\<rparr>) = (next_tick w)\<lparr>srvs := x\<rparr>" "skip_seq c (w\<lparr>srvs := x\<rparr>) = (skip_seq c w)\<lparr>srvs := x\<rparr>"
  "registered c cb ctx t (w\<lparr>srvs := x\<rparr>) = (registered c cb ctx t w)\<lparr>srvs := x\<rparr>"
  by (cases w; simp add: next_tick_def skip_seq_def registered_def add_pending_def new_request_def new_seqNum_def
      split: option.split)+

lemma request_result_srvs:
  "srvs (snd (request_result fd c payload cb ctx t w)) = srvs w"
  "clis (snd (request_result fd c payload cb ctx t w)) = clis w"
  "request_result fd c payload cb ctx t (w\<lparr>srvs := x\<rparr>) =
    (fst (request_result fd c payload cb ctx t w), (snd (request_result fd c payload cb ctx t w))\<lparr>srvs := x\<rparr>)"
proof -
  show "srvs (snd (request_result fd c payload cb ctx t w)) = srvs w"
    "clis (snd (request_result fd c payload cb ctx t w)) = clis w"
    by (simp_all add: request_result_def Let_def)
  have "ext_now (v\<lparr>srvs := x\<rparr>) = ext_now v" "new_seqNum (v\<lparr>srvs := x\<rparr>) c = new_seqNum v c"
    for v :: "'a server_world_scheme" by (simp_all add: ext_now_def new_seqNum_def)
  then show "request_result fd c payload cb ctx t (w\<lparr>srvs := x\<rparr>) =
    (fst (request_result fd c payload cb ctx t w), (snd (request_result fd c payload cb ctx t w))\<lparr>srvs := x\<rparr>)"
    by (simp add: request_result_def Let_def)
qed

lemma server_ok_skip:
  assumes ok: "server_ok w s" "db_open w c" and same: "ctls v = ctls w" "reqs v = reqs w" "events v = events w"
    "tick w \<le> tick v" "srvs v = srvs w" "clis v = clis w"
  shows "server_ok (skip_seq c v) s"
proof -
  have v: "server_ok v s" using same by (intro server_ok_next [OF ok(1)]) simp_all
  then have w: "world_ok v" by (simp add: server_ok_def)
  have op: "db_open v c" using ok(2) same(1) by (simp add: db_open_def)
  show ?thesis
  proof (rule server_ok_events [OF v])
    show "world_ok (skip_seq c v)" "db_open (skip_seq c v) = db_open v"
      using skip_seq_ok [OF w op] by (simp_all add: fun_eq_iff)
    show "tick v \<le> tick (skip_seq c v)" "srvs (skip_seq c v) = srvs v" "clis (skip_seq c v) = clis v"
      by (simp_all add: skip_seq_def split: option.split)
    have "events (skip_seq c v) = events v" by (simp add: skip_seq_def split: option.split)
    from has_event_cong [OF this] show "has_event v h y \<Longrightarrow> has_event (skip_seq c v) h y" for h y by simp
  qed
qed

lemma server_ok_registered:
  assumes ok: "server_ok w s" "db_open w c" and t: "0 < timeoutMs"
    and fresh: "new_seqNum w c \<notin> seq_of w ` set (pending w c)"
  shows "server_ok (registered c callback ctx timeoutMs w) s"
proof (rule server_ok_events [OF ok(1)])
  have w: "world_ok w" using ok(1) by (simp add: server_ok_def)
  show "world_ok (registered c callback ctx timeoutMs w)" by (rule registered_ok [OF w ok(2) t fresh])
  note sel = registered_sel [OF ok(2)]
  show "db_open (registered c callback ctx timeoutMs w) = db_open w" using sel(1) by (simp add: fun_eq_iff)
  show "tick w \<le> tick (registered c callback ctx timeoutMs w)" using sel(6) by simp
  have "events w (Suc (tick w)) = None"
    using world_okD(3) [OF w, of "Suc (tick w)"] by (cases "events w (Suc (tick w))") (auto simp: timer_owned_def)
  then show "has_event w h y \<Longrightarrow> has_event (registered c callback ctx timeoutMs w) h y" for h y
    using sel(5) by (auto simp: has_event_def split: option.splits)
qed simp_all

lemma server_ok_request:
  assumes ok: "server_ok w s" "db_open w c" and t: "0 < timeoutMs"
    and fresh: "new_seqNum w c \<notin> seq_of w ` set (pending w c)"
  shows "server_ok (snd (request_result fd c payload callback ctx timeoutMs w)) s"
proof -
  have "server_ok (next_tick w) s" by (rule server_ok_next [OF ok(1)]) (simp_all add: next_tick_def)
  moreover have "server_ok (skip_seq c (next_tick (next_tick w))) s"
    "server_ok (skip_seq c (next_tick (next_tick (next_tick w)))) s"
    by (rule server_ok_skip [OF ok]; simp add: next_tick_def)+
  ultimately show ?thesis
    using server_ok_registered [OF ok t fresh] by (simp add: request_result_def Let_def server_ok_told)
qed

definition requested ::
    "'a client_closer \<Rightarrow> nat \<Rightarrow> nat \<Rightarrow> byte list \<Rightarrow> nat option \<Rightarrow> nat \<Rightarrow> int
     \<Rightarrow> 'a server_world_scheme \<Rightarrow> (int \<times> 'a server_world_scheme) option" where
  "requested closer s c payload callback ctx timeoutMs w =
     (let (r, v) = request_result (fd_of w c) c payload callback ctx timeoutMs w in
      if r < 0 then map_option (Pair r) (closed_by closer AF_IPC_STATUS_ERROR s c v) else Some (r, v))"

lemma send_request_routed:
  assumes ok: "server_ok w s" and len: "length payload \<le> 4088" and t: "0 < timeoutMs" and cid: "cid \<noteq> 0"
    and fresh: "\<And>c. client_with w s cid = Some c \<Longrightarrow> new_seqNum w c \<notin> seq_of w ` set (pending w c)"
  shows "af_ipcs_send_request closer (Some s) cid payload (int (length payload)) callback ctx timeoutMs w =
    (case client_with w s cid of
       None \<Rightarrow> Some (-1, set_errno 2 w)
     | Some c \<Rightarrow> requested closer s c payload callback ctx timeoutMs w)"
proof (cases "client_with w s cid")
  case None
  with cid show ?thesis
    by (simp add: af_ipcs_send_request_def lock_ok [OF ok] find_client_locked [OF ok] unlock_return_ok [OF ok])
next
  case (Some c)
  note c = client_with_Some(1) [OF Some]
  obtain cl where cl: "clis w c = Some cl" "0 \<le> cl_client_fd cl" "db_open w c"
    by (rule client_okE [OF server_ok_client [OF ok c]])
  have fd: "fd_of w c = cl_client_fd cl" using cl by (simp add: fd_of_def)
  obtain x where x: "clients_locked s w = w\<lparr>srvs := x\<rparr>" using ok
    by (auto simp: clients_locked_def elim: server_okE)
  let ?send = "af_ipc_send (cl_client_fd cl) (Some c) 0 payload (int (length payload)) callback ctx timeoutMs"
  let ?res = "request_result (cl_client_fd cl) c payload callback ctx timeoutMs w"
  have wok: "world_ok w" using ok by (simp add: server_ok_def)
  have lok: "world_ok (clients_locked s w)" by (rule world_ok_cong [OF _ _ _ _ wok]) simp_all
  have same: "db_open (clients_locked s w) c" "seq_of (clients_locked s w) = seq_of w"
    "pending (clients_locked s w) = pending w" "new_seqNum (clients_locked s w) c = new_seqNum w c"
    using cl(3) by (simp_all add: db_open_def fun_eq_iff seq_of_def pending_def new_seqNum_def)
  have "?send (clients_locked s w) = Some (request_result (cl_client_fd cl) c payload callback ctx timeoutMs (clients_locked s w))"
    using send_request_eq [OF lok same(1) t len, of "cl_client_fd cl" 0 callback ctx] fresh [OF Some]
    by (simp add: same request_result_def Let_def)
  also have "request_result (cl_client_fd cl) c payload callback ctx timeoutMs (clients_locked s w) =
      (fst ?res, (snd ?res)\<lparr>srvs := x\<rparr>)" unfolding x by (rule request_result_srvs)
  finally have send: "?send (clients_locked s w) = Some (fst ?res, (snd ?res)\<lparr>srvs := x\<rparr>)" .
  have v: "srvs ((snd ?res)\<lparr>srvs := x\<rparr>) = srvs (clients_locked s w)" by (simp add: x)
  have restored: "(snd ?res)\<lparr>srvs := x, srvs := srvs w\<rparr> = snd ?res"
    using request_result_srvs(1) [of "cl_client_fd cl" c payload callback ctx timeoutMs w] by (cases "snd ?res") simp
  have "server_ok (snd ?res) s" by (rule server_ok_request [OF ok cl(3) t fresh [OF Some]])
  then have "send_or_close closer s c ?send (clients_locked s w) = requested closer s c payload callback ctx timeoutMs w"
    using send_or_close_eq [where send = ?send, OF ok send v, of c closer] c
    by (simp only: restored) (simp add: requested_def fd case_prod_beta)
  with Some cid cl show ?thesis
    by (simp add: af_ipcs_send_request_def lock_ok [OF ok] find_client_locked [OF ok])
qed

end
