(* ===== verification/Server_Recv.thy ===== *)
theory Server_Recv
  imports Server_Route
begin

text \<open>
  The receive handler of the server's clients (\<^verbatim>\<open>on_recv\<close>) as a client of two interfaces: the
  receive callbacks keep the client that is being served, and the close callback keeps the
  server. Applications that reply, push messages and drop other clients provide the first, a
  close callback that announces the departure to the remaining clients provides the second.
\<close>

section \<open>The client being served\<close>

definition serving ::
    "nat \<Rightarrow> nat \<Rightarrow> u16 \<Rightarrow> (nat \<Rightarrow> ext) \<Rightarrow> nat \<Rightarrow> 'a server_world_scheme \<Rightarrow> bool" where
  "serving s c cid oc t w \<longleftrightarrow> server_ok w s \<and> c \<in> set (clients_of w s) \<and> cid_of w c = cid \<and>
     outcomes w = oc \<and> t \<le> tick w"

lemma serving_open: "serving s c cid oc t w \<Longrightarrow> world_ok w \<and> db_open w c"
proof -
  assume w: "serving s c cid oc t w"
  then have "client_ok w s c" by (auto simp: serving_def dest: server_ok_client)
  with w show ?thesis by (simp add: serving_def server_ok_def client_ok_def)
qed

lemma serving_later: "serving s c cid oc t w \<Longrightarrow> t' \<le> t \<Longrightarrow> serving s c cid oc t' w"
  by (simp add: serving_def)

lemma serving_drop:
  assumes "serving s c cid oc t w" "db_open w c'" "a \<in> set (pending w c')"
  shows "serving s c cid oc t (drop_pending c' a w)"
  using assms server_ok_drop [of w s c' a]
  by (simp add: serving_def clients_of_def cid_of_def drop_pending_frame)

lemma serving_flags:
  assumes "serving s c cid oc t w" "clis w c = Some cl"
    and "f AND CLIENT_FLAGS_MARKED_FOR_SHUTDOWN = cl_flags cl AND CLIENT_FLAGS_MARKED_FOR_SHUTDOWN"
  shows "serving s c cid oc t (w\<lparr>clis := (clis w)(c \<mapsto> cl\<lparr>cl_flags := f\<rparr>)\<rparr>)"
proof -
  let ?w = "w\<lparr>clis := (clis w)(c \<mapsto> cl\<lparr>cl_flags := f\<rparr>)\<rparr>"
  have "server_ok w s" using assms(1) by (simp add: serving_def)
  then have "server_ok ?w s"
  proof (rule server_ok_cong)
    fix d dl assume d: "clis w d = Some dl"
    have same: "dl\<lparr>cl_flags := g, cl_clientContext := cl_clientContext dl\<rparr> = dl\<lparr>cl_flags := g\<rparr>"
      "dl\<lparr>cl_flags := cl_flags dl\<rparr> = dl" for g by simp_all
    show "\<exists>f x. clis ?w d = Some (dl\<lparr>cl_flags := f, cl_clientContext := x\<rparr>) \<and>
        f AND CLIENT_FLAGS_MARKED_FOR_SHUTDOWN = cl_flags dl AND CLIENT_FLAGS_MARKED_FOR_SHUTDOWN"
      using d assms(2,3)
      by (intro exI [of _ "if d = c then f else cl_flags dl"] exI [of _ "cl_clientContext dl"])
        (cases "d = c"; simp)
  qed simp_all
  moreover have "cid_of ?w c = cid" using assms(1,2) by (simp add: serving_def cid_of_def)
  ultimately show ?thesis using assms(1) by (simp add: serving_def clients_of_def)
qed

section \<open>Close callbacks\<close>

locale server_closer =
  fixes closer :: "'a client_closer" and s :: nat
  assumes close_keeps: "server_ok w s \<Longrightarrow> \<exists>w'. closer f status cid ctx w = Some w' \<and> server_ok w' s \<and>
    clients_of w' s = clients_of w s \<and> cid_of w' = cid_of w \<and> outcomes w' = outcomes w \<and> tick w \<le> tick w'"
begin

text \<open>Closing one client keeps the server and the other clients.\<close>

lemma closed_by_keeps:
  assumes ok: "server_ok w s" and c: "c \<in> set (clients_of w s)"
  shows "\<exists>w'. closed_by closer status s c w = Some w' \<and> server_ok w' s \<and>
    clients_of w' s = remove1 c (clients_of w s) \<and> (\<forall>d. d \<noteq> c \<longrightarrow> cid_of w' d = cid_of w d) \<and>
    outcomes w' = outcomes w \<and> tick w \<le> tick w'"
proof -
  obtain sr where sr: "srvs w s = Some sr" using ok by (rule server_okE)
  obtain cl where cl: "clis w c = Some cl" by (rule client_okE [OF server_ok_client [OF ok c]])
  note sel = closed_client_of_sel [OF ok c sr cl]
  let ?w = "closed_client_of s c w"
  have ok': "server_ok ?w s" by (rule closed_client_of_ok [OF ok c])
  have cid: "d \<noteq> c \<longrightarrow> cid_of ?w d = cid_of w d" for d by (simp add: cid_of_def sel(2))
  show ?thesis
  proof (cases "sr_closeCallback sr")
    case None
    then show ?thesis using sr cl ok' sel cid by (simp add: closed_by_def run_client_close_def)
  next
    case (Some f)
    from close_keeps [OF ok', of f status "cl_cid cl" "cl_clientContext cl"] Some
    show ?thesis using sr cl sel cid by (auto simp: closed_by_def run_client_close_def)
  qed
qed

lemma serving_other:
  assumes "serving s c cid oc t w" "d \<in> set (clients_of w s)" "d \<noteq> c"
  shows "\<exists>w'. closed_by closer status s d w = Some w' \<and> serving s c cid oc t w'"
proof -
  have ok: "server_ok w s" using assms(1) by (simp add: serving_def)
  obtain w' where w': "closed_by closer status s d w = Some w'" "server_ok w' s"
    "clients_of w' s = remove1 d (clients_of w s)" "\<forall>e. e \<noteq> d \<longrightarrow> cid_of w' e = cid_of w e"
    "outcomes w' = outcomes w" "tick w \<le> tick w'"
    using closed_by_keeps [OF ok assms(2)] by blast
  have "distinct (clients_of w s)" using ok by (auto elim: server_okE)
  then have "c \<in> set (remove1 d (clients_of w s))" using assms(1,3) by (simp add: serving_def)
  with w' assms(1,3) show ?thesis by (auto simp: serving_def)
qed

end

text \<open>A close callback that announces the departure with a broadcast.\<close>

definition announcing ::
    "nat \<Rightarrow> (nat \<Rightarrow> int \<Rightarrow> u16 \<Rightarrow> nat \<Rightarrow> byte list) \<Rightarrow> 'a client_closer" where
  "announcing s news f status cid ctx w =
     (let payload = take 4088 (news f status cid ctx) in
      map_option snd (af_ipcs_send_unsolicited (\<lambda>f status cid ctx w. None) (Some s) 0 payload (int (length payload)) w))"

lemma told_all_sel:
  "clients_of (told_all fds bs w) s = clients_of w s" "cid_of (told_all fds bs w) = cid_of w"
  "outcomes (told_all fds bs w) = outcomes w" "tick w \<le> tick (told_all fds bs w)"
proof -
  show "clients_of (told_all fds bs w) s = clients_of w s" "cid_of (told_all fds bs w) = cid_of w"
    by (simp_all add: clients_of_def cid_of_def fun_eq_iff told_all_frame)
  have "outcomes (told_all fds bs w) = outcomes w \<and> tick w \<le> tick (told_all fds bs w)"
  proof (induction fds arbitrary: w)
    case (Cons fd fds)
    from Cons.IH [of "told fd bs w"] show ?case
      by (simp add: told_all_def) (auto simp: told_def refused_def sent_def set_errno_def next_tick_def log_io_def)
  qed (simp add: told_all_def)
  then show "outcomes (told_all fds bs w) = outcomes w" "tick w \<le> tick (told_all fds bs w)" by simp_all
qed

interpretation announcing: server_closer "announcing s news" s for s news
proof
  fix f status cid ctx and w :: "'a server_world_scheme"
  assume "server_ok w s"
  then show "\<exists>w'. announcing s news f status cid ctx w = Some w' \<and> server_ok w' s \<and> clients_of w' s = clients_of w s \<and>
      cid_of w' = cid_of w \<and> outcomes w' = outcomes w \<and> tick w \<le> tick w'"
    using send_unsolicited_eq [of w s "take 4088 (news f status cid ctx)" "\<lambda>f status cid ctx w. None" 0]
    by (simp add: announcing_def Let_def server_ok_told_all told_all_sel min_def)
qed

section \<open>The receive handler\<close>

text \<open>The receive bit is not the shutdown bit.\<close>

lemma receive_bit:
  "(f OR CLIENT_FLAGS_IN_RECEIVE) AND CLIENT_FLAGS_MARKED_FOR_SHUTDOWN = f AND CLIENT_FLAGS_MARKED_FOR_SHUTDOWN"
  "(f AND NOT CLIENT_FLAGS_IN_RECEIVE) AND CLIENT_FLAGS_MARKED_FOR_SHUTDOWN = f AND CLIENT_FLAGS_MARKED_FOR_SHUTDOWN"
proof -
  have two: "CLIENT_FLAGS_IN_RECEIVE = push_bit 1 1" and one: "CLIENT_FLAGS_MARKED_FOR_SHUTDOWN = push_bit 0 1"
    by (simp_all add: CLIENT_FLAGS_IN_RECEIVE_def CLIENT_FLAGS_MARKED_FOR_SHUTDOWN_def)
  have "bit CLIENT_FLAGS_IN_RECEIVE n \<longleftrightarrow> n = 1" "bit CLIENT_FLAGS_MARKED_FOR_SHUTDOWN n \<longleftrightarrow> n = 0" for n
    unfolding two one push_bit_of_1 by (subst bit_exp_iff; auto)+
  then show
    "(f OR CLIENT_FLAGS_IN_RECEIVE) AND CLIENT_FLAGS_MARKED_FOR_SHUTDOWN = f AND CLIENT_FLAGS_MARKED_FOR_SHUTDOWN"
    "(f AND NOT CLIENT_FLAGS_IN_RECEIVE) AND CLIENT_FLAGS_MARKED_FOR_SHUTDOWN = f AND CLIENT_FLAGS_MARKED_FOR_SHUTDOWN"
    by (intro bit_word_eqI; auto simp: bit_simps)+
qed

text \<open>
  In an environment of the kind \<open>good\<close>, a receive callback returns and keeps the client that is
  being served.
\<close>

locale server_receiver =
  fixes run :: "'a server_world_ext runner" and s c :: nat and cid :: u16 and good :: "(nat \<Rightarrow> ext) \<Rightarrow> bool"
  assumes run_keeps: "good oc \<Longrightarrow> serving s c cid oc t w \<Longrightarrow>
    \<exists>w'. run cb status sn payload ctx w = Some w' \<and> serving s c cid oc t w'"
begin

lemma keeps_receiver: "good oc \<Longrightarrow> receiver run c (serving s c cid oc t) (\<lambda>_. True)"
proof
  fix w :: "'a server_world_scheme" and c' a cb status sn payload ctx
  assume g: "good oc"
  show "serving s c cid oc t w \<Longrightarrow> world_ok w \<and> db_open w c" by (rule serving_open)
  show "serving s c cid oc t w \<Longrightarrow> db_open w c' \<Longrightarrow> a \<in> set (pending w c') \<Longrightarrow>
      serving s c cid oc t (drop_pending c' a w)" by (rule serving_drop)
  show "serving s c cid oc t w \<Longrightarrow>
      \<exists>w'. run cb status sn payload ctx w = Some w' \<and> serving s c cid oc t w'"
    using g by (rule run_keeps)
qed simp

text \<open>One round with bytes: the client stays, and the bit for a shutdown is not set.\<close>

lemma round:
  assumes "good oc" "serving s c cid oc t w" "ext_recv (ext_now w) = Inr bs" "bs \<noteq> []"
  shows "\<exists>w1. serving s c cid oc (Suc (tick w)) w1 \<and>
    (\<forall>n. server_recv_loop (Suc n) run closer c w = server_recv_loop n run closer c w1)"
proof -
  let ?bs = "take 4096 bs" and ?w = "next_tick w"
  have rec: "recv (nat AF_IPC_MAX_MSGLEN) w = (int (length ?bs), ?bs, ?w)"
    by (simp add: recv_def assms(3) AF_IPC_MAX_MSGLEN_def)
  have "server_ok ?w s"
    by (rule server_ok_next [of w]) (use assms(2) in \<open>simp_all add: serving_def next_tick_def\<close>)
  then have ok: "serving s c cid oc (Suc (tick w)) ?w"
    using assms(2) by (simp add: serving_def clients_of_def cid_of_def) (simp add: next_tick_def)
  have "client_ok ?w s c" using ok by (auto simp: serving_def dest: server_ok_client)
  then obtain cl where cl: "clis ?w c = Some cl" "cl_server cl = Some s" by (rule client_okE)
  obtain sr where sr: "srvs w s = Some sr" using ok by (auto simp: serving_def elim: server_okE)
  let ?w1 = "?w\<lparr>clis := (clis ?w)(c \<mapsto> cl\<lparr>cl_flags := cl_flags cl OR CLIENT_FLAGS_IN_RECEIVE\<rparr>)\<rparr>"
  note bits = receive_bit
  have w1: "serving s c cid oc (Suc (tick w)) ?w1" by (rule serving_flags [OF ok cl(1) bits(1)])
  from receiver.handle_inv [OF keeps_receiver [OF assms(1)] w1, of ?bs]
  obtain w2 where w2: "af_ipc_handle_receive_message run ?bs (int (length ?bs)) (cl_cid cl) (Some c)
      (sr_receiveCallback sr) (cl_clientContext cl) ?w1 = Some w2" "serving s c cid oc (Suc (tick w)) w2"
    by fastforce
  have "client_ok w2 s c" using w2(2) by (auto simp: serving_def dest: server_ok_client)
  then obtain dl where dl: "clis w2 c = Some dl" "cl_flags dl AND CLIENT_FLAGS_MARKED_FOR_SHUTDOWN = 0"
    by (rule client_okE)
  let ?w3 = "w2\<lparr>clis := (clis w2)(c \<mapsto> dl\<lparr>cl_flags := cl_flags dl AND NOT CLIENT_FLAGS_IN_RECEIVE\<rparr>)\<rparr>"
  have "serving s c cid oc (Suc (tick w)) ?w3" by (rule serving_flags [OF w2(2) dl(1) bits(2)])
  moreover have "server_recv_loop (Suc n) run closer c w = server_recv_loop n run closer c ?w3" for n
  proof -
    have upd: "cl_flags_update (\<lambda>f. f OR x) k = k\<lparr>cl_flags := cl_flags k OR x\<rparr>"
      "cl_flags_update (\<lambda>f. f AND x) k = k\<lparr>cl_flags := cl_flags k AND x\<rparr>" for x and k :: af_ipcs_client
      by (cases k; simp)+
    show ?thesis
      using assms(4) cl dl sr w2(1) by (simp add: rec upd_cli_def upd bits(2) min_def)
  qed
  ultimately show ?thesis by blast
qed

text \<open>The handler ends when the peer has nothing more to say.\<close>

lemma recv_loop_ends:
  assumes "good oc" "\<forall>n\<ge>N. \<forall>bs. ext_recv (oc n) = Inr bs \<longrightarrow> bs = []" "serving s c cid oc t w"
  shows "\<exists>w1 k. serving s c cid oc t w1 \<and> tick w1 = Suc k \<and>
    (if ext_recv (oc k) \<in> {Inl 11, Inl 4} then \<forall>n > N - tick w. server_recv_loop n run closer c w = Some w1
     else (\<forall>bs. ext_recv (oc k) = Inr bs \<longrightarrow> bs = []) \<and>
       (\<forall>n > N - tick w. server_recv_loop n run closer c w = closed_by closer AF_IPC_STATUS_ERROR s c w1))"
  using assms(3)
proof (induction "N - tick w" arbitrary: w t rule: less_induct)
  case less
  have oc: "ext_now w = oc (tick w)" using less.prems by (simp add: serving_def ext_now_def)
  have closing: "close_client closer AF_IPC_STATUS_ERROR (Some c) v = closed_by closer AF_IPC_STATUS_ERROR s c v"
    if "serving s c cid oc t v" for v
    using that by (intro close_client_by) (simp_all add: serving_def)
  have same: "serving s c cid oc t (next_tick w)" "serving s c cid oc t (next_tick (set_errno e w))" for e
  proof -
    have ok: "server_ok w s" using less.prems by (simp add: serving_def)
    have "server_ok (next_tick w) s" "server_ok (next_tick (set_errno e w)) s"
      by (rule server_ok_next [OF ok]; simp add: next_tick_def set_errno_def)+
    then show "serving s c cid oc t (next_tick w)" "serving s c cid oc t (next_tick (set_errno e w))"
      using less.prems by (simp_all add: serving_def clients_of_def cid_of_def next_tick_def set_errno_def)
  qed
  show ?case
  proof (cases "ext_recv (ext_now w)")
    case (Inl e)
    let ?w = "next_tick (set_errno e w)"
    have "server_recv_loop n run closer c w = (if e = 11 \<or> e = 4 then Some ?w
        else close_client closer AF_IPC_STATUS_ERROR (Some c) ?w)" if "n > N - tick w" for n
      using that by (cases n) (simp_all add: recv_def Inl, simp_all add: next_tick_def set_errno_def)
    with same closing Inl oc show ?thesis by (intro exI [of _ ?w] exI [of _ "tick w"]) (auto simp: set_errno_def next_tick_def)
  next
    case (Inr bs)
    show ?thesis
    proof (cases "bs = []")
      case True
      have "server_recv_loop n run closer c w = close_client closer AF_IPC_STATUS_ERROR (Some c) (next_tick w)"
        if "n > N - tick w" for n
        using that True by (cases n) (simp_all add: recv_def Inr)
      with same closing True Inr oc show ?thesis
        by (intro exI [of _ "next_tick w"] exI [of _ "tick w"]) (auto simp: next_tick_def)
    next
      case False
      have N: "tick w < N"
      proof (rule ccontr)
        assume "\<not> tick w < N"
        then have "N \<le> tick w" by simp
        moreover have "ext_recv (oc (tick w)) = Inr bs" using Inr oc by simp
        ultimately show False using assms(2) False by blast
      qed
      obtain w1 where w1: "serving s c cid oc (Suc (tick w)) w1"
        and step: "\<And>n. server_recv_loop (Suc n) run closer c w = server_recv_loop n run closer c w1"
        using round [OF assms(1) less.prems Inr False, of closer] by blast
      have t: "t \<le> Suc (tick w)" "Suc (tick w) \<le> tick w1" using less.prems w1 by (simp_all add: serving_def)
      have "serving s c cid oc t w1" using w1 t(1) by (rule serving_later)
      moreover have "N - tick w1 < N - tick w" using N t(2) by linarith
      moreover have "server_recv_loop n run closer c w = server_recv_loop (n - 1) run closer c w1 \<and>
          N - tick w1 < n - 1" if "n > N - tick w" for n
        using that step N t(2) by (cases n) auto
      ultimately show ?thesis using less.hyps [of w1 t] by fastforce
    qed
  qed
qed

lemma recv_loop_cases:
  assumes "good oc" "\<forall>n\<ge>N. \<forall>bs. ext_recv (oc n) = Inr bs \<longrightarrow> bs = []" "serving s c cid oc t w" "N - tick w < n"
  obtains w1 where "serving s c cid oc t w1" "server_recv_loop n run closer c w = Some w1 \<or>
    server_recv_loop n run closer c w = closed_by closer AF_IPC_STATUS_ERROR s c w1"
proof -
  obtain w1 k where w1: "serving s c cid oc t w1" and
    run: "if ext_recv (oc k) \<in> {Inl 11, Inl 4} then \<forall>n > N - tick w. server_recv_loop n run closer c w = Some w1
     else (\<forall>bs. ext_recv (oc k) = Inr bs \<longrightarrow> bs = []) \<and>
       (\<forall>n > N - tick w. server_recv_loop n run closer c w = closed_by closer AF_IPC_STATUS_ERROR s c w1)"
    using recv_loop_ends [OF assms(1-3), of closer] by blast
  show thesis
    by (rule that [OF w1]) (cases "ext_recv (oc k) \<in> {Inl 11, Inl 4}"; use run assms(4) in simp)
qed

end

end
