(* ===== verification/Server_Act.thy ===== *)
theory Server_Act
  imports Server_Recv
begin

text \<open>
  Applications of the server: receive callbacks that reply, push and drop clients with the
  functions of \<^verbatim>\<open>af_ipc_server.h\<close>, and accept callbacks that set the client context, as providers
  of the interfaces of the receive handler and of \<^verbatim>\<open>on_accept\<close>.
\<close>

section \<open>Receive callbacks\<close>

datatype server_action = Reply u32 "byte list" | Push u16 "byte list" | Drop u16

fun server_acts ::
    "'a client_closer \<Rightarrow> nat \<Rightarrow> server_action list \<Rightarrow> 'a server_world_scheme \<Rightarrow> 'a server_world_scheme option" where
  "server_acts closer s [] w = Some w"
| "server_acts closer s (Reply sn payload # as) w = do {
     (r, w) \<leftarrow> af_ipcs_send_response closer (Some s) sn payload (int (length payload)) w;
     server_acts closer s as w
   }"
| "server_acts closer s (Push cid payload # as) w = do {
     (r, w) \<leftarrow> af_ipcs_send_unsolicited closer (Some s) cid payload (int (length payload)) w;
     server_acts closer s as w
   }"
| "server_acts closer s (Drop cid # as) w = do {
     (r, w) \<leftarrow> af_ipcs_close_client closer (Some s) cid w;
     server_acts closer s as w
   }"

type_synonym server_app = "nat \<Rightarrow> int \<Rightarrow> u32 \<Rightarrow> byte list \<Rightarrow> nat \<Rightarrow> server_action list"

definition server_acting :: "'a client_closer \<Rightarrow> nat \<Rightarrow> server_app \<Rightarrow> 'a server_world_ext runner" where
  "server_acting closer s app cb status sn payload ctx w = server_acts closer s (app cb status sn payload ctx) w"

text \<open>The messages fit, no send fails, and the client that is being served is not dropped.\<close>

definition allowed :: "u16 \<Rightarrow> server_action \<Rightarrow> bool" where
  "allowed cid a \<longleftrightarrow> (case a of Reply sn p \<Rightarrow> length p \<le> 4088 | Push d p \<Rightarrow> length p \<le> 4088 | Drop d \<Rightarrow> d \<noteq> cid)"

definition civil :: "server_app \<Rightarrow> u16 \<Rightarrow> (nat \<Rightarrow> ext) \<Rightarrow> bool" where
  "civil app cid oc \<longleftrightarrow> (\<forall>n. 0 \<le> ext_ret (oc n)) \<and>
     (\<forall>cb status sn payload ctx. \<forall>a \<in> set (app cb status sn payload ctx). allowed cid a)"

lemma close_client_api:
  assumes ok: "server_ok w s"
  shows "af_ipcs_close_client closer (Some s) cid w =
    (case client_with w s cid of None \<Rightarrow> Some (-1, w)
     | Some c \<Rightarrow> map_option (Pair 0) (closed_by closer AF_IPC_STATUS_OK s c w))"
proof (cases "client_with w s cid")
  case (Some c)
  have "close_client closer AF_IPC_STATUS_OK (Some c) w = closed_by closer AF_IPC_STATUS_OK s c w"
    by (rule close_client_by [OF ok client_with_Some(1) [OF Some]]) simp
  with Some show ?thesis
    by (cases "closed_by closer AF_IPC_STATUS_OK s c w")
      (simp_all add: af_ipcs_close_client_def find_client_locked(2) [OF ok])
qed (simp add: af_ipcs_close_client_def find_client_locked(2) [OF ok])

lemma serving_told:
  assumes "serving s c cid oc t w"
  shows "serving s c cid oc t (set_errno e w)" "serving s c cid oc t (sent fd bs w)"
    "serving s c cid oc t (told_all fds bs w)"
proof -
  have ok: "server_ok w s" using assms by (simp add: serving_def)
  have sel: "tick w \<le> tick (sent fd bs w)" "outcomes (sent fd bs w) = outcomes w" "tick (set_errno e w) = tick w"
    "outcomes (set_errno e w) = outcomes w"
    by (simp_all add: sent_def next_tick_def log_io_def set_errno_def)
  show "serving s c cid oc t (set_errno e w)" "serving s c cid oc t (sent fd bs w)"
    "serving s c cid oc t (told_all fds bs w)"
    using assms server_ok_told [OF ok] server_ok_told_all [OF ok] sel told_all_sel [where fds = fds and bs = bs and w = w]
    by (auto simp: serving_def clients_of_def cid_of_def told_all_frame)
qed

lemma delivered_keeps:
  assumes "serving s c cid oc t w" "\<forall>n. 0 \<le> ext_ret (oc n)" "d \<in> set (clients_of w s)"
  shows "\<exists>w'. delivered closer s d sn payload w = Some (0, w') \<and> serving s c cid oc t w'"
proof -
  have ok: "server_ok w s" and now: "\<not> ext_ret (ext_now w) < 0"
    using assms(1,2) by (simp_all add: serving_def ext_now_def not_less)
  obtain cl where "clis w d = Some cl" using server_ok_live [OF ok] assms(3) by blast
  with now serving_told(2) [OF assms(1)] show ?thesis by (simp add: delivered_def)
qed

lemma server_acts_keep:
  assumes closer: "server_closer closer s" and env: "\<forall>n. 0 \<le> ext_ret (oc n)"
  shows "serving s c cid oc t w \<Longrightarrow> \<forall>a \<in> set as. allowed cid a \<Longrightarrow>
    \<exists>w'. server_acts closer s as w = Some w' \<and> serving s c cid oc t w'"
proof (induction as arbitrary: w)
  case (Cons a as)
  have ok: "server_ok w s" and c: "cid_of w c = cid" using Cons.prems(1) by (simp_all add: serving_def)
  have next_act: "\<exists>w2. server_acts closer s as w1 = Some w2 \<and> serving s c cid oc t w2"
    if "serving s c cid oc t w1" for w1
    using Cons.IH [OF that] Cons.prems(2) by simp
  have "\<exists>w1. server_acts closer s (a # as) w = server_acts closer s as w1 \<and> serving s c cid oc t w1"
  proof (cases a)
    case (Reply sn p)
    have len: "length p \<le> 4088" using Cons.prems(2) Reply by (simp add: allowed_def)
    show ?thesis
      using delivered_keeps [OF Cons.prems(1) env client_with_Some(1), of "af_ipc_get_client_id_from_seq_num sn" _ closer sn p]
        serving_told(1) [OF Cons.prems(1), of 22]
      by (cases "client_with w s (af_ipc_get_client_id_from_seq_num sn)")
        (fastforce simp: Reply send_response_eq [OF ok len])+
  next
    case (Push d p)
    have len: "length p \<le> 4088" using Cons.prems(2) Push by (simp add: allowed_def)
    show ?thesis
      using delivered_keeps [OF Cons.prems(1) env client_with_Some(1), of d _ closer 0 p]
        serving_told(1) [OF Cons.prems(1), of 2] serving_told(3) [OF Cons.prems(1)]
      by (cases "client_with w s d") (fastforce simp: Push send_unsolicited_eq [OF ok len])+
  next
    case (Drop d)
    show ?thesis
    proof (cases "client_with w s d")
      case None
      with Cons.prems(1) show ?thesis by (auto simp: Drop close_client_api [OF ok])
    next
      case (Some e)
      have "e \<noteq> c" using client_with_Some(2) [OF Some] c Cons.prems(2) by (auto simp: Drop allowed_def)
      from server_closer.serving_other [OF closer Cons.prems(1) client_with_Some(1) [OF Some] this, of AF_IPC_STATUS_OK]
      obtain w' where "closed_by closer AF_IPC_STATUS_OK s e w = Some w'" "serving s c cid oc t w'" by blast
      then show ?thesis using Some by (intro exI [of _ w']) (simp add: Drop close_client_api [OF ok])
    qed
  qed
  with next_act show ?case by metis
qed simp

lemma closer_announcing: "server_closer (announcing s news) s"
  by (rule announcing.server_closer_axioms)

interpretation server_acting: server_receiver "server_acting (announcing s news) s app" s c cid "civil app cid"
  for s news app c cid
proof
  fix oc :: "nat \<Rightarrow> ext" and t and w :: "'a server_world_scheme" and cb status sn payload ctx
  assume "civil app cid oc" "serving s c cid oc t w"
  then show "\<exists>w'. server_acting (announcing s news) s app cb status sn payload ctx w = Some w' \<and> serving s c cid oc t w'"
    using server_acts_keep [OF closer_announcing, of oc s c cid t w "app cb status sn payload ctx" news]
    by (simp add: civil_def server_acting_def)
qed

section \<open>Accept callbacks\<close>

text \<open>An accept callback that sets the context of the new client.\<close>

definition contextual :: "(nat \<Rightarrow> u16 \<Rightarrow> nat) \<Rightarrow> 'a acceptor" where
  "contextual g f ctx cid c w = upd_cli c (\<lambda>cl. cl\<lparr>cl_clientContext := g ctx cid\<rparr>) w"

interpretation contextual: accept_callback "contextual g" "\<lambda>_. g" for g
proof
  fix w :: "'a server_world_scheme" and s c cl f ctx cid
  assume ok: "server_ok w s" and cl: "clis w c = Some cl"
  let ?cl = "cl\<lparr>cl_clientContext := g ctx cid\<rparr>"
  let ?w = "w\<lparr>clis := (clis w)(c \<mapsto> ?cl)\<rparr>"
  have "server_ok ?w s"
  proof (rule server_ok_cong [OF ok])
    fix d dl assume d: "clis w d = Some dl"
    show "\<exists>f x. clis ?w d = Some (dl\<lparr>cl_flags := f, cl_clientContext := x\<rparr>) \<and>
        f AND CLIENT_FLAGS_MARKED_FOR_SHUTDOWN = cl_flags dl AND CLIENT_FLAGS_MARKED_FOR_SHUTDOWN"
      using d cl
      by (intro exI [of _ "cl_flags dl"] exI [of _ "if d = c then g ctx cid else cl_clientContext dl"])
        (cases "d = c"; cases cl; cases dl; simp)
  qed simp_all
  then show "\<exists>w'. contextual g f ctx cid c w = Some w' \<and> server_ok w' s \<and> clients_of w' s = clients_of w s \<and>
      clis w' = (clis w)(c \<mapsto> ?cl) \<and> events w' = events w \<and> reqs w' = reqs w \<and>
      io_log w' = io_log w"
    using cl by (auto simp: contextual_def upd_cli_def clients_of_def)
qed

end
