(* ===== verification/Server_Fail.thy ===== *)
theory Server_Fail
  imports Server_Act
begin

text \<open>
  The error paths of accepting a client in \<^verbatim>\<open>src/pkg/src/af_ipc_server.c\<close>: without memory for the
  client or its database the socket is closed and the server is as before; without an event,
  \<^verbatim>\<open>add_client\<close> locks the mutex that it holds.
\<close>

section \<open>Taking a client back\<close>

lemma server_ok_take_back:
  assumes ok: "server_ok w s" and sr: "srvs w s = Some sr" and t: "t \<notin> set (sr_clients sr)" "\<not> db_open w t"
    and same: "ctls w' = (ctls w)(t := None)" "clis w' = (clis w)(t := None)" "reqs w' = reqs w"
      "events w' = events w" "tick w \<le> tick w'" "srvs w' s = Some (sr\<lparr>sr_lastCid := cid\<rparr>)"
  shows "server_ok w' s"
proof -
  have "world_ok w" using ok by (simp add: server_ok_def)
  from drop_db_ok [OF this t(2)] have wok: "world_ok w'"
    by (rule world_ok_cong [rotated -1]) (simp_all add: same)
  note ev = has_event_cong [OF same(4)]
  have cid: "c \<in> set (sr_clients sr) \<Longrightarrow> cid_of w' c = cid_of w c" for c
    using t(1) by (cases "c = t") (simp_all add: cid_of_def same)
  then have inj: "inj_on (cid_of w') (set (sr_clients sr)) = inj_on (cid_of w) (set (sr_clients sr))"
    by (simp add: inj_on_def)
  have keep: "c \<in> set (sr_clients sr) \<Longrightarrow> client_ok w s c \<Longrightarrow> client_ok w' s c" for c
    using t(1) by (cases "c = t") (auto simp: client_ok_def db_open_def ev same split: option.splits)
  have "db_open w' c \<Longrightarrow> c < tick w'" for c
    using ok same(5) by (auto simp: server_ok_def db_open_def same(1) split: if_splits option.splits intro: less_le_trans)
  with ok sr wok keep inj show ?thesis
    by (auto simp: server_ok_def same(6) ev split: pool.splits)
qed

lemma free_put:
  assumes "sr_clientPool sr = Pool_live (c # pool)"
  shows "free_client s c (put s sr c cl rc w) = Some (w\<lparr>ctls := (ctls w)(c := None),
    srvs := (srvs w)(s \<mapsto> sr\<lparr>sr_clientPool := Pool_live pool\<rparr>), clis := (clis w)(c := None)\<rparr>)"
  using assms by (cases w) (simp add: free_client_def put_def)

text \<open>No memory for the client, no pool for its database, or no mutex for it.\<close>

lemma add_client_fails:
  fixes w :: "'a server_world_scheme"
  assumes ok: "server_ok w s" and len: "length (clients_of w s) < 65535"
    and env: "ext_null (outcomes w (tick w)) \<or> ext_null (outcomes w (tick w + 1)) \<or> ext_ret (outcomes w (tick w + 2)) < 0"
  shows "\<exists>w1. add_client acceptor closer s fd w = Some (None, w1) \<and> server_ok w1 s \<and>
    clients_of w1 s = clients_of w s \<and> (\<forall>c \<in> set (clients_of w s). clis w1 c = clis w c) \<and>
    reqs w1 = reqs w \<and> events w1 = events w \<and> io_log w1 = io_log w"
proof -
  obtain sr pool where sr: "srvs w s = Some sr" "sr_clnt_mutex sr = Mutex_free" "sr_clientPool sr = Pool_live pool"
    "clients_of w s = sr_clients sr" by (rule server_okE [OF ok])
  let ?t = "tick w" and ?sr = "sr\<lparr>sr_clnt_mutex := Mutex_held\<rparr>"
  let ?w1 = "w\<lparr>srvs := (srvs w)(s \<mapsto> ?sr)\<rparr>"
  let ?sr2 = "?sr\<lparr>sr_clientPool := Pool_live (?t # pool)\<rparr>"
  have new: "?t \<notin> set (sr_clients sr)" using not_a_client [OF ok] sr(4) by simp
  have closed: "\<not> db_open w ?t"
  proof
    assume "db_open w ?t"
    then have "?t < ?t" using ok unfolding server_ok_def by blast
    then show False by simp
  qed
  have free: "sr\<lparr>sr_clnt_mutex := Mutex_held, sr_clnt_mutex := Mutex_free\<rparr> = sr" using sr(2) by (cases sr) simp
  have "srvs ?w1 s = Some ?sr" "sr_clientPool ?sr = Pool_live pool" using sr(3) by simp_all
  note alloc = alloc_put [OF this]
  show ?thesis
  proof (cases "ext_null (outcomes w ?t)")
    case True
    let ?v = "next_tick w"
    have "alloc_and_init_client s ?w1 = Some (None, next_tick ?w1)"
      using True by (simp add: alloc_and_init_client_def alloc)
    moreover have "unlock_clients s (next_tick ?w1) = Some ?v"
      using sr(1) free by (cases w) (simp add: unlock_clients_def upd_srv_def next_tick_def fun_upd_idem)
    ultimately have "add_client acceptor closer s fd w = Some (None, ?v)"
      using sr(1) by (simp add: add_client_def lock_eq [OF sr(1,2)])
    moreover have "server_ok ?v s" by (rule server_ok_next [OF ok]) (simp_all add: next_tick_def)
    ultimately show ?thesis
      by (intro exI [of _ ?v]) (simp add: clients_of_def, simp add: next_tick_def)
  next
    case alloc_ok: False
    have put1: "put s x c cl rc ((next_tick w)\<lparr>srvs := (srvs w)(s \<mapsto> y)\<rparr>) = put s x c cl rc (next_tick w)" for x y c cl rc
      by (cases w) (simp add: put_def next_tick_def)
    have live: "\<forall>c \<in> set (sr_clients ?sr2). clis (next_tick w) c \<noteq> None"
      using server_ok_live [OF ok] sr(4) by (simp add: next_tick_def)
    obtain cid where cid:
      "get_next_cid s (put s ?sr2 ?t cleared_client cleared_db (next_tick w)) =
        Some (cid, put s (?sr2\<lparr>sr_lastCid := cid\<rparr>) ?t cleared_client cleared_db (next_tick w))"
      by (rule next_cid_put [OF live]) (use new len sr(4) in simp_all)
    let ?cl = "cleared_client\<lparr>cl_cid := cid\<rparr>"
    let ?put = "put s (?sr2\<lparr>sr_lastCid := cid\<rparr>) ?t ?cl"
    have init: "\<exists>r rc v. af_ipc_util_init_requests (Some ?t) (?put cleared_db (next_tick w)) = Some (r, ?put rc v) \<and>
        r < 0 \<and> ctls v = ctls w \<and> srvs v = srvs w \<and> clis v = clis w \<and> reqs v = reqs w \<and> events v = events w \<and>
        io_log v = io_log w \<and> tick w \<le> tick v"
    proof (cases "ext_null (outcomes w (tick w + 1))")
      case True
      then have "af_ipc_util_init_requests (Some ?t) (?put cleared_db (next_tick w)) =
          Some (-1, ?put (open_db Pool_null False) (set_errno 28 (next_tick (next_tick w))))"
        by (simp add: init_put) (simp add: next_tick_def)
      then show ?thesis
        by (intro exI [of _ "-1"] exI [of _ "open_db Pool_null False"]
            exI [of _ "set_errno 28 (next_tick (next_tick w))"]) (simp, simp add: next_tick_def set_errno_def)
    next
      case False
      let ?r = "ext_ret (outcomes w (tick w + 2))"
      have r: "?r < 0" using env alloc_ok False by simp
      with False have "af_ipc_util_init_requests (Some ?t) (?put cleared_db (next_tick w)) =
          Some (?r, ?put (open_db (Pool_live []) False) (next_tick (next_tick (next_tick w))))"
        by (simp add: init_put Let_def) (simp add: next_tick_def)
      with r show ?thesis
        by (intro exI [of _ ?r] exI [of _ "open_db (Pool_live []) False"]
            exI [of _ "next_tick (next_tick (next_tick w))"]) (simp, simp add: next_tick_def)
    qed
    then obtain r rc v where v: "af_ipc_util_init_requests (Some ?t)
        (put s (?sr2\<lparr>sr_lastCid := cid\<rparr>) ?t ?cl cleared_db (next_tick w)) =
        Some (r, put s (?sr2\<lparr>sr_lastCid := cid\<rparr>) ?t ?cl rc v)" "r < 0"
      "ctls v = ctls w" "srvs v = srvs w" "clis v = clis w" "reqs v = reqs w" "events v = events w"
      "io_log v = io_log w" "tick w \<le> tick v" by blast
    let ?sr3 = "?sr2\<lparr>sr_lastCid := cid, sr_clientPool := Pool_live pool\<rparr>"
    let ?v1 = "v\<lparr>ctls := (ctls v)(?t := None), srvs := (srvs v)(s \<mapsto> ?sr3), clis := (clis v)(?t := None)\<rparr>"
    let ?v2 = "v\<lparr>ctls := (ctls v)(?t := None), srvs := (srvs v)(s \<mapsto> sr\<lparr>sr_lastCid := cid\<rparr>), clis := (clis v)(?t := None)\<rparr>"
    have "alloc_and_init_client s ?w1 = Some (None, ?v1)"
      using alloc_ok cid v(1,2) by (simp add: alloc_and_init_client_def alloc put1 upd_put free_put)
    moreover have "unlock_clients s ?v1 = Some ?v2"
      using sr(2,3) by (cases v; cases sr) (simp add: unlock_clients_def upd_srv_def)
    ultimately have "add_client acceptor closer s fd w = Some (None, ?v2)"
      by (simp add: add_client_def lock_eq [OF sr(1,2)])
    moreover have "server_ok ?v2 s"
      by (rule server_ok_take_back [OF ok sr(1) new closed]) (simp_all add: v)
    ultimately show ?thesis
      using new sr(1,4) by (intro exI [of _ ?v2]) (auto simp: clients_of_def v)
  qed
qed

text \<open>Without an event, the mutex is locked a second time.\<close>

lemma add_client_relocks:
  fixes w :: "'a server_world_scheme"
  assumes ok: "server_ok w s" and len: "length (clients_of w s) < 65535"
    and env: "\<not> ext_null (outcomes w (tick w))" "\<not> ext_null (outcomes w (tick w + 1))"
      "ext_ret (outcomes w (tick w + 2)) = 0" "ext_null (outcomes w (tick w + 3))"
  shows "add_client acceptor closer s fd w = None"
proof -
  obtain sr pool where sr: "srvs w s = Some sr" "sr_clnt_mutex sr = Mutex_free" "sr_clientPool sr = Pool_live pool"
    "clients_of w s = sr_clients sr" by (rule server_okE [OF ok])
  let ?t = "tick w" and ?sr = "sr\<lparr>sr_clnt_mutex := Mutex_held\<rparr>"
  let ?w1 = "w\<lparr>srvs := (srvs w)(s \<mapsto> ?sr)\<rparr>"
  let ?sr2 = "?sr\<lparr>sr_clientPool := Pool_live (?t # pool)\<rparr>"
  have new: "?t \<notin> set (sr_clients sr)" using not_a_client [OF ok] sr(4) by simp
  have put1: "put s x c cl rc ((next_tick w)\<lparr>srvs := (srvs w)(s \<mapsto> y)\<rparr>) = put s x c cl rc (next_tick w)" for x y c cl rc
    by (cases w) (simp add: put_def next_tick_def)
  have "srvs ?w1 s = Some ?sr" "sr_clientPool ?sr = Pool_live pool" using sr(3) by simp_all
  note alloc = alloc_put [OF this]
  have live: "\<forall>c \<in> set (sr_clients ?sr2). clis (next_tick w) c \<noteq> None"
    using server_ok_live [OF ok] sr(4) by (simp add: next_tick_def)
  obtain cid where cid: "get_next_cid s (put s ?sr2 ?t cleared_client cleared_db (next_tick w)) =
      Some (cid, put s (?sr2\<lparr>sr_lastCid := cid\<rparr>) ?t cleared_client cleared_db (next_tick w))"
    by (rule next_cid_put [OF live]) (use new len sr(4) in simp_all)
  have sel: "tick (next_tick v) = Suc (tick v)" "outcomes (next_tick v) = outcomes v" for v :: "'a server_world_scheme"
    by (simp_all add: next_tick_def)
  let ?sr4 = "?sr2\<lparr>sr_lastCid := cid, sr_clients := ?t # sr_clients sr\<rparr>"
  let ?w4 = "next_tick (next_tick (next_tick w))"
  have alloc_init: "alloc_and_init_client s ?w1 = Some (Some ?t,
      put s ?sr4 ?t (cleared_client\<lparr>cl_cid := cid\<rparr>) (open_db (Pool_live []) True) ?w4)"
    using env cid by (simp add: alloc_and_init_client_def alloc put1 upd_put init_put sel Let_def)
  have ev: "fst (event_new (On_recv ?t) ?w4) = None"
    using env(4) by (simp add: event_new_def ext_now_def sel numeral_eq_Suc)
  have held: "lock_clients s (put s x c cl rc v) = None" if "sr_clnt_mutex x = Mutex_held" for x c cl rc and v :: "'a server_world_scheme"
    using that by (simp add: lock_clients_def)
  show ?thesis
    using ev by (simp add: add_client_def lock_eq [OF sr(1,2)] alloc_init upd_put event_new_put case_prod_beta
        close_client_def put_frame held cleared_client_def)
qed

section \<open>Accepting\<close>

lemma sys_call_ok: "server_ok w s \<Longrightarrow> server_ok (snd (sys_call w)) s"
  by (rule server_ok_next [of w]) (simp_all add: sys_call_def Let_def next_tick_def set_errno_def)

lemma sys_call_eq: "sys_call w = (ext_ret (outcomes w (tick w)), next_tick (if ext_ret (outcomes w (tick w)) < 0
    then set_errno (ext_errno (outcomes w (tick w))) w else w))"
  by (simp add: sys_call_def Let_def ext_now_def)

text \<open>\<^verbatim>\<open>accept\<close> fails.\<close>

lemma on_accept_low:
  assumes "server_ok w s" "evt AND EV_READ \<noteq> 0" "ext_ret (outcomes w (tick w)) < 0"
  shows "\<exists>w1. on_accept acceptor closer evt s w = Some w1 \<and> server_ok w1 s \<and>
    clients_of w1 s = clients_of w s \<and> clis w1 = clis w \<and> events w1 = events w \<and> io_log w1 = io_log w"
  using assms sys_call_ok [OF assms(1)]
  by (simp add: on_accept_def sys_call_eq clients_of_def) (simp add: next_tick_def set_errno_def)

text \<open>The descriptor is too large, or there is no client for it.\<close>

lemma on_accept_fails:
  fixes w :: "'a server_world_scheme"
  assumes ok: "server_ok w s" and len: "length (clients_of w s) < 65535" and evt: "evt AND EV_READ \<noteq> 0"
  defines "fd \<equiv> ext_ret (outcomes w (tick w))"
  assumes fail: "0 \<le> fd \<and> (1024 < fd \<or> ext_null (outcomes w (tick w + 1)) \<or> ext_null (outcomes w (tick w + 2)) \<or>
      ext_ret (outcomes w (tick w + 3)) < 0)"
  shows "\<exists>w1. on_accept acceptor closer evt s w = Some w1 \<and> server_ok w1 s \<and> clients_of w1 s = clients_of w s \<and>
    (\<forall>c \<in> set (clients_of w s). clis w1 c = clis w c) \<and> events w1 = events w \<and> io_log w1 = io_log w @ [Closed fd]"
proof -
  let ?v = "next_tick w"
  have sel: "tick ?v = Suc (tick w)" "outcomes ?v = outcomes w" "clis ?v = clis w" "events ?v = events w" "io_log ?v = io_log w"
    "clients_of ?v s = clients_of w s" by (simp_all add: next_tick_def clients_of_def)
  have v: "server_ok ?v s" by (rule server_ok_next [OF ok]) (simp_all add: next_tick_def)
  have call: "sys_call w = (fd, ?v)" using fail by (simp add: sys_call_eq fd_def)
  have log: "server_ok (log_io x u) s \<and> clients_of (log_io x u) s = clients_of u s \<and> clis (log_io x u) = clis u \<and>
      events (log_io x u) = events u \<and> io_log (log_io x u) = io_log u @ [x]"
    if "server_ok u s" for x and u :: "'a server_world_scheme"
    using server_ok_next [OF that, of "log_io x u"] by (simp add: log_io_def clients_of_def)
  have num: "tick w + 2 = Suc (Suc (tick w))" "tick w + 3 = Suc (Suc (Suc (tick w)))" by simp_all
  show ?thesis
  proof (cases "1024 < fd")
    case True
    with fail evt log [OF v] show ?thesis by (simp add: on_accept_def call sel)
  next
    case False
    with fail have "ext_null (outcomes ?v (tick ?v)) \<or> ext_null (outcomes ?v (tick ?v + 1)) \<or>
        ext_ret (outcomes ?v (tick ?v + 2)) < 0" by (auto simp: num sel)
    from add_client_fails [OF v _ this, of acceptor closer fd] obtain w1 where
      w1: "add_client acceptor closer s fd ?v = Some (None, w1)" "server_ok w1 s" "clients_of w1 s = clients_of w s"
        "\<forall>c \<in> set (clients_of w s). clis w1 c = clis w c" "events w1 = events w" "io_log w1 = io_log w"
      using len by (auto simp: sel)
    with False fail evt log [OF w1(2)] show ?thesis by (simp add: on_accept_def call)
  qed
qed

lemma on_accept_relocks:
  fixes w :: "'a server_world_scheme"
  assumes ok: "server_ok w s" and len: "length (clients_of w s) < 65535" and evt: "evt AND EV_READ \<noteq> 0"
  defines "fd \<equiv> ext_ret (outcomes w (tick w))"
  assumes env: "0 \<le> fd \<and> fd \<le> 1024 \<and> \<not> ext_null (outcomes w (tick w + 1)) \<and> \<not> ext_null (outcomes w (tick w + 2)) \<and>
      ext_ret (outcomes w (tick w + 3)) = 0 \<and> ext_null (outcomes w (tick w + 4))"
  shows "on_accept acceptor closer evt s w = None"
proof -
  have v: "server_ok (next_tick w) s" by (rule server_ok_next [OF ok]) (simp_all add: next_tick_def)
  have call: "sys_call w = (fd, next_tick w)" using env by (simp add: sys_call_eq fd_def)
  have num: "tick w + 2 = Suc (Suc (tick w))" "tick w + 3 = Suc (Suc (Suc (tick w)))"
    "tick w + 4 = Suc (Suc (Suc (Suc (tick w))))" by simp_all
  have "add_client acceptor closer s fd (next_tick w) = None"
    by (rule add_client_relocks [OF v])
      (use env len in \<open>simp_all add: num next_tick_def clients_of_def\<close>)
  with env evt show ?thesis by (simp add: on_accept_def call)
qed

end
