(* ===== verification/Server_Open.thy ===== *)
theory Server_Open
  imports Server_Fail
begin

text \<open>
  What \<^verbatim>\<open>af_ipcs_open\<close> and \<^verbatim>\<open>af_ipcs_close\<close> of \<^verbatim>\<open>src/pkg/src/af_ipc_server.c\<close> do: the steps of opening
  on a state with the new server structure in it, and the state a close leaves.
\<close>

section \<open>States with a new server\<close>

definition with_srv :: "nat \<Rightarrow> af_ipcs_server \<Rightarrow> 'a server_world_scheme \<Rightarrow> 'a server_world_scheme" where
  "with_srv s sr w = w\<lparr>srvs := (srvs w)(s \<mapsto> sr)\<rparr>"

lemma with_srv_simps [simp]:
  "srvs (with_srv s sr w) = (srvs w)(s \<mapsto> sr)" "clis (with_srv s sr w) = clis w"
  "ctls (with_srv s sr w) = ctls w" "reqs (with_srv s sr w) = reqs w" "events (with_srv s sr w) = events w"
  "io_log (with_srv s sr w) = io_log w" "tick (with_srv s sr w) = tick w" "outcomes (with_srv s sr w) = outcomes w"
  "upd_srv s f (with_srv s sr w) = Some (with_srv s (f sr) w)"
  by (cases w; simp add: with_srv_def upd_srv_def)+

lemma with_srv_frame:
  "next_tick (with_srv s sr w) = with_srv s sr (next_tick w)"
  "set_errno e (with_srv s sr w) = with_srv s sr (set_errno e w)"
  "log_io x (with_srv s sr w) = with_srv s sr (log_io x w)"
  "ext_now (with_srv s sr w) = ext_now w"
  by (cases w; simp add: with_srv_def next_tick_def set_errno_def log_io_def ext_now_def)+

lemma sys_call_with_srv: "sys_call (with_srv s sr w) = (fst (sys_call w), with_srv s sr (snd (sys_call w)))"
  by (simp add: sys_call_def with_srv_frame Let_def)

lemma event_with_srv:
  "event_new h (with_srv s sr w) = (fst (event_new h w), with_srv s sr (snd (event_new h w)))"
  "event_add e tv (with_srv s sr w) = map_option (with_srv s sr) (event_add e tv w)"
  by (cases w; simp add: event_new_def event_add_def with_srv_def next_tick_def set_errno_def ext_now_def
      split: option.split)+

section \<open>Closing\<close>

text \<open>The state after a close: the structures of the server and its clients are gone.\<close>

definition abandoned :: "nat \<Rightarrow> 'a server_world_scheme \<Rightarrow> 'a server_world_scheme" where
  "abandoned s w = (case srvs w s of None \<Rightarrow> w
     | Some sr \<Rightarrow> (let pool = (case sr_clientPool sr of Pool_live pool \<Rightarrow> pool | _ \<Rightarrow> []) in
         w\<lparr>srvs := (srvs w)(s := None),
           clis := (\<lambda>c. if c \<in> set pool then None else clis w c),
           ctls := (\<lambda>c. if c \<in> set pool then None else ctls w c),
           events := (case sr_listener_event sr of None \<Rightarrow> events w | Some e \<Rightarrow> (events w)(e := None)),
           io_log := io_log w @ (if sr_server_fd sr \<noteq> -1
             then [Shutdown (sr_server_fd sr) SHUT_RD, Closed (sr_server_fd sr)] else [])\<rparr>))"

lemma close_abandons:
  assumes sr: "srvs w s = Some sr" and flags: "sr_flags sr = 0" and pool: "sr_clientPool sr \<noteq> Pool_freed"
    and ev: "\<And>e. sr_listener_event sr = Some e \<Longrightarrow> events w e \<noteq> None"
  shows "af_ipcs_close closer (Some s) w = Some (abandoned s w)"
  using sr flags pool ev
  by (cases w; cases "sr_listener_event sr"; cases "sr_clientPool sr"; cases "sr_server_fd sr = -1")
    (auto simp: af_ipcs_close_def abandoned_def log_io_def event_free_def destroy_clients_def Let_def cong: if_cong)

section \<open>Opening\<close>

definition open_srv ::
    "int \<Rightarrow> nat option \<Rightarrow> nat option \<Rightarrow> mutex \<Rightarrow> pool \<Rightarrow> nat option \<Rightarrow> nat \<Rightarrow> nat option \<Rightarrow> nat option \<Rightarrow> af_ipcs_server" where
  "open_srv fd base e mutex pool acb actx rcb ccb = \<lparr>sr_server_fd = fd, sr_base = base, sr_listener_event = e,
     sr_clnt_mutex = mutex, sr_clients = [], sr_clientPool = pool, sr_lastCid = 0, sr_flags = 0,
     sr_acceptCallback = acb, sr_acceptContext = actx, sr_receiveCallback = rcb, sr_closeCallback = ccb\<rparr>"

definition open_fails :: "(nat \<Rightarrow> ext) \<Rightarrow> nat \<Rightarrow> bool" where
  "open_fails o' t \<longleftrightarrow> ext_null (o' (t + 1)) \<or> ext_ret (o' (t + 2)) < 0 \<or> ext_ret (o' (t + 3)) \<noteq> 0 \<or>
     ext_ret (o' (t + 4)) < 0 \<or> ext_ret (o' (t + 5)) < 0 \<or> ext_ret (o' (t + 6)) \<noteq> 0 \<or>
     ext_null (o' (t + 7)) \<or> ext_ret (o' (t + 8)) \<noteq> 0"

lemma calloc_eq: "calloc_srv w = (if ext_null (outcomes w (tick w)) then (None, next_tick w)
    else (Some (tick w), with_srv (tick w) cleared_srv (next_tick w)))"
  by (cases w) (simp add: calloc_srv_def ext_now_def with_srv_def next_tick_def)

lemma open_sel [simp]:
  "tick (next_tick v) = Suc (tick v)" "outcomes (next_tick v) = outcomes v"
  "tick (set_errno e v) = tick v" "outcomes (set_errno e v) = outcomes v"
  "tick (log_io x v) = tick v" "outcomes (log_io x v) = outcomes v"
  "ctls (next_tick v) = ctls v" "ctls (set_errno e v) = ctls v" "ctls (log_io x v) = ctls v"
  "reqs (next_tick v) = reqs v" "reqs (set_errno e v) = reqs v" "reqs (log_io x v) = reqs v"
  "events (next_tick v) = events v" "events (set_errno e v) = events v" "events (log_io x v) = events v"
  "io_log (next_tick v) = io_log v" "io_log (set_errno e v) = io_log v" "io_log (log_io x v) = io_log v @ [x]"
  "srvs (log_io x w) = srvs w" "clis (log_io x w) = clis w"
  by (simp_all add: next_tick_def set_errno_def log_io_def)

text \<open>When every call succeeds.\<close>

lemma server_open_eq:
  fixes w :: "'a server_world_scheme"
  defines "t \<equiv> tick w" and "o' \<equiv> outcomes w"
  assumes len: "length (prefix @ name) < 128" and env: "\<not> ext_null (o' t)" "\<not> open_fails o' t"
  shows "af_ipcs_open prefix closer (Some b) name acb actx rcb ccb w = Some (Some t,
    with_srv t (open_srv (ext_ret (o' (t + 2))) (Some b) (Some (t + 7)) Mutex_free (Pool_live []) acb actx rcb ccb)
      (w\<lparr>tick := t + 9, events := (events w)(t + 7 \<mapsto> \<lparr>ev_handler = On_accept t, ev_added = True, ev_timeout = None\<rparr>),
        io_log := io_log w @ [Unlink (take 107 (prefix @ name)), Bind (ext_ret (o' (t + 2))) (take 107 (prefix @ name)),
          Listen (ext_ret (o' (t + 2)))]\<rparr>))"
proof -
  have num: "t + 1 = Suc t" "t + 2 = Suc (Suc t)" "t + 3 = Suc (Suc (Suc t))" "t + 4 = Suc (Suc (Suc (Suc t)))"
    "t + 5 = Suc (Suc (Suc (Suc (Suc t))))" "t + 6 = Suc (Suc (Suc (Suc (Suc (Suc t)))))"
    "t + 7 = Suc (Suc (Suc (Suc (Suc (Suc (Suc t))))))" "t + 8 = Suc (Suc (Suc (Suc (Suc (Suc (Suc (Suc t)))))))"
    "t + 9 = Suc (Suc (Suc (Suc (Suc (Suc (Suc (Suc (Suc t))))))))" by simp_all
  note simps = af_ipcs_open_def open_socket_def calloc_eq with_srv_frame sys_call_with_srv sys_call_def
    event_with_srv ext_now_def t_def [symmetric] o'_def [symmetric] num open_fails_def Let_def
  show ?thesis
    using len env by (simp add: simps)
      (simp add: event_new_def event_add_def sys_call_with_srv sys_call_def event_with_srv ext_now_def Let_def
        o'_def t_def next_tick_def log_io_def open_srv_def cleared_srv_def, simp add: with_srv_def upd_srv_def)
qed

text \<open>When one fails, what was made so far is undone.\<close>

lemma failed_from:
  assumes "r = open_error closer t (with_srv t sr v)"
    and "sr_flags sr = 0" "sr_clientPool sr = Pool_null \<or> sr_clientPool sr = Pool_live []"
    and "sr_listener_event sr = None \<and> events v = events w \<or>
      sr_listener_event sr = Some e \<and> events w e = None \<and> (\<exists>x. events v = (events w)(e \<mapsto> x))"
    and "srvs v = srvs w" "clis v = clis w" "ctls v = ctls w" "reqs v = reqs w" "io_log v = io_log w @ ys"
  shows "\<exists>w1. r = Some (None, w1) \<and> srvs w1 = (srvs w)(t := None) \<and> clis w1 = clis w \<and> ctls w1 = ctls w \<and>
    reqs w1 = reqs w \<and> events w1 = events w \<and>
    io_log w1 = io_log w @ ys @ (if sr_server_fd sr = -1 then []
      else [Shutdown (sr_server_fd sr) SHUT_RD, Closed (sr_server_fd sr)])"
proof -
  have "af_ipcs_close closer (Some t) (with_srv t sr v) = Some (abandoned t (with_srv t sr v))"
    by (rule close_abandons) (use assms(2-4) in auto)
  then have "r = Some (None, abandoned t (with_srv t sr v))" by (simp add: assms(1) open_error_def)
  moreover have "events (abandoned t (with_srv t sr v)) = events w"
    using assms(4) by (auto simp: abandoned_def Let_def fun_upd_idem)
  ultimately show ?thesis
    using assms(3,5-9) by (intro exI [of _ "abandoned t (with_srv t sr v)"]) (auto simp: abandoned_def Let_def)
qed

text \<open>The system calls of opening, one after the other.\<close>

lemma sys_call_sel [simp]:
  "fst (sys_call v) = ext_ret (ext_now v)" "tick (snd (sys_call v)) = Suc (tick v)"
  "outcomes (snd (sys_call v)) = outcomes v" "ctls (snd (sys_call v)) = ctls v" "reqs (snd (sys_call v)) = reqs v"
  "events (snd (sys_call v)) = events v" "io_log (snd (sys_call v)) = io_log v"
  "srvs (snd (sys_call w)) = srvs w" "clis (snd (sys_call w)) = clis w"
  by (simp_all add: sys_call_def Let_def)

lemma event_new_sel:
  "fst (event_new h v) = (if ext_null (ext_now v) then None else Some (tick v))"
  "tick (snd (event_new h v)) = Suc (tick v)" "outcomes (snd (event_new h v)) = outcomes v"
  "ctls (snd (event_new h v)) = ctls v" "reqs (snd (event_new h v)) = reqs v" "io_log (snd (event_new h v)) = io_log v"
  "events (snd (event_new h v)) = (if ext_null (ext_now v) then events v
    else (events v)(tick v \<mapsto> \<lparr>ev_handler = h, ev_added = False, ev_timeout = None\<rparr>))"
  "srvs (snd (event_new h w)) = srvs w" "clis (snd (event_new h w)) = clis w"
  by (simp_all add: event_new_def)

definition opens :: "nat \<Rightarrow> string \<Rightarrow> nat \<Rightarrow> 'a server_world_scheme \<Rightarrow> 'a server_world_scheme" where
  "opens s path n w = (let fd = ext_ret (outcomes w (tick w + 2));
       w2 = snd (sys_call (next_tick (next_tick w))); w3 = snd (sys_call w2);
       w4 = snd (sys_call (log_io (Bind fd path) (log_io (Unlink path) w3)));
       w5 = snd (sys_call (log_io (Listen fd) w4)); w6 = snd (sys_call w5);
       w7 = snd (event_new (On_accept s) w6); w8 = snd (sys_call w7)
     in [set_errno 28 (next_tick (next_tick w)), w2, w3, w4, w5, w6, w7, w8] ! n)"

definition opens_log :: "int \<Rightarrow> string \<Rightarrow> nat \<Rightarrow> io list" where
  "opens_log fd path n = (if n < 3 then [] else if n = 3 then [Unlink path, Bind fd path]
     else [Unlink path, Bind fd path, Listen fd])"

lemma opens_sel:
  "srvs (opens s path n w) = srvs w" "clis (opens s path n w) = clis w" "ctls (opens s path n w) = ctls w"
  "reqs (opens s path n w) = reqs w"
  "io_log (opens s path n w) = io_log w @ opens_log (ext_ret (outcomes w (tick w + 2))) path n"
  if "n < 8"
proof -
  have n: "n \<in> {0, 1, 2, 3, 4, 5, 6, 7}" using that by auto
  show "srvs (opens s path n w) = srvs w" "clis (opens s path n w) = clis w" "ctls (opens s path n w) = ctls w"
    "reqs (opens s path n w) = reqs w"
    "io_log (opens s path n w) = io_log w @ opens_log (ext_ret (outcomes w (tick w + 2))) path n"
    using n by (auto simp: opens_def opens_log_def Let_def event_new_sel)
qed

lemma opens_events:
  assumes "n < 8"
  shows "events (opens s path n w) = (if n < 6 \<or> ext_null (outcomes w (tick w + 7)) then events w
    else (events w)(tick w + 7 \<mapsto> \<lparr>ev_handler = On_accept s, ev_added = False, ev_timeout = None\<rparr>))"
proof -
  have "n \<in> {0, 1, 2, 3, 4, 5, 6, 7}" using assms by auto
  moreover have num: "tick w + 7 = Suc (Suc (Suc (Suc (Suc (Suc (Suc (tick w)))))))" by simp
  ultimately show ?thesis by (auto simp: opens_def Let_def event_new_sel ext_now_def num)
qed

text \<open>The structure at the label \<^verbatim>\<open>error\<close>.\<close>

definition unfinished :: "int \<Rightarrow> nat option \<Rightarrow> mutex \<Rightarrow> pool \<Rightarrow> af_ipcs_server" where
  "unfinished fd e mutex pool = open_srv fd None e mutex pool None 0 None None"

lemma open_table:
  fixes w :: "'a server_world_scheme" and closer :: "'a client_closer" and prefix name :: string
  defines "t \<equiv> tick w" and "o' \<equiv> outcomes w" and "fd \<equiv> ext_ret (outcomes w (tick w + 2))"
  assumes len: "length (prefix @ name) < 128" and env: "\<not> ext_null (o' t)" "open_fails o' t"
  defines "err \<equiv> \<lambda>n sr. open_error closer t (with_srv t sr (opens t (take 107 (prefix @ name)) n w))"
  shows "af_ipcs_open prefix closer (Some b) name acb actx rcb ccb w =
    (if ext_null (o' (t + 1)) then err 0 (unfinished (-1) None Mutex_unset Pool_null)
     else if fd < 0 then err 1 (unfinished fd None Mutex_unset (Pool_live []))
     else if ext_ret (o' (t + 3)) \<noteq> 0 then err 2 (unfinished fd None Mutex_unset (Pool_live []))
     else if ext_ret (o' (t + 4)) < 0 then err 3 (unfinished fd None Mutex_unset (Pool_live []))
     else if ext_ret (o' (t + 5)) < 0 then err 4 (unfinished fd None Mutex_unset (Pool_live []))
     else if ext_ret (o' (t + 6)) \<noteq> 0 then err 5 (unfinished fd None Mutex_unset (Pool_live []))
     else if ext_null (o' (t + 7)) then err 6 (unfinished fd None Mutex_free (Pool_live []))
     else err 7 (unfinished fd (Some (t + 7)) Mutex_free (Pool_live [])))"
proof -
  have num: "t + 1 = Suc t" "t + 2 = Suc (Suc t)" "t + 3 = Suc (Suc (Suc t))" "t + 4 = Suc (Suc (Suc (Suc t)))"
    "t + 5 = Suc (Suc (Suc (Suc (Suc t))))" "t + 6 = Suc (Suc (Suc (Suc (Suc (Suc t)))))"
    "t + 7 = Suc (Suc (Suc (Suc (Suc (Suc (Suc t))))))" "t + 8 = Suc (Suc (Suc (Suc (Suc (Suc (Suc (Suc t)))))))"
    by simp_all
  have fd: "fd = ext_ret (o' (Suc (Suc t)))" by (simp add: fd_def o'_def t_def)
  note simps = af_ipcs_open_def open_socket_def calloc_eq with_srv_frame sys_call_with_srv
    event_with_srv ext_now_def t_def [symmetric] o'_def [symmetric] num Let_def err_def case_prod_beta event_new_sel
  note goal = opens_def unfinished_def open_srv_def cleared_srv_def fd
  show ?thesis
    using len env unfolding open_fails_def by (simp add: simps goal cong: if_cong) blast
qed

text \<open>
  When a call fails, what was made so far is undone, except that the file of an address that was
  bound is not removed: the calls made before are those up to the one that failed, and only the
  socket is shut down and closed.
\<close>

definition opening_calls :: "(nat \<Rightarrow> ext) \<Rightarrow> nat \<Rightarrow> string \<Rightarrow> io list" where
  "opening_calls o' t path = (let fd = ext_ret (o' (t + 2)) in
     if ext_null (o' (t + 1)) \<or> fd < 0 \<or> ext_ret (o' (t + 3)) \<noteq> 0 then []
     else if ext_ret (o' (t + 4)) < 0 then [Unlink path, Bind fd path]
     else [Unlink path, Bind fd path, Listen fd])"

definition closing_calls :: "(nat \<Rightarrow> ext) \<Rightarrow> nat \<Rightarrow> io list" where
  "closing_calls o' t = (let fd = ext_ret (o' (t + 2)) in
     if ext_null (o' (t + 1)) \<or> fd = -1 then [] else [Shutdown fd SHUT_RD, Closed fd])"

lemma open_failure:
  fixes w :: "'a server_world_scheme" and closer :: "'a client_closer" and prefix name :: string
  defines "t \<equiv> tick w" and "o' \<equiv> outcomes w" and "fd \<equiv> ext_ret (outcomes w (tick w + 2))"
  assumes len: "length (prefix @ name) < 128" and env: "\<not> ext_null (o' t)" "open_fails o' t"
    and ev: "events w (t + 7) = None"
  shows "\<exists>w1. af_ipcs_open prefix closer (Some b) name acb actx rcb ccb w = Some (None, w1) \<and>
    srvs w1 = (srvs w)(t := None) \<and> clis w1 = clis w \<and> ctls w1 = ctls w \<and> reqs w1 = reqs w \<and> events w1 = events w \<and>
    io_log w1 = io_log w @ opening_calls o' t (take 107 (prefix @ name)) @ closing_calls o' t"
proof -
  let ?path = "take 107 (prefix @ name)"
  have undone: "\<exists>w1. open_error closer t (with_srv t (unfinished x e m pool) (opens t ?path n w)) = Some (None, w1) \<and>
      srvs w1 = (srvs w)(t := None) \<and> clis w1 = clis w \<and> ctls w1 = ctls w \<and> reqs w1 = reqs w \<and> events w1 = events w \<and>
      io_log w1 = io_log w @ opens_log fd ?path n @ (if x = -1 then [] else [Shutdown x SHUT_RD, Closed x])"
    if "n < 8" "pool = Pool_null \<or> pool = Pool_live []"
      "e = None \<and> (n < 6 \<or> ext_null (o' (t + 7))) \<or> e = Some (t + 7) \<and> \<not> n < 6 \<and> \<not> ext_null (o' (t + 7))"
    for x e m pool n
  proof -
    let ?sr = "unfinished x e m pool" and ?v = "opens t ?path n w"
    have sr: "sr_flags ?sr = 0" "sr_clientPool ?sr = Pool_null \<or> sr_clientPool ?sr = Pool_live []"
      "sr_listener_event ?sr = e" "sr_server_fd ?sr = x"
      using that(2) by (simp_all add: unfinished_def open_srv_def)
    have evs: "sr_listener_event ?sr = None \<and> events ?v = events w \<or>
      sr_listener_event ?sr = Some (t + 7) \<and> events w (t + 7) = None \<and> (\<exists>y. events ?v = (events w)(t + 7 \<mapsto> y))"
      using that(3) ev unfolding opens_events [OF that(1)] sr(3) t_def o'_def by auto
    show ?thesis
      using failed_from [OF refl sr(1,2) evs opens_sel [OF that(1)], of closer] unfolding sr(4) fd_def .
  qed
  note table = open_table [OF len env [unfolded t_def o'_def], of closer b acb actx rcb ccb, folded t_def o'_def fd_def]
  have calls: "opening_calls o' t p = (if ext_null (o' (t + 1)) \<or> fd < 0 \<or> ext_ret (o' (t + 3)) \<noteq> 0 then []
      else if ext_ret (o' (t + 4)) < 0 then [Unlink p, Bind fd p] else [Unlink p, Bind fd p, Listen fd])"
    "closing_calls o' t = (if ext_null (o' (t + 1)) \<or> fd = -1 then [] else [Shutdown fd SHUT_RD, Closed fd])" for p
    by (simp_all add: opening_calls_def closing_calls_def fd_def o'_def t_def Let_def)
  consider "ext_null (o' (t + 1))"
    | "\<not> ext_null (o' (t + 1))" "fd < 0"
    | "\<not> ext_null (o' (t + 1))" "\<not> fd < 0" "ext_ret (o' (t + 3)) \<noteq> 0"
    | "\<not> ext_null (o' (t + 1))" "\<not> fd < 0" "ext_ret (o' (t + 3)) = 0" "ext_ret (o' (t + 4)) < 0"
    | "\<not> ext_null (o' (t + 1))" "\<not> fd < 0" "ext_ret (o' (t + 3)) = 0" "\<not> ext_ret (o' (t + 4)) < 0"
    by blast
  then show ?thesis
  proof cases
    case 1
    then show ?thesis using undone [of 0 Pool_null None "-1"] by (simp add: table calls opens_log_def)
  next
    case 2
    then show ?thesis using undone [of 1 "Pool_live []" None fd] by (simp add: table calls opens_log_def)
  next
    case 3
    then show ?thesis using undone [of 2 "Pool_live []" None fd] by (simp add: table calls opens_log_def)
  next
    case 4
    then show ?thesis using undone [of 3 "Pool_live []" None fd] by (simp add: table calls opens_log_def)
  next
    case 5
    then show ?thesis
      using undone [of 4 "Pool_live []" None fd] undone [of 5 "Pool_live []" None fd]
        undone [of 6 "Pool_live []" None fd] undone [of 7 "Pool_live []" "Some (t + 7)" fd]
      by (simp add: table calls opens_log_def split: if_splits)
  qed
qed

end
