(* ===== verification/Server_Correct.thy ===== *)
theory Server_Correct
  imports Server_Open Ipc_Correct
begin

text \<open>
  The properties of the server \<^verbatim>\<open>src/pkg/src/af_ipc_server.c\<close>: opening, client ids, accepting,
  routing of messages, the receive handler, closing a client and closing the server.
\<close>

section \<open>A server to look at\<close>

text \<open>
  A server at 20 that listens on 3, with one client at 30, of id 1, on socket 7. It has data at
  the next call; sends take up to 900 bytes.
\<close>

definition srv_env :: "nat \<Rightarrow> ext" where
  "srv_env n = \<lparr>ext_null = False, ext_ret = (if n \<in> {23, 26, 28, 32, 37} then 0 else 900), ext_errno = 0,
     ext_recv = (if n = 34 then Inr (frame (1 OR AF_IPC_SEQNUM_NEW_REQUEST_MASK) [8]) else Inl 11)\<rparr>"

definition srv_start :: server_world where
  "srv_start = \<lparr>ctls = Map.empty, reqs = Map.empty, events = Map.empty, io_log = [], cerrno = 0, tick = 20,
     outcomes = srv_env, srvs = Map.empty, clis = Map.empty\<rparr>"

definition srv_example :: server_world where
  "srv_example = \<lparr>ctls = [30 \<mapsto> open_db (Pool_live []) True], reqs = Map.empty,
     events = [27 \<mapsto> \<lparr>ev_handler = On_accept 20, ev_added = True, ev_timeout = None\<rparr>, 33 \<mapsto> recv_ev 30],
     io_log = [], cerrno = 0, tick = 34, outcomes = srv_env,
     srvs = [20 \<mapsto> \<lparr>sr_server_fd = 3, sr_base = Some 1, sr_listener_event = Some 27, sr_clnt_mutex = Mutex_free,
       sr_clients = [30], sr_clientPool = Pool_live [30], sr_lastCid = 1, sr_flags = 0, sr_acceptCallback = Some 5,
       sr_acceptContext = 9, sr_receiveCallback = Some 6, sr_closeCallback = Some 4\<rparr>],
     clis = [30 \<mapsto> new_client 20 7 1 (Some 33)]\<rparr>"

lemma srv_example_sel [simp]:
  "clients_of srv_example 20 = [30]" "clis srv_example = [30 \<mapsto> new_client 20 7 1 (Some 33)]"
  "outcomes srv_example = srv_env" "tick srv_example = 34" "io_log srv_example = []" "reqs srv_example = Map.empty"
  "events srv_example = [27 \<mapsto> \<lparr>ev_handler = On_accept 20, ev_added = True, ev_timeout = None\<rparr>, 33 \<mapsto> recv_ev 30]"
  "cid_of srv_example 30 = 1" "fd_of srv_example 30 = 7"
  by (simp_all add: srv_example_def clients_of_def cid_of_def fd_of_def new_client_def)

lemma srv_example_ok: "server_ok srv_example 20"
proof -
  have "world_ok srv_example"
    by (simp add: world_ok_def srv_example_def db_ok_def open_db_def timer_owned_def recv_ev_def)
  then show ?thesis
    by (simp add: server_ok_def client_ok_def db_open_def open_db_def has_event_def)
      (simp add: srv_example_def db_open_def open_db_def new_client_def recv_ev_def client_ok_def has_event_def)
qed

section \<open>Client ids\<close>

text \<open>
  C24. The search for a client id ends exactly if one of the 65535 ids that are not 0 is free.
  It returns the first free id after the last one given out, in a cycle that leaves out 0, and
  changes nothing but \<^verbatim>\<open>lastCid\<close>. With 65535 clients it never returns.
\<close>

theorem get_next_cid_search:
  assumes "srvs w s \<noteq> None" "\<forall>c \<in> set (clients_of w s). clis w c \<noteq> None"
  shows "(get_next_cid s w \<noteq> None \<longleftrightarrow> (\<exists>d. d \<noteq> 0 \<and> d \<notin> cid_of w ` set (clients_of w s))) \<and>
    (\<forall>r. get_next_cid s w = Some r \<longrightarrow> fst r \<noteq> 0 \<and> fst r \<notin> cid_of w ` set (clients_of w s) \<and>
      r = (fst r, with_lastCid s (fst r) w) \<and>
      (\<exists>k. fst r = (next_cid ^^ Suc k) (lastCid_of w s) \<and>
        (\<forall>j < k. (next_cid ^^ Suc j) (lastCid_of w s) \<in> cid_of w ` set (clients_of w s))))"
proof (cases "\<exists>d. d \<noteq> 0 \<and> d \<notin> cid_of w ` set (clients_of w s)")
  case True
  then obtain d where "d \<noteq> 0" "d \<notin> cid_of w ` set (clients_of w s)" by blast
  from get_next_cid_returns [OF assms this] get_next_cid_some [OF _ assms] True show ?thesis by fastforce
next
  case False
  have "get_next_cid s w = None"
    using get_next_cid_some [OF _ assms] False by (cases "get_next_cid s w") blast+
  with False show ?thesis by simp
qed

theorem get_next_cid_search_example:
  "\<exists>w1. get_next_cid 20 srv_example = Some (2, w1)"
proof -
  have live: "srvs srv_example 20 \<noteq> None" "\<forall>c \<in> set (clients_of srv_example 20). clis srv_example c \<noteq> None"
    by simp_all (simp add: srv_example_def)
  have last: "lastCid_of srv_example 20 = 1" by (simp add: lastCid_of_def srv_example_def)
  have "(2 :: u16) \<noteq> 0" "2 \<notin> cid_of srv_example ` set (clients_of srv_example 20)" by simp_all
  then obtain r where r: "get_next_cid 20 srv_example = Some r"
    using get_next_cid_search [OF live] by blast
  then obtain k where k: "r = (fst r, with_lastCid 20 (fst r) srv_example)"
    "fst r = (next_cid ^^ Suc k) 1" "\<forall>j < k. (next_cid ^^ Suc j) 1 \<in> {1 :: u16}"
    using get_next_cid_search [OF live] by (auto simp: last)
  have two: "(next_cid ^^ Suc 0) 1 = 2" by (simp add: next_cid_def)
  have "k = 0" using k(3) two by (cases k) (auto simp del: funpow.simps)
  with k(2) two have "fst r = 2" by simp
  with r k(1) show ?thesis by metis
qed

section \<open>Accepting\<close>

text \<open>
  C25. Accepting a connection keeps the invariant of the server and adds exactly one client: at
  the head of the list, with an id that is not 0 and that no other client has, with the socket
  of the connection, a read event of its own that is added, and as context the one the accept
  callback computes from the server's accept context and the id (0 if no callback is
  registered). The other clients, all requests and what was sent stay as they are. This is for
  a descriptor up to \<^verbatim>\<open>FD_SETSIZE\<close>, an id that is left, and allocations that succeed; the other
  cases are in \<open>accept_failure\<close> below.
\<close>

theorem accept_adds_client:
  fixes w :: "'a server_world_scheme"
  assumes "server_ok w s" "srvs w s = Some sr" "length (clients_of w s) < 65535" "evt AND EV_READ \<noteq> 0"
    and "0 \<le> ext_ret (outcomes w (tick w))" "ext_ret (outcomes w (tick w)) \<le> 1024"
    and "\<not> ext_null (outcomes w (tick w + 1))" "\<not> ext_null (outcomes w (tick w + 2))"
      "ext_ret (outcomes w (tick w + 3)) = 0" "\<not> ext_null (outcomes w (tick w + 4))"
  shows "\<exists>w1 c cid e. on_accept (contextual g) closer evt s w = Some w1 \<and> server_ok w1 s \<and>
    c \<notin> set (clients_of w s) \<and> clients_of w1 s = c # clients_of w s \<and> events w e = None \<and>
    cid \<noteq> 0 \<and> cid \<notin> cid_of w ` set (clients_of w s) \<and>
    clis w1 = (clis w)(c \<mapsto> (new_client s (ext_ret (outcomes w (tick w))) cid (Some e))
      \<lparr>cl_clientContext := (case sr_acceptCallback sr of None \<Rightarrow> 0 | Some f \<Rightarrow> g (sr_acceptContext sr) cid)\<rparr>) \<and>
    events w1 = (events w)(e \<mapsto> recv_ev c) \<and> reqs w1 = reqs w \<and> io_log w1 = io_log w"
  using contextual.on_accept_adds [OF assms, of g closer] by (simp only: accept_context_def)

theorem accept_adds_client_example:
  "\<exists>w1 c cl. on_accept (contextual (\<lambda>ctx cid. ctx + unat cid)) (announcing 20 (\<lambda>_ _ _ _. [])) 2 20 srv_example = Some w1 \<and>
    clients_of w1 20 = [c, 30] \<and> cid_of w1 c \<noteq> 1 \<and> clis w1 c = Some cl \<and> cl_client_fd cl = 900 \<and>
    cl_clientContext cl = 9 + unat (cid_of w1 c)"
proof -
  let ?g = "\<lambda>ctx cid. ctx + unat cid"
  obtain sr where sr: "srvs srv_example 20 = Some sr" "sr_acceptCallback sr = Some 5" "sr_acceptContext sr = 9"
    by (simp add: srv_example_def)
  have "length (clients_of srv_example 20) < 65535" "(2 :: u16) AND EV_READ \<noteq> 0"
    by (simp_all add: EV_READ_def)
  from accept_adds_client [OF srv_example_ok sr(1) this, of ?g "announcing 20 (\<lambda>_ _ _ _. [])"]
  obtain w1 c cid e where
    "on_accept (contextual ?g) (announcing 20 (\<lambda>_ _ _ _. [])) 2 20 srv_example = Some w1"
    "clients_of w1 20 = [c, 30]" "cid \<noteq> 1"
    "clis w1 c = Some ((new_client 20 900 cid (Some e))\<lparr>cl_clientContext := 9 + unat cid\<rparr>)"
    by (auto simp: srv_env_def sr)
  then show ?thesis by (intro exI [of _ w1] exI [of _ c]) (simp add: cid_of_def new_client_def)
qed

text \<open>
  When accepting fails, the server is as before. Without memory for the client, a pool for
  its requests or a mutex, the new socket is closed and nothing else happens; a descriptor above
  \<^verbatim>\<open>FD_SETSIZE\<close> is closed at once. But when the read event cannot be created, \<^verbatim>\<open>add_client\<close>
  closes the client while it holds the mutex that \<^verbatim>\<open>close_client\<close> locks.
\<close>

theorem accept_failure:
  fixes w :: "'a server_world_scheme"
  assumes "server_ok w s" "length (clients_of w s) < 65535" "evt AND EV_READ \<noteq> 0"
  defines "fd \<equiv> ext_ret (outcomes w (tick w))"
  shows "(fd < 0 \<longrightarrow> (\<exists>w1. on_accept acceptor closer evt s w = Some w1 \<and> server_ok w1 s \<and>
      clients_of w1 s = clients_of w s \<and> clis w1 = clis w \<and> events w1 = events w \<and> io_log w1 = io_log w)) \<and>
    (0 \<le> fd \<and> (1024 < fd \<or> ext_null (outcomes w (tick w + 1)) \<or> ext_null (outcomes w (tick w + 2)) \<or>
        ext_ret (outcomes w (tick w + 3)) < 0) \<longrightarrow>
      (\<exists>w1. on_accept acceptor closer evt s w = Some w1 \<and> server_ok w1 s \<and> clients_of w1 s = clients_of w s \<and>
        (\<forall>c \<in> set (clients_of w s). clis w1 c = clis w c) \<and> events w1 = events w \<and>
        io_log w1 = io_log w @ [Closed fd])) \<and>
    (0 \<le> fd \<and> fd \<le> 1024 \<and> \<not> ext_null (outcomes w (tick w + 1)) \<and> \<not> ext_null (outcomes w (tick w + 2)) \<and>
        ext_ret (outcomes w (tick w + 3)) = 0 \<and> ext_null (outcomes w (tick w + 4)) \<longrightarrow>
      on_accept acceptor closer evt s w = None)"
  unfolding fd_def
  by (intro conjI impI on_accept_low [OF assms(1,3)] on_accept_fails [OF assms(1-3)] on_accept_relocks [OF assms(1-3)])
    simp_all

definition srv_no_event :: server_world where
  "srv_no_event = srv_example\<lparr>outcomes := (\<lambda>n. (srv_env n)\<lparr>ext_null := n = 38\<rparr>)\<rparr>"

definition srv_no_memory :: server_world where
  "srv_no_memory = srv_example\<lparr>outcomes := (\<lambda>n. (srv_env n)\<lparr>ext_null := n = 35\<rparr>)\<rparr>"

theorem accept_failure_example:
  "on_accept (contextual (\<lambda>ctx cid. ctx)) (announcing 20 (\<lambda>_ _ _ _. [])) 2 20 srv_no_event = None \<and>
   (\<exists>w1. on_accept (contextual (\<lambda>ctx cid. ctx)) (announcing 20 (\<lambda>_ _ _ _. [])) 2 20 srv_no_memory = Some w1 \<and>
     clients_of w1 20 = [30] \<and> io_log w1 = [Closed 900])"
proof -
  have ok: "server_ok srv_no_event 20" "server_ok srv_no_memory 20"
    by (rule server_ok_next [OF srv_example_ok]; simp add: srv_no_event_def srv_no_memory_def)+
  have sel: "clients_of srv_no_event 20 = [30]" "clients_of srv_no_memory 20 = [30]" "io_log srv_no_memory = []"
    "tick srv_no_event = 34" "tick srv_no_memory = 34" "(2 :: u16) AND EV_READ \<noteq> 0"
    by (simp_all add: clients_of_def srv_no_event_def srv_no_memory_def EV_READ_def) (simp_all add: srv_example_def)
  have env: "outcomes srv_no_event n = (srv_env n)\<lparr>ext_null := n = 38\<rparr>"
    "outcomes srv_no_memory n = (srv_env n)\<lparr>ext_null := n = 35\<rparr>" for n
    by (simp_all add: srv_no_event_def srv_no_memory_def)
  let ?a = "contextual (\<lambda>ctx cid. ctx)" and ?c = "announcing 20 (\<lambda>_ _ _ _. [])"
  have "on_accept ?a ?c 2 20 srv_no_event = None"
    using accept_failure [OF ok(1), of 2 ?a ?c] by (simp add: sel env srv_env_def)
  moreover have "\<exists>w1. on_accept ?a ?c 2 20 srv_no_memory = Some w1 \<and> clients_of w1 20 = [30] \<and> io_log w1 = [Closed 900]"
    using accept_failure [OF ok(2), of 2 ?a ?c] by (simp add: sel env srv_env_def) blast
  ultimately show ?thesis ..
qed

section \<open>Routing\<close>

text \<open>
  C22. A response goes to the client whose id is in the upper half of the sequence number, and
  to no other: one frame with this number on its socket, and nothing else changes. A number
  that is not of a request, or whose client is gone, is refused with \<^verbatim>\<open>EINVAL\<close> and nothing is
  sent. If \<^verbatim>\<open>sendmsg\<close> fails, this client is closed with \<^verbatim>\<open>AF_IPC_STATUS_ERROR\<close>. Ids are
  unambiguous, and the mutex is free again.
\<close>

theorem response_routed:
  assumes "server_ok w s" "length payload \<le> 4088"
  shows "af_ipcs_send_response closer (Some s) seqNum payload (int (length payload)) w =
    (case (if af_ipc_seq_num_is_request seqNum
         then client_with w s (af_ipc_get_client_id_from_seq_num seqNum) else None) of
       None \<Rightarrow> Some (-1, set_errno 22 w)
     | Some c \<Rightarrow> if 0 \<le> ext_ret (ext_now w) then Some (0, sent (fd_of w c) (frame seqNum payload) w)
         else map_option (Pair (-1)) (closed_by closer AF_IPC_STATUS_ERROR s c (refused w))) \<and>
    (\<forall>c \<in> set (clients_of w s). client_with w s (cid_of w c) = Some c) \<and>
    (\<forall>cid c. client_with w s cid = Some c \<longrightarrow> c \<in> set (clients_of w s) \<and> cid_of w c = cid)"
proof -
  have "delivered closer s c seqNum payload w =
      (if 0 \<le> ext_ret (ext_now w) then Some (0, sent (fd_of w c) (frame seqNum payload) w)
       else map_option (Pair (-1)) (closed_by closer AF_IPC_STATUS_ERROR s c (refused w)))"
    if c: "client_with w s cid = Some c" for c cid
  proof -
    obtain cl where "clis w c = Some cl"
      using server_ok_live [OF assms(1)] client_with_Some(1) [OF c] by blast
    then show ?thesis by (simp add: delivered_def fd_of_def)
  qed
  then show ?thesis
    using client_with_unique [OF assms(1)] client_with_Some
    by (auto simp: send_response_eq [OF assms] split: option.split)
qed

theorem response_routed_example:
  "af_ipcs_send_response (announcing 20 (\<lambda>_ _ _ _. [])) (Some 20) (AF_IPC_BUILD_SEQNUM 1 5) [65] 1 srv_example =
     Some (0, sent 7 (frame (AF_IPC_BUILD_SEQNUM 1 5) [65]) srv_example)"
proof -
  have c: "client_with srv_example 20 1 = Some 30" by (simp add: client_with_def)
  have sn: "af_ipc_seq_num_is_request (AF_IPC_BUILD_SEQNUM 1 5)" "af_ipc_get_client_id_from_seq_num (AF_IPC_BUILD_SEQNUM 1 5) = 1"
    by (simp_all add: af_ipc_seq_num_is_request_def AF_IPC_GET_SEQ_ID_def AF_IPC_BUILD_SEQNUM_def
        af_ipc_get_client_id_from_seq_num_def AF_IPC_GET_CLIENT_ID_def)
  have now: "0 \<le> ext_ret (ext_now srv_example)" by (simp add: ext_now_def srv_env_def)
  show ?thesis
    using response_routed [OF srv_example_ok, of "[65]" "announcing 20 (\<lambda>_ _ _ _. [])" "AF_IPC_BUILD_SEQNUM 1 5"]
    by (simp add: c sn now)
qed

lemma told_all_log:
  assumes "\<forall>n. length bs \<le> nat (ext_ret (outcomes w n)) \<or> ext_ret (outcomes w n) < 0"
  shows "io_log (told_all fds bs w) = io_log w @
    map (\<lambda>(n, fd). Sent fd bs) (filter (\<lambda>(n, fd). 0 \<le> ext_ret (outcomes w n)) (List.enumerate (tick w) fds))"
  using assms
proof (induction fds arbitrary: w)
  case (Cons fd fds)
  let ?w = "told fd bs w"
  have sel: "outcomes ?w = outcomes w" "tick ?w = Suc (tick w)"
    by (simp_all add: told_def refused_def sent_def)
  have "io_log ?w = io_log w @ (if 0 \<le> ext_ret (outcomes w (tick w)) then [Sent fd bs] else [])"
  proof (cases "0 \<le> ext_ret (outcomes w (tick w))")
    case True
    with Cons.prems have "length bs \<le> nat (ext_ret (outcomes w (tick w)))" using not_less by blast
    with True show ?thesis by (simp add: told_def sent_def ext_now_def)
  next
    case False
    then show ?thesis by (simp add: told_def refused_def ext_now_def)
  qed
  moreover have "told_all (fd # fds) bs w = told_all fds bs ?w" by (simp add: told_all_def)
  ultimately show ?case using Cons.IH [of ?w] Cons.prems by (simp add: sel)
qed (simp add: told_all_def)

text \<open>
  C23. A broadcast, an unsolicited message to the id 0, offers the message to every client once, in the
  order of the list: the message is on the sockets of exactly the clients whose \<^verbatim>\<open>sendmsg\<close> took it.
  The result is 0 whatever failed, no client is closed, and the mutex is free again.
\<close>

theorem broadcast_reaches_all:
  assumes "server_ok w s" "length payload \<le> 4088"
    and "\<forall>n. length payload + 8 \<le> nat (ext_ret (outcomes w n)) \<or> ext_ret (outcomes w n) < 0"
  shows "\<exists>w1. af_ipcs_send_unsolicited closer (Some s) 0 payload (int (length payload)) w = Some (0, w1) \<and>
    server_ok w1 s \<and> clients_of w1 s = clients_of w s \<and> clis w1 = clis w \<and> srvs w1 = srvs w \<and>
    io_log w1 = io_log w @ map (\<lambda>(n, c). Sent (fd_of w c) (frame 0 payload))
      (filter (\<lambda>(n, c). 0 \<le> ext_ret (outcomes w n)) (List.enumerate (tick w) (clients_of w s)))"
proof -
  let ?w = "told_all (map (fd_of w) (clients_of w s)) (frame 0 payload) w"
  have "\<forall>n. length (frame 0 payload) \<le> nat (ext_ret (outcomes w n)) \<or> ext_ret (outcomes w n) < 0"
    using assms(3) by simp
  from told_all_log [OF this, of "map (fd_of w) (clients_of w s)"]
  have "io_log ?w = io_log w @ map (\<lambda>(n, c). Sent (fd_of w c) (frame 0 payload))
      (filter (\<lambda>(n, c). 0 \<le> ext_ret (outcomes w n)) (List.enumerate (tick w) (clients_of w s)))"
    by (simp add: enumerate_map_upt enumerate_eq_zip zip_map2 filter_map comp_def case_prod_unfold)
  then show ?thesis
    using send_unsolicited_eq [OF assms(1,2), of closer 0] server_ok_told_all [OF assms(1)]
    by (simp add: told_all_frame told_all_sel)
qed

theorem broadcast_reaches_all_example:
  "\<exists>w1. af_ipcs_send_unsolicited (announcing 20 (\<lambda>_ _ _ _. [])) (Some 20) 0 [65] 1
     (srv_example\<lparr>outcomes := (\<lambda>n. (srv_env n)\<lparr>ext_ret := 900\<rparr>)\<rparr>) = Some (0, w1) \<and> io_log w1 = [Sent 7 (frame 0 [65])]"
proof -
  let ?w = "srv_example\<lparr>outcomes := (\<lambda>n. (srv_env n)\<lparr>ext_ret := 900\<rparr>)\<rparr>"
  have ok: "server_ok ?w 20" by (rule server_ok_next [OF srv_example_ok]) simp_all
  have "clients_of ?w 20 = [30]" "fd_of ?w 30 = 7" by (simp_all add: clients_of_def srv_example_def fd_of_def new_client_def)
  then show ?thesis
    using broadcast_reaches_all [OF ok, of "[65]" "announcing 20 (\<lambda>_ _ _ _. [])"] by auto
qed

end
