(* ===== verification/Server_Life.thy ===== *)
theory Server_Life
  imports Server_Correct
begin

text \<open>
  The life of a server (\<^verbatim>\<open>src/pkg/src/af_ipc_server.c\<close>): the properties of its receive handler,
  of opening and closing it, and the invariant of its reachable states.
\<close>

section \<open>Answering a request\<close>

text \<open>One message that arrives, up to the callback.\<close>

lemma server_round:
  assumes ok: "server_ok w s" and c: "c \<in> set (clients_of w s)" and sr: "srvs w s = Some sr" "sr_receiveCallback sr = Some cb"
    and cl: "clis w c = Some cl" and len: "payload \<noteq> []" "length payload \<le> 4088"
    and new: "AF_IPC_GET_SEQ_ID sn = 0 \<or> AF_IPC_SEQNUM_IS_NEW_REQUEST (AF_IPC_GET_SEQ_ID sn)"
    and rcv: "ext_recv (ext_now w) = Inr (frame sn payload)"
  defines "w1 \<equiv> (next_tick w)\<lparr>clis := (clis w)(c \<mapsto> cl\<lparr>cl_flags := cl_flags cl OR CLIENT_FLAGS_IN_RECEIVE\<rparr>)\<rparr>"
  shows "server_recv_loop (Suc n) run closer c w = do {
      w2 \<leftarrow> run cb 0 (incoming_seqNum (cl_cid cl) (AF_IPC_GET_SEQ_ID sn)) payload (cl_clientContext cl) w1;
      w3 \<leftarrow> upd_cli c (cl_flags_update (\<lambda>f. f AND NOT CLIENT_FLAGS_IN_RECEIVE)) w2;
      cl \<leftarrow> clis w3 c;
      if cl_flags cl AND CLIENT_FLAGS_MARKED_FOR_SHUTDOWN \<noteq> 0 then close_client closer AF_IPC_STATUS_OK (Some c) w3
      else server_recv_loop n run closer c w3 }"
    and "serving s c (cl_cid cl) (outcomes w) (Suc (tick w)) w1"
proof -
  have "recv (nat AF_IPC_MAX_MSGLEN) w = (int (length payload + 8), frame sn payload, next_tick w)"
    using rcv len(2) by (simp add: recv_def AF_IPC_MAX_MSGLEN_def)
  moreover have "af_ipc_handle_receive_message run (frame sn payload) (int (length payload + 8)) (cl_cid cl) (Some c)
      (sr_receiveCallback sr) (cl_clientContext cl) w1 =
    run cb 0 (incoming_seqNum (cl_cid cl) (AF_IPC_GET_SEQ_ID sn)) payload (cl_clientContext cl) w1"
    using handle_single [OF len, of run sn "cl_cid cl" "Some c" "Some cb" "cl_clientContext cl" w1] new sr(2)
    by (simp add: receive_one_def)
  moreover have "upd_cli c (cl_flags_update (\<lambda>f. f OR CLIENT_FLAGS_IN_RECEIVE)) (next_tick w) = Some w1"
  proof -
    have flags: "cl_flags_update (\<lambda>f. f OR x) k = k\<lparr>cl_flags := cl_flags k OR x\<rparr>" for x and k :: af_ipcs_client
      by (cases k) simp
    show ?thesis using cl by (simp add: upd_cli_def w1_def flags)
  qed
  moreover have "cl_server cl = Some s" using server_ok_client [OF ok c] cl by (auto elim: client_okE)
  ultimately show "server_recv_loop (Suc n) run closer c w = do {
      w2 \<leftarrow> run cb 0 (incoming_seqNum (cl_cid cl) (AF_IPC_GET_SEQ_ID sn)) payload (cl_clientContext cl) w1;
      w3 \<leftarrow> upd_cli c (cl_flags_update (\<lambda>f. f AND NOT CLIENT_FLAGS_IN_RECEIVE)) w2;
      cl \<leftarrow> clis w3 c;
      if cl_flags cl AND CLIENT_FLAGS_MARKED_FOR_SHUTDOWN \<noteq> 0 then close_client closer AF_IPC_STATUS_OK (Some c) w3
      else server_recv_loop n run closer c w3 }"
    using sr by (simp add: w1_def)
  have "server_ok (next_tick w) s" by (rule server_ok_next [OF ok]) simp_all
  then have "serving s c (cl_cid cl) (outcomes w) (Suc (tick w)) (next_tick w)"
    using c cl by (simp add: serving_def clients_of_def cid_of_def)
  from serving_flags [OF this, of cl "cl_flags cl OR CLIENT_FLAGS_IN_RECEIVE"] cl receive_bit(1)
  show "serving s c (cl_cid cl) (outcomes w) (Suc (tick w)) w1" by (simp add: w1_def)
qed

text \<open>
  C19. A request of a client is answered to that client. When the bytes of a request with the id
  \<open>sn\<close> arrive from client \<open>c\<close>, the receive callback gets a number made of the id of \<open>c\<close> and \<open>sn\<close>;
  a reply under this number puts exactly one frame on the socket of \<open>c\<close>, in whose lower half the
  client finds \<open>sn\<close> again, and the handler returns with the server as before.
\<close>

theorem request_answered:
  fixes w :: "'a server_world_scheme" and sn :: u32
  assumes "server_ok w s" "c \<in> set (clients_of w s)" "srvs w s = Some sr" "sr_receiveCallback sr = Some cb"
    and "clis w c = Some cl" "1 \<le> uint sn" "uint sn < 2 ^ 15" "payload \<noteq> []" "length payload \<le> 4088"
    and "ext_recv (ext_now w) = Inr (frame (sn OR AF_IPC_SEQNUM_NEW_REQUEST_MASK) payload)"
    and "app cb 0 (AF_IPC_BUILD_SEQNUM (ucast (cl_cid cl)) sn) payload (cl_clientContext cl) =
      [Reply (AF_IPC_BUILD_SEQNUM (ucast (cl_cid cl)) sn) answer]" "length answer \<le> 4088"
    and "int (length answer + 8) \<le> ext_ret (outcomes w (Suc (tick w)))"
      "ext_recv (outcomes w (Suc (Suc (tick w)))) = Inl 11"
    and "evt AND EV_READ \<noteq> 0" "2 \<le> n"
  shows "\<exists>w1. on_recv n (server_acting closer s app) closer evt c w = Some w1 \<and> server_ok w1 s \<and>
    clients_of w1 s = clients_of w s \<and> reqs w1 = reqs w \<and> events w1 = events w \<and>
    io_log w1 = io_log w @ [Sent (cl_client_fd cl) (frame (AF_IPC_BUILD_SEQNUM (ucast (cl_cid cl)) sn) answer)] \<and>
    AF_IPC_GET_SEQ_ID (AF_IPC_BUILD_SEQNUM (ucast (cl_cid cl)) sn) = sn"
proof -
  note id = request_id [OF assms(6,7)]
  let ?num = "AF_IPC_BUILD_SEQNUM (ucast (cl_cid cl)) sn"
  let ?cl = "cl\<lparr>cl_flags := cl_flags cl OR CLIENT_FLAGS_IN_RECEIVE\<rparr>"
  define w1 where "w1 = (next_tick w)\<lparr>clis := (clis w)(c \<mapsto> ?cl)\<rparr>"
  have new: "AF_IPC_GET_SEQ_ID (sn OR AF_IPC_SEQNUM_NEW_REQUEST_MASK) = 0 \<or>
      AF_IPC_SEQNUM_IS_NEW_REQUEST (AF_IPC_GET_SEQ_ID (sn OR AF_IPC_SEQNUM_NEW_REQUEST_MASK))" using id(1) by simp
  note round = server_round(1) [OF assms(1-5,8,9) new assms(10), folded w1_def,
      where run = "server_acting closer s app" and closer = closer]
    server_round(2) [OF assms(1-5,8,9) new assms(10), folded w1_def]
  have ok1: "server_ok w1 s" "clients_of w1 s = clients_of w s" "cid_of w1 c = cl_cid cl"
    using round(2) by (simp_all add: serving_def w1_def clients_of_def)
  have c: "client_with w1 s (cl_cid cl) = Some c"
    using client_with_unique [OF ok1(1), of c] ok1(2,3) assms(2) by simp
  have num: "af_ipc_seq_num_is_request ?num" "af_ipc_get_client_id_from_seq_num ?num = cl_cid cl"
    "AF_IPC_GET_SEQ_ID ?num = sn"
    using id(3,4,5,7) by (simp_all add: af_ipc_seq_num_is_request_def)
  have now: "ext_now w1 = outcomes w (Suc (tick w))" by (simp add: w1_def ext_now_def)
  let ?w2 = "sent (cl_client_fd cl) (frame ?num answer) w1"
  have "clis w1 c = Some ?cl" by (simp add: w1_def)
  then have "delivered closer s c ?num answer w1 = Some (0, ?w2)"
    using assms(13) by (simp add: delivered_def now)
  then have run: "server_acting closer s app cb 0 ?num payload (cl_clientContext cl) w1 = Some ?w2"
    using send_response_eq [OF ok1(1) assms(12), of closer ?num] c num
    by (simp add: server_acting_def assms(11))
  let ?cl3 = "?cl\<lparr>cl_flags := cl_flags ?cl AND NOT CLIENT_FLAGS_IN_RECEIVE\<rparr>"
  define w3 where "w3 = ?w2\<lparr>clis := (clis ?w2)(c \<mapsto> ?cl3)\<rparr>"
  have cl2: "clis ?w2 c = Some ?cl" by (simp add: w1_def)
  have upd: "upd_cli c (cl_flags_update (\<lambda>f. f AND NOT CLIENT_FLAGS_IN_RECEIVE)) ?w2 = Some w3"
    using cl2 by (cases cl) (simp add: upd_cli_def w3_def)
  have s2: "serving s c (cl_cid cl) (outcomes w) (Suc (tick w)) ?w2" by (rule serving_told(2) [OF round(2)])
  have s3: "serving s c (cl_cid cl) (outcomes w) (Suc (tick w)) w3"
    unfolding w3_def by (rule serving_flags [OF s2 cl2]) (simp only: receive_bit af_ipcs_client.select_convs)
  have "client_ok w3 s c" using s3 by (auto simp: serving_def dest: server_ok_client)
  then have bit: "cl_flags ?cl3 AND CLIENT_FLAGS_MARKED_FOR_SHUTDOWN = 0"
    by (rule client_okE) (simp add: w3_def)
  have cl3: "clis w3 c = Some ?cl3" by (simp add: w3_def)
  have step: "server_recv_loop (Suc k) (server_acting closer s app) closer c w =
      server_recv_loop k (server_acting closer s app) closer c w3" for k
    using round(1) [of k] run upd bit cl3 id(5) by simp
  have now3: "ext_now w3 = outcomes w (Suc (Suc (tick w)))"
    by (simp add: w3_def w1_def ext_now_def sent_def)
  obtain k where k: "n = Suc (Suc k)" using assms(16) by (metis Suc_le_D Suc_le_mono numeral_2_eq_2)
  let ?w4 = "next_tick (set_errno 11 w3)"
  have "server_recv_loop (Suc k) (server_acting closer s app) closer c w3 = Some ?w4"
    using assms(14) by (simp add: recv_def now3) (simp add: next_tick_def set_errno_def)
  then have "on_recv n (server_acting closer s app) closer evt c w = Some ?w4"
    using assms(15) by (simp only: on_recv_def k step if_True not_False_eq_True)
  moreover have "server_ok ?w4 s" by (rule server_ok_next [of w3]) (use s3 in \<open>simp_all add: serving_def\<close>)
  moreover have "io_log ?w4 = io_log w @ [Sent (cl_client_fd cl) (frame ?num answer)]"
    using assms(13) by (simp add: w3_def sent_def now) (simp add: w1_def)
  moreover have "clients_of ?w4 s = clients_of w s" "reqs ?w4 = reqs w" "events ?w4 = events w"
    by (simp_all add: clients_of_def w3_def w1_def sent_def)
  ultimately show ?thesis using num(3) by blast
qed

definition echo_app :: server_app where
  "echo_app cb status sn payload ctx = [Reply sn payload]"

theorem request_answered_example:
  "\<exists>w1. on_recv 2 (server_acting (announcing 20 (\<lambda>_ _ _ _. [])) 20 echo_app) (announcing 20 (\<lambda>_ _ _ _. [])) 2 30 srv_example = Some w1 \<and>
    io_log w1 = [Sent 7 (frame (AF_IPC_BUILD_SEQNUM 1 1) [8])]"
proof -
  obtain sr where sr: "srvs srv_example 20 = Some sr" "sr_receiveCallback sr = Some 6"
    by (simp add: srv_example_def)
  have "\<exists>w1. on_recv 2 (server_acting (announcing 20 (\<lambda>_ _ _ _. [])) 20 echo_app) (announcing 20 (\<lambda>_ _ _ _. [])) 2 30 srv_example = Some w1 \<and>
      server_ok w1 20 \<and> clients_of w1 20 = clients_of srv_example 20 \<and> reqs w1 = reqs srv_example \<and>
      events w1 = events srv_example \<and> io_log w1 = io_log srv_example @
        [Sent (cl_client_fd (new_client 20 7 1 (Some 33))) (frame (AF_IPC_BUILD_SEQNUM (ucast (cl_cid (new_client 20 7 1 (Some 33)))) 1) [8])] \<and>
      AF_IPC_GET_SEQ_ID (AF_IPC_BUILD_SEQNUM (ucast (cl_cid (new_client 20 7 1 (Some 33)))) 1) = 1"
    by (rule request_answered [OF srv_example_ok _ sr, where payload = "[8]"])
      (simp_all add: ext_now_def srv_env_def echo_app_def EV_READ_def)
  then show ?thesis by (auto simp: new_client_def)
qed

section \<open>The receive handler\<close>

text \<open>
  C20. The receive handler of a client returns, under two conditions (\<open>civil\<close>): no call fails, and
  the application, which replies, pushes messages that fit and drops other clients, never
  drops the client that is being served. (\<^verbatim>\<open>af_ipc_server.h:30\<close> allows it to;
  the end of this theory shows that this, or a reply that fails, is undefined.) Then the
  handler ends after at most as many rounds as the client has data for, on any bytes, with
  a close callback that announces the departure to the others. Afterwards the invariant of the server
  holds. The client is still there if the last \<^verbatim>\<open>recv\<close> failed with \<^verbatim>\<open>EAGAIN\<close> or \<^verbatim>\<open>EINTR\<close>; if it
  failed otherwise, or the peer has closed, the client was closed with \<^verbatim>\<open>AF_IPC_STATUS_ERROR\<close>.
\<close>

theorem server_on_recv_ends:
  fixes w :: "'a server_world_scheme" and s :: nat and news :: "nat \<Rightarrow> int \<Rightarrow> u16 \<Rightarrow> nat \<Rightarrow> byte list"
  assumes "civil app (cid_of w c) (outcomes w)" "server_ok w s" "c \<in> set (clients_of w s)"
    and "\<forall>n\<ge>N. \<forall>bs. ext_recv (outcomes w n) = Inr bs \<longrightarrow> bs = []" "evt AND EV_READ \<noteq> 0"
  defines "(closer :: 'a client_closer) \<equiv> announcing s news"
  shows "\<exists>w0 k w1. server_ok w1 s \<and>
    (\<forall>n > N - tick w. on_recv n (server_acting closer s app) closer evt c w = Some w1) \<and>
    server_ok w0 s \<and> c \<in> set (clients_of w0 s) \<and> tick w0 = Suc k \<and>
    (if ext_recv (outcomes w k) \<in> {Inl 11, Inl 4} then w1 = w0
     else (\<forall>bs. ext_recv (outcomes w k) = Inr bs \<longrightarrow> bs = []) \<and>
       closed_by closer AF_IPC_STATUS_ERROR s c w0 = Some w1 \<and> c \<notin> set (clients_of w1 s))"
proof -
  have "serving s c (cid_of w c) (outcomes w) (tick w) w" using assms(2,3) by (simp add: serving_def)
  from server_acting.recv_loop_ends [OF assms(1,4) this, of news closer] obtain w0 k where
    w0: "serving s c (cid_of w c) (outcomes w) (tick w) w0" "tick w0 = Suc k"
    and run: "if ext_recv (outcomes w k) \<in> {Inl 11, Inl 4}
      then \<forall>n > N - tick w. server_recv_loop n (server_acting closer s app) closer c w = Some w0
      else (\<forall>bs. ext_recv (outcomes w k) = Inr bs \<longrightarrow> bs = []) \<and> (\<forall>n > N - tick w.
        server_recv_loop n (server_acting closer s app) closer c w = closed_by closer AF_IPC_STATUS_ERROR s c w0)"
    unfolding closer_def by blast
  have ok0: "server_ok w0 s" and c: "c \<in> set (clients_of w0 s)" using w0 by (simp_all add: serving_def)
  obtain w2 where w2: "closed_by closer AF_IPC_STATUS_ERROR s c w0 = Some w2" "server_ok w2 s"
    "clients_of w2 s = remove1 c (clients_of w0 s)"
    using server_closer.closed_by_keeps [OF closer_announcing ok0 c, of news AF_IPC_STATUS_ERROR]
    unfolding closer_def by blast
  have "distinct (clients_of w0 s)" using ok0 by (auto elim: server_okE)
  then have gone: "c \<notin> set (clients_of w2 s)" by (simp add: w2(3))
  have recv: "on_recv n (server_acting closer s app) closer evt c w =
      server_recv_loop n (server_acting closer s app) closer c w" for n
    using assms(5) by (simp add: on_recv_def)
  show ?thesis
  proof (cases "ext_recv (outcomes w k) \<in> {Inl 11, Inl 4}")
    case True
    with run recv ok0 c w0(2) show ?thesis by (intro exI [of _ w0] exI [of _ k]) simp
  next
    case False
    with run recv ok0 c w0(2) w2 gone show ?thesis
      by (intro exI [of _ w0] exI [of _ k] exI [of _ w2]) simp
  qed
qed

theorem server_on_recv_ends_example:
  "\<exists>w1. server_ok w1 20 \<and> (\<forall>n > 1. on_recv n (server_acting (announcing 20 (\<lambda>_ _ _ _. [])) 20 (\<lambda>_ _ _ p _. [Drop 7, Push 0 [1], Reply 3 []]))
     (announcing 20 (\<lambda>_ _ _ _. [])) 2 30 srv_example = Some w1)"
proof -
  have "civil (\<lambda>_ _ _ p _. [Drop 7, Push 0 [1], Reply 3 []]) (cid_of srv_example 30) (outcomes srv_example)"
    by (simp add: civil_def allowed_def srv_env_def)
  moreover have "\<forall>n\<ge>35. \<forall>bs. ext_recv (outcomes srv_example n) = Inr bs \<longrightarrow> bs = []" by (simp add: srv_env_def)
  moreover have "30 \<in> set (clients_of srv_example 20)" "(2 :: u16) AND EV_READ \<noteq> 0" by (simp_all add: EV_READ_def)
  ultimately show ?thesis
    using server_on_recv_ends [of "\<lambda>_ _ _ p _. [Drop 7, Push 0 [1], Reply 3 []]" srv_example 30 20 35 2 "\<lambda>_ _ _ _. []"]
      srv_example_ok by auto
qed

lemma closed_by_gone:
  assumes ok: "server_ok w s" and c: "c \<in> set (clients_of w s)" and "closed_by (announcing s news) status s c w = Some w1"
  shows "clis w1 c = None"
proof -
  obtain sr where sr: "srvs w s = Some sr" using ok by (rule server_okE)
  obtain cl where cl: "clis w c = Some cl" by (rule client_okE [OF server_ok_client [OF ok c]])
  have gone: "clis (closed_client_of s c w) c = None" using closed_client_of_sel(2) [OF ok c sr cl] by simp
  have ok': "server_ok (closed_client_of s c w) s" by (rule closed_client_of_ok [OF ok c])
  have "clis v c = None" if "announcing s news f status cid ctx (closed_client_of s c w) = Some v" for f cid ctx v
    using that gone send_unsolicited_eq [OF ok', of "take 4088 (news f status cid ctx)" "\<lambda>f status cid ctx w. None" 0]
    by (auto simp: announcing_def Let_def told_all_frame min_def)
  with assms(3) sr cl gone show ?thesis
    by (auto simp: closed_by_def run_client_close_def split: option.splits)
qed

text \<open>
  C21. A receive callback that closes the client it is called for leaves \<^verbatim>\<open>on_recv\<close> with a client that
  is no longer allocated: it clears a flag in it. This holds for \<^verbatim>\<open>af_ipcs_close_client\<close>, and for a reply
  that \<^verbatim>\<open>sendmsg\<close> refuses.
\<close>

theorem self_close_undefined:
  fixes w :: "'a server_world_scheme" and s :: nat and news :: "nat \<Rightarrow> int \<Rightarrow> u16 \<Rightarrow> nat \<Rightarrow> byte list"
  assumes "server_ok w s" "c \<in> set (clients_of w s)" "srvs w s = Some sr" "sr_receiveCallback sr = Some cb"
    and "clis w c = Some cl" "payload \<noteq> []" "length payload \<le> 4088"
    and "ext_recv (ext_now w) = Inr (frame 0 payload)"
    and "app cb 0 (incoming_seqNum (cl_cid cl) 0) payload (cl_clientContext cl) = [a]"
    and "a = Drop (cl_cid cl) \<or> (\<exists>sn reply. a = Reply sn reply \<and> length reply \<le> 4088 \<and>
      af_ipc_seq_num_is_request sn \<and> af_ipc_get_client_id_from_seq_num sn = cl_cid cl \<and>
      ext_ret (outcomes w (Suc (tick w))) < 0)"
    and "evt AND EV_READ \<noteq> 0"
  defines "(closer :: 'a client_closer) \<equiv> announcing s news"
  shows "on_recv n (server_acting closer s app) closer evt c w = None"
proof -
  have zero: "AF_IPC_GET_SEQ_ID 0 = 0" by (simp add: AF_IPC_GET_SEQ_ID_def)
  then have new: "AF_IPC_GET_SEQ_ID 0 = 0 \<or> AF_IPC_SEQNUM_IS_NEW_REQUEST (AF_IPC_GET_SEQ_ID 0)" by simp
  define w1 where "w1 = (next_tick w)\<lparr>clis := (clis w)(c \<mapsto> cl\<lparr>cl_flags := cl_flags cl OR CLIENT_FLAGS_IN_RECEIVE\<rparr>)\<rparr>"
  note round = server_round(1) [OF assms(1-7) new assms(8), folded w1_def,
      where run = "server_acting closer s app" and closer = closer]
    server_round(2) [OF assms(1-7) new assms(8), folded w1_def]
  have ok1: "server_ok w1 s" "c \<in> set (clients_of w1 s)" "cid_of w1 c = cl_cid cl"
    using round(2) by (simp_all add: serving_def)
  have cw: "client_with w1 s (cl_cid cl) = Some c"
    using client_with_unique [OF ok1(1,2)] ok1(3) by simp
  have now: "ext_now w1 = outcomes w (Suc (tick w))" by (simp add: w1_def ext_now_def)
  have c1: "clis w1 c \<noteq> None" by (simp add: w1_def)
  have r: "server_ok (refused w1) s" "c \<in> set (clients_of (refused w1) s)"
    using server_ok_told(1) [OF ok1(1)] ok1(2) by (simp_all add: clients_of_def)
  have "\<exists>v status. (v = w1 \<or> v = refused w1) \<and>
      server_acts closer s [a] w1 = closed_by closer status s c v"
    using assms(10)
  proof
    assume a: "a = Drop (cl_cid cl)"
    have "server_acts closer s [a] w1 = closed_by closer AF_IPC_STATUS_OK s c w1"
      by (cases "closed_by closer AF_IPC_STATUS_OK s c w1") (simp_all add: a close_client_api [OF ok1(1)] cw)
    then show ?thesis by blast
  next
    assume "\<exists>sn reply. a = Reply sn reply \<and> length reply \<le> 4088 \<and>
      af_ipc_seq_num_is_request sn \<and> af_ipc_get_client_id_from_seq_num sn = cl_cid cl \<and>
      ext_ret (outcomes w (Suc (tick w))) < 0"
    then obtain sn reply where a: "a = Reply sn reply" "length reply \<le> 4088" "af_ipc_seq_num_is_request sn"
      "af_ipc_get_client_id_from_seq_num sn = cl_cid cl" "ext_ret (outcomes w (Suc (tick w))) < 0" by blast
    have "delivered closer s c sn reply w1 = map_option (Pair (-1)) (closed_by closer AF_IPC_STATUS_ERROR s c (refused w1))"
      using a(5) c1 by (auto simp: delivered_def now)
    then have "server_acts closer s [a] w1 = closed_by closer AF_IPC_STATUS_ERROR s c (refused w1)"
      by (cases "closed_by closer AF_IPC_STATUS_ERROR s c (refused w1)")
        (simp_all add: a send_response_eq [OF ok1(1) a(2)] cw)
    then show ?thesis by blast
  qed
  then obtain v status where v: "v = w1 \<or> v = refused w1" "server_acts closer s [a] w1 = closed_by closer status s c v" by blast
  have "clis w2 c = None" if "server_acts closer s [a] w1 = Some w2" for w2
    using that v closed_by_gone [OF ok1(1,2)] closed_by_gone [OF r] unfolding closer_def by metis
  moreover have "server_acting closer s app cb 0 (incoming_seqNum (cl_cid cl) (AF_IPC_GET_SEQ_ID 0)) payload (cl_clientContext cl) w1 =
      server_acts closer s [a] w1"
    by (simp only: server_acting_def zero assms(9))
  ultimately have "server_recv_loop (Suc k) (server_acting closer s app) closer c w = None" for k
    unfolding round(1) by (cases "server_acts closer s [a] w1") (simp_all add: upd_cli_def)
  then have "server_recv_loop n (server_acting closer s app) closer c w = None" by (cases n) simp_all
  with assms(11) show ?thesis by (simp add: on_recv_def)
qed

definition srv_note :: server_world where
  "srv_note = srv_example\<lparr>outcomes := (\<lambda>n. (srv_env n)\<lparr>ext_recv := Inr (frame 0 [8])\<rparr>)\<rparr>"

theorem self_close_undefined_example:
  "\<forall>n. on_recv n (server_acting (announcing 20 (\<lambda>_ _ _ _. [])) 20 (\<lambda>_ _ _ _ _. [Drop 1])) (announcing 20 (\<lambda>_ _ _ _. [])) 2 30 srv_note = None"
proof
  fix n
  have ok: "server_ok srv_note 20" by (rule server_ok_next [OF srv_example_ok]) (simp_all add: srv_note_def)
  obtain sr where sr: "srvs srv_note 20 = Some sr" "sr_receiveCallback sr = Some 6"
    by (simp add: srv_note_def srv_example_def)
  show "on_recv n (server_acting (announcing 20 (\<lambda>_ _ _ _. [])) 20 (\<lambda>_ _ _ _ _. [Drop 1])) (announcing 20 (\<lambda>_ _ _ _. [])) 2 30 srv_note = None"
    by (rule self_close_undefined [OF ok _ sr, where payload = "[8]" and cl = "new_client 20 7 1 (Some 33)" and a = "Drop 1"])
      (simp_all add: srv_note_def ext_now_def new_client_def EV_READ_def clients_of_def, simp_all add: srv_example_def new_client_def)
qed

end
