(* ===== verification/Server_Reach.thy ===== *)
theory Server_Reach
  imports Server_Life
begin

text \<open>
  Opening and closing a server (\<^verbatim>\<open>src/pkg/src/af_ipc_server.c\<close>), and the invariant of all states that
  a server reaches with the events of its sockets and timers and the calls of its application.
\<close>

section \<open>Opening\<close>

lemma open_ok:
  fixes w :: "'a server_world_scheme"
  assumes ok: "world_ok w" "\<forall>c. db_open w c \<longrightarrow> c < tick w" and fd: "0 \<le> fd"
  shows "server_ok (with_srv t (open_srv fd base (Some (tick w + 7)) Mutex_free (Pool_live []) acb actx rcb ccb)
      (w\<lparr>tick := tick w + 9, events := (events w)(tick w + 7 \<mapsto>
        \<lparr>ev_handler = On_accept t, ev_added = True, ev_timeout = None\<rparr>), io_log := x\<rparr>)) t"
proof -
  let ?e = "tick w + 7" and ?v = "\<lparr>ev_handler = On_accept t, ev_added = True, ev_timeout = None\<rparr>"
  have e: "events w ?e = None"
    using world_okD(3) [OF ok(1)] by (cases "events w ?e") (auto simp: timer_owned_def)
  have "world_ok (w\<lparr>events := (events w)(?e \<mapsto> ?v), tick := tick w + 9\<rparr>)"
    by (rule world_ok_events [OF ok(1)])
      (use e in \<open>auto split: if_splits intro: world_okD(3) [OF ok(1)]\<close>)
  then have "world_ok (with_srv t (open_srv fd base (Some ?e) Mutex_free (Pool_live []) acb actx rcb ccb)
      (w\<lparr>tick := tick w + 9, events := (events w)(?e \<mapsto> ?v), io_log := x\<rparr>))"
    by (rule world_ok_cong [rotated -1]) simp_all
  moreover have "db_open w c \<Longrightarrow> c < tick w + 9" for c using ok(2) by (meson less_Suc_eq_le trans_less_add1)
  ultimately show ?thesis
    using fd by (auto simp: server_ok_def has_event_def open_srv_def db_open_def)
qed

text \<open>
  C26. What \<^verbatim>\<open>af_ipcs_open\<close> leaves, for a path of less than 128 characters. If no call fails, the result is a running server without
  clients: with the callbacks, with a listener event that is added and whose handler accepts for
  this server, and with a socket that was bound to the path (the file of an older one was removed
  first) and listens. If memory for the server is missing, the result is \<^verbatim>\<open>NULL\<close> and nothing else
  happens. If a later call fails, the result is \<^verbatim>\<open>NULL\<close>, the structure, its pool and its event are
  gone, and of the calls made up to the failing one only the socket is undone, which is shut down
  and closed: the file of a path that was bound stays. Databases, requests and clients stay as they
  are in every case. The mutex flag is not set in a running server.
\<close>

theorem server_open_complete:
  fixes w :: "'a server_world_scheme" and prefix name :: string
  assumes "world_ok w" "\<forall>c. db_open w c \<longrightarrow> c < tick w" "length (prefix @ name) < 128"
  defines "fd \<equiv> ext_ret (outcomes w (tick w + 2))" and "path \<equiv> take 107 (prefix @ name)"
    and "no_memory \<equiv> ext_null (outcomes w (tick w))" and "fails \<equiv> open_fails (outcomes w) (tick w)"
  shows "\<exists>r w1. af_ipcs_open prefix closer (Some b) name acb actx rcb ccb w = Some (r, w1) \<and>
    ctls w1 = ctls w \<and> reqs w1 = reqs w \<and> clis w1 = clis w \<and>
    (\<not> no_memory \<and> \<not> fails \<longrightarrow> r = Some (tick w) \<and> server_ok w1 (tick w) \<and> clients_of w1 (tick w) = [] \<and>
      srvs w1 = (srvs w)(tick w \<mapsto> open_srv fd (Some b) (Some (tick w + 7)) Mutex_free (Pool_live []) acb actx rcb ccb) \<and>
      events w1 = (events w)(tick w + 7 \<mapsto> \<lparr>ev_handler = On_accept (tick w), ev_added = True, ev_timeout = None\<rparr>) \<and>
      sr_flags (the (srvs w1 (tick w))) AND SERVER_FLAGS_MUTEX_INITIALIZED = 0 \<and>
      io_log w1 = io_log w @ [Unlink path, Bind fd path, Listen fd]) \<and>
    (no_memory \<longrightarrow> r = None \<and> srvs w1 = srvs w \<and> events w1 = events w \<and> io_log w1 = io_log w) \<and>
    (\<not> no_memory \<and> fails \<longrightarrow> r = None \<and> srvs w1 = (srvs w)(tick w := None) \<and> events w1 = events w \<and>
      io_log w1 = io_log w @
        (if ext_null (outcomes w (tick w + 1)) \<or> fd < 0 \<or> ext_ret (outcomes w (tick w + 3)) \<noteq> 0 then []
         else if ext_ret (outcomes w (tick w + 4)) < 0 then [Unlink path, Bind fd path]
         else [Unlink path, Bind fd path, Listen fd]) @
        (if ext_null (outcomes w (tick w + 1)) \<or> fd = -1 then [] else [Shutdown fd SHUT_RD, Closed fd]))"
proof -
  consider (no_memory) no_memory | (fails) "\<not> no_memory" fails | (opens) "\<not> no_memory" "\<not> fails" by blast
  then show ?thesis
  proof cases
    case no_memory
    then show ?thesis
      by (simp add: no_memory_def af_ipcs_open_def calloc_eq)
  next
    case fails
    have e: "events w (tick w + 7) = None"
      using world_okD(3) [OF assms(1)] by (cases "events w (tick w + 7)") (auto simp: timer_owned_def)
    obtain w1 where w1: "af_ipcs_open prefix closer (Some b) name acb actx rcb ccb w = Some (None, w1)"
      "srvs w1 = (srvs w)(tick w := None)" "clis w1 = clis w" "ctls w1 = ctls w" "reqs w1 = reqs w" "events w1 = events w"
      "io_log w1 = io_log w @ opening_calls (outcomes w) (tick w) path @ closing_calls (outcomes w) (tick w)"
      using open_failure [OF assms(3) fails [unfolded no_memory_def fails_def] e, of closer b acb actx rcb ccb]
      unfolding path_def by blast
    show ?thesis
      using fails w1(1-6) w1(7) [unfolded opening_calls_def closing_calls_def Let_def, folded fd_def]
      by (intro exI [of _ None] exI [of _ w1] conjI impI) (simp only: simp_thms)+
  next
    case opens
    then have "0 \<le> fd" by (simp add: fails_def open_fails_def fd_def)
    from open_ok [OF assms(1,2) this] server_open_eq [OF assms(3) opens [unfolded no_memory_def fails_def]] opens
    show ?thesis by (simp add: fd_def path_def clients_of_def open_srv_def)
  qed
qed

definition srv_bind_fails :: server_world where
  "srv_bind_fails = srv_start\<lparr>outcomes := (\<lambda>n. (srv_env n)\<lparr>ext_ret := if n = 24 then -1 else 0\<rparr>)\<rparr>"

theorem server_open_complete_example:
  "(\<exists>w1. af_ipcs_open ''/var/run/'' (announcing 20 (\<lambda>_ _ _ _. [])) (Some 1) ''x'' None 0 None None srv_start = Some (Some 20, w1) \<and>
     server_ok w1 20 \<and> events w1 = [27 \<mapsto> \<lparr>ev_handler = On_accept 20, ev_added = True, ev_timeout = None\<rparr>] \<and>
     io_log w1 = [Unlink ''/var/run/x'', Bind 900 ''/var/run/x'', Listen 900]) \<and>
   (\<exists>w1. af_ipcs_open ''/var/run/'' (announcing 20 (\<lambda>_ _ _ _. [])) (Some 1) ''x'' None 0 None None srv_bind_fails = Some (None, w1) \<and>
     srvs w1 = Map.empty \<and> events w1 = Map.empty \<and>
     io_log w1 = [Unlink ''/var/run/x'', Bind 0 ''/var/run/x'', Shutdown 0 SHUT_RD, Closed 0])"
proof -
  have len: "length (''/var/run/'' @ ''x'') < 128" by simp
  have start: "world_ok srv_start" "\<forall>c. db_open srv_start c \<longrightarrow> c < tick srv_start"
    "\<not> ext_null (outcomes srv_start (tick srv_start))" "tick srv_start = 20" "io_log srv_start = []"
    "ext_ret (outcomes srv_start 22) = 900" "\<not> open_fails (outcomes srv_start) 20" "events srv_start = Map.empty"
    by (simp_all add: srv_start_def world_ok_def db_open_def srv_env_def open_fails_def)
  have bad: "world_ok srv_bind_fails" "\<forall>c. db_open srv_bind_fails c \<longrightarrow> c < tick srv_bind_fails"
    "\<not> ext_null (outcomes srv_bind_fails (tick srv_bind_fails))" "tick srv_bind_fails = 20" "srvs srv_bind_fails = Map.empty"
    "events srv_bind_fails = Map.empty" "io_log srv_bind_fails = []"
    "ext_ret (outcomes srv_bind_fails 22) = 0" "\<not> ext_null (outcomes srv_bind_fails 21)" "open_fails (outcomes srv_bind_fails) 20"
    "ext_ret (outcomes srv_bind_fails 23) = 0" "ext_ret (outcomes srv_bind_fails 24) = -1"
    by (simp_all add: srv_bind_fails_def srv_start_def world_ok_def db_open_def srv_env_def open_fails_def)
  show ?thesis
    using server_open_complete [OF start(1,2) len, of "announcing 20 (\<lambda>_ _ _ _. [])" 1 None 0 None None]
      server_open_complete [OF bad(1,2) len, of "announcing 20 (\<lambda>_ _ _ _. [])" 1 None 0 None None] start(3) bad(3)
    by (auto simp: start(4-8) bad(4-12))
qed

section \<open>Closing\<close>

text \<open>
  C27. Closing a running server closes its listening socket but abandons its clients: no client
  socket is shut down or closed, and the close callback is called for no client, because
  the flag that guards the loop over the clients is never set. The client structures are freed, yet
  their read events and the timers of their requests stay: when one of them fires, the handler
  uses a client that is no longer allocated.
\<close>

theorem server_close_abandons:
  fixes w :: "'a server_world_scheme"
  assumes "server_ok w s" "srvs w s = Some sr"
  shows "\<exists>w1. (\<forall>closer. af_ipcs_close closer (Some s) w = Some w1) \<and> srvs w1 s = None \<and>
    io_log w1 = io_log w @ [Shutdown (sr_server_fd sr) SHUT_RD, Closed (sr_server_fd sr)] \<and> reqs w1 = reqs w \<and>
    (\<forall>c \<in> set (clients_of w s). clis w1 c = None \<and> ctls w1 c = None \<and>
      has_event w1 (On_recv c) (cl_recv_event (the (clis w c))) \<and>
      (\<forall>n run closer evt bs. evt AND EV_READ \<noteq> 0 \<and> ext_recv (ext_now w1) = Inr bs \<and> bs \<noteq> [] \<longrightarrow>
        on_recv n run closer evt c w1 = None) \<and>
      (\<forall>a \<in> set (pending w c). has_event w1 (On_timeout a) (Some (timer_of w a)) \<and>
        (\<forall>run. fire_timer run (timer_of w a) w1 = None)))"
proof -
  obtain pool where sr: "sr_flags sr = 0" "0 \<le> sr_server_fd sr" "has_event w (On_accept s) (sr_listener_event sr)"
    "sr_clientPool sr = Pool_live pool" "set pool = set (sr_clients sr)" "clients_of w s = sr_clients sr" "world_ok w"
    using assms(2) by (rule_tac server_okE [OF assms(1)]) auto
  obtain e v where e: "sr_listener_event sr = Some e" "events w e = Some v" "ev_handler v = On_accept s"
    using sr(3) by (auto simp: has_event_def split: option.splits)
  let ?w = "abandoned s w"
  have close: "af_ipcs_close closer (Some s) w = Some ?w" for closer
    by (rule close_abandons [OF assms(2) sr(1)]) (use sr(4) e in auto)
  have sel: "srvs ?w s = None" "io_log ?w = io_log w @ [Shutdown (sr_server_fd sr) SHUT_RD, Closed (sr_server_fd sr)]"
    "reqs ?w = reqs w" "events ?w = (events w)(e := None)" "tick ?w = tick w" "outcomes ?w = outcomes w"
    "c \<in> set (sr_clients sr) \<Longrightarrow> clis ?w c = None \<and> ctls ?w c = None" for c
    using sr(2,4,5) e(1) assms(2) by (simp_all add: abandoned_def Let_def)
  have keep: "has_event w h x \<Longrightarrow> h \<noteq> On_accept s \<Longrightarrow> has_event ?w h x" for h x
    using e by (auto simp: has_event_def sel(4) split: option.splits)
  have recv: "has_event ?w (On_recv c) (cl_recv_event (the (clis w c)))" if "c \<in> set (clients_of w s)" for c
  proof -
    have "client_ok w s c" using assms(1) that by (rule server_ok_client)
    then have "has_event w (On_recv c) (cl_recv_event (the (clis w c)))"
      by (auto simp: client_ok_def split: option.splits)
    then show ?thesis by (rule keep) simp
  qed
  have dead: "on_recv n run closer evt c ?w = None"
    if "c \<in> set (clients_of w s)" "evt AND EV_READ \<noteq> 0" "ext_recv (ext_now ?w) = Inr bs" "bs \<noteq> []" for c n run closer evt bs
    using that sel(7) sr(6) by (cases n) (simp_all add: on_recv_def recv_def upd_cli_def next_tick_def AF_IPC_MAX_MSGLEN_def min_def)
  have timer: "has_event ?w (On_timeout a) (Some (timer_of w a)) \<and> fire_timer run (timer_of w a) ?w = None"
    if c: "c \<in> set (clients_of w s)" and a: "a \<in> set (pending w c)" for c a run
  proof -
    have op: "db_open w c" using server_ok_client [OF assms(1) c] by (simp add: client_ok_def)
    have "request_ok w c a" using pending_live [OF sr(7) op] a by blast
    then obtain r e' v' where r: "reqs w a = Some r" "rq_req_control r = Some c" "rq_event r = Some e'"
      "events w e' = Some v'" "ev_handler v' = On_timeout a" "ev_added v'" by (rule request_okE)
    then have t: "timer_of w a = e'" "e' \<noteq> e" using e by (auto simp: timer_of_def)
    have "ctls ?w c = None" using sel(7) c sr(6) by simp
    then have "mutex_lock c (?w\<lparr>events := x\<rparr>) = None" for x by (simp add: mutex_lock_def)
    then show ?thesis
      using r t by (simp add: has_event_def sel fire_timer_def af_ipc_on_timeout_def)
  qed
  show ?thesis
    using close sel recv dead timer sr(6) by (intro exI [of _ ?w]) auto
qed

theorem server_close_abandons_example:
  "\<exists>w1. af_ipcs_close (announcing 20 (\<lambda>_ _ _ _. [])) (Some 20) srv_example = Some w1 \<and>
    io_log w1 = [Shutdown 3 SHUT_RD, Closed 3] \<and> clis w1 30 = None \<and> has_event w1 (On_recv 30) (Some 33)"
proof -
  obtain sr where sr: "srvs srv_example 20 = Some sr" "sr_server_fd sr = 3" by (simp add: srv_example_def)
  from server_close_abandons [OF srv_example_ok sr(1)] sr(2) show ?thesis
    by (fastforce simp: new_client_def)
qed

section \<open>Reachable states\<close>

text \<open>
  What can happen to a server with an application of this kind: a connection arrives, while ids
  are left; bytes arrive, and the receive handler runs to its end; the timer of a request fires;
  the application responds, notifies, asks or closes a client. A request is sent only while its
  id is not in use.
\<close>

inductive srv_step ::
    "server_app \<Rightarrow> (nat \<Rightarrow> int \<Rightarrow> u16 \<Rightarrow> nat \<Rightarrow> byte list) \<Rightarrow> (nat \<Rightarrow> u16 \<Rightarrow> nat) \<Rightarrow> nat
     \<Rightarrow> 'a server_world_scheme \<Rightarrow> 'a server_world_scheme \<Rightarrow> bool"
  for app news g s where
  Accept: "length (clients_of w s) < 65535 \<Longrightarrow> ext_ret (outcomes w (tick w + 3)) \<le> 0 \<Longrightarrow>
    on_accept (contextual g) (announcing s news) evt s w = Some w' \<Longrightarrow> srv_step app news g s w w'"
| Receive: "c \<in> set (clients_of w s) \<Longrightarrow> civil app (cid_of w c) (outcomes w) \<Longrightarrow>
    \<forall>n\<ge>N. \<forall>bs. ext_recv (outcomes w n) = Inr bs \<longrightarrow> bs = [] \<Longrightarrow> N - tick w < n \<Longrightarrow>
    on_recv n (server_acting (announcing s news) s app) (announcing s news) evt c w = Some w' \<Longrightarrow>
    srv_step app news g s w w'"
| Timeout: "c \<in> set (clients_of w s) \<Longrightarrow> civil app (cid_of w c) (outcomes w) \<Longrightarrow> a \<in> set (pending w c) \<Longrightarrow>
    fire_timer (server_acting (announcing s news) s app) (timer_of w a) w = Some w' \<Longrightarrow> srv_step app news g s w w'"
| Respond: "length payload \<le> 4088 \<Longrightarrow>
    af_ipcs_send_response (announcing s news) (Some s) sn payload (int (length payload)) w = Some (r, w') \<Longrightarrow>
    srv_step app news g s w w'"
| Notify: "length payload \<le> 4088 \<Longrightarrow>
    af_ipcs_send_unsolicited (announcing s news) (Some s) cid payload (int (length payload)) w = Some (r, w') \<Longrightarrow>
    srv_step app news g s w w'"
| Ask: "length payload \<le> 4088 \<Longrightarrow> 0 < timeoutMs \<Longrightarrow> cid \<noteq> 0 \<Longrightarrow>
    \<forall>c. client_with w s cid = Some c \<longrightarrow> new_seqNum w c \<notin> seq_of w ` set (pending w c) \<Longrightarrow>
    af_ipcs_send_request (announcing s news) (Some s) cid payload (int (length payload)) cb ctx timeoutMs w = Some (r, w') \<Longrightarrow>
    srv_step app news g s w w'"
| Close: "af_ipcs_close_client (announcing s news) (Some s) cid w = Some (r, w') \<Longrightarrow> srv_step app news g s w w'"

inductive srv_reach ::
    "server_app \<Rightarrow> (nat \<Rightarrow> int \<Rightarrow> u16 \<Rightarrow> nat \<Rightarrow> byte list) \<Rightarrow> (nat \<Rightarrow> u16 \<Rightarrow> nat) \<Rightarrow> nat
     \<Rightarrow> 'a server_world_scheme \<Rightarrow> bool"
  for app news g s where
  Open: "world_ok w \<Longrightarrow> \<forall>c. db_open w c \<longrightarrow> c < tick w \<Longrightarrow> length (prefix @ name) < 128 \<Longrightarrow>
    af_ipcs_open prefix (announcing s news) base name acb actx rcb ccb w = Some (Some s, w') \<Longrightarrow>
    srv_reach app news g s w'"
| Event: "srv_reach app news g s w \<Longrightarrow> srv_step app news g s w w' \<Longrightarrow> srv_reach app news g s w'"

inductive_cases srv_stepE: "srv_step app news g s w w'"

lemma opened_ok:
  fixes w :: "'a server_world_scheme" and prefix name :: string
  assumes ok: "world_ok w" "\<forall>c. db_open w c \<longrightarrow> c < tick w" and len: "length (prefix @ name) < 128"
    and op: "af_ipcs_open prefix closer base name acb actx rcb ccb w = Some (Some s, w')"
  shows "server_ok w' s"
proof -
  have e: "events w (tick w + 7) = None"
    using world_okD(3) [OF ok(1)] by (cases "events w (tick w + 7)") (auto simp: timer_owned_def)
  obtain b where b: "base = Some b" using op by (cases base) (simp_all add: af_ipcs_open_def)
  have mem: "\<not> ext_null (outcomes w (tick w))"
    using op by (auto simp: b af_ipcs_open_def calloc_eq split: if_splits)
  have fine: "\<not> open_fails (outcomes w) (tick w)"
    using open_failure [OF len mem _ e, of closer b acb actx rcb ccb] op by (auto simp: b)
  then have "0 \<le> ext_ret (outcomes w (tick w + 2))" by (simp add: open_fails_def)
  from open_ok [OF ok this] server_open_eq [OF len mem fine, of closer b acb actx rcb ccb] op b
  show ?thesis by auto
qed

text \<open>
  The one undefined case of \<^verbatim>\<open>on_accept\<close>: the read event of a client that was set up cannot be
  created, so that \<^verbatim>\<open>add_client\<close> locks the mutex it holds.
\<close>

definition accept_relocks :: "u16 \<Rightarrow> 'a server_world_scheme \<Rightarrow> bool" where
  "accept_relocks evt w \<longleftrightarrow> evt AND EV_READ \<noteq> 0 \<and>
     0 \<le> ext_ret (outcomes w (tick w)) \<and> ext_ret (outcomes w (tick w)) \<le> 1024 \<and>
     \<not> ext_null (outcomes w (tick w + 1)) \<and> \<not> ext_null (outcomes w (tick w + 2)) \<and>
     ext_ret (outcomes w (tick w + 3)) = 0 \<and> ext_null (outcomes w (tick w + 4))"

lemma accept_runs:
  fixes w :: "'a server_world_scheme"
  assumes ok: "server_ok w s" and len: "length (clients_of w s) < 65535" and mutex: "ext_ret (outcomes w (tick w + 3)) \<le> 0"
  shows "if accept_relocks evt w then on_accept (contextual g) closer evt s w = None
    else \<exists>w'. on_accept (contextual g) closer evt s w = Some w' \<and> server_ok w' s"
proof (cases "evt AND EV_READ = 0")
  case True
  with ok show ?thesis by (simp add: on_accept_def accept_relocks_def)
next
  case evt: False
  let ?fd = "ext_ret (outcomes w (tick w))"
  consider (low) "?fd < 0"
    | (fails) "0 \<le> ?fd \<and> (1024 < ?fd \<or> ext_null (outcomes w (tick w + 1)) \<or> ext_null (outcomes w (tick w + 2)) \<or>
        ext_ret (outcomes w (tick w + 3)) < 0)"
    | (relock) "0 \<le> ?fd \<and> ?fd \<le> 1024 \<and> \<not> ext_null (outcomes w (tick w + 1)) \<and> \<not> ext_null (outcomes w (tick w + 2)) \<and>
        ext_ret (outcomes w (tick w + 3)) = 0 \<and> ext_null (outcomes w (tick w + 4))"
    | (adds) "0 \<le> ?fd" "?fd \<le> 1024" "\<not> ext_null (outcomes w (tick w + 1))" "\<not> ext_null (outcomes w (tick w + 2))"
        "ext_ret (outcomes w (tick w + 3)) = 0" "\<not> ext_null (outcomes w (tick w + 4))"
    using mutex by linarith
  then show ?thesis
  proof cases
    case low
    then have "\<not> accept_relocks evt w" by (simp add: accept_relocks_def)
    with on_accept_low [OF ok evt low, of "contextual g" closer] show ?thesis by auto
  next
    case fails
    then have "\<not> accept_relocks evt w" by (auto simp: accept_relocks_def)
    with on_accept_fails [OF ok len evt fails, of "contextual g" closer] show ?thesis by auto
  next
    case relock
    with evt have "accept_relocks evt w" by (simp add: accept_relocks_def)
    with on_accept_relocks [OF ok len evt relock, of "contextual g" closer] show ?thesis by simp
  next
    case adds
    then have "\<not> accept_relocks evt w" by (simp add: accept_relocks_def)
    moreover obtain sr where "srvs w s = Some sr" by (rule server_okE [OF ok])
    from contextual.on_accept_adds [OF ok this len evt adds, of g closer] have
      "\<exists>w'. on_accept (contextual g) closer evt s w = Some w' \<and> server_ok w' s" by blast
    ultimately show ?thesis by simp
  qed
qed

lemma closed_by_ok:
  assumes "server_ok w s" "c \<in> set (clients_of w s)" "closed_by (announcing s news) status s c w = Some w'"
  shows "server_ok w' s"
  using server_closer.closed_by_keeps [OF closer_announcing assms(1,2), of news status] assms(3) by auto

lemma delivered_ok:
  assumes ok: "server_ok w s" and c: "c \<in> set (clients_of w s)" and del: "delivered (announcing s news) s c sn payload w = Some (r, w')"
  shows "server_ok w' s"
proof -
  have "c \<in> set (clients_of (refused w) s)" using c by (simp add: clients_of_def)
  then show ?thesis
    using del server_ok_told [OF ok] closed_by_ok
    by (auto simp: delivered_def split: option.splits if_splits)
qed

lemma routed_ok:
  assumes "server_ok w s" "client_with w s cid = Some c" "delivered (announcing s news) s c sn payload w = Some (r, w')"
  shows "server_ok w' s"
  using assms(1) client_with_Some(1) [OF assms(2)] assms(3) by (rule delivered_ok)

lemma close_routed_ok:
  assumes "server_ok w s" "client_with w s cid = Some c" "closed_by (announcing s news) status s c w = Some w'"
  shows "server_ok w' s"
  using assms(1) client_with_Some(1) [OF assms(2)] assms(3) by (rule closed_by_ok)

lemma timer_runs:
  assumes ok: "server_ok w s" and c: "c \<in> set (clients_of w s)" "civil app (cid_of w c) (outcomes w)" and a: "a \<in> set (pending w c)"
  shows "\<exists>w'. fire_timer (server_acting (announcing s news) s app) (timer_of w a) w = Some w' \<and> server_ok w' s"
proof -
  have inv: "serving s c (cid_of w c) (outcomes w) (tick w) w" using ok c by (simp add: serving_def)
  have "request_ok w c a" using pending_live [of w c] serving_open [OF inv] a by blast
  then obtain v where v: "events w (timer_of w a) = Some v" "ev_handler v = On_timeout a"
    by (auto elim!: request_okE simp: timer_of_def)
  from receiver.fire_timer_inv [OF server_acting.keeps_receiver [OF c(2)] inv v, of news]
  show ?thesis by (auto simp: serving_def)
qed

lemma ask_runs:
  assumes ok: "server_ok w s" and len: "length payload \<le> 4088" and t: "0 < timeoutMs" and cid: "cid \<noteq> 0"
    and fresh: "\<forall>c. client_with w s cid = Some c \<longrightarrow> new_seqNum w c \<notin> seq_of w ` set (pending w c)"
  shows "\<exists>r w'. af_ipcs_send_request (announcing s news) (Some s) cid payload (int (length payload)) cb ctx timeoutMs w =
      Some (r, w') \<and> server_ok w' s"
proof -
  have eq: "af_ipcs_send_request (announcing s news) (Some s) cid payload (int (length payload)) cb ctx timeoutMs w =
    (case client_with w s cid of None \<Rightarrow> Some (-1, set_errno 2 w)
     | Some c \<Rightarrow> requested (announcing s news) s c payload cb ctx timeoutMs w)"
    by (rule send_request_routed [OF ok len t cid]) (use fresh in blast)
  show ?thesis
  proof (cases "client_with w s cid")
    case None
    then show ?thesis using server_ok_told(4) [OF ok, of 2] by (simp add: eq)
  next
    case (Some c)
    note c = client_with_Some(1) [OF Some]
    let ?res = "request_result (fd_of w c) c payload cb ctx timeoutMs w"
    have op: "db_open w c" using server_ok_client [OF ok c] by (simp add: client_ok_def)
    have ok': "server_ok (snd ?res) s" by (rule server_ok_request [OF ok op t]) (use fresh Some in blast)
    have "c \<in> set (clients_of (snd ?res) s)" using c by (simp add: clients_of_def request_result_srvs)
    from server_closer.closed_by_keeps [OF closer_announcing ok' this, of news AF_IPC_STATUS_ERROR] ok' show ?thesis
      by (cases ?res) (auto simp: eq Some requested_def)
  qed
qed

lemma srv_step_ok: "srv_step app news g s w w' \<Longrightarrow> server_ok w s \<Longrightarrow> server_ok w' s"
proof (induction rule: srv_step.induct)
  case (Accept w evt w')
  from accept_runs [OF Accept(4,1,2), of evt g "announcing s news"] Accept(3) show ?case
    by (auto split: if_splits)
next
  case (Receive c w N n evt w')
  show ?case
  proof (cases "evt AND EV_READ = 0")
    case True
    with Receive show ?thesis by (simp add: on_recv_def)
  next
    case False
    have "serving s c (cid_of w c) (outcomes w) (tick w) w" using Receive by (simp add: serving_def)
    from Receive(2,3) this Receive(4) obtain w1 where w1: "serving s c (cid_of w c) (outcomes w) (tick w) w1"
      "server_recv_loop n (server_acting (announcing s news) s app) (announcing s news) c w = Some w1 \<or>
        server_recv_loop n (server_acting (announcing s news) s app) (announcing s news) c w =
          closed_by (announcing s news) AF_IPC_STATUS_ERROR s c w1"
      by (rule server_acting.recv_loop_cases)
    then show ?thesis using Receive(5) False closed_by_ok [of w1 s c] by (auto simp: serving_def on_recv_def)
  qed
next
  case (Timeout c w a w')
  from timer_runs [OF Timeout(5,1,2,3), of news] Timeout(4) show ?case by auto
next
  case (Respond payload sn w r w')
  then show ?case
    using server_ok_told(4) [OF Respond(3), of 22]
    by (auto dest: routed_ok [OF Respond(3)] simp: send_response_eq [OF Respond(3,1)] split: if_splits option.splits)
next
  case (Notify payload cid w r w')
  then show ?case
    using server_ok_told(4) [OF Notify(3), of 2] server_ok_told_all [OF Notify(3)]
    by (auto dest: routed_ok [OF Notify(3)] simp: send_unsolicited_eq [OF Notify(3,1)] split: if_splits option.splits)
next
  case (Ask payload timeoutMs cid w cb ctx r w')
  from ask_runs [OF Ask(6,1-4), of news cb ctx] Ask(5) show ?case by auto
next
  case (Close cid w r w')
  then show ?case
    by (auto dest: close_routed_ok [OF Close(2)] simp: close_client_api [OF Close(2)] split: option.splits)
qed

lemma srv_reach_ok: "srv_reach app news g s w \<Longrightarrow> server_ok w s"
  by (induction rule: srv_reach.induct) (blast intro: opened_ok srv_step_ok)+


definition srv_opened :: server_world where
  "srv_opened = with_srv 20 (open_srv 900 (Some 1) (Some 27) Mutex_free (Pool_live []) (Some 5) 9 (Some 6) (Some 4))
     (srv_start\<lparr>tick := 29, events := [27 \<mapsto> \<lparr>ev_handler = On_accept 20, ev_added = True, ev_timeout = None\<rparr>],
       io_log := [Unlink ''/var/run/x'', Bind 900 ''/var/run/x'', Listen 900]\<rparr>)"

lemma srv_opened_reach: "srv_reach app news g 20 srv_opened"
proof (rule srv_reach.Open)
  show len: "length (''/var/run/'' @ ''x'') < 128" by simp
  show "world_ok srv_start" "\<forall>c. db_open srv_start c \<longrightarrow> c < tick srv_start"
    by (simp_all add: srv_start_def world_ok_def db_open_def)
  have fine: "\<not> ext_null (outcomes srv_start (tick srv_start))" "\<not> open_fails (outcomes srv_start) (tick srv_start)"
    by (simp_all add: srv_start_def srv_env_def open_fails_def)
  show "af_ipcs_open ''/var/run/'' (announcing 20 news) (Some 1) ''x'' (Some 5) 9 (Some 6) (Some 4) srv_start =
      Some (Some 20, srv_opened)"
    using server_open_eq [OF len fine, of "announcing 20 news" 1 "Some 5" 9 "Some 6" "Some 4"]
    by (simp add: srv_opened_def) (simp add: srv_start_def srv_env_def)
qed


end
