(* ===== verification/Tool_Text.thy ===== *)
theory Tool_Text
  imports Prelude
begin

text \<open>
  Text as the command line tools use it: the character classes and number conversions of the
  C library (locale C, LP64), and the helpers \<^verbatim>\<open>is_digits\<close>, \<^verbatim>\<open>is_xdigits\<close> and \<^verbatim>\<open>hexnybble\<close> of
  \<^verbatim>\<open>src/pkg/src/ipc_send.c\<close>. A string is a list of characters without its terminator.
\<close>

section \<open>Characters and bytes\<close>

definition code :: "char \<Rightarrow> nat" where
  "code c = of_char c"

definition byte_of :: "char \<Rightarrow> byte" where
  "byte_of c = word_of_nat (code c)"

definition char_of_byte :: "byte \<Rightarrow> char" where
  "char_of_byte b = char_of (unat b)"

lemma code_less: "code c < 256"
  by (simp add: code_def)

lemma unat_byte_of [simp]: "unat (byte_of c) = code c"
  using code_less [of c] by (simp add: byte_of_def unat_of_nat take_bit_eq_mod)

lemma char_of_byte_of [simp]: "char_of_byte (byte_of c) = c"
  by (simp add: char_of_byte_def) (simp add: code_def)

lemma byte_of_char_of_byte [simp]: "byte_of (char_of_byte b) = b"
proof -
  have "unat b < 256" using unsigned_less [of b] by simp
  then show ?thesis by (simp add: byte_of_def char_of_byte_def code_def)
qed

lemma byte_of_eq_iff [simp]: "byte_of c = byte_of d \<longleftrightarrow> c = d"
  by (metis char_of_byte_of)

text \<open>The bytes of a string with and without its terminator, and the string at the start of bytes.\<close>

definition bytes_of :: "string \<Rightarrow> byte list" where
  "bytes_of s = map byte_of s"

definition c_string :: "byte list \<Rightarrow> string" where
  "c_string bs = map char_of_byte (takeWhile (\<lambda>b. b \<noteq> 0) bs)"

definition no_nul :: "string \<Rightarrow> bool" where
  "no_nul s \<longleftrightarrow> (\<forall>c \<in> set s. code c \<noteq> 0)"

lemma bytes_of_simps [simp]: "bytes_of [] = []" "bytes_of (c # s) = byte_of c # bytes_of s"
  "bytes_of (s @ t) = bytes_of s @ bytes_of t" "length (bytes_of s) = length s"
  by (simp_all add: bytes_of_def)

lemma bytes_of_nonzero: "no_nul s \<Longrightarrow> b \<in> set (bytes_of s) \<Longrightarrow> b \<noteq> 0"
  by (auto simp: no_nul_def bytes_of_def simp flip: unat_byte_of)

lemma c_string_bytes: "no_nul s \<Longrightarrow> c_string (bytes_of s @ 0 # bs) = s"
proof -
  assume s: "no_nul s"
  have "takeWhile (\<lambda>b. b \<noteq> 0) (bytes_of s @ 0 # bs) = bytes_of s"
    using bytes_of_nonzero [OF s] by (subst takeWhile_append2) auto
  then show ?thesis by (simp add: c_string_def bytes_of_def comp_def)
qed

section \<open>Classes of characters\<close>

definition isdigit :: "char \<Rightarrow> bool" where
  "isdigit c \<longleftrightarrow> 48 \<le> code c \<and> code c \<le> 57"

definition isxdigit :: "char \<Rightarrow> bool" where
  "isxdigit c \<longleftrightarrow> isdigit c \<or> 65 \<le> code c \<and> code c \<le> 70 \<or> 97 \<le> code c \<and> code c \<le> 102"

definition isspace :: "char \<Rightarrow> bool" where
  "isspace c \<longleftrightarrow> code c = 32 \<or> 9 \<le> code c \<and> code c \<le> 13"

fun digits_only :: "string \<Rightarrow> bool" where
  "digits_only [] \<longleftrightarrow> True"
| "digits_only (c # s) \<longleftrightarrow> (if \<not> isdigit c then False else digits_only s)"

fun xdigits_only :: "string \<Rightarrow> bool" where
  "xdigits_only [] \<longleftrightarrow> True"
| "xdigits_only (c # s) \<longleftrightarrow> (if \<not> isxdigit c then False else xdigits_only s)"

definition is_digits :: "string option \<Rightarrow> bool" where
  "is_digits s = (case s of Some s \<Rightarrow> digits_only s | None \<Rightarrow> False)"

definition is_xdigits :: "string option \<Rightarrow> bool" where
  "is_xdigits s = (case s of Some s \<Rightarrow> xdigits_only s | None \<Rightarrow> False)"

lemma digits_only_iff: "digits_only s \<longleftrightarrow> (\<forall>c \<in> set s. isdigit c)"
  by (induction s) auto

lemma xdigits_only_iff: "xdigits_only s \<longleftrightarrow> (\<forall>c \<in> set s. isxdigit c)"
  by (induction s) auto

definition hexnybble :: "char \<Rightarrow> byte" where
  "hexnybble c =
     (if 48 \<le> code c \<and> code c \<le> 57 then word_of_nat (code c - 48)
      else if 97 \<le> code c \<and> code c \<le> 102 then word_of_nat (code c - 97 + 10)
      else if 65 \<le> code c \<and> code c \<le> 70 then word_of_nat (code c - 65 + 10)
      else 0)"

section \<open>Reading numbers\<close>

text \<open>The value of the leading digits.\<close>

fun digits_val :: "string \<Rightarrow> nat \<Rightarrow> nat" where
  "digits_val [] v = v"
| "digits_val (c # s) v = (if isdigit c then digits_val s (10 * v + (code c - 48)) else v)"

text \<open>White space and a sign are skipped; the sign is true for a minus.\<close>

definition number_text :: "string \<Rightarrow> bool \<times> string" where
  "number_text s =
     (let s = dropWhile isspace s in
      if s \<noteq> [] \<and> hd s = CHR ''-'' then (True, tl s)
      else if s \<noteq> [] \<and> hd s = CHR ''+'' then (False, tl s)
      else (False, s))"

text \<open>\<^verbatim>\<open>strtol\<close> and \<^verbatim>\<open>strtoul\<close> with base 10: a number outside the 64-bit type gives the nearest limit.\<close>

definition strtol :: "string \<Rightarrow> int" where
  "strtol s = (let (neg, t) = number_text s; v = int (digits_val t 0) in
     if neg then max (- (2 ^ 63)) (- v) else min (2 ^ 63 - 1) v)"

definition strtoul :: "string \<Rightarrow> int" where
  "strtoul s = (let (neg, t) = number_text s; v = int (digits_val t 0) in
     if v > 2 ^ 64 - 1 then 2 ^ 64 - 1 else if neg then (- v) mod 2 ^ 64 else v)"

text \<open>\<^verbatim>\<open>atoi\<close> is \<^verbatim>\<open>strtol\<close> converted to \<^verbatim>\<open>int\<close>, and a conversion to a 32-bit type keeps the low bits.\<close>

definition atoi :: "string \<Rightarrow> int" where
  "atoi s = sint (word_of_int (strtol s) :: u32)"

section \<open>Printing numbers\<close>

definition digit :: "nat \<Rightarrow> char" where
  "digit d = (if d < 10 then char_of (48 + d) else char_of (87 + d))"

fun decimal :: "nat \<Rightarrow> string" where
  "decimal n = (if n < 10 then [digit n] else decimal (n div 10) @ [digit (n mod 10)])"

declare decimal.simps [simp del]

text \<open>The conversions \<^verbatim>\<open>%u\<close>, \<^verbatim>\<open>%d\<close> and \<^verbatim>\<open>%02x\<close>.\<close>

definition format_u :: "u32 \<Rightarrow> string" where
  "format_u w = decimal (unat w)"

definition format_d :: "u32 \<Rightarrow> string" where
  "format_d w = (if sint w < 0 then CHR ''-'' # decimal (nat (- sint w)) else decimal (nat (sint w)))"

definition format_02x :: "byte \<Rightarrow> string" where
  "format_02x b = [digit (unat b div 16), digit (unat b mod 16)]"

lemma code_digit: "d < 16 \<Longrightarrow> code (digit d) = (if d < 10 then 48 + d else 87 + d)"
  by (simp add: code_def digit_def)

lemma digit_class: "d < 10 \<Longrightarrow> isdigit (digit d)" "d < 16 \<Longrightarrow> isxdigit (digit d)"
  by (auto simp: isdigit_def isxdigit_def code_digit)

lemma decimal_digits: "c \<in> set (decimal n) \<Longrightarrow> isdigit c"
proof (induction n rule: decimal.induct)
  case (1 n)
  then show ?case
    by (subst (asm) decimal.simps) (auto simp: digit_class split: if_splits)
qed

lemma decimal_not_Nil [simp]: "decimal n \<noteq> []"
  by (subst decimal.simps) simp

lemma digits_only_decimal [simp]: "digits_only (decimal n)"
  by (simp add: digits_only_iff decimal_digits)

lemma digits_val_append:
  "digits_only s \<Longrightarrow> digits_val (s @ t) v = digits_val t (digits_val s v)"
  by (induction s arbitrary: v) (auto split: if_splits)

lemma digits_val_decimal [simp]: "digits_val (decimal n) 0 = n"
proof (induction n rule: decimal.induct)
  case (1 n)
  show ?case
  proof (cases "n < 10")
    case True
    then show ?thesis by (subst decimal.simps) (simp add: digit_class code_digit)
  next
    case False
    then have "digits_val (decimal n) 0 = digits_val [digit (n mod 10)] (n div 10)"
      using 1 by (subst decimal.simps) (simp add: digits_val_append)
    then show ?thesis by (simp add: digit_class code_digit)
  qed
qed

lemma length_decimal: "n < 10 ^ Suc k \<Longrightarrow> length (decimal n) \<le> Suc k"
proof (induction k arbitrary: n)
  case 0
  then show ?case by (subst decimal.simps) simp
next
  case (Suc k)
  show ?case
  proof (cases "n < 10")
    case True
    then show ?thesis by (subst decimal.simps) simp
  next
    case False
    have "n div 10 < 10 ^ Suc k" using Suc.prems by (simp add: less_mult_imp_div_less)
    with Suc.IH False show ?thesis by (subst decimal.simps) simp
  qed
qed

lemma length_decimal_ge: "10 ^ k \<le> n \<Longrightarrow> Suc k \<le> length (decimal n)"
proof (induction k arbitrary: n)
  case 0
  then show ?case by (cases "decimal n") auto
next
  case (Suc k)
  then have "10 ^ k \<le> n div 10" by (simp add: less_eq_div_iff_mult_less_eq)
  moreover have "\<not> n < 10"
  proof -
    have "(10 :: nat) \<le> 10 ^ Suc k" by simp
    with Suc.prems show ?thesis by linarith
  qed
  ultimately show ?case using Suc.IH [of "n div 10"] by (subst decimal.simps) simp
qed

lemma digit_no_nul: "isxdigit c \<Longrightarrow> code c \<noteq> 0"
  by (auto simp: isxdigit_def isdigit_def)

lemma isdigit_isxdigit: "isdigit c \<Longrightarrow> isxdigit c"
  by (simp add: isxdigit_def)

lemma isdigit_plain: "isdigit c \<Longrightarrow> \<not> isspace c \<and> c \<noteq> CHR ''-'' \<and> c \<noteq> CHR ''+''"
  by (auto simp: isdigit_def isspace_def code_def)

lemma number_text_digits: "s \<noteq> [] \<Longrightarrow> digits_only s \<Longrightarrow> number_text s = (False, s)"
  by (cases s) (auto simp: number_text_def isdigit_plain Let_def split: if_splits)

lemma number_text_minus: "number_text (CHR ''-'' # s) = (True, s)"
  by (simp add: number_text_def isspace_def code_def)

lemma number_text_Nil: "number_text [] = (False, [])"
  by (simp add: number_text_def)

text \<open>What the two conversions do with the text of a number.\<close>

lemma strtoul_decimal: "strtoul (decimal n) = min (int n) (2 ^ 64 - 1)"
  by (simp add: strtoul_def number_text_digits Let_def min_def)

lemma strtol_decimal: "strtol (decimal n) = min (int n) (2 ^ 63 - 1)"
  by (simp add: strtol_def number_text_digits min.commute)

lemma strtol_minus: "strtol (CHR ''-'' # decimal n) = max (- int n) (- (2 ^ 63))"
  by (simp add: strtol_def number_text_minus max.commute)

text \<open>A printed 32-bit value is read back.\<close>

lemma strtol_format_d: "strtol (format_d w) = sint w"
proof -
  have "- (2 ^ 31) \<le> sint w" "sint w < 2 ^ 31"
    using sint_ge [of w] sint_less [of w] by simp_all
  then show ?thesis by (simp add: format_d_def strtol_decimal strtol_minus)
qed

lemma strtoul_format_u: "strtoul (format_u w) = uint w"
proof -
  have "uint w < 2 ^ 32" using unsigned_less [of w, where ?'a = int] by simp
  then show ?thesis by (simp add: format_u_def strtoul_decimal)
qed

lemma atoi_sizes: "atoi ''8'' = 8" "atoi ''16'' = 16" "atoi ''32'' = 32"
  by code_simp+

section \<open>Hexadecimal text\<close>

text \<open>The bytes of an even number of hexadecimal digits.\<close>

fun hex_bytes :: "string \<Rightarrow> byte list" where
  "hex_bytes (c # d # s) = (hexnybble c * 16 + hexnybble d) # hex_bytes s"
| "hex_bytes _ = []"

definition hex_text :: "byte list \<Rightarrow> string" where
  "hex_text bs = concat (map format_02x bs)"

lemma hex_text_simps [simp]: "hex_text [] = []" "hex_text (b # bs) = format_02x b @ hex_text bs"
  by (simp_all add: hex_text_def)

lemma length_format_02x [simp]: "length (format_02x b) = 2"
  by (simp add: format_02x_def)

lemma length_hex_text [simp]: "length (hex_text bs) = 2 * length bs"
  by (induction bs) simp_all

lemma length_hex_bytes: "length (hex_bytes s) = length s div 2"
  by (induction s rule: hex_bytes.induct) simp_all

lemma nybble_less: "unat (b :: byte) div 16 < 16" "unat b mod 16 < 16"
  using unsigned_less [of b, where ?'a = nat] by (simp_all add: less_mult_imp_div_less)

lemma hexnybble_digit: "d < 16 \<Longrightarrow> hexnybble (digit d) = word_of_nat d"
  by (simp add: hexnybble_def code_digit)

lemma hex_bytes_text [simp]: "hex_bytes (hex_text bs) = bs"
proof (induction bs)
  case (Cons b bs)
  have "word_of_nat (unat b div 16 * 16 + unat b mod 16) = b"
    by (simp only: div_mult_mod_eq) simp
  then have "(word_of_nat (unat b div 16) :: byte) * 16 + word_of_nat (unat b mod 16) = b"
    by (simp only: of_nat_add of_nat_mult of_nat_numeral)
  then show ?case
    using Cons by (simp add: format_02x_def hexnybble_digit nybble_less)
qed simp

lemma xdigits_only_hex_text [simp]: "xdigits_only (hex_text bs)"
  by (induction bs) (auto simp: xdigits_only_iff format_02x_def digit_class nybble_less)

end
