(* ===== verification/Tool_Print.thy ===== *)
theory Tool_Print
  imports Tool_Text Rpc_Params_Read
begin

text \<open>
  How the tools print a reply: the part of \<^verbatim>\<open>main\<close> in \<^verbatim>\<open>src/pkg/src/ipc_send.c\<close> that turns the
  values of a message into the text \<^verbatim>\<open>ret_string\<close> (the same code is in \<^verbatim>\<open>ipc_wait.c\<close>), and the
  text that a message of well-formed values gives. \<^verbatim>\<open>ret_string\<close> is a list of 256 bytes; a write
  outside is undefined.
\<close>

section \<open>The code\<close>

definition IPC_SEND_INSTR_MAX_LEN :: int where "IPC_SEND_INSTR_MAX_LEN = 256"
definition IPC_SEND_MAX_PARAMS :: nat where "IPC_SEND_MAX_PARAMS = 16"
definition IPC_SEND_ERR :: int where "IPC_SEND_ERR = -1"
definition IPC_SEND_OK :: int where "IPC_SEND_OK = 0"

lemmas ipc_send_consts = IPC_SEND_INSTR_MAX_LEN_def IPC_SEND_MAX_PARAMS_def IPC_SEND_ERR_def IPC_SEND_OK_def

definition put :: "byte list \<Rightarrow> int \<Rightarrow> byte list \<Rightarrow> byte list option" where
  "put rs pos xs = (if 0 \<le> pos \<and> nat pos + length xs \<le> length rs then Some (poke rs (nat pos) xs) else None)"

text \<open>
  The text of an integer; \<open>Inl\<close> is \<^verbatim>\<open>goto exit\<close>. \<^verbatim>\<open>tmp\<close> has 11 bytes, one less than the text
  of a negative number of ten digits with its terminator.
\<close>

definition int_text :: "af_rpc_param \<Rightarrow> (unit + string) option" where
  "int_text p =
     (let type = ptype p in
      if type = ucast AF_RPC_TYPE_UINT8 \<or> type = ucast AF_RPC_TYPE_UINT16 \<or> type = ucast AF_RPC_TYPE_UINT32 then do {
        w \<leftarrow> int_base p;
        let tmp = format_u w;
        if length tmp + 1 > 11 then None else Some (Inr tmp)
      }
      else if type = ucast AF_RPC_TYPE_INT8 \<or> type = ucast AF_RPC_TYPE_INT16 \<or> type = ucast AF_RPC_TYPE_INT32 then do {
        w \<leftarrow> int_base p;
        let tmp = format_d w;
        if length tmp + 1 > 11 then None else Some (Inr tmp)
      }
      else Some (Inl ()))"

text \<open>The loop that prints the bytes of a blob, each with a terminator behind it.\<close>

fun put_hex :: "byte list \<Rightarrow> int \<Rightarrow> byte list \<Rightarrow> (byte list \<times> int) option" where
  "put_hex rs pos [] = Some (rs, pos)"
| "put_hex rs pos (b # bs) = do {
     rs \<leftarrow> put rs pos (bytes_of (format_02x b) @ [0]);
     put_hex rs (pos + 2) bs
   }"

text \<open>
  One parameter: \<open>Inl\<close> is \<^verbatim>\<open>goto exit\<close>; \<open>Inr\<close> has \<^verbatim>\<open>ret_string\<close>, \<^verbatim>\<open>pos\<close>, and whether the loop
  goes on (a string ends it).
\<close>

definition print_value :: "mem \<Rightarrow> af_rpc_param \<Rightarrow> byte list \<Rightarrow> int \<Rightarrow> (unit + byte list \<times> int \<times> bool) option" where
  "print_value m p ret_string pos =
     (if AF_RPC_TYPE_IS_INTEGER (ptype p) then do {
        tmp \<leftarrow> int_text p;
        case tmp of
          Inl _ \<Rightarrow> Some (Inl ())
        | Inr tmp \<Rightarrow>
            let bytes = int (length tmp) in
            if csize (pos + bytes) < 255 then do {
              ret_string \<leftarrow> put ret_string 0 (bytes_of tmp @ [0]);
              Some (Inr (ret_string, pos + bytes, True))
            }
            else Some (Inl ())
      }
      else
        let len = uint (AF_RPC_BLOB_SIZE (ptype p)) in
        if AF_RPC_BLOB_IS_STRING (ptype p) then
          if csize (pos + len + 2) < 255 then do {
            ret_string \<leftarrow> put ret_string pos [0x22];
            let pos = pos + 1;
            xs \<leftarrow> load m (base p) (nat len);
            ret_string \<leftarrow> put ret_string pos xs;
            ret_string \<leftarrow> put ret_string (pos + len - 1) [0x22];
            ret_string \<leftarrow> put ret_string (pos + len) [0];
            Some (Inr (ret_string, pos, False))
          }
          else Some (Inl ())
        else if csize (pos + len * 2) < 255 then do {
          xs \<leftarrow> load m (base p) (nat len);
          (ret_string, pos) \<leftarrow> put_hex ret_string pos xs;
          Some (Inr (ret_string, pos, True))
        }
        else Some (Inl ()))"

text \<open>The loop over the parameters; \<open>i\<close> is the index of the first one in the list.\<close>

fun print_values ::
    "mem \<Rightarrow> nat \<Rightarrow> af_rpc_param list \<Rightarrow> byte list \<Rightarrow> int \<Rightarrow> (unit + byte list) option" where
  "print_values m i [] ret_string pos = Some (Inr ret_string)"
| "print_values m i (p # ps) ret_string pos =
     (if i \<noteq> 0 \<and> \<not> csize (pos + 1) < 255 then Some (Inl ())
      else do {
        (ret_string, pos) \<leftarrow> (if i \<noteq> 0
          then map_option (\<lambda>rs. (rs, pos + 1)) (put ret_string pos [0x20])
          else Some (ret_string, pos));
        r \<leftarrow> print_value m p ret_string pos;
        case r of
          Inl _ \<Rightarrow> Some (Inl ())
        | Inr (ret_string, pos, goes_on) \<Rightarrow>
            if goes_on then print_values m (Suc i) ps ret_string pos else Some (Inr ret_string)
      })"

text \<open>Reading the reply from \<^verbatim>\<open>outBuffer\<close> and formatting it; \<open>Inl\<close> is \<^verbatim>\<open>goto exit\<close>.\<close>

definition reply_text :: "mem \<Rightarrow> ptr \<Rightarrow> int \<Rightarrow> (unit + byte list) option" where
  "reply_text m outBuffer outBufferSize = do {
     let ret_params = replicate IPC_SEND_MAX_PARAMS \<lparr>base = NULL, ptype = 0\<rparr>;
     (ret_params, num_ret_params) \<leftarrow> af_rpc_get_params_from_buffer m (Some ret_params)
        (int IPC_SEND_MAX_PARAMS) outBuffer outBufferSize 1;
     if num_ret_params < 0 then Some (Inl ())
     else do {
       ps \<leftarrow> ret_params;
       print_values m 0 (take (nat num_ret_params) ps) (replicate 256 0) 0
     }
   }"

section \<open>The text of a value\<close>

definition signed :: "int \<Rightarrow> string" where
  "signed i = (if i < 0 then CHR ''-'' # decimal (nat (- i)) else decimal (nat i))"

text \<open>A string value carries its terminator.\<close>

fun shown :: "tlv \<Rightarrow> string" where
  "shown (TU8 v) = decimal (unat v)"
| "shown (TU16 v) = decimal (unat v)"
| "shown (TU32 v) = decimal (unat v)"
| "shown (TI8 v) = signed (sint v)"
| "shown (TI16 v) = signed (sint v)"
| "shown (TI32 v) = signed (sint v)"
| "shown (TBlob False xs) = hex_text xs"
| "shown (TBlob True xs) = CHR 0x22 # c_string xs @ [CHR 0x22]"

fun is_string :: "tlv \<Rightarrow> bool" where
  "is_string (TBlob True xs) \<longleftrightarrow> True"
| "is_string _ \<longleftrightarrow> False"

fun is_int :: "tlv \<Rightarrow> bool" where
  "is_int (TBlob s xs) \<longleftrightarrow> False"
| "is_int _ \<longleftrightarrow> True"

text \<open>
  Values that can be printed: no integer whose text overflows \<^verbatim>\<open>tmp\<close>, and strings that end with
  their only terminator.
\<close>

fun printable :: "tlv \<Rightarrow> bool" where
  "printable (TI32 v) \<longleftrightarrow> - (10 ^ 9) < sint v"
| "printable (TBlob True xs) \<longleftrightarrow> (\<exists>s. no_nul s \<and> xs = bytes_of s @ [0])"
| "printable _ \<longleftrightarrow> True"

text \<open>The values up to the first string; the text of values separated by blanks.\<close>

fun visible :: "tlv list \<Rightarrow> tlv list" where
  "visible [] = []"
| "visible (t # ts) = t # (if is_string t then [] else visible ts)"

fun joined :: "tlv list \<Rightarrow> string" where
  "joined [] = []"
| "joined [t] = shown t"
| "joined (t # ts) = shown t @ CHR '' '' # joined ts"

text \<open>
  What the code prints of the values up to and including the first string: all of them,
  separated by blanks, unless one behind the first is an integer. Such an integer is copied to
  the start of the text with its terminator, over what is there, so that neither the values
  before it nor those behind it are seen: the last such integer is all that is printed.
\<close>

definition printed :: "tlv list \<Rightarrow> string" where
  "printed ts = (let later = filter is_int (drop 1 (visible ts)) in
     if later = [] then joined (visible ts) else shown (last later))"

lemma joined_snoc: "joined (ts @ [t]) = (if ts = [] then shown t else joined ts @ CHR '' '' # shown t)"
proof (induction ts rule: joined.induct)
  case (3 t' u ts)
  then show ?case by simp
qed simp_all

end
