(* ===== verification/Send_Params.thy ===== *)
theory Send_Params
  imports Tool_Print Client
begin

text \<open>
  The state of the tools \<^verbatim>\<open>src/pkg/src/ipc_send.c\<close> and \<^verbatim>\<open>ipc_wait.c\<close>, and the parsing of the
  command line of \<^verbatim>\<open>ipc_send\<close>: \<^verbatim>\<open>format_int_param\<close>, \<^verbatim>\<open>format_uint_param\<close>, \<^verbatim>\<open>param_parser\<close> and
  \<^verbatim>\<open>dealloc_params\<close>. Messages on \<^verbatim>\<open>stderr\<close> are left out.
\<close>

section \<open>The state of the tools\<close>

text \<open>
  The memory of the tools: objects \<open>0\<close> and \<open>1\<close> are the static arrays \<^verbatim>\<open>outBuffer\<close> and
  \<^verbatim>\<open>txBuffer\<close>, the others come from \<^verbatim>\<open>malloc\<close>. \<open>bases\<close> are the live event bases, \<open>exiting\<close> says
  that \<^verbatim>\<open>event_base_loopexit\<close> was called, \<open>stdout\<close> is what was printed.
\<close>

record tool_world = client_world +
  heap :: mem
  bases :: "nat set"
  s_base :: "nat option"
  s_server :: "nat option"
  dataReceived :: bool
  outBufferSize :: int
  exiting :: bool
  stdout :: string

definition outBuffer :: ptr where "outBuffer = VPtr 0 0"
definition txBuffer :: ptr where "txBuffer = VPtr 1 0"

text \<open>The static variables of \<^verbatim>\<open>ipc_send.c\<close> that \<^verbatim>\<open>ipc_wait.c\<close> does not have.\<close>

record send_world = tool_world +
  name :: "string option"
  in_params :: "af_rpc_param list"
  num_in_params :: int

text \<open>
  \<^verbatim>\<open>malloc\<close> and \<^verbatim>\<open>free\<close>. The contents of new memory are not determined in C; they are zero here,
  and the code writes all of it before it reads any.
\<close>

definition malloc :: "nat \<Rightarrow> 'a tool_world_scheme \<Rightarrow> ptr \<times> 'a tool_world_scheme" where
  "malloc n w =
     (if ext_null (ext_now w) then (NULL, next_tick w)
      else (VPtr (tick w + 2) 0, next_tick (w\<lparr>heap := (heap w)(tick w + 2 \<mapsto> replicate n 0)\<rparr>)))"

definition free_block :: "ptr \<Rightarrow> mem \<Rightarrow> mem option" where
  "free_block p m = (case p of VInt _ \<Rightarrow> None
     | VPtr b i \<Rightarrow> if 2 \<le> b \<and> i = 0 \<and> m b \<noteq> None then Some (m(b := None)) else None)"

section \<open>Numbers\<close>

definition put_param :: "af_rpc_param list \<Rightarrow> nat \<Rightarrow> af_rpc_param \<Rightarrow> (int \<times> af_rpc_param list) option" where
  "put_param param index p = (if index < length param then Some (IPC_SEND_OK, param[index := p]) else None)"

text \<open>
  The value is converted to \<^verbatim>\<open>int32_t\<close> before its range is checked. The macros store it as it is;
  within the range this is the value of the narrower type.
\<close>

definition format_int_param ::
    "int \<Rightarrow> string option \<Rightarrow> af_rpc_param list \<Rightarrow> nat \<Rightarrow> (int \<times> af_rpc_param list) option" where
  "format_int_param bits pval_str param index =
     (case pval_str of
        None \<Rightarrow> Some (IPC_SEND_ERR, param)
      | Some s \<Rightarrow>
          if (if s \<noteq> [] \<and> hd s = CHR ''-'' then \<not> is_digits (Some (tl s)) else \<not> is_digits (Some s))
          then Some (IPC_SEND_ERR, param)
          else
            let param_val = (word_of_int (strtol s) :: u32) in
            if bits = 8 then
              (if sint param_val < -128 \<or> sint param_val > 127 then Some (IPC_SEND_ERR, param)
               else put_param param index (AF_RPC_SET_PARAM_AS_INT8 (ucast param_val)))
            else if bits = 16 then
              (if sint param_val < -32768 \<or> sint param_val > 32767 then Some (IPC_SEND_ERR, param)
               else put_param param index (AF_RPC_SET_PARAM_AS_INT16 (ucast param_val)))
            else if bits = 32 then
              (if sint param_val < -2147483648 \<or> sint param_val > 2147483647 then Some (IPC_SEND_ERR, param)
               else put_param param index (AF_RPC_SET_PARAM_AS_INT32 param_val))
            else Some (IPC_SEND_ERR, param))"

definition format_uint_param ::
    "int \<Rightarrow> string option \<Rightarrow> af_rpc_param list \<Rightarrow> nat \<Rightarrow> (int \<times> af_rpc_param list) option" where
  "format_uint_param bits pval_str param index =
     (case pval_str of
        None \<Rightarrow> Some (IPC_SEND_ERR, param)
      | Some s \<Rightarrow>
          if \<not> is_digits (Some s) then Some (IPC_SEND_ERR, param)
          else
            let param_val = (word_of_int (strtoul s) :: u32) in
            if bits = 8 then
              (if uint param_val < 0 \<or> uint param_val > 255 then Some (IPC_SEND_ERR, param)
               else put_param param index (AF_RPC_SET_PARAM_AS_UINT8 (ucast param_val)))
            else if bits = 16 then
              (if uint param_val < 0 \<or> uint param_val > 65535 then Some (IPC_SEND_ERR, param)
               else put_param param index (AF_RPC_SET_PARAM_AS_UINT16 (ucast param_val)))
            else if bits = 32 then
              (if uint param_val < 0 \<or> uint param_val > 4294967295 then Some (IPC_SEND_ERR, param)
               else put_param param index (AF_RPC_SET_PARAM_AS_UINT32 param_val))
            else Some (IPC_SEND_ERR, param))"

section \<open>The command line\<close>

text \<open>
  The value of a string or hexadecimal option in new memory; the result is null when there is no
  memory. An argument is shorter than \<open>2 ^ 31\<close> bytes (Linux allows 128 KiB), so \<^verbatim>\<open>strlen\<close> fits an
  \<^verbatim>\<open>int\<close>.
\<close>

definition copy_out :: "byte list \<Rightarrow> 'a tool_world_scheme \<Rightarrow> (ptr \<times> 'a tool_world_scheme) option" where
  "copy_out xs w =
     (let (p, w) = malloc (length xs) w in
      if p = NULL then Some (NULL, w)
      else do { m \<leftarrow> store (heap w) p xs; Some (p, w\<lparr>heap := m\<rparr>) })"

text \<open>
  One option: the \<^verbatim>\<open>switch\<close> over the letter after the dash. \<open>opt\<close> is the text after the dash and
  \<open>arg\<close> the next argument, null behind the last one. The result is the new number of parameters;
  \<open>None\<close> stands for \<^verbatim>\<open>return IPC_SEND_ERR\<close>.
\<close>

definition number_option ::
    "(af_rpc_param list \<Rightarrow> (int \<times> af_rpc_param list) option) \<Rightarrow> nat \<Rightarrow> 'a send_world_scheme
     \<Rightarrow> (nat option \<times> 'a send_world_scheme) option" where
  "number_option format num_params w =
     (if num_params < IPC_SEND_MAX_PARAMS then do {
        (r, ps) \<leftarrow> format (in_params w);
        let w = w\<lparr>in_params := ps\<rparr>;
        Some (if r = IPC_SEND_ERR then None else Some (Suc num_params), w)
      }
      else Some (None, w))"

definition blob_option ::
    "byte list \<Rightarrow> (ptr \<Rightarrow> af_rpc_param) \<Rightarrow> nat \<Rightarrow> 'a send_world_scheme
     \<Rightarrow> (nat option \<times> 'a send_world_scheme) option" where
  "blob_option xs param num_params w =
     (if num_params < IPC_SEND_MAX_PARAMS then do {
        (base, w) \<leftarrow> copy_out xs w;
        if base = NULL then Some (None, w)
        else do {
          (r, ps) \<leftarrow> put_param (in_params w) num_params (param base);
          Some (Some (Suc num_params), w\<lparr>in_params := ps\<rparr>)
        }
      }
      else Some (None, w))"

definition parse_option ::
    "string \<Rightarrow> string option \<Rightarrow> nat \<Rightarrow> 'a send_world_scheme \<Rightarrow> (nat option \<times> 'a send_world_scheme) option" where
  "parse_option opt arg num_params w =
     (if opt = [] then Some (None, w)
      else if hd opt = CHR ''d'' then Some (Some num_params, w\<lparr>name := arg\<rparr>)
      else if hd opt = CHR ''u'' then
        number_option (\<lambda>ps. format_uint_param (atoi (tl opt)) arg ps num_params) num_params w
      else if hd opt = CHR ''i'' then
        number_option (\<lambda>ps. format_int_param (atoi (tl opt)) arg ps num_params) num_params w
      else if hd opt = CHR ''s'' then do {
        s \<leftarrow> arg;
        let len = int (length s) + 1;
        if len \<le> 0 \<or> len > IPC_SEND_INSTR_MAX_LEN then Some (None, w)
        else blob_option (bytes_of s @ [0]) (\<lambda>p. AF_RPC_SET_PARAM_AS_STRING p len) num_params w
      }
      else if hd opt = CHR ''h'' then do {
        tmp \<leftarrow> arg;
        let l = int (length tmp);
        if l = 0 \<or> l mod 2 \<noteq> 0 then Some (None, w)
        else if \<not> is_xdigits (Some tmp) then Some (None, w)
        else blob_option (hex_bytes tmp) (\<lambda>p. AF_RPC_SET_PARAM_AS_BLOB p (l div 2)) num_params w
      }
      else Some (None, w))"

text \<open>The loop over the arguments from \<^verbatim>\<open>argv[i]\<close> on.\<close>

fun parse_args ::
    "string list \<Rightarrow> nat \<Rightarrow> 'a send_world_scheme \<Rightarrow> (nat option \<times> 'a send_world_scheme) option" where
  "parse_args [] num_params w = Some (Some num_params, w)"
| "parse_args [s] num_params w =
     (if s \<noteq> [] \<and> hd s = CHR ''-'' then parse_option (tl s) None num_params w else Some (None, w))"
| "parse_args (s # a # rest) num_params w =
     (if s \<noteq> [] \<and> hd s = CHR ''-'' then do {
        (r, w) \<leftarrow> parse_option (tl s) (Some a) num_params w;
        case r of None \<Rightarrow> Some (None, w) | Some n \<Rightarrow> parse_args rest n w
      }
      else Some (None, w))"

definition param_parser :: "string list \<Rightarrow> 'a send_world_scheme \<Rightarrow> (int \<times> 'a send_world_scheme) option" where
  "param_parser argv w =
     (if length argv mod 2 \<noteq> 0 then Some (IPC_SEND_ERR, w)
      else do {
        let w = (if length argv \<ge> 2 then w\<lparr>name := Some (argv ! 1)\<rparr> else w);
        (r, w) \<leftarrow> parse_args (drop 2 argv) 0 w;
        case r of
          None \<Rightarrow> Some (IPC_SEND_ERR, w)
        | Some num_params \<Rightarrow>
            if name w = None then Some (IPC_SEND_ERR, w)
            else Some (IPC_SEND_OK, w\<lparr>num_in_params := int num_params\<rparr>)
      })"

section \<open>Releasing the parameters\<close>

fun dealloc_loop :: "af_rpc_param list \<Rightarrow> mem \<Rightarrow> (af_rpc_param list \<times> mem) option" where
  "dealloc_loop [] m = Some ([], m)"
| "dealloc_loop (p # ps) m =
     (if base p \<noteq> NULL \<and> AF_RPC_TYPE_IS_BLOB (ptype p) then do {
        m \<leftarrow> free_block (base p) m;
        (qs, m) \<leftarrow> dealloc_loop ps m;
        Some (p\<lparr>base := NULL, ptype := 0\<rparr> # qs, m)
      }
      else do { (qs, m) \<leftarrow> dealloc_loop ps m; Some (p # qs, m) })"

definition dealloc_params :: "'a send_world_scheme \<Rightarrow> 'a send_world_scheme option" where
  "dealloc_params w = do {
     (ps, m) \<leftarrow> dealloc_loop (in_params w) (heap w);
     Some (w\<lparr>in_params := ps, heap := m\<rparr>)
   }"

end
