(* ===== verification/Tool_Loop.thy ===== *)
theory Tool_Loop
  imports Send_Params
begin

text \<open>
  The event loop of the tools \<^verbatim>\<open>src/pkg/src/ipc_send.c\<close> and \<^verbatim>\<open>ipc_wait.c\<close>, and what both do with a
  message: the callbacks store it and end the loop, and then its values are printed. libevent and
  \<^verbatim>\<open>stdout\<close> are modelled by what the tools rely on.
\<close>

section \<open>libevent\<close>

definition event_base_new :: "'a tool_world_scheme \<Rightarrow> nat option \<times> 'a tool_world_scheme" where
  "event_base_new w =
     (if ext_null (ext_now w) then (None, next_tick w)
      else (Some (tick w), next_tick (w\<lparr>bases := insert (tick w) (bases w)\<rparr>)))"

definition event_base_free :: "nat option \<Rightarrow> 'a tool_world_scheme \<Rightarrow> 'a tool_world_scheme option" where
  "event_base_free evbase w = (case evbase of None \<Rightarrow> None
     | Some b \<Rightarrow> if b \<in> bases w then Some (w\<lparr>bases := bases w - {b}\<rparr>) else None)"

text \<open>The loop is to end after 100 microseconds.\<close>

definition event_base_loopexit :: "nat option \<Rightarrow> 'a tool_world_scheme \<Rightarrow> 'a tool_world_scheme option" where
  "event_base_loopexit evbase w = (case evbase of None \<Rightarrow> None
     | Some b \<Rightarrow> if b \<in> bases w then Some (w\<lparr>exiting := True\<rparr>) else None)"

text \<open>
  libevent calls the handler of an event that is added; a timer is then no longer added, a read
  event stays. The list given to \<open>event_base_dispatch\<close> has the events that the loop handles, in
  order, until it returns: libevent chooses them, also those that become active before the loop
  ends. What is not live or not added is passed over. \<open>n\<close> bounds the rounds of the receive
  handler, \<open>user\<close> are the handlers of the application's timers.
\<close>

definition dispatch_event ::
    "nat \<Rightarrow> 'a client_world_ext runner \<Rightarrow> 'a closer
     \<Rightarrow> (nat \<Rightarrow> 'a client_world_scheme \<Rightarrow> 'a client_world_scheme option) \<Rightarrow> nat
     \<Rightarrow> 'a client_world_scheme \<Rightarrow> 'a client_world_scheme option" where
  "dispatch_event n run closer user e w =
     (case events w e of
        None \<Rightarrow> Some w
      | Some v \<Rightarrow>
          if \<not> ev_added v then Some w
          else (case ev_handler v of
              On_timeout a \<Rightarrow> fire_timer run e w
            | On_recv s \<Rightarrow> af_ipcc_client_on_recv n run closer EV_READ (Some s) w
            | On_accept s \<Rightarrow> None
            | On_user k \<Rightarrow> user k (w\<lparr>events := (events w)(e \<mapsto> v\<lparr>ev_added := False\<rparr>)\<rparr>)))"

fun event_base_dispatch ::
    "nat \<Rightarrow> 'a client_world_ext runner \<Rightarrow> 'a closer
     \<Rightarrow> (nat \<Rightarrow> 'a client_world_scheme \<Rightarrow> 'a client_world_scheme option) \<Rightarrow> nat list
     \<Rightarrow> 'a client_world_scheme \<Rightarrow> 'a client_world_scheme option" where
  "event_base_dispatch n run closer user [] w = Some w"
| "event_base_dispatch n run closer user (e # es) w = do {
     w \<leftarrow> dispatch_event n run closer user e w;
     event_base_dispatch n run closer user es w
   }"

text \<open>
  \<^verbatim>\<open>evtimer_new\<close> followed by \<^verbatim>\<open>event_add\<close>; the result is not checked, and \<^verbatim>\<open>event_add\<close> of a null
  pointer is undefined.
\<close>

definition add_timer :: "nat \<Rightarrow> int \<times> int \<Rightarrow> 'a tool_world_scheme \<Rightarrow> (nat option \<times> 'a tool_world_scheme) option" where
  "add_timer k tv w = do {
     let (event, w) = event_new (On_user k) w;
     e \<leftarrow> event;
     w \<leftarrow> event_add e (Some tv) w;
     Some (event, w)
   }"

text \<open>
  The start of both programs: the event base and the connection. The result says whether they
  were made. The tools pass no context.
\<close>

definition connect_tool ::
    "string \<Rightarrow> string \<Rightarrow> nat option \<Rightarrow> 'a tool_world_scheme \<Rightarrow> (bool \<times> 'a tool_world_scheme) option" where
  "connect_tool prefix server receiveCallback w = do {
     let (evbase, w) = event_base_new w;
     let w = w\<lparr>s_base := evbase\<rparr>;
     if s_base w = None then Some (False, w)
     else do {
       (server, w) \<leftarrow> af_ipcc_open_server prefix (s_base w) server receiveCallback 0 (Some 0) w;
       let w = w\<lparr>s_server := server\<rparr>;
       if s_server w = None then do {
         w \<leftarrow> event_base_free (s_base w) w;
         Some (False, w)
       }
       else Some (True, w)
     }
   }"

section \<open>The callbacks\<close>

text \<open>
  A message is kept in \<^verbatim>\<open>outBuffer\<close>; its length is not checked. The data is null when a request
  timed out.
\<close>

definition ipc_send_rx_callback ::
    "int \<Rightarrow> u32 \<Rightarrow> byte list option \<Rightarrow> nat \<Rightarrow> 'a tool_world_scheme \<Rightarrow> 'a tool_world_scheme option" where
  "ipc_send_rx_callback err seqNum data ctx w = do {
     w \<leftarrow> (case data of
         None \<Rightarrow> Some w
       | Some bs \<Rightarrow> do {
           m \<leftarrow> store (heap w) outBuffer bs;
           Some (w\<lparr>heap := m, dataReceived := True, outBufferSize := int (length bs)\<rparr>)
         });
     event_base_loopexit (s_base w) w
   }"

definition ipc_send_tmout_callback :: "'a tool_world_scheme \<Rightarrow> 'a tool_world_scheme option" where
  "ipc_send_tmout_callback w = event_base_loopexit (s_base w) w"

definition on_close :: "int \<Rightarrow> nat \<Rightarrow> 'a tool_world_scheme \<Rightarrow> 'a tool_world_scheme option" where
  "on_close status ctx w = do {
     let w = (if s_server w \<noteq> None then w\<lparr>s_server := None\<rparr> else w);
     event_base_loopexit (s_base w) w
   }"

text \<open>The same functions of \<^verbatim>\<open>ipc_wait.c\<close>.\<close>

definition handle_receive ::
    "int \<Rightarrow> u32 \<Rightarrow> byte list option \<Rightarrow> nat \<Rightarrow> 'a tool_world_scheme \<Rightarrow> 'a tool_world_scheme option" where
  "handle_receive err seqNum data ctx w = do {
     w \<leftarrow> (case data of
         None \<Rightarrow> Some w
       | Some bs \<Rightarrow> do {
           m \<leftarrow> store (heap w) outBuffer bs;
           Some (w\<lparr>heap := m, dataReceived := True, outBufferSize := int (length bs)\<rparr>)
         });
     event_base_loopexit (s_base w) w
   }"

definition handle_timeout :: "'a tool_world_scheme \<Rightarrow> 'a tool_world_scheme option" where
  "handle_timeout w = event_base_loopexit (s_base w) w"

definition handle_close :: "int \<Rightarrow> nat \<Rightarrow> 'a tool_world_scheme \<Rightarrow> 'a tool_world_scheme option" where
  "handle_close status ctx w = do {
     let w = (if s_server w \<noteq> None then w\<lparr>s_server := None\<rparr> else w);
     event_base_loopexit (s_base w) w
   }"

text \<open>
  As callbacks of the client library: each tool has one receive callback and one close callback.
  The library passes a null pointer exactly when a request timed out.
\<close>

definition tool_run :: "'a tool_world_ext client_world_ext runner" where
  "tool_run cb status seqNum payload ctx w =
     ipc_send_rx_callback status seqNum (if status = AF_IPC_STATUS_OK then Some payload else None) ctx w"

definition tool_closer :: "'a tool_world_ext closer" where
  "tool_closer cb status ctx w = on_close status ctx w"

lemma wait_callbacks: "handle_receive = ipc_send_rx_callback" "handle_timeout = ipc_send_tmout_callback"
  "handle_close = on_close"
  by (simp_all add: fun_eq_iff handle_receive_def ipc_send_rx_callback_def handle_timeout_def
      ipc_send_tmout_callback_def handle_close_def on_close_def)

section \<open>Printing\<close>

text \<open>
  What \<^verbatim>\<open>main\<close> does when the loop has returned: print the values, if there is a message and its
  values fit. The result is \<^verbatim>\<open>retVal\<close>. \<^verbatim>\<open>printf\<close> needs a terminator.
\<close>

definition newline :: string where "newline = [CHR 0x0A]"

definition print_reply :: "'a tool_world_scheme \<Rightarrow> (int \<times> 'a tool_world_scheme) option" where
  "print_reply w =
     (if \<not> dataReceived w then Some (1, w)
      else do {
        r \<leftarrow> reply_text (heap w) outBuffer (outBufferSize w);
        case r of
          Inl _ \<Rightarrow> Some (1, w)
        | Inr ret_string \<Rightarrow>
            if 0 \<in> set ret_string
            then Some (0, w\<lparr>stdout := stdout w @ c_string ret_string @ newline\<rparr>)
            else None
      })"

end
