(* ===== verification/Send_Main.thy ===== *)
theory Send_Main
  imports Tool_Loop
begin

text \<open>
  The program \<^verbatim>\<open>src/pkg/src/ipc_send.c\<close>: the handler that sends the request, and \<^verbatim>\<open>main\<close>. \<open>debug\<close>
  says that \<^verbatim>\<open>g_debugLevel\<close> is at least \<^verbatim>\<open>LOG_DEBUG4\<close>, as in a build with \<^verbatim>\<open>BUILD_TARGET_DEBUG\<close>. Messages on \<^verbatim>\<open>stderr\<close> and in the log are left out.
\<close>

section \<open>Sending the request\<close>

text \<open>
  The text of the message for the log of a debug build, in a buffer of \<^verbatim>\<open>sizeof(txBuffer) * 3\<close>
  bytes: two digits for each byte, and a blank before each but the first.
\<close>

fun put_debug :: "byte list \<Rightarrow> int \<Rightarrow> bool \<Rightarrow> byte list \<Rightarrow> (byte list \<times> int) option" where
  "put_debug buffer pos first [] = Some (buffer, pos)"
| "put_debug buffer pos first (b # bs) = do {
     let s = (if first then format_02x b else CHR '' '' # format_02x b);
     buffer \<leftarrow> put buffer pos (bytes_of s @ [0]);
     put_debug buffer (pos + int (length s)) False bs
   }"

definition debug_text :: "byte list \<Rightarrow> byte list option" where
  "debug_text xs = do {
     (buffer, pos) \<leftarrow> put_debug (replicate (nat IPC_SEND_INSTR_MAX_LEN * 3) 0) 0 True xs;
     buffer \<leftarrow> put buffer pos [0x0A];
     put buffer (pos + 1) [0]
   }"

definition ipc_send_wrapper :: "bool \<Rightarrow> 'a send_world_scheme \<Rightarrow> 'a send_world_scheme option" where
  "ipc_send_wrapper debug w = do {
     (m, msg_size) \<leftarrow> af_rpc_create_buffer_with_params (heap w) txBuffer IPC_SEND_INSTR_MAX_LEN
       (Some (in_params w)) (num_in_params w);
     let w = w\<lparr>heap := m\<rparr>;
     msg \<leftarrow> load (heap w) txBuffer (nat msg_size);
     _ \<leftarrow> (if debug then debug_text msg else Some []);
     if msg_size > 0 then do {
       (r, w) \<leftarrow> af_ipcc_send_request tool_closer (s_server w) msg msg_size (Some 0) 0 3000 w;
       Some w
     }
     else Some w
   }"

section \<open>main\<close>

text \<open>The handlers of the two timers: \<open>0\<close> is \<^verbatim>\<open>test_event\<close>, \<open>1\<close> is \<^verbatim>\<open>tm_event\<close>.\<close>

definition send_user :: "bool \<Rightarrow> nat \<Rightarrow> 'a send_world_scheme \<Rightarrow> 'a send_world_scheme option" where
  "send_user debug k w = (if k = 0 then ipc_send_wrapper debug w else ipc_send_tmout_callback w)"

text \<open>The code at the label \<^verbatim>\<open>exit\<close>.\<close>

definition send_exit :: "nat option \<Rightarrow> nat option \<Rightarrow> 'a send_world_scheme \<Rightarrow> 'a send_world_scheme option" where
  "send_exit test_event tm_event w = do {
     w \<leftarrow> dealloc_params w;
     w \<leftarrow> (if s_server w \<noteq> None then af_ipcc_close tool_closer (s_server w) w else Some w);
     w \<leftarrow> (case test_event of None \<Rightarrow> Some w | Some e \<Rightarrow> event_free e w);
     w \<leftarrow> (case tm_event of None \<Rightarrow> Some w | Some e \<Rightarrow> event_free e w);
     if s_base w \<noteq> None then event_base_free (s_base w) w else Some w
   }"

text \<open>The loop, the reply, and the end.\<close>

definition send_session :: "bool \<Rightarrow> nat \<Rightarrow> nat list \<Rightarrow> 'a send_world_scheme \<Rightarrow> (int \<times> 'a send_world_scheme) option" where
  "send_session debug n evs w = do {
     (test_event, w) \<leftarrow> add_timer 0 (0, 200000) w;
     (tm_event, w) \<leftarrow> add_timer 1 (5, 500000) w;
     w \<leftarrow> event_base_dispatch n tool_run tool_closer (send_user debug) evs w;
     (retVal, w) \<leftarrow> print_reply w;
     w \<leftarrow> send_exit test_event tm_event w;
     Some (retVal, w)
   }"

text \<open>\<^verbatim>\<open>main\<close> with the arguments \<open>argv\<close>, for a loop that handles the events \<open>evs\<close>.\<close>

definition send_main ::
    "bool \<Rightarrow> nat \<Rightarrow> string \<Rightarrow> string list \<Rightarrow> nat list \<Rightarrow> 'a send_world_scheme \<Rightarrow> (int \<times> 'a send_world_scheme) option" where
  "send_main debug n prefix argv evs w = do {
     let w = w\<lparr>in_params := replicate IPC_SEND_MAX_PARAMS \<lparr>base = NULL, ptype = 0\<rparr>\<rparr>;
     m \<leftarrow> store (heap w) outBuffer (replicate (nat IPC_SEND_INSTR_MAX_LEN) 0);
     (r, w) \<leftarrow> param_parser argv (w\<lparr>heap := m\<rparr>);
     if r = IPC_SEND_ERR \<or> num_in_params w \<le> 0 then do {
       w \<leftarrow> dealloc_params w;
       Some (1, w)
     }
     else do {
       server \<leftarrow> name w;
       (connected, w) \<leftarrow> connect_tool prefix server None w;
       if \<not> connected then do {
         w \<leftarrow> dealloc_params w;
         Some (1, w)
       }
       else send_session debug n evs w
     }
   }"

end
