(* ===== verification/Tool_Print_Correct.thy ===== *)
theory Tool_Print_Correct
  imports Tool_Print Rpc_Correct
begin

text \<open>
  Correctness of the printing of replies (\<^verbatim>\<open>Tool_Print\<close>): the text of one value, the loop over
  the values, and the text that a well-formed message gives.
\<close>

section \<open>Integers\<close>

lemma sign_extend_16:
  "(if v AND 0x8000 \<noteq> 0 then ucast v OR 0xffff0000 else ucast v :: u32) = scast (v :: u16)"
proof -
  have top: "v AND 0x8000 \<noteq> 0 \<longleftrightarrow> bit v 15"
  proof -
    have pow: "(0x8000 :: u16) = 2 ^ 15" by simp
    show ?thesis unfolding pow by (simp only: and_exp_eq_0_iff_not_bit not_not)
  qed
  have high: "(0xffff0000 :: u32) = push_bit 16 (mask 16)"
    by (simp add: mask_eq_exp_minus_1 push_bit_eq_mult)
  show ?thesis
    unfolding top high
  proof (rule bit_word_eqI)
    fix n assume n: "n < LENGTH(32)"
    have v: "bit v n \<Longrightarrow> n < 16" using bit_imp_le_length [of v n] by simp
    consider "n < 15" | "n = 15" | "16 \<le> n" by linarith
    then show "bit (if bit v 15 then ucast v OR push_bit 16 (mask 16) else ucast v :: u32) n = bit (scast v :: u32) n"
      using n v by cases (auto simp: bit_simps min_def)
  qed
qed

lemma scast_chain:
  "(ucast (scast (v :: byte) :: u64) :: u32) = scast v"
  "(ucast (ucast (v :: byte) :: u64) :: u32) = ucast v" "(ucast (ucast (w :: u16) :: u64) :: u32) = ucast w"
  by (rule bit_word_eqI; auto simp: bit_simps min_def)+

lemma sint_scast_up: "sint (scast (v :: byte) :: u32) = sint v" "sint (scast (w :: u16) :: u32) = sint w"
  by (simp_all add: sint_up_scast is_up)

lemma unat_ucast_up: "unat (ucast (v :: byte) :: u32) = unat v" "unat (ucast (w :: u16) :: u32) = unat w"
  by (simp_all add: uint_up_ucast is_up flip: nat_uint_eq)

lemma format_d_signed: "format_d w = signed (sint w)"
  by (simp add: format_d_def signed_def)

lemma length_signed: "- (10 ^ 9) < i \<Longrightarrow> i < 10 ^ 10 \<Longrightarrow> length (signed i) \<le> 10"
proof -
  assume i: "- (10 ^ 9) < i" "i < 10 ^ 10"
  then have "i < 0 \<Longrightarrow> nat (- i) < 10 ^ Suc 8" "0 \<le> i \<Longrightarrow> nat i < 10 ^ Suc 9" by simp_all
  then show ?thesis using length_decimal [of "nat (- i)" 8] length_decimal [of "nat i" 9]
    by (auto simp: signed_def)
qed

lemma int_text_read:
  assumes "is_int t" "printable t"
  shows "int_text (read_param buf pos t) = Some (Inr (shown t))" "length (shown t) \<le> 10"
proof -
  have u: "length (decimal k) \<le> 10" if "k < 2 ^ 32" for k
    using that length_decimal [of k 9] by simp
  have small: "unat (a :: byte) < 2 ^ 32" "unat (b :: u16) < 2 ^ 32" "unat (c :: u32) < 2 ^ 32" for a b c
    using unsigned_less [of a, where ?'a = nat] unsigned_less [of b, where ?'a = nat]
      unsigned_less [of c, where ?'a = nat] by simp_all
  have s8: "length (signed (sint (a :: byte))) \<le> 10" for a
    using sint_ge [of a] sint_less [of a] by (intro length_signed) simp_all
  have s16: "length (signed (sint (a :: u16))) \<le> 10" for a
    using sint_ge [of a] sint_less [of a] by (intro length_signed) simp_all
  have s32: "length (signed (sint (a :: u32))) \<le> 10" if "- (10 ^ 9) < sint a" for a
    using that sint_less [of a] by (intro length_signed) simp_all
  show len: "length (shown t) \<le> 10"
    using assms u small s8 s16 s32 by (cases t) simp_all
  then show "int_text (read_param buf pos t) = Some (Inr (shown t))"
    using assms(1)
    by (cases t) (simp_all add: int_text_def read_param_def rpc_types Let_def int_base_def format_u_def
        format_d_signed scast_chain sint_scast_up unat_ucast_up sign_extend_16)
qed

section \<open>The text so far\<close>

text \<open>
  \<^verbatim>\<open>ret_string\<close> while it is filled: \<open>tx\<close> has been written, and if \<open>over\<close> is a text, this text
  was copied over the start.
\<close>

definition filled :: "byte list \<Rightarrow> string \<Rightarrow> string option \<Rightarrow> bool" where
  "filled rs tx over \<longleftrightarrow> length rs = 256 \<and> length tx \<le> 255 \<and>
     (case over of
        None \<Rightarrow> rs = bytes_of tx @ replicate (256 - length tx) 0
      | Some s \<Rightarrow> length s < length tx \<and> take (Suc (length s)) rs = bytes_of s @ [0])"

lemma filled_start: "filled (replicate 256 0) [] None"
  by (simp add: filled_def)

lemma filled_append:
  assumes "filled rs tx over" "length tx + length s \<le> 255" "zs = [] \<or> zs = [0]"
  obtains rs' where "put rs (int (length tx)) (bytes_of s @ zs) = Some rs'" "filled rs' (tx @ s) over"
proof
  let ?rs = "poke rs (length tx) (bytes_of s @ zs)"
  have len: "length tx + length (bytes_of s @ zs) \<le> length rs" using assms by (auto simp: filled_def)
  then show "put rs (int (length tx)) (bytes_of s @ zs) = Some ?rs" by (simp add: put_def)
  show "filled ?rs (tx @ s) over"
  proof (cases over)
    case None
    then have rs: "rs = bytes_of tx @ replicate (256 - length tx) 0" using assms(1) by (simp add: filled_def)
    have "zs @ replicate (256 - (length tx + length s + length zs)) 0 = replicate (256 - (length tx + length s)) 0"
    proof (cases "zs = []")
      case False
      then have "zs = [0]" "256 - (length tx + length s) = Suc (256 - (length tx + length s + 1))"
        using assms(2,3) by auto
      then show ?thesis by simp
    qed simp
    then have "?rs = bytes_of (tx @ s) @ replicate (256 - length (tx @ s)) 0"
      by (simp add: rs poke_def add.assoc)
    then show ?thesis using None assms(2) by (simp add: filled_def)
  next
    case (Some o')
    then have "length o' < length tx" "take (Suc (length o')) rs = bytes_of o' @ [0]" "length rs = 256"
      using assms(1) by (auto simp: filled_def)
    moreover have "take (Suc (length o')) ?rs = take (Suc (length o')) rs"
      using calculation len by (intro take_poke_before) auto
    ultimately show ?thesis using Some assms(2) len by (simp add: filled_def)
  qed
qed

lemma filled_over:
  assumes "filled rs tx over" "length tx + length s \<le> 255"
  obtains rs' where "put rs 0 (bytes_of s @ [0]) = Some rs'"
    "filled rs' (tx @ s) (if tx = [] then None else Some s)"
proof -
  have len: "length s + 1 \<le> length rs" using assms by (auto simp: filled_def)
  show thesis
  proof (cases "tx = []")
    case True
    have "filled rs tx None" if "over \<noteq> None" using that assms(1) True by (auto simp: filled_def)
    with assms(1) have "filled rs [] None" using True by (cases over) auto
    from filled_append [OF this, of s "[0]"] assms(2) True that show ?thesis by auto
  next
    case False
    let ?rs = "poke rs 0 (bytes_of s @ [0])"
    have "put rs 0 (bytes_of s @ [0]) = Some ?rs" using len by (simp add: put_def)
    moreover have "filled ?rs (tx @ s) (Some s)"
      using False assms len by (simp add: filled_def) (simp add: poke_def)
    ultimately show ?thesis using False that by simp
  qed
qed

lemma c_string_filled:
  assumes "filled rs tx over" "no_nul tx" "\<And>s. over = Some s \<Longrightarrow> no_nul s"
  shows "c_string rs = (case over of None \<Rightarrow> tx | Some s \<Rightarrow> s)"
proof (cases over)
  case None
  then have "rs = bytes_of tx @ replicate (256 - length tx) 0" "256 - length tx = Suc (255 - length tx)"
    using assms(1) by (auto simp: filled_def)
  then show ?thesis using None assms(2) by (simp add: c_string_bytes)
next
  case (Some s)
  then have "rs = (bytes_of s @ [0]) @ drop (Suc (length s)) rs"
    using assms(1) append_take_drop_id [of "Suc (length s)" rs] by (simp add: filled_def)
  then show ?thesis using Some assms(3) c_string_bytes [of s] by (metis append.assoc append_Cons append_Nil option.case(2))
qed

section \<open>One value\<close>

lemma wide_type:
  "AF_RPC_TYPE_IS_INTEGER (ucast w :: u32) = AF_RPC_TYPE_IS_INTEGER (w :: u16)"
  "AF_RPC_BLOB_IS_STRING (ucast w :: u32) = AF_RPC_BLOB_IS_STRING w"
  "uint (AF_RPC_BLOB_SIZE (ucast w :: u32)) = uint (AF_RPC_BLOB_SIZE w)"
proof -
  have pow: "(0x8000 :: u32) = 2 ^ 15" "(0x4000 :: u32) = 2 ^ 14" by simp_all
  have wide: "(0x3fff :: u32) = mask 14" by (simp add: mask_eq_exp_minus_1)
  show "AF_RPC_TYPE_IS_INTEGER (ucast w :: u32) = AF_RPC_TYPE_IS_INTEGER w"
    unfolding is_integer_bit unfolding AF_RPC_TYPE_IS_INTEGER_def pow
    by (simp only: and_exp_eq_0_iff_not_bit not_not) (simp add: bit_simps)
  show "AF_RPC_BLOB_IS_STRING (ucast w :: u32) = AF_RPC_BLOB_IS_STRING w"
    unfolding is_string_bit unfolding AF_RPC_BLOB_IS_STRING_def pow
    by (simp only: and_exp_eq_0_iff_not_bit not_not) (simp add: bit_simps)
  have "AF_RPC_BLOB_SIZE (ucast w :: u32) = ucast (AF_RPC_BLOB_SIZE w)"
    unfolding AF_RPC_BLOB_SIZE_def mask14 wide by (rule bit_word_eqI) (auto simp: bit_simps)
  then show "uint (AF_RPC_BLOB_SIZE (ucast w :: u32)) = uint (AF_RPC_BLOB_SIZE w)"
    by (simp add: uint_up_ucast is_up)
qed

lemma put_hex_ok:
  assumes "filled rs tx over" "length tx + 2 * length xs \<le> 255"
  shows "\<exists>rs'. put_hex rs (int (length tx)) xs = Some (rs', int (length tx + 2 * length xs)) \<and>
    filled rs' (tx @ hex_text xs) over"
  using assms
proof (induction xs arbitrary: rs tx)
  case (Cons x xs)
  have "length tx + length (format_02x x) \<le> 255" using Cons.prems by simp
  from filled_append [OF Cons.prems(1) this, of "[0]"] obtain rs1 where rs1:
    "put rs (int (length tx)) (bytes_of (format_02x x) @ [0]) = Some rs1"
    "filled rs1 (tx @ format_02x x) over" by auto
  from Cons.IH [OF rs1(2)] Cons.prems(2) rs1(1) show ?case by (simp add: algebra_simps)
qed simp

lemma print_int:
  assumes "is_int t" "printable t" "filled rs tx over" "length tx + length (shown t) < 255"
  shows "\<exists>rs'. print_value m (read_param buf pos t) rs (int (length tx)) =
      Some (Inr (rs', int (length (tx @ shown t)), True)) \<and>
    filled rs' (tx @ shown t) (if tx = [] then None else Some (shown t))"
proof -
  have "AF_RPC_TYPE_IS_INTEGER (ptype (read_param buf pos t))"
    using assms(1) by (cases t) (simp_all add: read_param_def wide_type)
  moreover obtain rs' where "put rs 0 (bytes_of (shown t) @ [0]) = Some rs'"
    "filled rs' (tx @ shown t) (if tx = [] then None else Some (shown t))"
    using filled_over [OF assms(3), of "shown t"] assms(4) by auto
  ultimately show ?thesis
    using int_text_read [OF assms(1,2)] assms(4) by (simp add: print_value_def Let_def)
qed

text \<open>A blob in the buffer: its class, and its bytes.\<close>

lemma blob_param:
  assumes "load m buf n = Some bs" "0 \<le> pos" "encoded_at bs pos (TBlob s xs # ts)"
    "nat pos + length (enc_tlvs (TBlob s xs # ts)) \<le> n"
  defines "p \<equiv> read_param buf pos (TBlob s xs)"
  shows "\<not> AF_RPC_TYPE_IS_INTEGER (ptype p)" "AF_RPC_BLOB_IS_STRING (ptype p) = s"
    "uint (AF_RPC_BLOB_SIZE (ptype p)) = int (length xs)" "load m (base p) (length xs) = Some xs"
proof -
  let ?t = "TBlob s xs"
  have at: "tlv_wf ?t" "take (length (enc_tlv ?t)) (drop (nat pos) bs) = enc_tlv ?t"
    using assms(3) assms(2) by (auto simp: encoded_at_Cons)
  have len: "length xs < 2 ^ 14" using at(1) by (simp add: rpc_sizes)
  note ty = blob_types [OF len, where s = s and xs = xs]
  show "\<not> AF_RPC_TYPE_IS_INTEGER (ptype p)" "AF_RPC_BLOB_IS_STRING (ptype p) = s"
    using ty by (simp_all add: p_def read_param_def wide_type del: tlv_type.simps)
  show "uint (AF_RPC_BLOB_SIZE (ptype p)) = int (length xs)"
    using ty(3) [OF refl] by (simp add: p_def read_param_def wide_type del: tlv_type.simps)
      (metis of_nat_unat)
  have "drop 2 (take (length (enc_tlv ?t)) (drop (nat pos) bs)) = xs"
    using at(2) by (simp add: enc_tlv_def)
  then have "take (length xs) (drop (nat (pos + 2)) bs) = xs"
    using assms(2) by (simp add: length_enc_tlv drop_take nat_add_distrib add.commute)
  then show "load m (base p) (length xs) = Some xs"
    using load_slice [OF assms(1), of "pos + 2" "length xs"] assms(2,4)
    by (simp add: p_def read_param_def length_enc_tlv nat_add_distrib)
qed

lemma print_hex:
  assumes "load m buf n = Some bs" "0 \<le> pos" "encoded_at bs pos (TBlob False xs # ts)"
    "nat pos + length (enc_tlvs (TBlob False xs # ts)) \<le> n"
    and "filled rs tx over" "length tx + length (hex_text xs) < 255"
  shows "\<exists>rs'. print_value m (read_param buf pos (TBlob False xs)) rs (int (length tx)) =
      Some (Inr (rs', int (length (tx @ hex_text xs)), True)) \<and> filled rs' (tx @ hex_text xs) over"
proof -
  obtain rs' where "put_hex rs (int (length tx)) xs = Some (rs', int (length tx + 2 * length xs))"
    "filled rs' (tx @ hex_text xs) over"
    using put_hex_ok [OF assms(5), of xs] assms(6) by auto
  then show ?thesis
    using blob_param [OF assms(1-4)] assms(6) by (simp add: print_value_def Let_def mult.commute)
qed

lemma print_string:
  assumes "load m buf n = Some bs" "0 \<le> pos" "encoded_at bs pos (TBlob True (bytes_of s @ [0]) # ts)"
    "nat pos + length (enc_tlvs (TBlob True (bytes_of s @ [0]) # ts)) \<le> n"
    and "filled rs tx over" "length tx + length s + 2 < 254"
  shows "\<exists>rs' p'. print_value m (read_param buf pos (TBlob True (bytes_of s @ [0]))) rs (int (length tx)) =
      Some (Inr (rs', p', False)) \<and> filled rs' (tx @ CHR 0x22 # s @ [CHR 0x22]) over"
proof -
  have q: "byte_of (CHR 0x22) = 0x22" by code_simp
  note lengths = assms(6)
  obtain rs1 where 1: "put rs (int (length tx)) [0x22] = Some rs1" "filled rs1 (tx @ [CHR 0x22]) over"
    using filled_append [OF assms(5), of "[CHR 0x22]" "[]"] lengths q by auto
  obtain rs2 where 2: "put rs1 (int (length tx + 1)) (bytes_of s @ [0]) = Some rs2"
    "filled rs2 (tx @ CHR 0x22 # s) over"
    using filled_append [OF 1(2), of s "[0]"] lengths by auto
  obtain rs3 where 3: "put rs2 (int (length tx + 1 + length s)) [0x22] = Some rs3"
    "filled rs3 (tx @ CHR 0x22 # s @ [CHR 0x22]) over"
    using filled_append [OF 2(2), of "[CHR 0x22]" "[]"] lengths q by (auto simp: add.commute)
  obtain rs4 where 4: "put rs3 (int (length tx + 2 + length s)) [0] = Some rs4"
    "filled rs4 (tx @ CHR 0x22 # s @ [CHR 0x22]) over"
    using filled_append [OF 3(2), of "[]" "[0]"] lengths by (auto simp: add.commute add.left_commute)
  have num: "int (length tx) + 1 = int (length tx + 1)"
    "int (length tx + 1) + int (length (bytes_of s @ [0])) - 1 = int (length tx + 1 + length s)"
    "int (length tx + 1) + int (length (bytes_of s @ [0])) = int (length tx + 2 + length s)"
    "int (length tx + 2 + length s) - 1 = int (length tx + 1 + length s)" by simp_all
  have "csize (int (length tx) + int (length (bytes_of s @ [0])) + 2) < 255" using lengths by simp
  with blob_param [OF assms(1-4)] have "print_value m (read_param buf pos (TBlob True (bytes_of s @ [0]))) rs
      (int (length tx)) = Some (Inr (rs4, int (length tx + 1), False))"
    unfolding print_value_def Let_def by (simp only: num 1 2 3 4 if_False if_True bind.bind_lunit nat_int)
  with 4(2) show ?thesis by blast
qed

section \<open>All values\<close>

text \<open>The text that was last copied over the start, after the values \<open>us\<close>.\<close>

definition over :: "tlv list \<Rightarrow> string option" where
  "over us = (let later = filter is_int (drop 1 us) in if later = [] then None else Some (shown (last later)))"

lemma over_snoc: "over (us @ [t]) = (if us \<noteq> [] \<and> is_int t then Some (shown t) else over us)"
  by (cases us) (simp_all add: over_def Let_def)

lemma over_Nil [simp]: "over [] = None"
  by (simp add: over_def)

lemma printed_over: "printed ts = (case over (visible ts) of None \<Rightarrow> joined (visible ts) | Some s \<Rightarrow> s)"
  by (simp add: printed_def over_def Let_def)

lemma joined_length: "length (joined (us @ [t])) \<le> length (joined (us @ t # vs))"
proof (induction vs rule: rev_induct)
  case (snoc v vs)
  have "us @ t # vs @ [v] = (us @ t # vs) @ [v]" by simp
  then have "length (joined (us @ t # vs)) \<le> length (joined (us @ t # vs @ [v]))"
    by (simp only: joined_snoc) simp
  with snoc show ?case by linarith
qed simp

lemma shown_string: "shown (TBlob True (bytes_of s @ [0])) = CHR 0x22 # c_string (bytes_of s @ [0]) @ [CHR 0x22]"
  by simp

lemma value_step:
  assumes "load m buf n = Some bs" "0 \<le> pos" "encoded_at bs pos (t # ts)" "nat pos + length (enc_tlvs (t # ts)) \<le> n"
    and "printable t" "filled rs tx ov" "length tx + length (shown t) < 254"
  shows "\<exists>rs' p'. print_value m (read_param buf pos t) rs (int (length tx)) = Some (Inr (rs', p', \<not> is_string t)) \<and>
    filled rs' (tx @ shown t) (if is_int t then (if tx = [] then None else Some (shown t)) else ov) \<and>
    (\<not> is_string t \<longrightarrow> p' = int (length (tx @ shown t)))"
proof (cases "is_int t")
  case True
  then have "\<not> is_string t" by (cases t) simp_all
  with True print_int [OF True assms(5,6)] assms(7) show ?thesis by fastforce
next
  case False
  then obtain s xs where t: "t = TBlob s xs" by (cases t) simp_all
  show ?thesis
  proof (cases s)
    case True
    with t assms(5) obtain u where u: "no_nul u" "t = TBlob True (bytes_of u @ [0])" by auto
    then have sh: "shown t = CHR 0x22 # u @ [CHR 0x22]" using c_string_bytes [of u "[]"] by simp
    then have "length tx + length u + 2 < 254" using assms(7) by simp
    from print_string [OF assms(1,2) _ _ assms(6) this, of ts] assms(3,4) u(2) sh show ?thesis by fastforce
  next
    case False
    with t have t': "t = TBlob False xs" by simp
    from print_hex [OF assms(1,2) _ _ assms(6), of xs ts] assms(3,4,7) t' show ?thesis by fastforce
  qed
qed

lemma print_values_ok:
  assumes "load m buf n = Some bs" "0 \<le> pos" "encoded_at bs pos ts" "nat pos + length (enc_tlvs ts) \<le> n"
    and "list_all printable ts" "filled rs (joined us) (over us)" "length (joined (us @ visible ts)) < 254"
  shows "\<exists>rs'. print_values m (length us) (read_params buf pos ts) rs (int (length (joined us))) = Some (Inr rs') \<and>
    filled rs' (joined (us @ visible ts)) (over (us @ visible ts))"
  using assms
proof (induction ts arbitrary: pos us rs)
  case (Cons t ts)
  let ?us = "us @ [t]" and ?tx = "if us = [] then [] else joined us @ [CHR '' '']"
  have us: "joined ?us = ?tx @ shown t" by (simp add: joined_snoc)
  have short: "length (joined ?us) < 254"
    using Cons.prems(7) joined_length [of us t "if is_string t then [] else visible ts"] by simp
  have blank: "byte_of (CHR '' '') = 0x20" by code_simp
  obtain rs1 where rs1: "(if length us \<noteq> 0 then map_option (\<lambda>rs. (rs, int (length (joined us)) + 1)) (put rs (int (length (joined us))) [0x20])
      else Some (rs, int (length (joined us)))) = Some (rs1, int (length ?tx))" "filled rs1 ?tx (over us)"
  proof (cases "us = []")
    case True
    with Cons.prems(6) show ?thesis by (intro that [of rs]) simp_all
  next
    case False
    with us short have "length (joined us) + length ('' '' :: string) \<le> 255" by simp
    from filled_append [OF Cons.prems(6) this, of "[]"] obtain rs1 where
      "put rs (int (length (joined us))) [0x20] = Some rs1" "filled rs1 (joined us @ '' '') (over us)"
      using blank by auto
    with False show ?thesis by (intro that [of rs1]) simp_all
  qed
  have "length ?tx + length (shown t) < 254" using short us by (metis length_append)
  note step = value_step [OF Cons.prems(1-4) _ rs1(2) this]
  have "printable t" using Cons.prems(5) by simp
  from step [OF this] obtain rs2 p2 where 2:
    "print_value m (read_param buf pos t) rs1 (int (length ?tx)) = Some (Inr (rs2, p2, \<not> is_string t))"
    "filled rs2 (?tx @ shown t) (if is_int t then (if ?tx = [] then None else Some (shown t)) else over us)"
    "\<not> is_string t \<longrightarrow> p2 = int (length (?tx @ shown t))" by (elim exE conjE)
  have "(if is_int t then (if ?tx = [] then None else Some (shown t)) else over us) = over ?us"
    unfolding over_snoc by (cases us) auto
  then have st: "filled rs2 (joined ?us) (over ?us)" using 2(2) us by simp
  have room: "(length us \<noteq> 0 \<and> \<not> csize (int (length (joined us)) + 1) < 255) = False"
    using short us by (cases "us = []") simp_all
  have unfold: "print_values m (length us) (read_params buf pos (t # ts)) rs (int (length (joined us))) =
      (if is_string t then Some (Inr rs2)
       else print_values m (length ?us) (read_params buf (pos + int (length (enc_tlv t))) ts) rs2 p2)"
    by (simp only: read_params.simps print_values.simps room rs1(1) if_False bind.bind_lunit prod.case 2(1) sum.case)
      simp
  show ?case
  proof (cases "is_string t")
    case True
    with unfold st show ?thesis by simp
  next
    case False
    have at: "encoded_at bs (pos + int (length (enc_tlv t))) ts" "nat (pos + int (length (enc_tlv t))) + length (enc_tlvs ts) \<le> n"
      using Cons.prems(2,3,4) by (auto simp: encoded_at_Cons nat_add_distrib)
    have "\<exists>rs'. print_values m (length ?us) (read_params buf (pos + int (length (enc_tlv t))) ts) rs2 (int (length (joined ?us))) =
        Some (Inr rs') \<and> filled rs' (joined (?us @ visible ts)) (over (?us @ visible ts))"
      using Cons.prems(1,2,5,7) at st False by (intro Cons.IH) auto
    with unfold 2(3) us False show ?thesis by simp
  qed
qed simp

section \<open>Any bytes\<close>

text \<open>The last byte of \<^verbatim>\<open>ret_string\<close> is never written.\<close>

definition ended :: "byte list \<Rightarrow> bool" where
  "ended rs \<longleftrightarrow> length rs = 256 \<and> rs ! 255 = 0"

lemma put_total: "ended rs \<Longrightarrow> 0 \<le> pos \<Longrightarrow> pos + int (length xs) \<le> 255 \<Longrightarrow>
  \<exists>rs'. put rs pos xs = Some rs' \<and> ended rs'"
  by (auto simp: put_def ended_def nth_poke)

lemma put_hex_total: "ended rs \<Longrightarrow> 0 \<le> pos \<Longrightarrow> pos + 2 * int (length xs) \<le> 254 \<Longrightarrow>
  \<exists>rs'. put_hex rs pos xs = Some (rs', pos + 2 * int (length xs)) \<and> ended rs'"
proof (induction xs arbitrary: rs pos)
  case (Cons x xs)
  obtain rs1 where rs1: "put rs pos (bytes_of (format_02x x) @ [0]) = Some rs1" "ended rs1"
    using put_total [OF Cons.prems(1,2), of "bytes_of (format_02x x) @ [0]"] Cons.prems(3) by auto
  from Cons.IH [OF rs1(2), of "pos + 2"] Cons.prems rs1(1) show ?case by (simp add: algebra_simps)
qed simp

text \<open>\<^verbatim>\<open>tmp\<close> is large enough for the integer.\<close>

fun fits_tmp :: "tlv \<Rightarrow> bool" where
  "fits_tmp (TI32 v) \<longleftrightarrow> - (10 ^ 9) < sint v"
| "fits_tmp _ \<longleftrightarrow> True"

lemma print_value_total:
  assumes "load m buf n = Some bs" "0 \<le> pos" "encoded_at bs pos (t # ts)" "nat pos + length (enc_tlvs (t # ts)) \<le> n"
    and "fits_tmp t" "ended rs" "0 \<le> k" "k \<le> 255"
  shows "\<exists>r. print_value m (read_param buf pos t) rs k = Some r \<and>
    (\<forall>rs' k' b. r = Inr (rs', k', b) \<longrightarrow> ended rs' \<and> 0 \<le> k' \<and> k' \<le> 255)"
proof (cases "is_int t")
  case True
  with assms(5) have "printable t" by (cases t) simp_all
  note it = int_text_read [OF True this]
  have "AF_RPC_TYPE_IS_INTEGER (ptype (read_param buf pos t))"
    using True by (cases t) (simp_all add: read_param_def wide_type)
  moreover obtain rs1 where "put rs 0 (bytes_of (shown t) @ [0]) = Some rs1" "ended rs1"
    using put_total [OF assms(6), of 0 "bytes_of (shown t) @ [0]"] it(2) by auto
  ultimately show ?thesis
    using it assms(7,8) by (auto simp: print_value_def Let_def)
next
  case False
  then obtain s xs where t: "t = TBlob s xs" by (cases t) simp_all
  note blob = blob_param [OF assms(1,2) assms(3,4) [unfolded t]]
  show ?thesis
  proof (cases s)
    case True
    have "\<exists>r. print_value m (read_param buf pos t) rs k = Some (Inr (r, k + 1, False)) \<and> ended r \<and> k + 1 \<le> 255"
      if room: "csize (k + int (length xs) + 2) < 255"
    proof -
      have small: "length xs < 2 ^ 14"
        using assms(3) t by (auto simp: encoded_at_Cons [OF assms(2)] rpc_sizes)
      then have fit: "k + int (length xs) + 2 < 255" using room assms(7,8) by simp
      obtain r1 where r1: "put rs k [0x22] = Some r1" "ended r1"
        using put_total [OF assms(6,7), of "[0x22]"] fit by auto
      obtain r2 where r2: "put r1 (k + 1) xs = Some r2" "ended r2"
        using put_total [OF r1(2), of "k + 1" xs] fit assms(7) by auto
      obtain r3 where r3: "put r2 (k + 1 + int (length xs) - 1) [0x22] = Some r3" "ended r3"
        using put_total [OF r2(2), of "k + 1 + int (length xs) - 1" "[0x22]"] fit assms(7) by auto
      obtain r4 where r4: "put r3 (k + 1 + int (length xs)) [0] = Some r4" "ended r4"
        using put_total [OF r3(2), of "k + 1 + int (length xs)" "[0]"] fit assms(7) by auto
      show ?thesis
        using blob True room t unfolding print_value_def Let_def
        by (simp only: r1 r2 r3 r4 if_False if_True bind.bind_lunit nat_int) (use fit r4(2) in auto)
    qed
    then show ?thesis using blob True t assms(7) by (cases "csize (k + int (length xs) + 2) < 255") (auto simp: print_value_def Let_def)
  next
    case False
    have small: "length xs < 2 ^ 14"
      using assms(3) t by (auto simp: encoded_at_Cons [OF assms(2)] rpc_sizes)
    show ?thesis
    proof (cases "csize (k + int (length xs) * 2) < 255")
      case True
      then have "k + 2 * int (length xs) \<le> 254" using small assms(7,8) by simp
      with put_hex_total [OF assms(6,7), of xs] obtain rs' where
        "put_hex rs k xs = Some (rs', k + 2 * int (length xs))" "ended rs'"
        "k + 2 * int (length xs) \<le> 254" by auto
      then show ?thesis using blob False True t assms(7) by (auto simp: print_value_def Let_def)
    next
      case full: False
      then show ?thesis using blob False t by (auto simp: print_value_def Let_def)
    qed
  qed
qed

lemma print_values_total:
  assumes "load m buf n = Some bs" "0 \<le> pos" "encoded_at bs pos ts" "nat pos + length (enc_tlvs ts) \<le> n"
    and "list_all fits_tmp ts" "ended rs" "0 \<le> k" "k \<le> 255"
  shows "\<exists>r. print_values m i (read_params buf pos ts) rs k = Some r \<and> (\<forall>rs'. r = Inr rs' \<longrightarrow> ended rs')"
  using assms
proof (induction ts arbitrary: pos rs k i)
  case (Cons t ts)
  show ?case
  proof (cases "i \<noteq> 0 \<and> \<not> csize (k + 1) < 255")
    case False
    obtain rs1 k1 where 1: "(if i \<noteq> 0 then map_option (\<lambda>rs. (rs, k + 1)) (put rs k [0x20]) else Some (rs, k)) = Some (rs1, k1)"
      "ended rs1" "0 \<le> k1" "k1 \<le> 255"
    proof (cases "i = 0")
      case True
      with Cons.prems that show ?thesis by simp
    next
      case i: False
      with False Cons.prems(7,8) have "k + 1 < 255" by simp
      with put_total [OF Cons.prems(6,7), of "[0x20]"] Cons.prems(7) i that show ?thesis by auto
    qed
    obtain r where r: "print_value m (read_param buf pos t) rs1 k1 = Some r"
      "\<forall>rs' k' b. r = Inr (rs', k', b) \<longrightarrow> ended rs' \<and> 0 \<le> k' \<and> k' \<le> 255"
      using print_value_total [OF Cons.prems(1-4) _ 1(2-4)] Cons.prems(5) by auto
    have at: "encoded_at bs (pos + int (length (enc_tlv t))) ts" "nat (pos + int (length (enc_tlv t))) + length (enc_tlvs ts) \<le> n"
      using Cons.prems(2,3,4) by (auto simp: encoded_at_Cons nat_add_distrib)
    have "\<exists>r'. print_values m (Suc i) (read_params buf (pos + int (length (enc_tlv t))) ts) rs' k' = Some r' \<and> (\<forall>rs''. r' = Inr rs'' \<longrightarrow> ended rs'')"
      if "r = Inr (rs', k', True)" for rs' k'
      using that r(2) Cons.prems at by (intro Cons.IH) auto
    then show ?thesis
      unfolding read_params.simps print_values.simps using False
      by (simp only: 1(1) bind.bind_lunit prod.case r(1) if_False) (use r(2) in \<open>auto split: sum.splits\<close>)
  qed simp
qed simp

text \<open>The result of the permissive reader on any bytes: nothing to print, or a list of values.\<close>

lemma permissive_cases:
  assumes "load m buf (nat k) = Some bs" "k < 2 ^ 31" "n \<le> length qs"
  obtains (nothing) qs' r where "af_rpc_get_params_from_buffer m (Some qs) (int n) buf k 1 = Some (Some qs', r)" "r \<le> 0"
  | (some) ts where "af_rpc_get_params_from_buffer m (Some qs) (int n) buf k 1 =
        Some (Some (poke qs 0 (read_params buf 2 ts)), int (length ts))"
      "encoded_at bs 2 ts" "int (msg_len ts) = k" "used bs = msg_len ts" "length ts \<le> length qs"
proof (cases "k \<le> 1")
  case True
  then obtain r where "af_rpc_get_params_from_buffer m (Some qs) (int n) buf k 1 = Some (Some qs, r)" "r \<le> 0"
    using load_not_null [OF assms(1)]
    by (cases "k = 1") (auto simp: af_rpc_get_params_from_buffer_def rpc_sizes rpc_errs)
  then show thesis by (rule nothing)
next
  case False
  then have size: "2 \<le> k" by simp
  note run = get_params_unfold [OF assms(1) size assms(2), of "int n" qs 1]
  show thesis
  proof (cases "int (used bs) \<le> k")
    case True
    have "int (used bs) \<le> int (nat k)" "int (used bs) < 2 ^ 16" using True size used_less [of bs] by auto
    note cases = get_params_loop_cases [OF assms(1) _ this, where pos = 2 and numParams = "int n" and params = qs
        and permissive = 1 and param = 0]
    show thesis
    proof (rule cases, goal_cases)
      case (5 ps' e)
      then have "af_rpc_get_params_from_buffer m (Some qs) (int n) buf k 1 = Some (Some ps', e)" "e \<le> (0 :: int)" using run True by (auto simp: rpc_errs)
      then show ?case by (rule nothing)
    next
      case (6 ts)
      show ?case
      proof (cases "2 + int (length (enc_tlvs ts)) = k")
        case True
        have "ts = [] \<or> 2 + int (length (enc_tlvs ts)) = int (used bs)" using 6(4) by (auto split: if_splits)
        then consider "ts = []" | "used bs = msg_len ts" by (auto simp: msg_len_def)
        then show ?thesis
        proof cases
          case 1
          then have "af_rpc_get_params_from_buffer m (Some qs) (int n) buf k 1 = Some (Some (poke qs 0 []), 0)" "0 \<le> (0 :: int)"
            using 6(1) run True \<open>int (used bs) \<le> k\<close> by auto
          then show ?thesis by (rule nothing)
        next
          case 2
          have "af_rpc_get_params_from_buffer m (Some qs) (int n) buf k 1 =
              Some (Some (poke qs 0 (read_params buf 2 ts)), int (length ts))"
            using 6(1) run True \<open>int (used bs) \<le> k\<close> by simp
          moreover have "int (msg_len ts) = k" using True by (simp add: msg_len_def)
          moreover have "length ts \<le> length qs" using 6(3) assms(3) by (cases "ts = []") auto
          ultimately show ?thesis using 2 6(2) by (intro some)
        qed
      next
        case no: False
        then have "af_rpc_get_params_from_buffer m (Some qs) (int n) buf k 1 = Some (Some (poke qs 0 (read_params buf 2 ts)), AF_RPC_ERR_BAD_TLV)" "AF_RPC_ERR_BAD_TLV \<le> (0 :: int)"
          using 6(1) run True by (auto simp: rpc_errs)
        then show ?thesis by (rule nothing)
      qed
    qed (use assms(3) in auto)
  next
    case False
    then have "af_rpc_get_params_from_buffer m (Some qs) (int n) buf k 1 = Some (Some qs, AF_RPC_ERR_BAD_TLV)" "AF_RPC_ERR_BAD_TLV \<le> (0 :: int)"
      using run by (simp_all add: rpc_errs)
    then show thesis by (rule nothing)
  qed
qed

section \<open>The reply\<close>

lemma no_nul_simps [simp]: "no_nul []" "no_nul (c # s) \<longleftrightarrow> code c \<noteq> 0 \<and> no_nul s"
  "no_nul (s @ t) \<longleftrightarrow> no_nul s \<and> no_nul t"
  by (auto simp: no_nul_def)

lemma no_nul_texts: "no_nul (decimal n)" "no_nul (signed i)" "no_nul (hex_text xs)"
proof -
  show dec: "no_nul (decimal n)" for n
    by (auto simp: no_nul_def dest!: decimal_digits isdigit_isxdigit digit_no_nul)
  show "no_nul (signed i)" by (simp add: signed_def dec) (simp add: code_def)
  show "no_nul (hex_text xs)"
    using xdigits_only_hex_text [of xs] digit_no_nul by (auto simp: no_nul_def xdigits_only_iff)
qed

lemma no_nul_shown: "printable t \<Longrightarrow> no_nul (shown t)"
proof (cases t)
  case (TBlob s xs)
  assume p: "printable t"
  have q: "code (CHR 0x22) \<noteq> 0" by code_simp
  show ?thesis
  proof (cases s)
    case True
    with p TBlob obtain u where "no_nul u" "xs = bytes_of u @ [0]" by auto
    with True TBlob q show ?thesis by (simp add: c_string_bytes)
  next
    case False
    with TBlob show ?thesis by (simp add: no_nul_texts)
  qed
qed (simp_all add: no_nul_texts)

lemma no_nul_joined: "list_all printable ts \<Longrightarrow> no_nul (joined ts)"
proof (induction ts rule: joined.induct)
  case (3 t u ts)
  have "code (CHR '' '') \<noteq> 0" by code_simp
  with 3 show ?case by (simp add: no_nul_shown)
qed (simp_all add: no_nul_shown)

lemma visible_subset: "set (visible ts) \<subseteq> set ts"
  by (induction ts) auto

lemma no_nul_over: "list_all printable ts \<Longrightarrow> over ts = Some s \<Longrightarrow> no_nul s"
proof -
  assume p: "list_all printable ts" and o: "over ts = Some s"
  let ?l = "filter is_int (drop 1 ts)"
  from o have "?l \<noteq> []" "s = shown (last ?l)" by (auto simp: over_def Let_def split: if_splits)
  then have "last ?l \<in> set ?l" by (intro last_in_set)
  then have "last ?l \<in> set ts" by (auto dest: in_set_dropD)
  with p \<open>s = shown (last ?l)\<close> show ?thesis by (auto simp: list_all_iff no_nul_shown)
qed

lemma fits_tmp_printable: "printable t \<Longrightarrow> fits_tmp t"
  by (cases t) simp_all

lemma reply_values:
  assumes "load m buf (nat k) = Some bs" "k < 2 ^ 31"
    and "af_rpc_get_params_from_buffer m (Some (replicate 16 \<lparr>base = NULL, ptype = 0\<rparr>)) 16 buf k 1 =
      Some (Some (poke (replicate 16 \<lparr>base = NULL, ptype = 0\<rparr>) 0 (read_params buf 2 ts)), int (length ts))"
  shows "reply_text m buf k = print_values m 0 (read_params buf 2 ts) (replicate 256 0) 0"
  using assms(3) by (simp add: reply_text_def IPC_SEND_MAX_PARAMS_def poke_def)

lemma reply_text_printed:
  assumes "msg_in m buf (int (msg_len ts)) ts" "list_all printable ts" "length (joined (visible ts)) < 254"
  shows "\<exists>rs. reply_text m buf (int (msg_len ts)) = Some (Inr rs) \<and>
    c_string rs = (if length ts \<le> 16 then printed ts else []) \<and> 0 \<in> set rs"
proof (cases "length ts \<le> 16")
  case True
  obtain bs where bs: "load m buf (msg_len ts) = Some bs" "holds bs ts" "list_all tlv_wf ts"
    using assms(1) by (rule msg_inE) simp
  then have small: "int (msg_len ts) < 2 ^ 31" by (simp add: holds_def)
  have enc: "encoded_at bs 2 ts" using bs(2,3) by (rule encoded_message)
  from bs(1) have ld: "load m buf (nat (int (msg_len ts))) = Some bs" by simp
  have "reply_text m buf (int (msg_len ts)) = print_values m 0 (read_params buf 2 ts) (replicate 256 0) 0"
    using get_params_ok(1) [OF assms(1) True, of "replicate 16 \<lparr>base = NULL, ptype = 0\<rparr>" 1]
    by (intro reply_values [OF ld small]) simp
  moreover have "list_all fits_tmp ts" using assms(2) fits_tmp_printable by (auto simp: list_all_iff)
  then have ended: "ended rs" if "print_values m 0 (read_params buf 2 ts) (replicate 256 0) 0 = Some (Inr rs)" for rs
    using print_values_total [OF bs(1) _ enc, of "replicate 256 0" 0 0] that by (auto simp: ended_def msg_len_def)
  moreover obtain rs where "print_values m 0 (read_params buf 2 ts) (replicate 256 0) 0 = Some (Inr rs)"
    "filled rs (joined (visible ts)) (over (visible ts))"
    using print_values_ok [OF bs(1) _ enc _ assms(2), of "replicate 256 0" "[]"] filled_start assms(3)
    by (auto simp: msg_len_def)
  moreover have "list_all printable (visible ts)"
    using assms(2) visible_subset [of ts] by (auto simp: list_all_iff)
  moreover have "0 \<in> set rs" if "ended rs" for rs using that nth_mem [of 255 rs] by (simp add: ended_def)
  ultimately show ?thesis
    using c_string_filled [of rs "joined (visible ts)" "over (visible ts)"] no_nul_joined no_nul_over True
    by (auto simp: printed_over split: option.split)
next
  case False
  then have "16 < length ts" "16 \<le> length (replicate 16 \<lparr>base = NULL, ptype = 0\<rparr>)" by simp_all
  from get_params_too_many [OF assms(1) this, of 1] False show ?thesis
    by (auto simp: reply_text_def IPC_SEND_MAX_PARAMS_def c_string_def)
qed

text \<open>
  C30. What the tools print of a reply whose values are printable and whose text is shorter than 254
  characters. For at most 16 values it is \<open>printed\<close>: the values behind the first string are
  never printed; of the others, all are printed, separated by blanks, if no value behind the first
  one is an integer; otherwise only the last integer behind the first value is printed, and
  neither what is before it nor what follows it (the reply 1, 2, bytes is printed as 2). For more
  than 16 values the text is empty.
\<close>

theorem reply_printed:
  assumes "msg_in m buf (int (msg_len ts)) ts" "list_all printable ts" "length (joined (visible ts)) < 254"
  shows "\<exists>rs. reply_text m buf (int (msg_len ts)) = Some (Inr rs) \<and>
    c_string rs = (if length ts \<le> 16 then printed ts else [])"
  using reply_text_printed [OF assms] by blast

definition reply_mem :: "tlv list \<Rightarrow> mem" where
  "reply_mem ts = [0 \<mapsto> enc_msg ts @ replicate (256 - msg_len ts) 0]"

lemma reply_mem_msg:
  assumes "msg_len ts \<le> 256" "list_all tlv_wf ts"
  shows "msg_in (reply_mem ts) (VPtr 0 0) (int (msg_len ts)) ts"
proof -
  have "load (reply_mem ts) (VPtr 0 0) (msg_len ts) = Some (enc_msg ts)"
    by (simp add: load_def reply_mem_def)
  moreover have "holds (enc_msg ts) ts" using assms(1) by (simp add: holds_def)
  ultimately show ?thesis using assms(2) by (simp add: msg_in_def)
qed

theorem reply_printed_example:
  "(\<exists>rs. reply_text (reply_mem [TI16 0xFFF6, TBlob False [0xDE, 0xAD], TBlob True [0x6F, 0x6B, 0]]) (VPtr 0 0) 15 =
      Some (Inr rs) \<and> c_string rs = ''-10 dead '' @ [CHR 0x22] @ ''ok'' @ [CHR 0x22]) \<and>
   (\<exists>rs. reply_text (reply_mem [TU8 1, TU8 2, TBlob False [0xAB]]) (VPtr 0 0) 11 = Some (Inr rs) \<and> c_string rs = ''2'')"
proof
  let ?ts = "[TI16 0xFFF6, TBlob False [0xDE, 0xAD], TBlob True [0x6F, 0x6B, 0]]"
  have l: "msg_len ?ts = 15" "list_all tlv_wf ?ts" by (code_simp, simp add: rpc_sizes)
  have "bytes_of ''ok'' @ [0] = [0x6F, 0x6B, 0]" "no_nul ''ok''" by (code_simp, simp add: code_def)
  then have "\<exists>s. no_nul s \<and> [0x6F, 0x6B, 0] = bytes_of s @ [0]" by metis
  then have p: "list_all printable ?ts" by simp
  have "length (joined (visible ?ts)) = 13" by code_simp
  moreover have "printed ?ts = ''-10 dead '' @ [CHR 0x22] @ ''ok'' @ [CHR 0x22]" by code_simp
  ultimately show "\<exists>rs. reply_text (reply_mem ?ts) (VPtr 0 0) 15 =
      Some (Inr rs) \<and> c_string rs = ''-10 dead '' @ [CHR 0x22] @ ''ok'' @ [CHR 0x22]"
    using reply_printed [OF reply_mem_msg p] l by simp
next
  let ?ts = "[TU8 1, TU8 2, TBlob False [0xAB]]"
  have l: "msg_len ?ts = 11" "list_all tlv_wf ?ts" by (code_simp, simp add: rpc_sizes)
  have p: "list_all printable ?ts" by simp
  have "length (joined (visible ?ts)) = 6" by code_simp
  moreover have "printed ?ts = ''2''" by code_simp
  ultimately show "\<exists>rs. reply_text (reply_mem ?ts) (VPtr 0 0) 11 = Some (Inr rs) \<and> c_string rs = ''2''"
    using reply_printed [OF reply_mem_msg p] l by simp
qed

lemma reply_total:
  assumes "load m buf (nat k) = Some bs" "k < 2 ^ 31"
    and "\<And>ts v. holds bs ts \<Longrightarrow> TI32 v \<in> set ts \<Longrightarrow> - (10 ^ 9) < sint v"
  shows "\<exists>r. reply_text m buf k = Some r \<and> (\<forall>rs. r = Inr rs \<longrightarrow> ended rs)"
proof -
  let ?qs = "replicate 16 \<lparr>base = NULL, ptype = 0\<rparr>"
  have z: "ended (replicate 256 0)" by (simp add: ended_def)
  have "16 \<le> length ?qs" by simp
  from assms(1,2) this show ?thesis
  proof (cases rule: permissive_cases)
    case (nothing qs' r)
    then show ?thesis using z by (cases "r = 0") (auto simp: reply_text_def IPC_SEND_MAX_PARAMS_def)
  next
    case (some ts)
    have "msg_len ts \<le> length bs" using length_load [OF assms(1)] some(3) by simp
    from message_encoded [OF some(2,4) this] have h: "holds bs ts" by simp
    have "fits_tmp t" if "t \<in> set ts" for t using assms(3) [OF h] that by (cases t) auto
    then have fit: "list_all fits_tmp ts" by (simp add: list_all_iff)
    have n: "nat 2 + length (enc_tlvs ts) \<le> nat k" using some(3) by (simp add: msg_len_def)
    show ?thesis
      using print_values_total [OF assms(1) _ some(2) n fit z] reply_values [OF assms(1,2), of ts] some(1) by simp
  qed
qed

text \<open>
  Printing is safe on any bytes of a reply, unless a value is a 32-bit integer of ten digits
  with a minus sign: every access is valid, and the text has its terminator.
\<close>

theorem reply_safe:
  assumes "load m buf (nat k) = Some bs" "k < 2 ^ 31"
    and "\<And>ts v. holds bs ts \<Longrightarrow> TI32 v \<in> set ts \<Longrightarrow> - (10 ^ 9) < sint v"
  shows "\<exists>r. reply_text m buf k = Some r \<and> (\<forall>rs. r = Inr rs \<longrightarrow> length rs = 256 \<and> 0 \<in> set rs)"
proof -
  obtain r where "reply_text m buf k = Some r" "\<forall>rs. r = Inr rs \<longrightarrow> ended rs"
    using reply_total [of m buf k bs] assms by blast
  moreover have "0 \<in> set rs" if "ended rs" for rs using that nth_mem [of 255 rs] by (simp add: ended_def)
  ultimately show ?thesis by (auto simp: ended_def)
qed

theorem reply_safe_example:
  "\<exists>r. reply_text [0 \<mapsto> [0, 5, 0x90, 0, 7]] (VPtr 0 0) 5 = Some r \<and> (\<forall>rs. r = Inr rs \<longrightarrow> length rs = 256 \<and> 0 \<in> set rs)"
proof -
  have ld: "load [0 \<mapsto> [0, 5, 0x90, 0, 7]] (VPtr 0 0) (nat 5) = Some [0, 5, 0x90, 0, 7]" by (simp add: load_def)
  show ?thesis
  proof (rule reply_safe [OF ld])
    fix ts v assume h: "holds [0, 5, 0x90, 0, 7] ts" and v: "TI32 v \<in> set ts"
    from v have "6 \<le> length (enc_tlvs ts)"
      by (induction ts) (auto simp: length_enc_tlv)
    with h show "- (10 ^ 9) < sint v" by (simp add: holds_def msg_len_def)
  qed simp
qed

text \<open>
  A reply whose first value is such an integer is written past the end of the local array
  \<^verbatim>\<open>tmp\<close>.
\<close>

theorem reply_overflows:
  assumes "msg_in m buf (int (msg_len (TI32 v # ts))) (TI32 v # ts)" "length ts < 16" "sint v \<le> - (10 ^ 9)"
  shows "reply_text m buf (int (msg_len (TI32 v # ts))) = None"
proof -
  let ?ts = "TI32 v # ts"
  obtain bs where bs: "load m buf (msg_len ?ts) = Some bs" "holds bs ?ts" using assms(1) by (rule msg_inE) simp
  then have ld: "load m buf (nat (int (msg_len ?ts))) = Some bs" "int (msg_len ?ts) < 2 ^ 31"
    by (simp_all add: holds_def)
  have "reply_text m buf (int (msg_len ?ts)) = print_values m 0 (read_params buf 2 ?ts) (replicate 256 0) 0"
    using get_params_ok(1) [OF assms(1), of 16 "replicate 16 \<lparr>base = NULL, ptype = 0\<rparr>" 1] assms(2)
    by (intro reply_values [OF ld]) simp
  moreover have "10 ^ 9 \<le> nat (- sint v)" using assms(3) by simp
  then have "10 \<le> length (decimal (nat (- sint v)))" using length_decimal_ge [of 9 "nat (- sint v)"] by simp
  then have "int_text (read_param buf 2 (TI32 v)) = None"
    using assms(3) by (simp add: int_text_def read_param_def rpc_types Let_def int_base_def format_d_def)
  moreover have "AF_RPC_TYPE_IS_INTEGER (ptype (read_param buf 2 (TI32 v)))" by (simp add: read_param_def wide_type)
  ultimately show ?thesis by (simp add: print_value_def)
qed

theorem reply_overflows_example: "reply_text (reply_mem [TI32 0x80000000]) (VPtr 0 0) 8 = None"
proof -
  have l: "msg_len [TI32 0x80000000] = 8" "list_all tlv_wf [TI32 0x80000000]" by (code_simp, simp)
  have "sint (0x80000000 :: u32) \<le> - (10 ^ 9)" by code_simp
  from reply_overflows [OF reply_mem_msg _ this, where ts = "[]"] l show ?thesis by simp
qed

end
