(* ===== verification/Tool_Inv.thy ===== *)
theory Tool_Inv
  imports Tool_Loop Client_Correct Tool_Print_Correct
begin

text \<open>
  The state of the tools \<^verbatim>\<open>ipc_send\<close> and \<^verbatim>\<open>ipc_wait\<close> while their event loop runs. Their receive
  callback is an instance of the contract \<open>client_receiver\<close> of the client library; the locale
  \<open>tool_loop\<close> has the loop for any handlers of the timers.
\<close>

section \<open>Messages\<close>

text \<open>
  The messages that the tools can take: they fit \<^verbatim>\<open>outBuffer\<close>, and have no integer whose text
  overflows \<^verbatim>\<open>tmp\<close>. A peer is modest if only such messages can be in what arrives in one piece.
\<close>

definition tool_message :: "byte list \<Rightarrow> bool" where
  "tool_message p \<longleftrightarrow> length p \<le> 256 \<and> (\<forall>ts v. holds p ts \<longrightarrow> TI32 v \<in> set ts \<longrightarrow> - (10 ^ 9) < sint v)"

definition modest :: "(nat \<Rightarrow> ext) \<Rightarrow> bool" where
  "modest oc \<longleftrightarrow> (\<forall>n bs i k. ext_recv (oc n) = Inr bs \<longrightarrow> 8 \<le> i \<longrightarrow> tool_message (take k (drop i bs)))"

text \<open>The message that was kept, if one was; then the loop has been told to exit.\<close>

definition message_kept :: "'a tool_world_scheme \<Rightarrow> bool" where
  "message_kept w \<longleftrightarrow> (\<exists>obj. heap w 0 = Some obj \<and> length obj = 256 \<and>
     (dataReceived w \<longrightarrow> exiting w \<and> 0 \<le> outBufferSize w \<and> outBufferSize w \<le> 256 \<and>
        tool_message (take (nat (outBufferSize w)) obj)))"

lemma tool_message_Nil: "tool_message []"
  by (simp add: tool_message_def holds_def msg_len_def)

lemma short_message: "length p \<le> 7 \<Longrightarrow> tool_message p"
proof -
  assume p: "length p \<le> 7"
  have "TI32 v \<notin> set ts" if "holds p ts" for ts v
  proof
    assume "TI32 v \<in> set ts"
    then have "6 \<le> length (enc_tlvs ts)" by (induction ts) (auto simp: length_enc_tlv)
    with that p show False by (simp add: holds_def msg_len_def)
  qed
  with p show ?thesis by (auto simp: tool_message_def)
qed

section \<open>The receive callback\<close>

text \<open>What the library and the callbacks do to the state \<open>w0\<close> while they receive.\<close>

definition since :: "'a tool_world_scheme \<Rightarrow> 'a tool_world_scheme \<Rightarrow> bool" where
  "since w0 w \<longleftrightarrow> outcomes w = outcomes w0 \<and> s_base w = s_base w0 \<and> bases w = bases w0 \<and>
     s_server w = s_server w0 \<and> stdout w = stdout w0 \<and> tool_world.more w = tool_world.more w0 \<and>
     lasting w = lasting w0 \<and> dom (ctls w) = dom (ctls w0) \<and> dom (servers w) = dom (servers w0) \<and>
     (\<forall>c. set (pending w c) \<subseteq> set (pending w0 c)) \<and>
     (\<exists>obj. heap w = (heap w0)(0 \<mapsto> obj)) \<and> message_kept w \<and> (exiting w0 \<longrightarrow> exiting w)"

definition attentive :: "'a tool_world_scheme \<Rightarrow> 'a tool_world_scheme \<Rightarrow> bool" where
  "attentive w0 w \<longleftrightarrow> since w0 w \<and> modest (outcomes w0) \<and> (\<exists>b \<in> bases w0. s_base w0 = Some b)"

lemma tool_run_eq:
  assumes "message_kept w" "tool_message payload" "s_base w = Some b" "b \<in> bases w"
  obtains obj d k where "tool_run cb st sn payload ctx w =
      Some (w\<lparr>heap := (heap w)(0 \<mapsto> obj), dataReceived := d, outBufferSize := k, exiting := True\<rparr>)"
    "message_kept (w\<lparr>heap := (heap w)(0 \<mapsto> obj), dataReceived := d, outBufferSize := k, exiting := True\<rparr>)"
proof -
  obtain obj where obj: "heap w 0 = Some obj" "length obj = 256" "dataReceived w \<longrightarrow> exiting w \<and> 0 \<le> outBufferSize w \<and>
      outBufferSize w \<le> 256 \<and> tool_message (take (nat (outBufferSize w)) obj)"
    using assms(1) by (auto simp: message_kept_def)
  show thesis
  proof (cases "st = AF_IPC_STATUS_OK")
    case True
    have len: "length payload \<le> 256" using assms(2) by (simp add: tool_message_def)
    then have st: "store (heap w) outBuffer payload = Some ((heap w)(0 \<mapsto> poke obj 0 payload))"
      using obj by (simp add: store_def load_def outBuffer_def overwrite_def)
    have "take (length payload) (poke obj 0 payload) = payload" using slice_poke_same [of 0 obj payload] by simp
    then have "message_kept (w\<lparr>heap := (heap w)(0 \<mapsto> poke obj 0 payload), dataReceived := True,
        outBufferSize := int (length payload), exiting := True\<rparr>)"
      using len obj(2) assms(2) by (simp add: message_kept_def)
    then show thesis
      using that True st assms(3,4) by (simp add: tool_run_def ipc_send_rx_callback_def event_base_loopexit_def)
  next
    case False
    have same: "(heap w)(0 \<mapsto> obj) = heap w" using obj(1) by (simp add: fun_upd_idem)
    have "message_kept (w\<lparr>exiting := True\<rparr>)" using obj by (simp add: message_kept_def)
    then show thesis
      using that [where obj = obj and d = "dataReceived w" and k = "outBufferSize w"] False same assms(3,4)
      by (simp add: tool_run_def ipc_send_rx_callback_def event_base_loopexit_def)
  qed
qed

lemma attentive_rest:
  assumes "same_rest w w'" "attentive w0 w"
  shows "attentive w0 w'"
proof -
  have m: "client_world.more w' = client_world.more w" using assms(1) by (simp add: same_rest_def)
  then have "heap w' = heap w" "bases w' = bases w" "s_base w' = s_base w" "s_server w' = s_server w"
    "dataReceived w' = dataReceived w" "outBufferSize w' = outBufferSize w" "exiting w' = exiting w"
    "stdout w' = stdout w" "tool_world.more w' = tool_world.more w"
    by (cases w; cases w'; simp)+
  then show ?thesis
    using assms unfolding attentive_def since_def same_rest_def message_kept_def
    by (simp only: simp_thms) (metis subset_trans)
qed

lemma tool_run_attentive:
  assumes "attentive w0 w" "tool_message payload"
  shows "\<exists>w'. tool_run cb st sn payload ctx w = Some w' \<and> attentive w0 w' \<and> ctls w' = ctls w \<and> reqs w' = reqs w \<and>
    events w' = events w \<and> tick w' = tick w \<and> outcomes w' = outcomes w \<and> servers w' = servers w"
proof -
  obtain b where b: "s_base w = Some b" "b \<in> bases w" "message_kept w"
    using assms(1) by (auto simp: attentive_def since_def)
  from tool_run_eq [OF b(3) assms(2) b(1,2), of cb st sn ctx] obtain obj d k where
    run: "tool_run cb st sn payload ctx w =
      Some (w\<lparr>heap := (heap w)(0 \<mapsto> obj), dataReceived := d, outBufferSize := k, exiting := True\<rparr>)"
    "message_kept (w\<lparr>heap := (heap w)(0 \<mapsto> obj), dataReceived := d, outBufferSize := k, exiting := True\<rparr>)"
    (is "message_kept ?w'") .
  have "lasting ?w' = lasting w" "pending ?w' = pending w" by (rule lasting_cong pending_cong; simp)+
  moreover have "\<exists>obj. heap ?w' = (heap w0)(0 \<mapsto> obj)" using assms(1) by (auto simp: attentive_def since_def)
  moreover have "(tool_world.more ?w' = tool_world.more w)" by simp
  ultimately have "attentive w0 ?w'" using assms(1) run(2) unfolding attentive_def since_def by simp
  with run(1) show ?thesis by simp
qed

interpretation tool: client_receiver tool_run s "attentive w0" tool_message for s w0
proof
  fix w :: "'a tool_world_scheme" and sv oc t cb st sn payload ctx
  assume w: "attentive w0 w" "receiving s sv oc t w" "tool_message payload"
  obtain w' where w': "tool_run cb st sn payload ctx w = Some w'" "attentive w0 w'" "ctls w' = ctls w" "reqs w' = reqs w"
    "events w' = events w" "tick w' = tick w" "outcomes w' = outcomes w" "servers w' = servers w"
    using tool_run_attentive [OF w(1,3)] by blast
  have "receiving s sv oc t w'" using w(2) by (rule conn_cong) (use w' in auto)
  with w' show "\<exists>w'. tool_run cb st sn payload ctx w = Some w' \<and> receiving s sv oc t w' \<and> attentive w0 w'" by blast
next
  fix w :: "'a tool_world_scheme" and n bs and i k :: nat
  assume "attentive w0 w" "ext_recv (outcomes w n) = Inr bs" "8 \<le> i"
  then show "tool_message (take k (drop i bs))" by (auto simp: attentive_def since_def modest_def)
qed (rule attentive_rest tool_message_Nil; assumption?)+

text \<open>Between the calls of the receive handler the connection is idle.\<close>

interpretation tool_idle: receiver tool_run s "\<lambda>w. idle s sv oc t w \<and> attentive w0 w" tool_message for s sv oc t w0
proof
  fix w :: "'a tool_world_scheme" and c' a cb st sn payload ctx
  show "idle s sv oc t w \<and> attentive w0 w \<Longrightarrow> world_ok w \<and> db_open w s" using conn_openD by blast
  show "idle s sv oc t w \<and> attentive w0 w \<Longrightarrow> db_open w c' \<Longrightarrow> a \<in> set (pending w c') \<Longrightarrow>
      idle s sv oc t (drop_pending c' a w) \<and> attentive w0 (drop_pending c' a w)"
    using conn_drop [of s sv oc t _ w] conn_openD [of s sv oc t _ w] attentive_rest drop_pending_rest by blast
  assume w: "idle s sv oc t w \<and> attentive w0 w" "tool_message payload"
  then obtain w' where w': "tool_run cb st sn payload ctx w = Some w'" "attentive w0 w'" "ctls w' = ctls w"
    "reqs w' = reqs w" "events w' = events w" "tick w' = tick w" "outcomes w' = outcomes w" "servers w' = servers w"
    using tool_run_attentive by blast
  from w have "idle s sv oc t w" by blast
  then have "idle s sv oc t w'" by (rule conn_cong) (use w' in auto)
  with w' show "\<exists>w'. tool_run cb st sn payload ctx w = Some w' \<and> idle s sv oc t w' \<and> attentive w0 w'" by blast
qed (rule tool_message_Nil)

end
