(* ===== verification/Tool_Run.thy ===== *)
theory Tool_Run
  imports Tool_Inv
begin

text \<open>
  The invariant of the event loop of the tools, and the locale \<open>tool_loop\<close>: the loop for any
  handlers of the application's timers that keep the invariant.
\<close>

section \<open>The invariant\<close>

text \<open>
  \<open>b\<close> is the event base, \<open>U\<close> are the application's timers, and \<open>tm\<close> is the one that ends the loop.
  There is one connection, idle, or none; no other event than its read event, timers of its
  requests, and \<open>U\<close> is live.
\<close>

definition tool_ok :: "(nat \<Rightarrow> ext) \<Rightarrow> nat \<Rightarrow> nat set \<Rightarrow> nat \<Rightarrow> 'a tool_world_scheme \<Rightarrow> bool" where
  "tool_ok oc b U tm w \<longleftrightarrow> world_ok w \<and> outcomes w = oc \<and> s_base w = Some b \<and> bases w = {b} \<and> message_kept w \<and>
     U = {e. \<exists>v k. lasting w e = Some v \<and> ev_handler v = On_user k} \<and>
     (\<exists>v. tm \<in> U \<and> lasting w tm = Some v \<and> (ev_added v \<or> exiting w)) \<and>
     (case s_server w of
        None \<Rightarrow> exiting w \<and> ctls w = Map.empty \<and> servers w = Map.empty \<and> dom (lasting w) = U
      | Some s \<Rightarrow> dom (ctls w) = {s} \<and> dom (servers w) = {s} \<and>
          (\<exists>sv e. idle s sv oc 0 w \<and> sv_closeCallback sv \<noteq> None \<and> sv_event sv = Some e \<and> dom (lasting w) = insert e U))"

text \<open>What a handler of the library leaves to the tool.\<close>

definition kept :: "'a tool_world_scheme \<Rightarrow> 'a tool_world_scheme \<Rightarrow> bool" where
  "kept w w' \<longleftrightarrow> stdout w' = stdout w \<and> tool_world.more w' = tool_world.more w \<and> (\<exists>obj. heap w' = (heap w)(0 \<mapsto> obj)) \<and>
     tick w \<le> tick w' \<and> (exiting w \<longrightarrow> exiting w') \<and> (s_server w' = s_server w \<or> s_server w' = None) \<and>
     (\<forall>e v k. lasting w e = Some v \<longrightarrow> ev_handler v = On_user k \<longrightarrow> lasting w' e = Some v) \<and>
     (\<forall>c. set (pending w' c) \<subseteq> set (pending w c))"

lemma tool_ok_base: "tool_ok oc b U tm w \<Longrightarrow>
    world_ok w \<and> outcomes w = oc \<and> s_base w = Some b \<and> bases w = {b} \<and> message_kept w"
  by (simp add: tool_ok_def)

lemma tool_ok_server:
  assumes "tool_ok oc b U tm w" "s_server w = Some s"
  obtains sv e v where "idle s sv oc (tick w) w" "sv_closeCallback sv \<noteq> None" "sv_event sv = Some e"
    "dom (lasting w) = insert e U" "dom (ctls w) = {s}" "dom (servers w) = {s}" "e \<notin> U"
    "lasting w e = Some v" "ev_handler v = On_recv s"
proof -
  obtain sv e where sv: "idle s sv oc 0 w" "sv_closeCallback sv \<noteq> None" "sv_event sv = Some e"
    "dom (lasting w) = insert e U" "dom (ctls w) = {s}" "dom (servers w) = {s}"
    "U = {e. \<exists>v k. lasting w e = Some v \<and> ev_handler v = On_user k}"
    using assms by (auto simp: tool_ok_def)
  obtain f where "client_open w s" "servers w s = Some (sv\<lparr>sv_flags := f\<rparr>)" using sv(1) by (auto simp: conn_def)
  then obtain v where v: "events w e = Some v" "ev_handler v = On_recv s"
    using sv(3) by (auto elim!: client_openE)
  then have l: "lasting w e = Some v" by (simp add: lasting_def)
  then have "e \<notin> U" using v(2) sv(7) by auto
  moreover have "idle s sv oc (tick w) w" using sv(1) by (simp add: conn_def)
  ultimately show thesis using that sv(2-6) l v(2) by blast
qed

lemma kept_heap: "message_kept w \<Longrightarrow> \<exists>obj. heap w = (heap w)(0 \<mapsto> obj)"
proof -
  assume "message_kept w"
  then obtain obj where "heap w 0 = Some obj" by (auto simp: message_kept_def)
  then have "(heap w)(0 \<mapsto> obj) = heap w" by (rule fun_upd_idem)
  then show ?thesis by metis
qed

lemma kept_refl: "message_kept w \<Longrightarrow> kept w w"
  using kept_heap [of w] by (simp add: kept_def)

lemma attentive_self:
  assumes "tool_ok oc b U tm w" "modest oc"
  shows "attentive w w"
proof -
  have m: "message_kept w" using assms(1) by (simp add: tool_ok_def)
  then obtain obj where "heap w = (heap w)(0 \<mapsto> obj)" using kept_heap by blast
  then have "since w w" using m by (auto simp: since_def)
  then show ?thesis using assms by (simp add: attentive_def tool_ok_def)
qed

text \<open>The connection stays.\<close>

lemma tool_ok_stays:
  assumes ok: "tool_ok oc b U tm w" and s: "s_server w = Some s"
    and sv: "idle s sv oc (tick w) w'" "sv_closeCallback sv \<noteq> None" "sv_event sv = Some e" "dom (lasting w) = insert e U"
      "dom (ctls w) = {s}" "dom (servers w) = {s}"
    and w': "since w w'"
  shows "tool_ok oc b U tm w' \<and> kept w w'"
proof -
  have "world_ok w'" "idle s sv oc 0 w'" using sv(1) by (auto simp: conn_def client_open_def)
  then show ?thesis
    using ok s sv w' unfolding tool_ok_def since_def kept_def conn_def by auto
qed

text \<open>The connection is closed.\<close>

lemma closed_client_more: "client_world.more (closed_client s w) = client_world.more w"
  by (simp add: closed_client_def closed_db_more Let_def split: option.split)

lemma closed_client_lasting:
  assumes "client_open w s" "servers w s = Some sv" "sv_event sv = Some e"
  shows "lasting (closed_client s w) = (lasting w)(e := None)"
proof
  fix x
  have ok: "world_ok w" "db_open w s" using assms(1) by (simp_all add: client_open_def)
  have "lasting w x = None" if "x \<in> timer_of w ` set (pending w s)"
  proof -
    from that obtain a where a: "a \<in> set (pending w s)" "x = timer_of w a" by blast
    have "request_ok w s a" using pending_live [OF ok] a(1) by simp
    then show ?thesis using a(2) by (auto elim!: request_okE simp: timer_of_def lasting_def)
  qed
  then show "lasting (closed_client s w) x = ((lasting w)(e := None)) x"
    using closed_client_sel(6) [OF assms(1,2)] assms(3) by (auto simp: lasting_def)
qed

lemma closed_client_pending:
  assumes "client_open w s" "servers w s = Some sv"
  shows "set (pending (closed_client s w) c) \<subseteq> set (pending w c)"
  by (cases "c = s") (simp_all add: pending_def closed_client_sel(3) [OF assms])

definition disconnected :: "nat \<Rightarrow> 'a tool_world_scheme \<Rightarrow> 'a tool_world_scheme" where
  "disconnected s w = (closed_client s w)\<lparr>s_server := None, exiting := True\<rparr>"

lemma tool_ok_closes:
  assumes ok: "tool_ok oc b U tm w" and s: "s_server w = Some s"
    and sv: "client_open w' s" "servers w' s = Some sv'" "sv_closeCallback sv' \<noteq> None" "sv_event sv' = Some e"
      "dom (lasting w) = insert e U" "dom (ctls w) = {s}" "dom (servers w) = {s}" "e \<notin> U"
    and w': "since w w'" and t: "tick w \<le> tick w'"
  shows "run_close tool_closer (sv_closeCallback sv') st ctx (closed_client s w') = Some (disconnected s w')"
    and "tool_ok oc b U tm (disconnected s w') \<and> kept w (disconnected s w')"
    and "io_log (disconnected s w') = io_log w' @ [Shutdown (sv_fd sv') SHUT_RDWR, Closed (sv_fd sv')]"
proof -
  let ?c = "closed_client s w'"
  note sel = closed_client_sel [OF sv(1,2)]
  have m: "client_world.more ?c = client_world.more w'" by (rule closed_client_more)
  then have more: "heap ?c = heap w'" "bases ?c = bases w'" "s_base ?c = s_base w'" "s_server ?c = s_server w'"
    "dataReceived ?c = dataReceived w'" "outBufferSize ?c = outBufferSize w'" "exiting ?c = exiting w'"
    "stdout ?c = stdout w'" "tool_world.more ?c = tool_world.more w'"
    by (cases "closed_client s w'"; cases w'; simp)+
  have base: "s_base w' = Some b" "bases w' = {b}" "s_server w' = Some s"
    using w' ok s by (simp_all add: since_def tool_ok_def)
  then show "run_close tool_closer (sv_closeCallback sv') st ctx ?c = Some (disconnected s w')"
    using sv(3) more
    by (auto simp: run_close_def tool_closer_def on_close_def event_base_loopexit_def disconnected_def)
  have "lasting (disconnected s w') = lasting ?c" "pending (disconnected s w') = pending ?c"
    by (rule lasting_cong pending_cong; simp add: disconnected_def)+
  then have las: "lasting (disconnected s w') = (lasting w)(e := None)" "pending (disconnected s w') = pending ?c"
    using closed_client_lasting [OF sv(1,2,4)] w' by (simp_all add: since_def)
  have d: "dom (ctls ?c) = {}" "dom (servers ?c) = {}"
    using sel(2,3) sv(6,7) w' by (auto simp: since_def)
  have wk: "world_ok (disconnected s w')"
    using sel(1) by (rule world_ok_cong [rotated -1]) (simp_all add: disconnected_def)
  have mk: "message_kept (disconnected s w')"
    using w' more by (auto simp: since_def message_kept_def disconnected_def)
  have U: "U = {x. \<exists>v k. ((lasting w)(e := None)) x = Some v \<and> ev_handler v = On_user k}"
    "dom ((lasting w)(e := None)) = U" "\<exists>v. tm \<in> U \<and> ((lasting w)(e := None)) tm = Some v"
    "lasting w x = Some v \<Longrightarrow> ev_handler v = On_user k \<Longrightarrow> x \<noteq> e" for x v k
    using ok sv(5,8) by (auto simp: tool_ok_def)
  have "set (pending ?c c) \<subseteq> set (pending w c)" for c
    using closed_client_pending [OF sv(1,2)] w' by (fastforce simp: since_def)
  moreover have "outcomes (disconnected s w') = oc" "s_base (disconnected s w') = Some b" "bases (disconnected s w') = {b}"
    "s_server (disconnected s w') = None" "exiting (disconnected s w')" "ctls (disconnected s w') = ctls ?c"
    "servers (disconnected s w') = servers ?c" "stdout (disconnected s w') = stdout w'"
    "tool_world.more (disconnected s w') = tool_world.more w'" "heap (disconnected s w') = heap w'"
    "tick (disconnected s w') = tick w'"
    using sel(7,8) more base w' ok by (simp_all add: disconnected_def since_def tool_ok_def)
  ultimately show "tool_ok oc b U tm (disconnected s w') \<and> kept w (disconnected s w')"
    using wk mk las U d w' t unfolding tool_ok_def kept_def since_def by auto
  show "io_log (disconnected s w') = io_log w' @ [Shutdown (sv_fd sv') SHUT_RDWR, Closed (sv_fd sv')]"
    using sel(4) by (simp add: disconnected_def)
qed

section \<open>One event\<close>

text \<open>Nothing arrives from the \<open>N\<close>-th call of the environment on.\<close>

definition silent_from :: "nat \<Rightarrow> (nat \<Rightarrow> ext) \<Rightarrow> bool" where
  "silent_from N oc \<longleftrightarrow> (\<forall>n\<ge>N. \<forall>bs. ext_recv (oc n) = Inr bs \<longrightarrow> bs = [])"

lemma recv_tool:
  assumes ok: "tool_ok oc b U tm w" and s: "s_server w = Some s" and oc: "modest oc" "silent_from N oc" "N < n"
  shows "\<exists>w'. client_recv_loop n tool_run tool_closer s w = Some w' \<and> tool_ok oc b U tm w' \<and> kept w w'"
proof -
  obtain sv e and v :: ev where sv: "idle s sv oc (tick w) w" "sv_closeCallback sv \<noteq> None" "sv_event sv = Some e"
    "dom (lasting w) = insert e U" "dom (ctls w) = {s}" "dom (servers w) = {s}" "e \<notin> U"
    by (rule tool_ok_server [OF ok s])
  have quiet: "\<forall>n\<ge>N. \<forall>bs. ext_recv (oc n) = Inr bs \<longrightarrow> bs = []" using oc(2) by (simp add: silent_from_def)
  have n: "N - tick w < n" using oc(3) by simp
  have ends: "\<exists>w'. run_close tool_closer (sv_closeCallback sv) st (sv_receiveContext sv) (closed_client s w1) = Some w' \<and>
      tool_ok oc b U tm w' \<and> kept w w'" if conn: "conn s sv oc (tick w) P w1" "since w w1" for st w1 P
  proof -
    obtain f where f: "client_open w1 s" "servers w1 s = Some (sv\<lparr>sv_flags := f\<rparr>)" "tick w \<le> tick w1"
      using conn(1) by (auto simp: conn_def)
    have "sv_closeCallback (sv\<lparr>sv_flags := f\<rparr>) \<noteq> None" "sv_event (sv\<lparr>sv_flags := f\<rparr>) = Some e"
      using sv(2,3) by simp_all
    from tool_ok_closes(1,2) [OF ok s f(1,2) this sv(4-7) conn(2) f(3)] show ?thesis by auto
  qed
  obtain w1 where w1: "attentive w w1" and "(\<exists>k. idle s sv oc (tick w) w1 \<and> tick w1 = Suc k \<and> (if ext_recv (oc k) = Inl 11
      then \<forall>n > N - tick w. client_recv_loop n tool_run tool_closer s w = Some w1
      else (\<forall>bs. ext_recv (oc k) = Inr bs \<longrightarrow> bs = []) \<and>
        (\<forall>n > N - tick w. client_recv_loop n tool_run tool_closer s w =
        run_close tool_closer (sv_closeCallback sv) AF_IPC_STATUS_ERROR (sv_receiveContext sv) (closed_client s w1)))) \<or>
    conn s sv oc (tick w) (\<lambda>f. f AND FLAGS_IN_RECEIVE = 0 \<and> f AND FLAGS_MARKED_FOR_SHUTDOWN \<noteq> 0) w1 \<and>
      (\<forall>n > N - tick w. client_recv_loop n tool_run tool_closer s w =
      run_close tool_closer (sv_closeCallback sv) AF_IPC_STATUS_OK (sv_receiveContext sv) (closed_client s w1))"
    using tool.recv_loop_ends [OF attentive_self [OF ok oc(1)] quiet sv(1), of tool_closer] by blast
  then consider (stays) "idle s sv oc (tick w) w1" "client_recv_loop n tool_run tool_closer s w = Some w1"
    | (closes) P st where "conn s sv oc (tick w) P w1" "client_recv_loop n tool_run tool_closer s w =
        run_close tool_closer (sv_closeCallback sv) st (sv_receiveContext sv) (closed_client s w1)"
    using n by (auto split: if_splits)
  then show ?thesis
  proof cases
    case stays
    then show ?thesis
      using tool_ok_stays [OF ok s stays(1) sv(2-6)] w1 by (simp add: attentive_def)
  next
    case closes
    then show ?thesis using ends w1 by (simp add: attentive_def)
  qed
qed

lemma timeout_tool:
  assumes ok: "tool_ok oc b U tm w" and oc: "modest oc" and e: "events w e = Some v" "ev_handler v = On_timeout a"
  shows "\<exists>w'. fire_timer tool_run e w = Some w' \<and> tool_ok oc b U tm w' \<and> kept w w'"
proof -
  have "world_ok w" using ok by (simp add: tool_ok_def)
  then obtain c where "db_open w c" using e by (rule timer_request)
  then have "ctls w \<noteq> Map.empty" by (auto simp: db_open_def)
  then obtain s where s: "s_server w = Some s" using ok by (auto simp: tool_ok_def split: option.splits)
  obtain sv e' and v' :: ev where sv: "idle s sv oc (tick w) w" "sv_closeCallback sv \<noteq> None" "sv_event sv = Some e'"
    "dom (lasting w) = insert e' U" "dom (ctls w) = {s}" "dom (servers w) = {s}"
    by (rule tool_ok_server [OF ok s])
  have "idle s sv oc (tick w) w \<and> attentive w w" using sv(1) attentive_self [OF ok oc] by simp
  from tool_idle.fire_timer_inv [OF this e] obtain w' where
    "fire_timer tool_run e w = Some w'" "idle s sv oc (tick w) w'" "attentive w w'" by blast
  with tool_ok_stays [OF ok s _ sv(2-6)] show ?thesis by (simp add: attentive_def)
qed

lemma dispatch_library:
  assumes ok: "tool_ok oc b U tm w" and oc: "modest oc" "silent_from N oc" "N < n"
    and e: "\<And>v k. events w e = Some v \<Longrightarrow> ev_added v \<Longrightarrow> ev_handler v \<noteq> On_user k"
  shows "\<exists>w'. dispatch_event n tool_run tool_closer user e w = Some w' \<and> tool_ok oc b U tm w' \<and> kept w w'"
proof (cases "\<exists>v. events w e = Some v \<and> ev_added v")
  case False
  then have "dispatch_event n tool_run tool_closer user e w = Some w"
    by (auto simp: dispatch_event_def split: option.split)
  moreover have "message_kept w" using ok by (simp add: tool_ok_def)
  ultimately show ?thesis using ok kept_refl by blast
next
  case True
  then obtain v where v: "events w e = Some v" "ev_added v" by blast
  show ?thesis
  proof (cases "\<exists>a. ev_handler v = On_timeout a")
    case True
    then show ?thesis using timeout_tool [OF ok oc(1) v(1)] v by (auto simp: dispatch_event_def)
  next
    case False
    then have l: "lasting w e = Some v" using v by (auto simp: lasting_def split: handler.splits)
    have "e \<notin> U" using ok e [OF v] l by (auto simp: tool_ok_def)
    moreover have "e \<in> dom (lasting w)" using l by blast
    moreover have "dom (lasting w) = U" if "s_server w = None" using ok that by (simp add: tool_ok_def)
    ultimately obtain s where s: "s_server w = Some s" by (cases "s_server w") auto
    obtain sv :: af_ipcc_server and e' v' where "dom (lasting w) = insert e' U" "lasting w e' = Some v'" "ev_handler v' = On_recv s"
      by (rule tool_ok_server [OF ok s])
    with l \<open>e \<notin> U\<close> \<open>e \<in> dom (lasting w)\<close> have "ev_handler v = On_recv s" by auto
    then show ?thesis
      using recv_tool [OF ok s oc] v by (simp add: dispatch_event_def af_ipcc_client_on_recv_def EV_READ_def)
  qed
qed

section \<open>The loop\<close>

text \<open>
  The contract with the handlers of the timers: \<open>extra\<close> is what the tool has as invariant besides.
  The timer \<open>tm\<close> makes the loop exit.
\<close>

locale tool_loop =
  fixes user :: "nat \<Rightarrow> 'a tool_world_scheme \<Rightarrow> 'a tool_world_scheme option" and extra :: "'a tool_world_scheme \<Rightarrow> bool"
    and oc :: "nat \<Rightarrow> ext" and b :: nat and U :: "nat set" and tm :: nat
  assumes extra_kept: "tool_ok oc b U tm w \<Longrightarrow> extra w \<Longrightarrow> kept w w' \<Longrightarrow> tool_ok oc b U tm w' \<Longrightarrow> extra w'"
    and user_ok: "tool_ok oc b U tm w \<Longrightarrow> extra w \<Longrightarrow> events w e = Some v \<Longrightarrow> ev_added v \<Longrightarrow> ev_handler v = On_user k \<Longrightarrow>
      \<exists>w'. user k (w\<lparr>events := (events w)(e \<mapsto> v\<lparr>ev_added := False\<rparr>)\<rparr>) = Some w' \<and> tool_ok oc b U tm w' \<and> extra w' \<and>
        stdout w' = stdout w \<and> (exiting w \<longrightarrow> exiting w') \<and> (e = tm \<longrightarrow> exiting w')"
begin

lemma dispatch_ok:
  assumes "tool_ok oc b U tm w" "extra w" and peer: "modest oc" "silent_from N oc" "N < n"
  shows "\<exists>w'. event_base_dispatch n tool_run tool_closer user es w = Some w' \<and> tool_ok oc b U tm w' \<and> extra w' \<and>
    stdout w' = stdout w \<and> (exiting w \<longrightarrow> exiting w') \<and> (tm \<in> set es \<longrightarrow> exiting w')"
  using assms(1,2)
proof (induction es arbitrary: w)
  case (Cons e es)
  have "\<exists>w1. dispatch_event n tool_run tool_closer user e w = Some w1 \<and> tool_ok oc b U tm w1 \<and> extra w1 \<and>
    stdout w1 = stdout w \<and> (exiting w \<longrightarrow> exiting w1) \<and> (e = tm \<longrightarrow> exiting w1)"
  proof (cases "\<exists>v k. events w e = Some v \<and> ev_added v \<and> ev_handler v = On_user k")
    case True
    then obtain v k where v: "events w e = Some v" "ev_added v" "ev_handler v = On_user k" by blast
    then have "dispatch_event n tool_run tool_closer user e w = user k (w\<lparr>events := (events w)(e \<mapsto> v\<lparr>ev_added := False\<rparr>)\<rparr>)"
      by (simp add: dispatch_event_def)
    with user_ok [OF Cons.prems v] show ?thesis by simp
  next
    case False
    with dispatch_library [OF Cons.prems(1) peer, of e user] obtain w1 where
      w1: "dispatch_event n tool_run tool_closer user e w = Some w1" "tool_ok oc b U tm w1" "kept w w1" by blast
    have "exiting w" if "e = tm"
      using False that Cons.prems(1) by (auto simp: tool_ok_def lasting_def split: option.splits handler.splits)
    with w1 extra_kept [OF Cons.prems w1(3,2)] show ?thesis by (auto simp: kept_def)
  qed
  then obtain w1 where w1: "dispatch_event n tool_run tool_closer user e w = Some w1" "tool_ok oc b U tm w1" "extra w1"
    "stdout w1 = stdout w" "exiting w \<longrightarrow> exiting w1" "e = tm \<longrightarrow> exiting w1" by blast
  from Cons.IH [OF w1(2,3)] w1 show ?case by auto
qed simp

end

end
