(* ===== verification/Tool_Ends.thy ===== *)
theory Tool_Ends
  imports Tool_Run
begin

text \<open>
  The start and the end of the tools: connecting establishes the invariant of \<^verbatim>\<open>Tool_Run\<close>, adding the
  timers completes it, and leaving releases everything.
\<close>

section \<open>Starting\<close>

definition tool_start :: "(nat \<Rightarrow> ext) \<Rightarrow> 'a tool_world_scheme \<Rightarrow> bool" where
  "tool_start oc w \<longleftrightarrow> world_ok w \<and> outcomes w = oc \<and> ctls w = Map.empty \<and> reqs w = Map.empty \<and>
     servers w = Map.empty \<and> events w = Map.empty \<and> bases w = {} \<and> s_server w = None \<and> message_kept w"

text \<open>The invariant without the timer that ends the loop.\<close>

definition tool_base :: "(nat \<Rightarrow> ext) \<Rightarrow> nat \<Rightarrow> nat set \<Rightarrow> 'a tool_world_scheme \<Rightarrow> bool" where
  "tool_base oc b U w \<longleftrightarrow> world_ok w \<and> outcomes w = oc \<and> s_base w = Some b \<and> bases w = {b} \<and> message_kept w \<and>
     U = {e. \<exists>v k. lasting w e = Some v \<and> ev_handler v = On_user k} \<and>
     (case s_server w of
        None \<Rightarrow> exiting w \<and> ctls w = Map.empty \<and> servers w = Map.empty \<and> dom (lasting w) = U
      | Some s \<Rightarrow> dom (ctls w) = {s} \<and> dom (servers w) = {s} \<and>
          (\<exists>sv e. idle s sv oc 0 w \<and> sv_closeCallback sv \<noteq> None \<and> sv_event sv = Some e \<and> dom (lasting w) = insert e U))"

lemma tool_ok_base_iff: "tool_ok oc b U tm w \<longleftrightarrow>
    tool_base oc b U w \<and> (\<exists>v. tm \<in> U \<and> lasting w tm = Some v \<and> (ev_added v \<or> exiting w))"
  by (auto simp: tool_ok_def tool_base_def)

text \<open>The memory of the tool, and what was printed.\<close>

definition same_tool :: "'a tool_world_scheme \<Rightarrow> 'a tool_world_scheme \<Rightarrow> bool" where
  "same_tool w w' \<longleftrightarrow> heap w' = heap w \<and> dataReceived w' = dataReceived w \<and> outBufferSize w' = outBufferSize w \<and>
     stdout w' = stdout w \<and> tool_world.more w' = tool_world.more w \<and> tick w \<le> tick w'"

lemma same_tool_trans [trans]: "same_tool u v \<Longrightarrow> same_tool v w \<Longrightarrow> same_tool u w"
  by (simp add: same_tool_def)

lemma lasting_empty: "events w = Map.empty \<Longrightarrow> lasting w = Map.empty"
  by (simp add: fun_eq_iff lasting_def)

text \<open>
  If memory lasts, a connection is made if \<^verbatim>\<open>socket\<close>, \<^verbatim>\<open>connect\<close> and \<^verbatim>\<open>pthread_mutex_init\<close> succeed;
  \<open>t\<close> counts the calls made before. Otherwise \<^verbatim>\<open>af_ipcc_open_server\<close> leaves the structure it has
  allocated, without a socket, an event or requests, and nothing refers to it any more.
\<close>

definition connects :: "(nat \<Rightarrow> ext) \<Rightarrow> nat \<Rightarrow> bool" where
  "connects oc t \<longleftrightarrow> 0 \<le> ext_ret (oc (t + 2)) \<and> 0 \<le> ext_ret (oc (t + 3)) \<and> ext_ret (oc (t + 5)) = 0"

definition connect_leak :: "'a tool_world_scheme \<Rightarrow> bool" where
  "connect_leak w \<longleftrightarrow> (\<exists>a sv rc. servers w = [a \<mapsto> sv] \<and> ctls w = [a \<mapsto> rc] \<and> sv_fd sv = -1 \<and>
     sv_event sv = None \<and> rc_pendingRequests rc = [])"

lemma open_result:
  fixes w :: "'a client_world_scheme" and prefix name :: string
  assumes len: "length (prefix @ name) < 107" and mem: "\<forall>n. \<not> ext_null (outcomes w n)"
    and op: "af_ipcc_open_server prefix (Some b) name rcb ctx ccb w = Some (s, w1)" and t: "tick w = Suc t"
  shows "s \<noteq> None \<longleftrightarrow> connects (outcomes w) t"
    and "s = None \<Longrightarrow> \<exists>sv rc. servers w1 = (servers w)(tick w \<mapsto> sv) \<and> ctls w1 = (ctls w)(tick w \<mapsto> rc) \<and>
      sv_fd sv = -1 \<and> sv_event sv = None \<and> rc_pendingRequests rc = []"
proof -
  have o: "connects (outcomes w) t \<longleftrightarrow> 0 \<le> ext_ret (outcomes w (tick w + 1)) \<and> 0 \<le> ext_ret (outcomes w (tick w + 2)) \<and>
      ext_ret (outcomes w (tick w + 4)) = 0"
    by (simp add: connects_def t numeral_eq_Suc)
  note eq = op [unfolded open_eq [OF len]]
  show "s \<noteq> None \<longleftrightarrow> connects (outcomes w) t"
    using eq mem unfolding o by (auto split: if_splits)
  show "\<exists>sv rc. servers w1 = (servers w)(tick w \<mapsto> sv) \<and> ctls w1 = (ctls w)(tick w \<mapsto> rc) \<and>
      sv_fd sv = -1 \<and> sv_event sv = None \<and> rc_pendingRequests rc = []" if "s = None"
    using eq mem that
    by (intro exI [of _ "the (servers w1 (tick w))"] exI [of _ "the (ctls w1 (tick w))"])
      (auto simp: new_server_def cleared_db_def open_db_def next_tick_def set_errno_def log_io_def
        connected_def split: if_splits)
qed

lemma connect_tool_ok:
  assumes w: "tool_start oc w" and mem: "\<forall>n. \<not> ext_null (oc n)" and len: "length prefix + length server < 107"
  shows "\<exists>ok w'. connect_tool prefix server rcb w = Some (ok, w') \<and> same_tool w w' \<and>
    ok = connects oc (tick w) \<and>
    (if ok then exiting w' = exiting w \<and>
       (\<exists>s fd e. s_server w' = Some s \<and> tool_base oc (tick w) {} w' \<and> pending w' s = [] \<and> servers w' s =
         Some (new_server fd (Some (tick w)) rcb 0 (Some 0) (Some e)))
     else reqs w' = Map.empty \<and> events w' = Map.empty \<and> bases w' = {} \<and> s_server w' = None \<and> connect_leak w')"
proof -
  let ?w1 = "(next_tick (w\<lparr>bases := {tick w}\<rparr>))\<lparr>s_base := Some (tick w)\<rparr>"
  have new: "event_base_new w = (Some (tick w), next_tick (w\<lparr>bases := {tick w}\<rparr>))"
    using w mem by (simp add: event_base_new_def ext_now_def tool_start_def)
  have "world_ok w" using w by (simp add: tool_start_def)
  then have ok: "world_ok ?w1" by (rule world_ok_cong [rotated -1]) (simp_all add: next_tick_def)
  have none: "ctls ?w1 (tick ?w1) = None" using w by (simp add: tool_start_def next_tick_def)
  have oc: "outcomes ?w1 = oc" using w by (simp add: tool_start_def next_tick_def)
  have len': "length (prefix @ server) < 107" using len by simp
  have mem': "\<forall>n. \<not> ext_null (outcomes ?w1 n)" using mem oc by simp
  obtain s w2 where op: "af_ipcc_open_server prefix (Some (tick w)) server rcb 0 (Some 0) ?w1 = Some (s, w2)"
    "outcomes w2 = oc" "client_world.more w2 = client_world.more ?w1" "tick ?w1 \<le> tick w2"
    "s = None \<Longrightarrow> reqs w2 = reqs ?w1 \<and> events w2 = events ?w1"
    using open_total [OF len' mem', of "tick w" rcb 0 "Some 0"] oc ok none by blast
  from op(3) have more: "heap w2 = heap w" "bases w2 = {tick w}" "s_base w2 = Some (tick w)" "s_server w2 = s_server w"
    "dataReceived w2 = dataReceived w" "outBufferSize w2 = outBufferSize w" "exiting w2 = exiting w"
    "stdout w2 = stdout w" "tool_world.more w2 = tool_world.more w"
    by (cases w2; cases w; simp add: next_tick_def)+
  have "tick ?w1 = Suc (tick w)" by (simp add: next_tick_def)
  note res = open_result [OF len' mem' op(1) this]
  have con: "s \<noteq> None \<longleftrightarrow> connects oc (tick w)" using res(1) oc by simp
  let ?w3 = "w2\<lparr>s_server := s\<rparr>"
  have t: "tick w \<le> tick w2" using op(4) by (simp add: next_tick_def)
  show ?thesis
  proof (cases s)
    case None
    have "connect_tool prefix server rcb w = Some (False, ?w3\<lparr>bases := {}\<rparr>)"
      using new op(1) None more by (simp add: connect_tool_def event_base_free_def)
    moreover have "connect_leak (?w3\<lparr>bases := {}\<rparr>)"
      using res(2) [OF None] w by (auto simp: connect_leak_def tool_start_def next_tick_def)
    ultimately show ?thesis
      using op(5) [OF None] more t w None con
      by (auto simp: same_tool_def tool_start_def next_tick_def)
  next
    case (Some a)
    then have run: "connect_tool prefix server rcb w = Some (True, ?w3)"
      using new op(1) by (simp add: connect_tool_def)
    obtain fd e where c: "client_open w2 a" "pending w2 a = []"
      "servers w2 = (servers ?w1)(a \<mapsto> new_server fd (Some (tick w)) rcb 0 (Some 0) (Some e))"
      "\<forall>c. c \<noteq> a \<longrightarrow> ctls w2 c = ctls ?w1 c" "events w2 = (events ?w1)(e \<mapsto> recv_ev a)" "reqs w2 = reqs ?w1"
      using open_connects [OF ok none len' op(1) [unfolded Some]] by blast
    let ?sv = "new_server fd (Some (tick w)) rcb 0 (Some 0) (Some e)"
    have empty: "ctls ?w1 = Map.empty" "servers ?w1 = Map.empty" "events ?w1 = Map.empty"
      using w by (simp_all add: tool_start_def next_tick_def)
    have "?sv\<lparr>sv_flags := 0\<rparr> = ?sv" by (simp add: new_server_def)
    then have sv: "servers w2 a = Some (?sv\<lparr>sv_flags := 0\<rparr>)" "servers ?w3 a = Some (?sv\<lparr>sv_flags := 0\<rparr>)"
      using c(3) by simp_all
    have op3: "client_open ?w3 a"
      by (rule client_open_cong [OF c(1), of _ ?sv 0]) (use c(3) sv in simp_all)
    then have "idle a ?sv oc 0 ?w3" "world_ok ?w3" using sv(2) op(2) by (auto simp: conn_def client_open_def)
    moreover have "lasting ?w3 = [e \<mapsto> recv_ev a]"
      using c(5) empty(3) by (simp add: fun_eq_iff lasting_def recv_ev_def)
    moreover have "dom (ctls ?w3) = {a}"
    proof -
      have "ctls w2 a \<noteq> None" using c(1) by (auto simp: client_open_def db_open_def split: option.splits)
      then show ?thesis using c(4) empty(1) by (auto simp: dom_def)
    qed
    moreover have "dom (servers ?w3) = {a}" using c(3) empty(2) by simp
    moreover have "sv_closeCallback ?sv \<noteq> None" "sv_event ?sv = Some e" by (simp_all add: new_server_def)
    moreover have "message_kept ?w3" using w more by (simp add: tool_start_def message_kept_def)
    ultimately have "tool_base oc (tick w) {} ?w3"
      using Some more op(2) unfolding tool_base_def by (auto simp: recv_ev_def)
    moreover have "same_tool w ?w3" using more t by (simp add: same_tool_def)
    moreover have "pending ?w3 a = []" using c(2) by (simp add: pending_def)
    moreover have "servers ?w3 a = Some ?sv" using c(3) by simp
    moreover have "connects oc (tick w)" using con Some by simp
    ultimately show ?thesis using run Some more(7) by (intro exI [of _ True] exI [of _ ?w3]) auto
  qed
qed

text \<open>Adding a timer.\<close>

definition added_timer :: "nat \<Rightarrow> int \<times> int \<Rightarrow> ev" where
  "added_timer k tv = \<lparr>ev_handler = On_user k, ev_added = True, ev_timeout = Some tv\<rparr>"

definition with_timer :: "nat \<Rightarrow> int \<times> int \<Rightarrow> 'a tool_world_scheme \<Rightarrow> 'a tool_world_scheme" where
  "with_timer k tv w = next_tick (w\<lparr>events := (events w)(tick w \<mapsto> added_timer k tv)\<rparr>)"

lemma add_timer_eq: "\<not> ext_null (ext_now w) \<Longrightarrow> add_timer k tv w = Some (Some (tick w), with_timer k tv w)"
  by (simp add: add_timer_def event_new_def event_add_def next_tick_def with_timer_def added_timer_def)

lemma with_timer_sel [simp]:
  "ctls (with_timer k tv w) = ctls w" "reqs (with_timer k tv w) = reqs w" "servers (with_timer k tv w) = servers w"
  "events (with_timer k tv w) = (events w)(tick w \<mapsto> added_timer k tv)" "tick (with_timer k tv w) = Suc (tick w)"
  "outcomes (with_timer k tv w) = outcomes w" "io_log (with_timer k tv w) = io_log w" "heap (with_timer k tv w) = heap w"
  "bases (with_timer k tv w) = bases w" "s_base (with_timer k tv w) = s_base w" "s_server (with_timer k tv w) = s_server w"
  "exiting (with_timer k tv w) = exiting w" "stdout (with_timer k tv w) = stdout w"
  "dataReceived (with_timer k tv w) = dataReceived w" "outBufferSize (with_timer k tv w) = outBufferSize w"
  "pending (with_timer k tv w) = pending w" "tool_world.more (with_timer k tv w) = tool_world.more w"
  by (simp_all add: with_timer_def next_tick_def pending_def fun_eq_iff)

lemma with_timer_lasting: "lasting (with_timer k tv w) = (lasting w)(tick w \<mapsto> added_timer k tv)"
  by (auto simp: fun_eq_iff lasting_def added_timer_def)

lemma add_timer_ok:
  assumes "tool_base oc b U w"
  shows "tool_base oc b (insert (tick w) U) (with_timer k tv w)" "same_tool w (with_timer k tv w)" "tick w \<notin> U"
proof -
  have ok: "world_ok w" using assms by (simp add: tool_base_def)
  have fresh: "events w (tick w) = None" using fresh_tick [OF ok] by simp
  then have lf: "lasting w (tick w) = None" by (simp add: lasting_def)
  then show notin: "tick w \<notin> U" using assms by (auto simp: tool_base_def)
  have wok: "world_ok (with_timer k tv w)"
    by (rule world_ok_events [OF ok])
      (use fresh in \<open>auto simp: added_timer_def split: if_splits intro: world_okD(3) [OF ok]\<close>)
  have mk: "message_kept (with_timer k tv w)" using assms by (auto simp: tool_base_def message_kept_def)
  have conn: "idle s sv oc 0 (with_timer k tv w)" if idle: "idle s sv oc 0 w" for s sv
  proof -
    obtain f where f: "client_open w s" "outcomes w = oc" "servers w s = Some (sv\<lparr>sv_flags := f\<rparr>)"
      "f AND FLAGS_IN_RECEIVE = 0" "f AND FLAGS_MARKED_FOR_SHUTDOWN = 0" using idle by (auto simp: conn_def)
    obtain e v where v: "sv_event sv = Some e" "events w e = Some v" "ev_handler v = On_recv s" "ev_added v"
      "0 \<le> sv_fd sv" "db_open w s" using f(1,3) by (auto elim!: client_openE)
    then have "e \<noteq> tick w" using fresh by auto
    then have "client_open (with_timer k tv w) s"
      using wok v f(3) by (simp add: client_open_def db_open_def recv_event_ok_def)
    then show ?thesis using f by (auto simp: conn_def)
  qed
  have U: "insert (tick w) U = {e. \<exists>v k. lasting (with_timer k' tv w) e = Some v \<and> ev_handler v = On_user k}"
    "dom (lasting (with_timer k' tv w)) = insert (tick w) (dom (lasting w))" for k'
    using assms by (auto simp: with_timer_lasting tool_base_def added_timer_def)
  show "tool_base oc b (insert (tick w) U) (with_timer k tv w)"
  proof (cases "s_server w")
    case None
    then show ?thesis using assms wok U [of k] mk by (simp add: tool_base_def)
  next
    case (Some s)
    then obtain sv e where sv: "dom (ctls w) = {s}" "dom (servers w) = {s}" "idle s sv oc 0 w"
      "sv_closeCallback sv \<noteq> None" "sv_event sv = Some e" "dom (lasting w) = insert e U"
      using assms by (auto simp: tool_base_def)
    have "dom (lasting (with_timer k tv w)) = insert e (insert (tick w) U)" using U(2) sv(6) by auto
    with conn [OF sv(3)] sv(4,5) have "\<exists>sv e. idle s sv oc 0 (with_timer k tv w) \<and> sv_closeCallback sv \<noteq> None \<and>
        sv_event sv = Some e \<and> dom (lasting (with_timer k tv w)) = insert e (insert (tick w) U)" by blast
    then show ?thesis using assms wok U(1) [of k] sv(1,2) Some mk by (simp add: tool_base_def)
  qed
  show "same_tool w (with_timer k tv w)" by (simp add: same_tool_def)
qed

text \<open>A timer that runs is no longer added.\<close>

definition fired :: "nat \<Rightarrow> ev \<Rightarrow> 'a tool_world_scheme \<Rightarrow> 'a tool_world_scheme" where
  "fired e v w = w\<lparr>events := (events w)(e \<mapsto> v\<lparr>ev_added := False\<rparr>)\<rparr>"

lemma fired_sel [simp]:
  "ctls (fired e v w) = ctls w" "reqs (fired e v w) = reqs w" "servers (fired e v w) = servers w"
  "events (fired e v w) = (events w)(e \<mapsto> v\<lparr>ev_added := False\<rparr>)" "tick (fired e v w) = tick w"
  "outcomes (fired e v w) = outcomes w" "io_log (fired e v w) = io_log w" "heap (fired e v w) = heap w"
  "bases (fired e v w) = bases w" "s_base (fired e v w) = s_base w" "s_server (fired e v w) = s_server w"
  "exiting (fired e v w) = exiting w" "stdout (fired e v w) = stdout w" "pending (fired e v w) = pending w"
  "dataReceived (fired e v w) = dataReceived w" "outBufferSize (fired e v w) = outBufferSize w"
  "tool_world.more (fired e v w) = tool_world.more w"
  by (simp_all add: fired_def pending_def fun_eq_iff)

lemma fired_ok:
  assumes w: "tool_base oc b U w" and e: "events w e = Some v" "ev_handler v = On_user k"
  shows "tool_base oc b U (fired e v w)" "same_tool w (fired e v w)"
    "lasting (fired e v w) = (lasting w)(e \<mapsto> v\<lparr>ev_added := False\<rparr>)" "e \<in> U"
proof -
  have ok: "world_ok w" using w by (simp add: tool_base_def)
  have l: "lasting w e = Some v" using e by (simp add: lasting_def)
  then show eU: "e \<in> U" using w e(2) by (auto simp: tool_base_def)
  have "e < tick w" using world_okD(3) [OF ok e(1)] by (simp add: timer_owned_def)
  then have wok: "world_ok (fired e v w)"
    by (intro world_ok_events [OF ok])
      (use e in \<open>auto split: if_splits intro: world_okD(3) [OF ok]\<close>)
  show las: "lasting (fired e v w) = (lasting w)(e \<mapsto> v\<lparr>ev_added := False\<rparr>)"
    using e(2) by (simp add: fun_eq_iff lasting_def)
  have U: "U = {x. \<exists>v' k. lasting (fired e v w) x = Some v' \<and> ev_handler v' = On_user k}"
    "dom (lasting (fired e v w)) = dom (lasting w)"
    using w e(2) l unfolding las tool_base_def by auto
  have mk: "message_kept (fired e v w)" using w by (auto simp: tool_base_def message_kept_def)
  show "tool_base oc b U (fired e v w)"
  proof (cases "s_server w")
    case None
    then show ?thesis using w wok U mk by (simp add: tool_base_def)
  next
    case (Some s)
    then obtain sv d where sv: "dom (ctls w) = {s}" "dom (servers w) = {s}" "idle s sv oc 0 w"
      "sv_closeCallback sv \<noteq> None" "sv_event sv = Some d" "dom (lasting w) = insert d U"
      using w by (auto simp: tool_base_def)
    obtain f where f: "client_open w s" "outcomes w = oc" "servers w s = Some (sv\<lparr>sv_flags := f\<rparr>)"
      "f AND FLAGS_IN_RECEIVE = 0" "f AND FLAGS_MARKED_FOR_SHUTDOWN = 0" using sv(3) by (auto simp: conn_def)
    obtain vd where vd: "events w d = Some vd" "ev_handler vd = On_recv s" "ev_added vd" "0 \<le> sv_fd sv" "db_open w s"
      using f(1,3) sv(5) by (auto elim!: client_openE)
    then have "d \<noteq> e" using e by auto
    then have "client_open (fired e v w) s"
      using wok vd f(3) sv(5) by (simp add: client_open_def db_open_def recv_event_ok_def)
    then have "idle s sv oc 0 (fired e v w)" using f by (auto simp: conn_def)
    with sv(4-6) U(2) have "\<exists>sv d. idle s sv oc 0 (fired e v w) \<and> sv_closeCallback sv \<noteq> None \<and>
        sv_event sv = Some d \<and> dom (lasting (fired e v w)) = insert d U" by auto
    then show ?thesis using w wok U(1) sv(1,2) Some mk by (simp add: tool_base_def)
  qed
  show "same_tool w (fired e v w)" by (simp add: same_tool_def)
qed

text \<open>Telling the loop to exit.\<close>

lemma loopexit_ok:
  assumes "tool_base oc b U w" "tm \<in> U"
  shows "event_base_loopexit (s_base w) w = Some (w\<lparr>exiting := True\<rparr>)" "tool_ok oc b U tm (w\<lparr>exiting := True\<rparr>)"
proof -
  let ?w = "w\<lparr>exiting := True\<rparr>"
  show "event_base_loopexit (s_base w) w = Some ?w" using assms(1) by (simp add: tool_base_def event_base_loopexit_def)
  have l: "lasting ?w = lasting w" by (rule lasting_cong) simp
  have "world_ok w" using assms(1) by (simp add: tool_base_def)
  then have "world_ok ?w" by (rule world_ok_cong [rotated -1]) simp_all
  moreover have "idle s sv oc 0 ?w" if "idle s sv oc 0 w" for s sv
    using that by (rule conn_cong) auto
  moreover have "message_kept ?w" using assms(1) by (auto simp: tool_base_def message_kept_def)
  ultimately have "tool_base oc b U ?w" using assms(1) l by (auto simp: tool_base_def split: option.splits)
  moreover have "\<exists>v. lasting w tm = Some v" using assms by (auto simp: tool_base_def)
  ultimately show "tool_ok oc b U tm ?w" using assms(2) l by (simp add: tool_ok_base_iff)
qed

section \<open>Leaving\<close>

lemma disconnected_same: "same_tool w (disconnected s w)"
proof -
  let ?c = "closed_client s w"
  have "client_world.more ?c = client_world.more w" by (rule closed_client_more)
  then have "heap ?c = heap w" "dataReceived ?c = dataReceived w" "outBufferSize ?c = outBufferSize w"
    "stdout ?c = stdout w" "tool_world.more ?c = tool_world.more w"
    by (cases "closed_client s w"; cases w; simp)+
  moreover have "tick ?c = tick w" by (simp add: closed_client_def closed_db_more Let_def split: option.split)
  ultimately show ?thesis by (simp add: same_tool_def disconnected_def)
qed

definition close_tool :: "'a tool_world_scheme \<Rightarrow> 'a tool_world_scheme option" where
  "close_tool w = (if s_server w \<noteq> None then af_ipcc_close tool_closer (s_server w) w else Some w)"

lemma close_tool_ok:
  assumes ok: "tool_ok oc b U tm w"
  shows "\<exists>w'. close_tool w = Some w' \<and> tool_base oc b U w' \<and> s_server w' = None \<and> same_tool w w'"
proof (cases "s_server w")
  case None
  then show ?thesis using ok by (auto simp: close_tool_def tool_ok_base_iff same_tool_def)
next
  case (Some s)
  obtain sv e where sv: "idle s sv oc (tick w) w" "sv_closeCallback sv \<noteq> None" "sv_event sv = Some e"
    "dom (lasting w) = insert e U" "dom (ctls w) = {s}" "dom (servers w) = {s}" "e \<notin> U"
    by (rule tool_ok_server [OF ok Some])
  obtain f where f: "client_open w s" "servers w s = Some (sv\<lparr>sv_flags := f\<rparr>)" "f AND FLAGS_IN_RECEIVE = 0"
    using sv(1) by (auto simp: conn_def)
  have self: "since w w"
    using ok kept_heap [of w] by (auto simp: since_def tool_ok_def)
  have cb: "sv_closeCallback (sv\<lparr>sv_flags := f\<rparr>) \<noteq> None" "sv_event (sv\<lparr>sv_flags := f\<rparr>) = Some e" using sv by simp_all
  note closes = tool_ok_closes [OF ok Some f(1,2) cb sv(4-7) self order_refl]
  have "close_tool w = Some (disconnected s w)"
    using Some f(2,3) close_eq [OF f(1,2), of tool_closer] closes(1) by (simp add: close_tool_def af_ipcc_close_def)
  moreover have "s_server (disconnected s w) = None" by (simp add: disconnected_def)
  ultimately show ?thesis using closes(2) disconnected_same [of w s] by (auto simp: tool_ok_base_iff)
qed

text \<open>Freeing the timers when there is no connection any more, and at last the base.\<close>

definition without_event :: "nat \<Rightarrow> 'a tool_world_scheme \<Rightarrow> 'a tool_world_scheme" where
  "without_event e w = w\<lparr>events := (events w)(e := None)\<rparr>"

lemma free_timer_ok:
  assumes w: "tool_base oc b U w" "s_server w = None" "e \<in> U"
  shows "event_free e w = Some (without_event e w)" "tool_base oc b (U - {e}) (without_event e w)"
    "s_server (without_event e w) = None" "same_tool w (without_event e w)"
proof -
  obtain v k where l: "lasting w e = Some v" "ev_handler v = On_user k" using w by (auto simp: tool_base_def)
  then have v: "events w e = Some v" by (auto simp: lasting_def split: option.splits handler.splits)
  then show "event_free e w = Some (without_event e w)" by (simp add: event_free_def without_event_def)
  have "world_ok w" using w(1) by (simp add: tool_base_def)
  then have "world_ok (without_event e w)" unfolding without_event_def using v l by (intro drop_event_ok) auto
  moreover have las: "lasting (without_event e w) = (lasting w)(e := None)"
    by (simp add: fun_eq_iff lasting_def without_event_def)
  moreover have "U - {e} = {x. \<exists>v k. ((lasting w)(e := None)) x = Some v \<and> ev_handler v = On_user k}"
    "dom ((lasting w)(e := None)) = U - {e}"
    using w by (auto simp: tool_base_def)
  moreover have "message_kept (without_event e w)" using w(1) by (simp add: tool_base_def message_kept_def without_event_def)
  ultimately show "tool_base oc b (U - {e}) (without_event e w)"
    using w(1,2) by (simp add: tool_base_def without_event_def)
  show "s_server (without_event e w) = None" "same_tool w (without_event e w)"
    using w(2) by (simp_all add: without_event_def same_tool_def)
qed

text \<open>What is left at the end.\<close>

definition released :: "'a tool_world_scheme \<Rightarrow> bool" where
  "released w \<longleftrightarrow> ctls w = Map.empty \<and> reqs w = Map.empty \<and> servers w = Map.empty \<and> events w = Map.empty \<and>
     bases w = {} \<and> s_server w = None"

lemma free_base_ok:
  assumes w: "tool_base oc b {} w" "s_server w = None"
  shows "\<exists>w'. (if s_base w \<noteq> None then event_base_free (s_base w) w else Some w) = Some w' \<and> released w' \<and> same_tool w w'"
proof -
  have c: "ctls w = Map.empty" "servers w = Map.empty" "dom (lasting w) = {}" and ok: "world_ok w"
    using w by (simp_all add: tool_base_def)
  have r: "reqs w a = None" for a
    using world_okD(2) [OF ok, of a] c(1) by (cases "reqs w a") (auto simp: req_owned_def)
  have "events w e = None" for e
  proof (cases "events w e")
    case (Some v)
    moreover have "lasting w e = None" using c(3) by auto
    ultimately obtain a where "ev_handler v = On_timeout a" by (auto simp: lasting_def split: handler.splits)
    with world_okD(3) [OF ok Some] r show ?thesis by (auto simp: timer_owned_def)
  qed
  then have "events w = Map.empty" "reqs w = Map.empty" using r by auto
  with w c show ?thesis
    by (intro exI [of _ "w\<lparr>bases := {}\<rparr>"])
      (auto simp: tool_base_def event_base_free_def released_def same_tool_def)
qed

text \<open>Changes of what only the tool uses.\<close>

lemma tool_ok_cong:
  assumes ok: "tool_ok oc b U tm w"
    and w': "ctls w' = ctls w" "reqs w' = reqs w" "events w' = events w" "servers w' = servers w" "tick w \<le> tick w'"
      "outcomes w' = outcomes w" "s_base w' = s_base w" "bases w' = bases w" "s_server w' = s_server w"
      "message_kept w'" "exiting w \<longrightarrow> exiting w'"
  shows "tool_ok oc b U tm w'"
proof -
  have l: "lasting w' = lasting w" by (rule lasting_cong) (rule w')
  have "world_ok w" using ok by (simp add: tool_ok_def)
  then have "world_ok w'" by (rule world_ok_cong [rotated -1]) (simp_all add: w')
  moreover have "idle s sv oc 0 w'" if "idle s sv oc 0 w" for s sv
    using that by (rule conn_cong) (use w' in auto)
  ultimately show ?thesis using ok l w' by (auto simp: tool_ok_def split: option.splits)
qed

lemma tool_ok_stdout: "tool_ok oc b U tm w \<Longrightarrow> tool_ok oc b U tm (w\<lparr>stdout := x\<rparr>)"
  by (rule tool_ok_cong, assumption) (auto simp: tool_ok_def message_kept_def)

text \<open>The reply is printed, and nothing else is.\<close>

lemma print_reply_ok:
  assumes "message_kept w"
  shows "\<exists>r s. print_reply w = Some (r, w\<lparr>stdout := stdout w @ s\<rparr>) \<and> (r = 0 \<and> (\<exists>line. s = line @ newline) \<or> r = 1 \<and> s = [])"
proof (cases "dataReceived w")
  case True
  obtain obj where obj: "heap w 0 = Some obj" "length obj = 256" "0 \<le> outBufferSize w" "outBufferSize w \<le> 256"
    "tool_message (take (nat (outBufferSize w)) obj)"
    using assms True by (auto simp: message_kept_def)
  have ld: "load (heap w) outBuffer (nat (outBufferSize w)) = Some (take (nat (outBufferSize w)) obj)"
    using obj by (simp add: load_def outBuffer_def)
  have small: "outBufferSize w < 2 ^ 31" using obj(4) by simp
  obtain r where r: "reply_text (heap w) outBuffer (outBufferSize w) = Some r" "\<forall>rs. r = Inr rs \<longrightarrow> ended rs"
    using reply_total [OF ld small] obj(5) unfolding tool_message_def by blast
  show ?thesis
  proof (cases r)
    case (Inl u)
    then have "print_reply w = Some (1, w)" using True r(1) by (simp add: print_reply_def)
    then show ?thesis by (intro exI [of _ 1] exI [of _ "[]"]) simp
  next
    case (Inr rs)
    then have "ended rs" using r(2) by simp
    then have "0 \<in> set rs" using nth_mem [of 255 rs] by (simp add: ended_def)
    then have "print_reply w = Some (0, w\<lparr>stdout := stdout w @ c_string rs @ newline\<rparr>)"
      using True r(1) Inr by (simp add: print_reply_def)
    then show ?thesis by (intro exI [of _ 0] exI [of _ "c_string rs @ newline"]) simp
  qed
next
  case False
  then have "print_reply w = Some (1, w)" by (simp add: print_reply_def)
  then show ?thesis by (intro exI [of _ 1] exI [of _ "[]"]) simp
qed

end
