(* ===== verification/Tool_Exchange.thy ===== *)
theory Tool_Exchange
  imports Tool_Ends
begin

text \<open>
  The runs of the tools in which everything succeeds, step by step: the connection, one piece of
  data, the reply on \<^verbatim>\<open>stdout\<close>, the end.
\<close>

section \<open>Connecting\<close>

lemma connect_tool_runs:
  fixes w :: "'a tool_world_scheme" and t :: nat and fd :: int
  assumes w: "tool_start oc w" and mem: "\<forall>n. \<not> ext_null (oc n)" and len: "length prefix + length server < 107"
    and t: "t = tick w" "fd = ext_ret (oc (t + 2))" "0 \<le> fd" "0 \<le> ext_ret (oc (t + 3))" "ext_ret (oc (t + 5)) = 0"
  shows "\<exists>w'. connect_tool prefix server rcb w = Some (True, w') \<and> tool_base oc t {} w' \<and> same_tool w w' \<and>
    exiting w' = exiting w \<and> s_server w' = Some (t + 1) \<and>
    servers w' (t + 1) = Some (new_server fd (Some t) rcb 0 (Some 0) (Some (t + 6))) \<and>
    ctls w' (t + 1) = Some (open_db (Pool_live []) True) \<and> events w' = [t + 6 \<mapsto> recv_ev (t + 1)] \<and>
    reqs w' = Map.empty \<and> tick w' = t + 7 \<and> io_log w' = io_log w @ [Connect fd (prefix @ server)]"
proof -
  let ?w1 = "(next_tick (w\<lparr>bases := {t}\<rparr>))\<lparr>s_base := Some t\<rparr>"
  have new: "event_base_new w = (Some t, next_tick (w\<lparr>bases := {t}\<rparr>))"
    using w mem t(1) by (simp add: event_base_new_def ext_now_def tool_start_def)
  have oc: "outcomes ?w1 = oc" "tick ?w1 = t + 1" using w t(1) by (simp_all add: tool_start_def next_tick_def)
  have len': "length (prefix @ server) < 107" using len by simp
  have num: "t + 1 + 1 = t + 2" "t + 1 + 2 = t + 3" "t + 1 + 3 = t + 4" "t + 1 + 4 = t + 5" "t + 1 + 5 = t + 6"
    "t + 1 + 6 = t + 7" by simp_all
  let ?w2 = "with_server (t + 1) (new_server fd (Some t) rcb 0 (Some 0) (Some (t + 6))) (open_db (Pool_live []) True)
      ((connected fd (prefix @ server) ?w1)\<lparr>tick := t + 7, events := (events ?w1)(t + 6 \<mapsto> recv_ev (t + 1))\<rparr>)"
  have op: "af_ipcc_open_server prefix (Some t) server rcb 0 (Some 0) ?w1 = Some (Some (t + 1), ?w2)"
    unfolding open_eq [OF len'] oc num Let_def using mem t(2-5) by simp
  have run: "connect_tool prefix server rcb w = Some (True, ?w2\<lparr>s_server := Some (t + 1)\<rparr>)"
    using new op by (simp add: connect_tool_def)
  then have "same_tool w (?w2\<lparr>s_server := Some (t + 1)\<rparr>) \<and> exiting (?w2\<lparr>s_server := Some (t + 1)\<rparr>) = exiting w \<and>
      tool_base oc t {} (?w2\<lparr>s_server := Some (t + 1)\<rparr>)"
    using connect_tool_ok [OF w mem len, of rcb] t(1) by auto
  moreover have "io_log ?w1 = io_log w" "events ?w1 = Map.empty" "reqs ?w1 = Map.empty"
    using w by (simp_all add: tool_start_def next_tick_def)
  ultimately show ?thesis using run by (intro exI [of _ "?w2\<lparr>s_server := Some (t + 1)\<rparr>"]) simp
qed

section \<open>One piece of data\<close>

lemma recv_once:
  fixes w :: "'a client_world_scheme"
  assumes sv: "servers w s = Some sv" "sv_flags sv = 0" and bs: "ext_recv (ext_now w) = Inr bs" "bs \<noteq> []" "length bs \<le> 4096"
    and run: "af_ipc_handle_receive_message run bs (int (length bs)) 0 (Some s) (sv_receiveCallback sv) (sv_receiveContext sv)
        ((next_tick w)\<lparr>servers := (servers w)(s \<mapsto> sv\<lparr>sv_flags := FLAGS_IN_RECEIVE\<rparr>)\<rparr>) = Some w2"
    and w2: "servers w2 s = Some (sv\<lparr>sv_flags := FLAGS_IN_RECEIVE\<rparr>)" "ext_recv (ext_now w2) = Inl 11"
  shows "client_recv_loop (Suc (Suc n)) run closer s w =
    Some (next_tick (set_errno 11 (w2\<lparr>servers := (servers w2)(s \<mapsto> sv)\<rparr>)))"
proof -
  have flags: "sv_flags_update (\<lambda>f. f OR FLAGS_IN_RECEIVE) sv = sv\<lparr>sv_flags := FLAGS_IN_RECEIVE\<rparr>"
    "sv_flags_update (\<lambda>f. f AND NOT FLAGS_IN_RECEIVE) (sv\<lparr>sv_flags := FLAGS_IN_RECEIVE\<rparr>) = sv"
    using sv(2) by (cases sv; simp)+
  have rec: "recv (nat AF_IPC_MAX_MSGLEN) w = (int (length bs), bs, next_tick w)"
    using bs by (simp add: recv_def AF_IPC_MAX_MSGLEN_def)
  let ?w3 = "w2\<lparr>servers := (servers w2)(s \<mapsto> sv)\<rparr>"
  have up1: "upd_server s (sv_flags_update (\<lambda>f. f OR FLAGS_IN_RECEIVE)) (next_tick w) =
      Some ((next_tick w)\<lparr>servers := (servers w)(s \<mapsto> sv\<lparr>sv_flags := FLAGS_IN_RECEIVE\<rparr>)\<rparr>)"
    using sv(1) flags(1) by (simp add: upd_server_def next_tick_def)
  have up2: "upd_server s (sv_flags_update (\<lambda>f. f AND NOT FLAGS_IN_RECEIVE)) w2 = Some ?w3"
    using w2(1) flags(2) by (simp add: upd_server_def)
  have fl: "sv_flags sv AND FLAGS_MARKED_FOR_SHUTDOWN = 0" using sv(2) by simp
  have loop: "client_recv_loop (Suc n) run closer s ?w3 = Some (next_tick (set_errno 11 ?w3))"
    using w2(2) by (simp add: recv_def ext_now_def next_tick_def set_errno_def)
  have "client_recv_loop (Suc (Suc n)) run closer s w =
      (if sv_flags sv AND FLAGS_MARKED_FOR_SHUTDOWN \<noteq> 0
       then close_and_free_server closer AF_IPC_STATUS_OK (Some s) ?w3
       else client_recv_loop (Suc n) run closer s ?w3)"
    using bs(2) run up1 up2
    by (simp only: client_recv_loop.simps(2) [of "Suc n"] rec Let_def prod.case bind.bind_lunit) simp
  then show ?thesis using fl loop by simp
qed

text \<open>What the receive callback makes of a message.\<close>

definition noted :: "byte list \<Rightarrow> byte list \<Rightarrow> 'a tool_world_scheme \<Rightarrow> 'a tool_world_scheme" where
  "noted obj p w = w\<lparr>heap := (heap w)(0 \<mapsto> obj), dataReceived := True, outBufferSize := int (length p), exiting := True\<rparr>"

lemma noted_sel [simp]:
  "ctls (noted obj p w) = ctls w" "reqs (noted obj p w) = reqs w" "servers (noted obj p w) = servers w"
  "events (noted obj p w) = events w" "tick (noted obj p w) = tick w" "cerrno (noted obj p w) = cerrno w"
  "outcomes (noted obj p w) = outcomes w" "io_log (noted obj p w) = io_log w" "heap (noted obj p w) = (heap w)(0 \<mapsto> obj)"
  "bases (noted obj p w) = bases w" "s_base (noted obj p w) = s_base w" "s_server (noted obj p w) = s_server w"
  "exiting (noted obj p w)" "stdout (noted obj p w) = stdout w" "dataReceived (noted obj p w)"
  "outBufferSize (noted obj p w) = int (length p)" "tool_world.more (noted obj p w) = tool_world.more w"
  by (simp_all add: noted_def)

lemma noted_noted: "noted obj p (noted obj' p' w) = noted obj p w"
  by (simp add: noted_def)

lemma tool_run_notes:
  assumes "heap w 0 = Some obj0" "length obj0 = 256" "length p \<le> 256" "s_base w = Some b" "b \<in> bases w"
  shows "\<exists>obj. tool_run cb 0 sn p ctx w = Some (noted obj p w) \<and> length obj = 256 \<and> take (length p) obj = p"
proof (intro exI [of _ "poke obj0 0 p"] conjI)
  have "store (heap w) outBuffer p = Some ((heap w)(0 \<mapsto> poke obj0 0 p))"
    using assms by (simp add: store_def load_def outBuffer_def overwrite_def)
  then show "tool_run cb 0 sn p ctx w = Some (noted (poke obj0 0 p) p w)"
    using assms(4,5)
    by (simp add: tool_run_def ipc_send_rx_callback_def event_base_loopexit_def noted_def AF_IPC_STATUS_OK_def)
  show "length (poke obj0 0 p) = 256" using assms(2,3) by simp
  show "take (length p) (poke obj0 0 p) = p" using slice_poke_same [of 0 obj0 p] by simp
qed

section \<open>Printing\<close>

lemma print_reply_prints:
  assumes w: "dataReceived w" "outBufferSize w = int (msg_len ts)" "heap w 0 = Some obj" "length obj = 256"
      "take (msg_len ts) obj = enc_msg ts" "msg_len ts \<le> 256"
    and ts: "list_all tlv_wf ts" "list_all printable ts" "length ts \<le> 16" "length (joined (visible ts)) < 254"
  shows "print_reply w = Some (0, w\<lparr>stdout := stdout w @ printed ts @ newline\<rparr>)"
proof -
  have "load (heap w) outBuffer (msg_len ts) = Some (enc_msg ts)"
    using w by (simp add: load_def outBuffer_def)
  moreover have "holds (enc_msg ts) ts" using w(6) by (simp add: holds_def)
  ultimately have "msg_in (heap w) outBuffer (int (msg_len ts)) ts" using ts(1) by (simp add: msg_in_def)
  from reply_text_printed [OF this ts(2,4)] ts(3) w(1,2) show ?thesis
    by (auto simp: print_reply_def)
qed

section \<open>Leaving\<close>

lemma close_tool_runs:
  assumes op: "client_open w s" and sv: "servers w s = Some sv" "sv_flags sv = 0" "sv_closeCallback sv = Some f"
      "sv_event sv = Some e"
    and w: "s_server w = Some s" "s_base w = Some b" "b \<in> bases w" "pending w s = []"
  shows "close_tool w = Some (disconnected s w)" "same_tool w (disconnected s w)"
    "events (disconnected s w) = (events w)(e := None)" "s_base (disconnected s w) = Some b"
    "bases (disconnected s w) = bases w"
    "io_log (disconnected s w) = io_log w @ [Shutdown (sv_fd sv) SHUT_RDWR, Closed (sv_fd sv)]"
proof -
  let ?c = "closed_client s w"
  note sel = closed_client_sel [OF op sv(1)]
  have "client_world.more ?c = client_world.more w" by (rule closed_client_more)
  then have more: "bases ?c = bases w" "s_base ?c = s_base w" "s_server ?c = s_server w"
    by (cases "closed_client s w"; cases w; simp)+
  have "on_close st ctx ?c = Some (disconnected s w)" for st ctx
    using more w by (simp add: on_close_def event_base_loopexit_def disconnected_def)
  then show "close_tool w = Some (disconnected s w)"
    using w(1) sv close_eq [OF op sv(1), of tool_closer]
    by (simp add: close_tool_def af_ipcc_close_def run_close_def tool_closer_def)
  show "same_tool w (disconnected s w)" by (rule disconnected_same)
  show "events (disconnected s w) = (events w)(e := None)"
    using sel(6) sv(4) w(4) by (auto simp: disconnected_def fun_eq_iff)
  show "s_base (disconnected s w) = Some b" "bases (disconnected s w) = bases w"
    using more w by (simp_all add: disconnected_def)
  show "io_log (disconnected s w) = io_log w @ [Shutdown (sv_fd sv) SHUT_RDWR, Closed (sv_fd sv)]"
    using sel(4) by (simp add: disconnected_def)
qed

end
