(* ===== verification/Send_Parse.thy ===== *)
theory Send_Parse
  imports Send_Params Rpc_Correct
begin

text \<open>
  The invariant of the command line parser of \<^verbatim>\<open>ipc_send\<close> (\<^verbatim>\<open>Send_Params\<close>): the parameters parsed so
  far denote values, and own exactly the memory that was allocated for them.
\<close>

section \<open>Ownership of the blobs\<close>

definition owned :: "af_rpc_param \<Rightarrow> bool" where
  "owned p \<longleftrightarrow> base p \<noteq> NULL \<and> AF_RPC_TYPE_IS_BLOB (ptype p)"

fun block :: "ptr \<Rightarrow> nat" where
  "block (VPtr b i) = b"
| "block (VInt w) = 0"

definition blocks :: "af_rpc_param list \<Rightarrow> nat list" where
  "blocks ps = map (\<lambda>p. block (base p)) (filter owned ps)"

text \<open>\<open>m\<close> is \<open>m0\<close> with one more object for each blob of \<open>ps\<close>.\<close>

definition owns :: "mem \<Rightarrow> af_rpc_param list \<Rightarrow> mem \<Rightarrow> bool" where
  "owns m0 ps m \<longleftrightarrow> distinct (blocks ps) \<and>
     (\<forall>p \<in> set ps. owned p \<longrightarrow> (\<exists>b \<ge> 2. base p = VPtr b 0 \<and> m0 b = None \<and> m b \<noteq> None)) \<and>
     (\<forall>b. b \<notin> set (blocks ps) \<longrightarrow> m b = m0 b)"

lemma blocks_simps [simp]: "blocks [] = []"
  "blocks (p # ps) = (if owned p then block (base p) # blocks ps else blocks ps)"
  "blocks (ps @ qs) = blocks ps @ blocks qs"
  by (simp_all add: blocks_def)

lemma blocks_none: "\<forall>p \<in> set ps. \<not> owned p \<Longrightarrow> blocks ps = []"
  by (simp add: blocks_def)

text \<open>Releasing the parameters gives the memory back, and nothing else.\<close>

lemma dealloc_loop_ok:
  "owns m0 ps m \<Longrightarrow> \<exists>qs. dealloc_loop ps m = Some (qs, m0) \<and> length qs = length ps \<and> (\<forall>q \<in> set qs. \<not> owned q)"
proof (induction ps arbitrary: m)
  case Nil
  then show ?case by (auto simp: owns_def)
next
  case (Cons p ps)
  show ?case
  proof (cases "owned p")
    case True
    with Cons.prems obtain b where b: "2 \<le> b" "base p = VPtr b 0" "m0 b = None" "m b \<noteq> None"
      by (auto simp: owns_def)
    let ?m = "m(b := None)"
    have fresh: "b \<notin> set (blocks ps)" using Cons.prems True b(2) by (auto simp: owns_def)
    have "owns m0 ps ?m"
      unfolding owns_def
    proof (intro conjI ballI allI impI)
      show "distinct (blocks ps)" using Cons.prems True by (simp add: owns_def)
      fix q assume q: "q \<in> set ps" "owned q"
      with Cons.prems obtain c where c: "2 \<le> c" "base q = VPtr c 0" "m0 c = None" "m c \<noteq> None"
        by (fastforce simp: owns_def)
      from q c(2) have "c \<in> set (blocks ps)" by (force simp: blocks_def)
      with c fresh show "\<exists>b\<ge>2. base q = VPtr b 0 \<and> m0 b = None \<and> ?m b \<noteq> None" by auto
    next
      fix c assume "c \<notin> set (blocks ps)"
      with Cons.prems b True show "?m c = m0 c" by (auto simp: owns_def)
    qed
    from Cons.IH [OF this] obtain qs where "dealloc_loop ps ?m = Some (qs, m0)" "length qs = length ps"
      "\<forall>q \<in> set qs. \<not> owned q" by blast
    with True b show ?thesis by (simp add: owned_def free_block_def)
  next
    case False
    with Cons.prems have "owns m0 ps m" by (auto simp: owns_def)
    with Cons.IH False show ?thesis by (fastforce simp: owned_def)
  qed
qed

section \<open>The invariant\<close>

text \<open>The values \<open>ts\<close> have been parsed; \<open>m0\<close> is the memory before.\<close>

definition parsed :: "mem \<Rightarrow> tlv list \<Rightarrow> 'a send_world_scheme \<Rightarrow> bool" where
  "parsed m0 ts w \<longleftrightarrow> length (in_params w) = 16 \<and> length ts \<le> 16 \<and>
     map (param_value (heap w)) (take (length ts) (in_params w)) = map Some ts \<and>
     (\<forall>p \<in> set (drop (length ts) (in_params w)). \<not> owned p) \<and>
     owns m0 (in_params w) (heap w) \<and> (\<forall>b \<ge> tick w + 2. heap w b = None)"

lemma load_new: "m b = None \<Longrightarrow> load m p n = Some xs \<Longrightarrow> load (m(b \<mapsto> ys)) p n = Some xs"
  by (elim loadE) (auto simp: load_def)

lemma param_value_new: "m b = None \<Longrightarrow> param_value m p = Some t \<Longrightarrow> param_value (m(b \<mapsto> ys)) p = Some t"
  by (auto simp: param_value_def Let_def load_new split: if_splits ptr.splits)

lemma update_split: "n < length ps \<Longrightarrow> ps[n := p] = take n ps @ p # drop (Suc n) ps"
  by (rule upd_conv_take_nth_drop)

lemma drop_update: "n < length ps \<Longrightarrow> drop (Suc n) (ps[n := p]) = drop (Suc n) ps"
  by (simp add: update_split)

lemma take_Suc_update: "n < length ps \<Longrightarrow> take (Suc n) (ps[n := p]) = take n ps @ [p]"
  by (simp add: update_split min_def)

lemma blocks_update:
  assumes "n < length ps" "\<forall>q \<in> set (drop n ps). \<not> owned q"
  shows "blocks (ps[n := p]) = blocks ps @ (if owned p then [block (base p)] else [])"
proof -
  have rest: "set (drop (Suc n) ps) \<subseteq> set (drop n ps)" by (simp add: set_drop_subset_set_drop)
  then have "blocks (drop (Suc n) ps) = []" using assms(2) by (intro blocks_none) auto
  moreover have "blocks ps = blocks (take n ps)"
    using blocks_none [OF assms(2)] by (metis append.right_neutral append_take_drop_id blocks_simps(3))
  ultimately show ?thesis using assms(1) by (simp add: update_split)
qed

text \<open>One more parameter without memory, and one more with memory of its own.\<close>

lemma parsed_number:
  assumes inv: "parsed m0 ts w" and n: "length ts < 16" and p: "\<not> owned p" "\<And>m. param_value m p = Some t"
  shows "parsed m0 (ts @ [t]) (w\<lparr>in_params := (in_params w)[length ts := p]\<rparr>)"
proof -
  let ?n = "length ts"
  let ?ps = "(in_params w)[?n := p]"
  from inv have ps: "?n < length (in_params w)" "\<forall>q \<in> set (drop ?n (in_params w)). \<not> owned q"
    using n by (auto simp: parsed_def)
  have blk: "blocks ?ps = blocks (in_params w)" using blocks_update [OF ps] p(1) by simp
  have sub: "set (drop (Suc ?n) (in_params w)) \<subseteq> set (drop ?n (in_params w))" by (simp add: set_drop_subset_set_drop)
  have "owns m0 ?ps (heap w)"
    using inv p(1) blk unfolding parsed_def owns_def by (auto dest!: set_update_subset_insert [THEN subsetD])
  then show ?thesis
    using inv n p(2) sub ps unfolding parsed_def
    by (auto simp: take_Suc_update drop_update)
qed

lemma parsed_blob:
  assumes inv: "parsed m0 ts w" and n: "length ts < 16"
    and p: "base p = VPtr b 0" "AF_RPC_TYPE_IS_BLOB (ptype p)" "2 \<le> b" "heap w b = None"
    and v: "param_value ((heap w)(b \<mapsto> xs)) p = Some t"
    and w': "in_params w' = (in_params w)[length ts := p]" "heap w' = (heap w)(b \<mapsto> xs)" "b < tick w' + 2" "tick w \<le> tick w'"
  shows "parsed m0 (ts @ [t]) w'"
proof -
  let ?n = "length ts"
  have own: "owned p" using p(1,2) by (simp add: owned_def NULL_def)
  from inv have ps: "?n < length (in_params w)" "\<forall>q \<in> set (drop ?n (in_params w)). \<not> owned q"
    using n by (auto simp: parsed_def)
  have blk: "blocks (in_params w') = blocks (in_params w) @ [b]" using blocks_update [OF ps, of p] own p(1) w'(1) by simp
  have sub: "set (drop (Suc ?n) (in_params w)) \<subseteq> set (drop ?n (in_params w))" by (simp add: set_drop_subset_set_drop)
  have live: "\<exists>c \<ge> 2. base q = VPtr c 0 \<and> m0 c = None \<and> heap w c \<noteq> None \<and> c \<in> set (blocks (in_params w))"
    if "q \<in> set (in_params w)" "owned q" for q
  proof -
    from that inv obtain c where "c \<ge> 2" "base q = VPtr c 0" "m0 c = None" "heap w c \<noteq> None"
      by (auto simp: parsed_def owns_def)
    moreover from this(2) that have "c \<in> set (blocks (in_params w))" by (force simp: blocks_def)
    ultimately show ?thesis by blast
  qed
  have new: "b \<notin> set (blocks (in_params w))"
    using live p(4) by (force simp: blocks_def)
  with inv p(4) have m0: "m0 b = None" by (auto simp: parsed_def owns_def)
  have "owns m0 (in_params w') (heap w')"
    unfolding owns_def blk
  proof (intro conjI ballI allI impI)
    show "distinct (blocks (in_params w) @ [b])" using inv new by (simp add: parsed_def owns_def)
    fix q assume q: "q \<in> set (in_params w')" "owned q"
    then consider "q = p" | "q \<in> set (in_params w)"
      unfolding w'(1) by (auto dest!: set_update_subset_insert [THEN subsetD])
    then show "\<exists>b\<ge>2. base q = VPtr b 0 \<and> m0 b = None \<and> heap w' b \<noteq> None"
      using p m0 w'(2) live [OF _ q(2)] by cases fastforce+
  next
    fix c assume "c \<notin> set (blocks (in_params w) @ [b])"
    with inv w'(2) show "heap w' c = m0 c" by (simp add: parsed_def owns_def)
  qed
  moreover have "map (param_value (heap w')) (take ?n (in_params w)) = map Some ts"
    using inv p(4) param_value_new [of "heap w" b] unfolding parsed_def w'(2)
    by (intro nth_equalityI) (auto simp: list_eq_iff_nth_eq)
  ultimately show ?thesis
    using inv n v sub ps w'(3,4) unfolding parsed_def w'(1,2)
    by (auto simp: take_Suc_update drop_update)
qed

section \<open>One option\<close>

definition scalar :: "tlv \<Rightarrow> af_rpc_param" where
  "scalar t = set_param NULL t"

lemma scalar_param:
  assumes "is_int t"
  shows "\<not> owned (scalar t)" "param_value m (scalar t) = Some t"
proof -
  show "\<not> owned (scalar t)"
    using assms by (cases t) (simp_all add: scalar_def owned_def set_params rpc_types AF_RPC_TYPE_IS_BLOB_def)
  show "param_value m (scalar t) = Some t"
    unfolding scalar_def using assms by (intro set_param_value) (cases t; simp)+
qed

text \<open>The numbers: an error, or a parameter for the value.\<close>

lemma if_in: "a \<in> S \<Longrightarrow> b \<in> S \<Longrightarrow> (if c then a else b) \<in> S"
  by simp

lemma format_uint_cases:
  fixes ps :: "af_rpc_param list"
  assumes "n < length ps"
  shows "format_uint_param bits arg ps n = Some (IPC_SEND_ERR, ps) \<or>
    (\<exists>t. is_int t \<and> format_uint_param bits arg ps n = Some (IPC_SEND_OK, ps[n := scalar t]))"
proof (cases arg)
  case (Some s)
  define v where "v = (word_of_int (strtoul s) :: u32)"
  define S where "S = {Some (IPC_SEND_ERR, ps), Some (IPC_SEND_OK, ps[n := scalar (TU8 (ucast v))]),
    Some (IPC_SEND_OK, ps[n := scalar (TU16 (ucast v))]), Some (IPC_SEND_OK, ps[n := scalar (TU32 v)])}"
  have "format_uint_param bits (Some s) ps n \<in> S"
    unfolding format_uint_param_def option.case Let_def
    by (intro if_in) (simp_all add: put_param_def assms S_def scalar_def v_def)
  moreover have "is_int (TU8 (ucast v))" "is_int (TU16 (ucast v))" "is_int (TU32 v)" by simp_all
  ultimately show ?thesis unfolding S_def Some by blast
qed (simp add: format_uint_param_def)

lemma format_int_cases:
  fixes ps :: "af_rpc_param list"
  assumes "n < length ps"
  shows "format_int_param bits arg ps n = Some (IPC_SEND_ERR, ps) \<or>
    (\<exists>t. is_int t \<and> format_int_param bits arg ps n = Some (IPC_SEND_OK, ps[n := scalar t]))"
proof (cases arg)
  case (Some s)
  define v where "v = (word_of_int (strtol s) :: u32)"
  define S where "S = {Some (IPC_SEND_ERR, ps), Some (IPC_SEND_OK, ps[n := scalar (TI8 (ucast v))]),
    Some (IPC_SEND_OK, ps[n := scalar (TI16 (ucast v))]), Some (IPC_SEND_OK, ps[n := scalar (TI32 v)])}"
  have "format_int_param bits (Some s) ps n \<in> S"
    unfolding format_int_param_def option.case Let_def
    by (intro if_in) (simp_all add: put_param_def assms S_def scalar_def v_def)
  moreover have "is_int (TI8 (ucast v))" "is_int (TI16 (ucast v))" "is_int (TI32 v)" by simp_all
  ultimately show ?thesis unfolding S_def Some by blast
qed (simp add: format_int_param_def)

lemma number_option_ok:
  assumes "parsed m0 ts w" "length ts < 16" "is_int t"
    and "format (in_params w) = Some (IPC_SEND_OK, (in_params w)[length ts := scalar t])"
  shows "number_option format (length ts) w =
      Some (Some (Suc (length ts)), w\<lparr>in_params := (in_params w)[length ts := scalar t]\<rparr>) \<and>
    parsed m0 (ts @ [t]) (w\<lparr>in_params := (in_params w)[length ts := scalar t]\<rparr>)"
  using assms parsed_number [OF assms(1,2) scalar_param [OF assms(3)]]
  by (simp add: number_option_def ipc_send_consts)

lemma number_option_cases:
  assumes "parsed m0 ts w"
    and "length ts < 16 \<longrightarrow> format (in_params w) = Some (IPC_SEND_ERR, in_params w) \<or>
      (\<exists>t. is_int t \<and> format (in_params w) = Some (IPC_SEND_OK, (in_params w)[length ts := scalar t]))"
  obtains (fails) "number_option format (length ts) w = Some (None, w)"
  | (more) t w' where "number_option format (length ts) w = Some (Some (Suc (length ts)), w')" "parsed m0 (ts @ [t]) w'"
proof (cases "length ts < 16")
  case True
  from assms(2) this consider "format (in_params w) = Some (IPC_SEND_ERR, in_params w)"
    | t where "is_int t" "format (in_params w) = Some (IPC_SEND_OK, (in_params w)[length ts := scalar t])" by auto
  then show thesis
  proof cases
    case 1
    have "number_option format (length ts) w = Some (None, w)" using 1 True by (simp add: number_option_def IPC_SEND_MAX_PARAMS_def)
    then show thesis by (rule fails)
  next
    case 2
    from number_option_ok [OF assms(1) True 2(1), of format, OF 2(2)] show thesis by (elim conjE) (rule more)
  qed
next
  case False
  then have "number_option format (length ts) w = Some (None, w)" by (simp add: number_option_def IPC_SEND_MAX_PARAMS_def)
  then show thesis by (rule fails)
qed

text \<open>The blobs: no memory, or a parameter with a copy of the bytes.\<close>

lemma parsed_tick: "parsed m0 ts w \<Longrightarrow> parsed m0 ts (next_tick w)"
  by (simp add: parsed_def next_tick_def)

lemma copy_out_eq:
  assumes "heap w (tick w + 2) = None"
  shows "copy_out xs w = Some (if ext_null (ext_now w) then (NULL, next_tick w)
    else (VPtr (tick w + 2) 0, next_tick (w\<lparr>heap := (heap w)(tick w + 2 \<mapsto> xs)\<rparr>)))"
  by (cases w) (simp add: copy_out_def malloc_def store_def load_def overwrite_def poke_def next_tick_def NULL_def)

lemma blob_option_null:
  assumes "parsed m0 ts w" "length ts < 16" "ext_null (ext_now w)"
  shows "blob_option xs param (length ts) w = Some (None, next_tick w)"
  using assms copy_out_eq [of w xs] by (simp add: blob_option_def IPC_SEND_MAX_PARAMS_def parsed_def)

lemma blob_option_ok:
  assumes inv: "parsed m0 ts w" "length ts < 16" and "\<not> ext_null (ext_now w)"
    and param: "\<And>b. base (param (VPtr b 0)) = VPtr b 0 \<and> AF_RPC_TYPE_IS_BLOB (ptype (param (VPtr b 0)))"
    and v: "\<And>b m. load m (VPtr b 0) (length xs) = Some xs \<Longrightarrow> param_value m (param (VPtr b 0)) = Some t"
  shows "\<exists>w'. blob_option xs param (length ts) w = Some (Some (Suc (length ts)), w') \<and> parsed m0 (ts @ [t]) w' \<and>
    outcomes w' = outcomes w \<and> tick w' = Suc (tick w) \<and> name w' = name w"
proof -
  let ?b = "tick w + 2" and ?n = "length ts"
  let ?w = "(next_tick (w\<lparr>heap := (heap w)(?b \<mapsto> xs)\<rparr>))\<lparr>in_params := (in_params w)[?n := param (VPtr ?b 0)]\<rparr>"
  have fresh: "heap w ?b = None" and len: "length (in_params w) = 16" using inv(1) by (simp_all add: parsed_def)
  have "in_params (next_tick (w\<lparr>heap := h\<rparr>)) = in_params w" for h by (simp add: next_tick_def)
  then have "blob_option xs param ?n w = Some (Some (Suc ?n), ?w)"
    using copy_out_eq [OF fresh, of xs] assms(2,3) len
    by (simp add: blob_option_def IPC_SEND_MAX_PARAMS_def put_param_def NULL_def)
  moreover have "load ((heap w)(?b \<mapsto> xs)) (VPtr ?b 0) (length xs) = Some xs" by (simp add: load_def)
  then have "parsed m0 (ts @ [t]) ?w"
    using parsed_blob [OF inv, of "param (VPtr ?b 0)" ?b xs t ?w] param v fresh by (simp add: next_tick_def)
  ultimately show ?thesis by (intro exI [of _ ?w]) (simp add: next_tick_def)
qed

text \<open>The length of a blob is reduced to 14 bits when its parameter is set.\<close>

lemma as_blob_mod: "AF_RPC_SET_PARAM_AS_BLOB p (int n) = AF_RPC_SET_PARAM_AS_BLOB p (int (n mod 2 ^ 14))"
proof -
  have m32: "(0x3fff :: u32) = mask 14" by (simp add: mask_eq_exp_minus_1)
  have "(word_of_int (int n) AND mask 14 :: u32) = word_of_int (int (n mod 2 ^ 14)) AND mask 14"
    unfolding take_bit_eq_mod [symmetric] by (rule bit_word_eqI) (auto simp: bit_simps)
  then show ?thesis by (simp add: AF_RPC_SET_PARAM_AS_BLOB_def m32)
qed

lemma blob_value:
  assumes "load m p (length xs) = Some xs"
  shows "param_value m (AF_RPC_SET_PARAM_AS_BLOB p (int (length xs))) = Some (TBlob False (take (length xs mod 2 ^ 14) xs))"
proof -
  let ?k = "length xs mod 2 ^ 14"
  let ?t = "TBlob False (take ?k xs)"
  have k: "?k \<le> length xs" "?k < 2 ^ 14" by simp_all
  then have len: "length (take ?k xs) = ?k" by (simp add: min_absorb2)
  have "load m p ?k = Some (take ?k xs)" using load_le [OF assms k(1)] .
  then have "at_ptr m p ?t" by (simp only: at_ptr.simps len) simp
  moreover have "tlv_wf ?t" using k(2) by (simp only: tlv_wf.simps len) (simp add: rpc_sizes)
  ultimately have "param_value m (set_param p ?t) = Some ?t" by (rule set_param_value [rotated])
  then show ?thesis by (simp only: set_param.simps len if_False as_blob_mod [of p "length xs"])
qed

lemma string_value:
  assumes "load m p (length xs) = Some xs" "length xs < 2 ^ 14"
  shows "param_value m (AF_RPC_SET_PARAM_AS_STRING p (int (length xs))) = Some (TBlob True xs)"
  using set_param_value [of "TBlob True xs" m p] assms by (simp add: rpc_sizes)

lemma blob_types_owned: "AF_RPC_TYPE_IS_BLOB (ptype (AF_RPC_SET_PARAM_AS_BLOB p n))"
  "AF_RPC_TYPE_IS_BLOB (ptype (AF_RPC_SET_PARAM_AS_STRING p n))"
  "base (AF_RPC_SET_PARAM_AS_BLOB p n) = p" "base (AF_RPC_SET_PARAM_AS_STRING p n) = p"
proof -
  have m32: "(0x3fff :: u32) = mask 14" by (simp add: mask_eq_exp_minus_1)
  have is_blob: "AF_RPC_TYPE_IS_BLOB (w :: u32) \<longleftrightarrow> \<not> bit w 15" for w
  proof -
    have pow: "(0x8000 :: u32) = 2 ^ 15" by simp
    show ?thesis unfolding AF_RPC_TYPE_IS_BLOB_def pow by (rule and_exp_eq_0_iff_not_bit)
  qed
  show "AF_RPC_TYPE_IS_BLOB (ptype (AF_RPC_SET_PARAM_AS_BLOB p n))"
    "AF_RPC_TYPE_IS_BLOB (ptype (AF_RPC_SET_PARAM_AS_STRING p n))"
    unfolding is_blob set_params af_rpc_param.select_convs m32
    by (simp_all only: bit_and_iff bit_or_iff bit_mask_iff bit_unsigned_iff bit_string_flag) simp_all
qed (simp_all add: set_params)

end
