(* ===== verification/Send_Correct.thy ===== *)
theory Send_Correct
  imports Send_Parse Tool_Print_Correct
begin

text \<open>
  The properties of the command line of \<^verbatim>\<open>src/pkg/src/ipc_send.c\<close>: the parser is safe on any
  arguments and releases what it allocated, the arguments for a list of values give parameters
  that denote these values, and what becomes of numbers outside the range.
\<close>

section \<open>Any arguments\<close>

lemma parsed_name: "parsed m0 ts (w\<lparr>name := x\<rparr>) = parsed m0 ts w"
  by (simp add: parsed_def)

lemma blob_option_cases:
  assumes inv: "parsed m0 ts w"
    and param: "\<And>b. base (param (VPtr b 0)) = VPtr b 0 \<and> AF_RPC_TYPE_IS_BLOB (ptype (param (VPtr b 0)))"
    and v: "\<And>b m. load m (VPtr b 0) (length xs) = Some xs \<Longrightarrow> param_value m (param (VPtr b 0)) = Some t"
  shows "\<exists>r w' ts'. blob_option xs param (length ts) w = Some (r, w') \<and> parsed m0 ts' w' \<and>
    (r = None \<or> r = Some (length ts'))"
proof (cases "length ts < 16")
  case True
  show ?thesis
  proof (cases "ext_null (ext_now w)")
    case True
    with blob_option_null [OF inv \<open>length ts < 16\<close>, of xs param] parsed_tick [OF inv] show ?thesis by blast
  next
    case False
    from blob_option_ok [OF inv True False, of param xs t] param v show ?thesis by fastforce
  qed
next
  case False
  then have "blob_option xs param (length ts) w = Some (None, w)" by (simp add: blob_option_def IPC_SEND_MAX_PARAMS_def)
  with inv show ?thesis by blast
qed

lemma number_option_total:
  assumes inv: "parsed m0 ts w"
    and "length ts < length (in_params w) \<Longrightarrow> format (in_params w) = Some (IPC_SEND_ERR, in_params w) \<or>
      (\<exists>t. is_int t \<and> format (in_params w) = Some (IPC_SEND_OK, (in_params w)[length ts := scalar t]))"
  shows "\<exists>r w' ts'. number_option format (length ts) w = Some (r, w') \<and> parsed m0 ts' w' \<and>
    (r = None \<or> r = Some (length ts'))"
proof -
  have "length (in_params w) = 16" using inv by (simp add: parsed_def)
  with assms(2) have n: "length ts < 16 \<longrightarrow> format (in_params w) = Some (IPC_SEND_ERR, in_params w) \<or>
      (\<exists>t. is_int t \<and> format (in_params w) = Some (IPC_SEND_OK, (in_params w)[length ts := scalar t]))" by simp
  show ?thesis
  proof (cases rule: number_option_cases [where format = format, OF inv n])
    case 1
    with inv show ?thesis by blast
  next
    case (2 t w')
    then show ?thesis by (intro exI [of _ "Some (Suc (length ts))"] exI [of _ w'] exI [of _ "ts @ [t]"]) simp
  qed
qed

lemma parse_option_total:
  assumes inv: "parsed m0 ts w"
  shows "\<exists>r w' ts'. parse_option opt (Some a) (length ts) w = Some (r, w') \<and> parsed m0 ts' w' \<and>
    (r = None \<or> r = Some (length ts'))"
proof -
  have fail: "\<exists>r w' ts'. Some (None, w) = Some (r, w') \<and> parsed m0 ts' w' \<and> (r = None \<or> r = Some (length ts'))"
    using inv by blast
  have u: "\<exists>r w' ts'. number_option (\<lambda>ps. format_uint_param n (Some a) ps (length ts)) (length ts) w = Some (r, w') \<and>
      parsed m0 ts' w' \<and> (r = None \<or> r = Some (length ts'))" for n
    by (rule number_option_total [OF inv]) (rule format_uint_cases)
  have i: "\<exists>r w' ts'. number_option (\<lambda>ps. format_int_param n (Some a) ps (length ts)) (length ts) w = Some (r, w') \<and>
      parsed m0 ts' w' \<and> (r = None \<or> r = Some (length ts'))" for n
    by (rule number_option_total [OF inv]) (rule format_int_cases)
  have s: "\<exists>r w' ts'. blob_option (bytes_of a @ [0]) (\<lambda>p. AF_RPC_SET_PARAM_AS_STRING p (int (length a) + 1)) (length ts) w =
      Some (r, w') \<and> parsed m0 ts' w' \<and> (r = None \<or> r = Some (length ts'))" if "int (length a) + 1 \<le> 256"
    using that string_value [of _ _ "bytes_of a @ [0]"]
    by (intro blob_option_cases [OF inv]) (auto simp: blob_types_owned add.commute)
  have h: "\<exists>r w' ts'. blob_option (hex_bytes a) (\<lambda>p. AF_RPC_SET_PARAM_AS_BLOB p (int (length a) div 2)) (length ts) w =
      Some (r, w') \<and> parsed m0 ts' w' \<and> (r = None \<or> r = Some (length ts'))"
    using blob_value [of _ _ "hex_bytes a"]
    by (intro blob_option_cases [OF inv]) (auto simp: blob_types_owned length_hex_bytes zdiv_int)
  have d: "\<exists>r w' ts'. Some (Some (length ts), w\<lparr>name := Some a\<rparr>) = Some (r, w') \<and> parsed m0 ts' w' \<and>
      (r = None \<or> r = Some (length ts'))"
    using inv parsed_name by blast
  show ?thesis
    unfolding parse_option_def Let_def bind.bind_lunit
    using fail u i h d s by (simp add: IPC_SEND_INSTR_MAX_LEN_def)
qed

lemma parse_args_total:
  "even (length args) \<Longrightarrow> parsed m0 ts w \<Longrightarrow> \<exists>r w' ts'. parse_args args (length ts) w = Some (r, w') \<and> parsed m0 ts' w' \<and>
    (r = None \<or> r = Some (length ts'))"
proof (induction args arbitrary: ts w rule: induct_list012)
  case (3 s a rest)
  obtain r w' ts' where step: "parse_option (tl s) (Some a) (length ts) w = Some (r, w')" "parsed m0 ts' w'"
    "r = None \<or> r = Some (length ts')"
    using parse_option_total [OF 3(4)] by blast
  show ?case
  proof (cases "s \<noteq> [] \<and> hd s = CHR ''-'' \<and> r \<noteq> None")
    case True
    with step have "r = Some (length ts')" by simp
    with 3(1) [OF _ step(2)] 3(3) True step show ?thesis by simp
  next
    case False
    with step 3(4) show ?thesis by (cases r) auto
  qed
qed auto

text \<open>The state in which \<^verbatim>\<open>main\<close> calls the parser: no parameter is set, and new memory is new.\<close>

definition unparsed :: "'a send_world_scheme \<Rightarrow> bool" where
  "unparsed w \<longleftrightarrow> in_params w = replicate 16 \<lparr>base = NULL, ptype = 0\<rparr> \<and> (\<forall>b \<ge> tick w + 2. heap w b = None)"

lemma unparsed_parsed: "unparsed w \<Longrightarrow> parsed (heap w) [] w"
  by (simp add: unparsed_def parsed_def owns_def owned_def blocks_none)

lemma parser_total:
  assumes "unparsed w"
  shows "\<exists>r w' ts. param_parser argv w = Some (r, w') \<and> parsed (heap w) ts w' \<and>
    (r = IPC_SEND_ERR \<or> r = IPC_SEND_OK \<and> num_in_params w' = int (length ts) \<and> name w' \<noteq> None)"
proof (cases "even (length argv)")
  case True
  let ?w = "if length argv \<ge> 2 then w\<lparr>name := Some (argv ! 1)\<rparr> else w"
  have "parsed (heap w) [] ?w" using unparsed_parsed [OF assms] by (simp add: parsed_name)
  then obtain r w' ts where "parse_args (drop 2 argv) 0 ?w = Some (r, w')" "parsed (heap w) ts w'"
    "r = None \<or> r = Some (length ts)"
    using parse_args_total [of "drop 2 argv" "heap w" "[]" ?w] True by auto
  moreover have "parsed (heap w) ts (w'\<lparr>num_in_params := k\<rparr>) = parsed (heap w) ts w'" for k
    by (simp add: parsed_def)
  ultimately show ?thesis
    using True unfolding param_parser_def
    by (cases r; cases "name w'") (auto simp: even_iff_mod_2_eq_zero Let_def)
next
  case False
  then have "param_parser argv w = Some (IPC_SEND_ERR, w)" by (simp add: param_parser_def odd_iff_mod_2_eq_one)
  with unparsed_parsed [OF assms] show ?thesis by blast
qed

lemma dealloc_parsed:
  assumes "parsed m0 ts w"
  shows "\<exists>qs. dealloc_params w = Some (w\<lparr>in_params := qs, heap := m0\<rparr>)"
  using dealloc_loop_ok [of m0 "in_params w" "heap w"] assms
  by (auto simp: parsed_def dealloc_params_def)

text \<open>
  C29. The command line parser is safe on any arguments: it makes only valid accesses, and never takes
  an argument behind the last one. It returns an error, or at most 16 parameters that denote
  well-formed values. In both cases the parameters own what was allocated: releasing them
  succeeds and gives back exactly the memory there was before.
\<close>

theorem param_parser_safe:
  assumes "unparsed w"
  shows "\<exists>r w1 w2. param_parser argv w = Some (r, w1) \<and> dealloc_params w1 = Some w2 \<and> heap w2 = heap w \<and>
    (r = IPC_SEND_ERR \<or> r = IPC_SEND_OK \<and> name w1 \<noteq> None \<and>
     (\<exists>ts. num_in_params w1 = int (length ts) \<and> length ts \<le> 16 \<and> list_all tlv_wf ts \<and>
       map (param_value (heap w1)) (take (length ts) (in_params w1)) = map Some ts))"
proof -
  obtain r w1 ts where 1: "param_parser argv w = Some (r, w1)" "parsed (heap w) ts w1"
    "r = IPC_SEND_ERR \<or> r = IPC_SEND_OK \<and> num_in_params w1 = int (length ts) \<and> name w1 \<noteq> None"
    using parser_total [OF assms] by blast
  obtain qs where 2: "dealloc_params w1 = Some (w1\<lparr>in_params := qs, heap := heap w\<rparr>)"
    using dealloc_parsed [OF 1(2)] by blast
  have vals: "length ts \<le> 16" "map (param_value (heap w1)) (take (length ts) (in_params w1)) = map Some ts"
    using 1(2) by (simp_all add: parsed_def)
  have "tlv_wf t" if "t \<in> set ts" for t
  proof -
    from that have "Some t \<in> set (map (param_value (heap w1)) (take (length ts) (in_params w1)))"
      unfolding vals(2) by simp
    then show ?thesis using param_value_wf by fastforce
  qed
  then have "list_all tlv_wf ts" by (simp add: list_all_iff)
  with 1 2 vals show ?thesis
    by (intro exI [of _ r] exI [of _ w1] exI [of _ "w1\<lparr>in_params := qs, heap := heap w\<rparr>"] conjI) auto
qed

text \<open>The state of the process at its start: the static variables, and the results of its external calls.\<close>

definition send_start :: "(nat \<Rightarrow> ext) \<Rightarrow> send_world" where
  "send_start oc = \<lparr>ctls = Map.empty, reqs = Map.empty, events = Map.empty, io_log = [], cerrno = 0, tick = 0,
     outcomes = oc, servers = Map.empty, heap = [0 \<mapsto> replicate 256 0, 1 \<mapsto> replicate 256 0],
     bases = {}, s_base = None, s_server = None, dataReceived = False, outBufferSize = 0, exiting = False, stdout = [],
     name = None, in_params = replicate 16 \<lparr>base = NULL, ptype = 0\<rparr>, num_in_params = 0\<rparr>"

definition ample :: "nat \<Rightarrow> ext" where
  "ample n = \<lparr>ext_null = False, ext_ret = 100, ext_errno = 0, ext_recv = Inl 11\<rparr>"

lemma unparsed_start: "unparsed (send_start oc)"
  by (simp add: unparsed_def send_start_def)

theorem param_parser_safe_example:
  "\<exists>r w1 w2. param_parser [''ipc_send'', ''S'', ''-s'', ''x'', ''-q'', ''y''] (send_start ample) = Some (r, w1) \<and>
    dealloc_params w1 = Some w2 \<and> heap w2 = heap (send_start ample)"
  using param_parser_safe [OF unparsed_start [of ample], of "[''ipc_send'', ''S'', ''-s'', ''x'', ''-q'', ''y'']"]
  by blast

section \<open>The arguments for a list of values\<close>

text \<open>The option that describes a value, and the values that have one.\<close>

fun option_args :: "tlv \<Rightarrow> string list" where
  "option_args (TU8 v) = [''-u8'', decimal (unat v)]"
| "option_args (TU16 v) = [''-u16'', decimal (unat v)]"
| "option_args (TU32 v) = [''-u32'', decimal (unat v)]"
| "option_args (TI8 v) = [''-i8'', signed (sint v)]"
| "option_args (TI16 v) = [''-i16'', signed (sint v)]"
| "option_args (TI32 v) = [''-i32'', signed (sint v)]"
| "option_args (TBlob False xs) = [''-h'', hex_text xs]"
| "option_args (TBlob True xs) = [''-s'', c_string xs]"

fun expressible :: "tlv \<Rightarrow> bool" where
  "expressible (TBlob True xs) \<longleftrightarrow> (\<exists>s. no_nul s \<and> xs = bytes_of s @ [0] \<and> length s < 256)"
| "expressible (TBlob False xs) \<longleftrightarrow> xs \<noteq> [] \<and> length xs < 2 ^ 14"
| "expressible _ \<longleftrightarrow> True"

lemma strtol_signed: "- (2 ^ 63) \<le> i \<Longrightarrow> i < 2 ^ 63 \<Longrightarrow> strtol (signed i) = i"
  by (simp add: signed_def strtol_decimal strtol_minus)

lemma strtoul_small: "int n < 2 ^ 64 \<Longrightarrow> strtoul (decimal n) = int n"
  by (simp add: strtoul_decimal)

lemma signed_text: "signed i \<noteq> []" "hd (signed i) = CHR ''-'' \<Longrightarrow> digits_only (tl (signed i))"
  "hd (signed i) \<noteq> CHR ''-'' \<Longrightarrow> digits_only (signed i)"
proof -
  have "hd (decimal n) \<noteq> CHR ''-''" for n
    using decimal_digits [of "hd (decimal n)" n] isdigit_plain by auto
  then show "signed i \<noteq> []" "hd (signed i) = CHR ''-'' \<Longrightarrow> digits_only (tl (signed i))"
    "hd (signed i) \<noteq> CHR ''-'' \<Longrightarrow> digits_only (signed i)"
    by (auto simp: signed_def split: if_splits)
qed

text \<open>What the two functions do with the text of a number of 64 bits.\<close>

lemma format_uint_decimal:
  assumes "i < length ps" "int n < 2 ^ 64"
  defines "v \<equiv> (word_of_nat n :: u32)"
  shows "format_uint_param 8 (Some (decimal n)) ps i =
      Some (if uint v \<le> 255 then (IPC_SEND_OK, ps[i := scalar (TU8 (ucast v))]) else (IPC_SEND_ERR, ps))"
    "format_uint_param 16 (Some (decimal n)) ps i =
      Some (if uint v \<le> 65535 then (IPC_SEND_OK, ps[i := scalar (TU16 (ucast v))]) else (IPC_SEND_ERR, ps))"
    "format_uint_param 32 (Some (decimal n)) ps i = Some (IPC_SEND_OK, ps[i := scalar (TU32 v)])"
proof -
  have "word_of_int (strtoul (decimal n)) = v" using strtoul_small [OF assms(2)] by (simp add: v_def)
  moreover have "uint v \<le> 4294967295" using unsigned_less [of v, where ?'a = int] by simp
  ultimately show
    "format_uint_param 8 (Some (decimal n)) ps i =
      Some (if uint v \<le> 255 then (IPC_SEND_OK, ps[i := scalar (TU8 (ucast v))]) else (IPC_SEND_ERR, ps))"
    "format_uint_param 16 (Some (decimal n)) ps i =
      Some (if uint v \<le> 65535 then (IPC_SEND_OK, ps[i := scalar (TU16 (ucast v))]) else (IPC_SEND_ERR, ps))"
    "format_uint_param 32 (Some (decimal n)) ps i = Some (IPC_SEND_OK, ps[i := scalar (TU32 v)])"
    using assms(1) by (simp_all add: format_uint_param_def is_digits_def put_param_def scalar_def Let_def)
qed

lemma format_int_signed:
  assumes "i < length ps" "- (2 ^ 63) \<le> k" "k < 2 ^ 63"
  defines "v \<equiv> (word_of_int k :: u32)"
  shows "format_int_param 8 (Some (signed k)) ps i =
      Some (if -128 \<le> sint v \<and> sint v \<le> 127 then (IPC_SEND_OK, ps[i := scalar (TI8 (ucast v))]) else (IPC_SEND_ERR, ps))"
    "format_int_param 16 (Some (signed k)) ps i =
      Some (if -32768 \<le> sint v \<and> sint v \<le> 32767 then (IPC_SEND_OK, ps[i := scalar (TI16 (ucast v))]) else (IPC_SEND_ERR, ps))"
    "format_int_param 32 (Some (signed k)) ps i = Some (IPC_SEND_OK, ps[i := scalar (TI32 v)])"
proof -
  have v: "word_of_int (strtol (signed k)) = v" using strtol_signed [OF assms(2,3)] by (simp add: v_def)
  have ok: "(if signed k \<noteq> [] \<and> hd (signed k) = CHR ''-'' then \<not> is_digits (Some (tl (signed k)))
      else \<not> is_digits (Some (signed k))) = False"
    using signed_text [of k] by (simp add: is_digits_def)
  have range: "-2147483648 \<le> sint v" "sint v \<le> 2147483647" using sint_ge [of v] sint_less [of v] by simp_all
  show
    "format_int_param 8 (Some (signed k)) ps i =
      Some (if -128 \<le> sint v \<and> sint v \<le> 127 then (IPC_SEND_OK, ps[i := scalar (TI8 (ucast v))]) else (IPC_SEND_ERR, ps))"
    "format_int_param 16 (Some (signed k)) ps i =
      Some (if -32768 \<le> sint v \<and> sint v \<le> 32767 then (IPC_SEND_OK, ps[i := scalar (TI16 (ucast v))]) else (IPC_SEND_ERR, ps))"
    "format_int_param 32 (Some (signed k)) ps i = Some (IPC_SEND_OK, ps[i := scalar (TI32 v)])"
    unfolding format_int_param_def option.case ok if_False v Let_def
    using assms(1) range by (auto simp: put_param_def scalar_def)
qed

lemma number_step:
  assumes "parsed m0 ts w" "length ts < 16" "is_int t"
    and "\<And>ps. length ts < length ps \<Longrightarrow> format ps = Some (IPC_SEND_OK, ps[length ts := scalar t])"
  shows "\<exists>w'. number_option format (length ts) w = Some (Some (Suc (length ts)), w') \<and> parsed m0 (ts @ [t]) w' \<and>
    outcomes w' = outcomes w \<and> name w' = name w"
proof -
  have "length ts < length (in_params w)" using assms(1,2) by (simp add: parsed_def)
  from number_option_ok [OF assms(1-3), of format, OF assms(4) [OF this]] show ?thesis
    by (intro exI [of _ "w\<lparr>in_params := (in_params w)[length ts := scalar t]\<rparr>"]) simp
qed

lemma unsigned_step:
  assumes "parsed m0 ts w" "length ts < 16"
  shows "\<exists>w'. number_option (\<lambda>ps. format_uint_param 8 (Some (decimal (unat (a :: byte)))) ps (length ts)) (length ts) w =
      Some (Some (Suc (length ts)), w') \<and> parsed m0 (ts @ [TU8 a]) w' \<and> outcomes w' = outcomes w \<and> name w' = name w"
    "\<exists>w'. number_option (\<lambda>ps. format_uint_param 16 (Some (decimal (unat (b :: u16)))) ps (length ts)) (length ts) w =
      Some (Some (Suc (length ts)), w') \<and> parsed m0 (ts @ [TU16 b]) w' \<and> outcomes w' = outcomes w \<and> name w' = name w"
    "\<exists>w'. number_option (\<lambda>ps. format_uint_param 32 (Some (decimal (unat (c :: u32)))) ps (length ts)) (length ts) w =
      Some (Some (Suc (length ts)), w') \<and> parsed m0 (ts @ [TU32 c]) w' \<and> outcomes w' = outcomes w \<and> name w' = name w"
proof -
  have bounds: "unat a < 2 ^ 8" "unat b < 2 ^ 16" "unat c < 2 ^ 32"
    using unsigned_less [of a, where ?'a = nat] unsigned_less [of b, where ?'a = nat]
      unsigned_less [of c, where ?'a = nat] by simp_all
  then have "int (unat a) < int (2 ^ 64)" "int (unat b) < int (2 ^ 64)" "int (unat c) < int (2 ^ 64)"
    by (intro of_nat_less_iff [THEN iffD2]; simp)+
  then have small: "int (unat a) < 2 ^ 64" "int (unat b) < 2 ^ 64" "int (unat c) < 2 ^ 64" by simp_all
  have eqs: "(word_of_nat (unat a) :: u32) = ucast a" "(word_of_nat (unat b) :: u32) = ucast b" by simp_all
  have le: "uint (ucast a :: u32) \<le> 255" "uint (ucast b :: u32) \<le> 65535"
    using unsigned_less [of a, where ?'a = int] unsigned_less [of b, where ?'a = int]
    by (simp_all add: uint_up_ucast is_up)
  have trip: "(ucast (ucast a :: u32) :: byte) = a" "(ucast (ucast b :: u32) :: u16) = b"
    by (rule bit_word_eqI; auto simp: bit_simps)+
  show "\<exists>w'. number_option (\<lambda>ps. format_uint_param 8 (Some (decimal (unat (a :: byte)))) ps (length ts)) (length ts) w =
      Some (Some (Suc (length ts)), w') \<and> parsed m0 (ts @ [TU8 a]) w' \<and> outcomes w' = outcomes w \<and> name w' = name w"
    using format_uint_decimal(1) [OF _ small(1)] by (intro number_step [OF assms]) (simp_all add: eqs le trip)
  show "\<exists>w'. number_option (\<lambda>ps. format_uint_param 16 (Some (decimal (unat (b :: u16)))) ps (length ts)) (length ts) w =
      Some (Some (Suc (length ts)), w') \<and> parsed m0 (ts @ [TU16 b]) w' \<and> outcomes w' = outcomes w \<and> name w' = name w"
    using format_uint_decimal(2) [OF _ small(2)] by (intro number_step [OF assms]) (simp_all add: eqs le trip)
  show "\<exists>w'. number_option (\<lambda>ps. format_uint_param 32 (Some (decimal (unat (c :: u32)))) ps (length ts)) (length ts) w =
      Some (Some (Suc (length ts)), w') \<and> parsed m0 (ts @ [TU32 c]) w' \<and> outcomes w' = outcomes w \<and> name w' = name w"
    using format_uint_decimal(3) [OF _ small(3)] by (intro number_step [OF assms]) simp_all
qed

lemma signed_step:
  assumes "parsed m0 ts w" "length ts < 16"
  shows "\<exists>w'. number_option (\<lambda>ps. format_int_param 8 (Some (signed (sint (a :: byte)))) ps (length ts)) (length ts) w =
      Some (Some (Suc (length ts)), w') \<and> parsed m0 (ts @ [TI8 a]) w' \<and> outcomes w' = outcomes w \<and> name w' = name w"
    "\<exists>w'. number_option (\<lambda>ps. format_int_param 16 (Some (signed (sint (b :: u16)))) ps (length ts)) (length ts) w =
      Some (Some (Suc (length ts)), w') \<and> parsed m0 (ts @ [TI16 b]) w' \<and> outcomes w' = outcomes w \<and> name w' = name w"
    "\<exists>w'. number_option (\<lambda>ps. format_int_param 32 (Some (signed (sint (c :: u32)))) ps (length ts)) (length ts) w =
      Some (Some (Suc (length ts)), w') \<and> parsed m0 (ts @ [TI32 c]) w' \<and> outcomes w' = outcomes w \<and> name w' = name w"
proof -
  have range: "-128 \<le> sint a" "sint a < 128" "-32768 \<le> sint b" "sint b < 32768" "- (2 ^ 31) \<le> sint c" "sint c < 2 ^ 31"
    using sint_ge [of a] sint_less [of a] sint_ge [of b] sint_less [of b] sint_ge [of c] sint_less [of c] by simp_all
  have eqs: "(word_of_int (sint a) :: u32) = scast a" "(word_of_int (sint b) :: u32) = scast b" by simp_all
  have trip: "(ucast (scast a :: u32) :: byte) = a" "(ucast (scast b :: u32) :: u16) = b"
    by (rule bit_word_eqI; auto simp: bit_simps)+
  show "\<exists>w'. number_option (\<lambda>ps. format_int_param 8 (Some (signed (sint (a :: byte)))) ps (length ts)) (length ts) w =
      Some (Some (Suc (length ts)), w') \<and> parsed m0 (ts @ [TI8 a]) w' \<and> outcomes w' = outcomes w \<and> name w' = name w"
    using format_int_signed(1) [of _ _ "sint a"] range trip by (intro number_step [OF assms]) (simp_all add: sint_scast_up)
  show "\<exists>w'. number_option (\<lambda>ps. format_int_param 16 (Some (signed (sint (b :: u16)))) ps (length ts)) (length ts) w =
      Some (Some (Suc (length ts)), w') \<and> parsed m0 (ts @ [TI16 b]) w' \<and> outcomes w' = outcomes w \<and> name w' = name w"
    using format_int_signed(2) [of _ _ "sint b"] range trip by (intro number_step [OF assms]) (simp_all add: sint_scast_up)
  show "\<exists>w'. number_option (\<lambda>ps. format_int_param 32 (Some (signed (sint (c :: u32)))) ps (length ts)) (length ts) w =
      Some (Some (Suc (length ts)), w') \<and> parsed m0 (ts @ [TI32 c]) w' \<and> outcomes w' = outcomes w \<and> name w' = name w"
    using format_int_signed(3) [of _ _ "sint c"] range by (intro number_step [OF assms]) simp_all
qed

lemma option_step:
  assumes inv: "parsed m0 ts w" "length ts < 16" and mem: "\<forall>n. \<not> ext_null (outcomes w n)" and t: "expressible t"
  obtains w' where "parse_args (option_args t @ rest) (length ts) w = parse_args rest (Suc (length ts)) w'"
    "parsed m0 (ts @ [t]) w'" "outcomes w' = outcomes w" "name w' = name w"
proof -
  have "\<exists>opt a w'. option_args t = [CHR ''-'' # opt, a] \<and> parse_option opt (Some a) (length ts) w =
      Some (Some (Suc (length ts)), w') \<and> parsed m0 (ts @ [t]) w' \<and> outcomes w' = outcomes w \<and> name w' = name w"
  proof (cases t)
    case (TBlob s xs)
    have live: "\<not> ext_null (ext_now w)" using mem by (simp add: ext_now_def)
    show ?thesis
    proof (cases s)
      case True
      with t TBlob obtain u where u: "no_nul u" "xs = bytes_of u @ [0]" "length u < 256" by auto
      have "\<exists>w'. blob_option (bytes_of u @ [0]) (\<lambda>p. AF_RPC_SET_PARAM_AS_STRING p (int (length u) + 1)) (length ts) w =
          Some (Some (Suc (length ts)), w') \<and> parsed m0 (ts @ [TBlob True xs]) w' \<and> outcomes w' = outcomes w \<and>
          tick w' = Suc (tick w) \<and> name w' = name w"
        using string_value [of _ _ "bytes_of u @ [0]"] u(3) unfolding u(2)
        by (intro blob_option_ok [OF inv live]) (auto simp: blob_types_owned add.commute)
      then show ?thesis
        using True TBlob u c_string_bytes [OF u(1), of "[]"] by (auto simp: parse_option_def IPC_SEND_INSTR_MAX_LEN_def)
    next
      case False
      with t TBlob have xs: "xs \<noteq> []" "length xs < 2 ^ 14" by auto
      have "\<exists>w'. blob_option xs (\<lambda>p. AF_RPC_SET_PARAM_AS_BLOB p (int (length xs))) (length ts) w =
          Some (Some (Suc (length ts)), w') \<and> parsed m0 (ts @ [TBlob False xs]) w' \<and> outcomes w' = outcomes w \<and>
          tick w' = Suc (tick w) \<and> name w' = name w"
        using blob_value [of _ _ xs] xs(2)
        by (intro blob_option_ok [OF inv live]) (auto simp: blob_types_owned)
      moreover have "hex_text xs \<noteq> []" using xs(1) by (cases xs) (simp_all add: format_02x_def)
      ultimately show ?thesis using False TBlob by (auto simp: parse_option_def is_xdigits_def)
    qed
  qed (use unsigned_step [OF inv] signed_step [OF inv] in
    \<open>auto simp: parse_option_def atoi_sizes\<close>)
  then show thesis using that by fastforce
qed

lemma parse_options:
  assumes "parsed m0 us w" "\<forall>n. \<not> ext_null (outcomes w n)" "list_all expressible ts" "length us + length ts \<le> 16"
  shows "\<exists>w'. parse_args (concat (map option_args ts)) (length us) w = Some (Some (length (us @ ts)), w') \<and>
    parsed m0 (us @ ts) w' \<and> outcomes w' = outcomes w \<and> name w' = name w"
  using assms
proof (induction ts arbitrary: us w)
  case (Cons t ts)
  from Cons.prems have "length us < 16" "expressible t" by simp_all
  from option_step [OF Cons.prems(1) this(1) Cons.prems(2) this(2)] obtain w1 where w1:
    "parse_args (option_args t @ concat (map option_args ts)) (length us) w =
      parse_args (concat (map option_args ts)) (Suc (length us)) w1"
    "parsed m0 (us @ [t]) w1" "outcomes w1 = outcomes w" "name w1 = name w" by blast
  from Cons.IH [OF w1(2)] Cons.prems(2-4) w1 show ?case by simp
qed simp

lemma even_options: "even (length (concat (map option_args ts)))"
proof (induction ts)
  case (Cons t ts)
  have "even (length (option_args t))" by (cases t rule: option_args.cases) simp_all
  with Cons show ?case by simp
qed simp

lemma parser_options:
  assumes "unparsed w" "\<forall>n. \<not> ext_null (outcomes w n)" "list_all expressible ts" "length ts \<le> 16"
  shows "\<exists>w'. param_parser (prog # server # concat (map option_args ts)) w = Some (IPC_SEND_OK, w') \<and>
    parsed (heap w) ts w' \<and> name w' = Some server \<and> num_in_params w' = int (length ts) \<and> outcomes w' = outcomes w"
proof -
  let ?w = "w\<lparr>name := Some server\<rparr>"
  have "parsed (heap w) [] ?w" using unparsed_parsed [OF assms(1)] by (simp add: parsed_name)
  from parse_options [OF this] assms(2-4) obtain w' where
    "parse_args (concat (map option_args ts)) 0 ?w = Some (Some (length ts), w')" "parsed (heap w) ts w'"
    "outcomes w' = outcomes w" "name w' = Some server" by auto
  moreover have "parsed (heap w) ts (w'\<lparr>num_in_params := k\<rparr>) = parsed (heap w) ts w'" for k
    by (simp add: parsed_def)
  ultimately show ?thesis
    using even_options [of ts] by (auto simp: param_parser_def even_iff_mod_2_eq_zero)
qed

text \<open>
  C28. Printing values as options and parsing them is the identity: for at most 16 values that options
  can express, and memory for their blobs, the parser accepts the command line, and the
  parameters denote these values, in order.
\<close>

theorem options_roundtrip:
  assumes "unparsed w" "\<forall>n. \<not> ext_null (outcomes w n)" "list_all expressible ts" "length ts \<le> 16"
  shows "\<exists>w'. param_parser (prog # server # concat (map option_args ts)) w = Some (IPC_SEND_OK, w') \<and>
    name w' = Some server \<and> num_in_params w' = int (length ts) \<and>
    map (param_value (heap w')) (take (length ts) (in_params w')) = map Some ts"
  using parser_options [OF assms, of prog server] by (auto simp: parsed_def)

theorem options_roundtrip_example:
  "\<exists>w'. param_parser [''ipc_send'', ''S'', ''-i16'', ''-10'', ''-h'', ''dead'', ''-s'', ''ok''] (send_start ample) =
      Some (IPC_SEND_OK, w') \<and> num_in_params w' = 3 \<and>
    map (param_value (heap w')) (take 3 (in_params w')) =
      [Some (TI16 0xFFF6), Some (TBlob False [0xDE, 0xAD]), Some (TBlob True [0x6F, 0x6B, 0])]"
proof -
  let ?ts = "[TI16 0xFFF6, TBlob False [0xDE, 0xAD], TBlob True [0x6F, 0x6B, 0]]"
  have "bytes_of ''ok'' @ [0] = [0x6F, 0x6B, 0]" "no_nul ''ok''" "length ''ok'' < 256" by (code_simp, simp add: code_def, simp)
  then have "\<exists>s. no_nul s \<and> [0x6F, 0x6B, 0] = bytes_of s @ [0] \<and> length s < 256" by metis
  then have e: "list_all expressible ?ts" by simp
  have m: "\<forall>n. \<not> ext_null (outcomes (send_start ample) n)" by (simp add: send_start_def ample_def)
  have "concat (map option_args ?ts) = [''-i16'', ''-10'', ''-h'', ''dead'', ''-s'', ''ok'']" by code_simp
  then show ?thesis using options_roundtrip [OF unparsed_start m e, of "''ipc_send''" "''S''"]
    by (auto simp: numeral_3_eq_3)
qed

text \<open>
  The range of a number is checked after its conversion to 32 bits. So an argument is accepted as a
  number of 8 or 16 bits if its low 32 bits are in the range, and any number of 64 bits is
  accepted as one of 32 bits; what is sent are the low bits.
\<close>

theorem numbers_truncated:
  assumes "i < length ps" "n < 2 ^ 64" "- (2 ^ 63) \<le> k" "k < 2 ^ 63"
  defines "low \<equiv> n mod 2 ^ 32" and "slow \<equiv> sint (word_of_int k :: u32)"
  shows "format_uint_param 8 (Some (decimal n)) ps i =
      Some (if low < 2 ^ 8 then (IPC_SEND_OK, ps[i := AF_RPC_SET_PARAM_AS_UINT8 (word_of_nat low)]) else (IPC_SEND_ERR, ps)) \<and>
    format_uint_param 16 (Some (decimal n)) ps i =
      Some (if low < 2 ^ 16 then (IPC_SEND_OK, ps[i := AF_RPC_SET_PARAM_AS_UINT16 (word_of_nat low)]) else (IPC_SEND_ERR, ps)) \<and>
    format_uint_param 32 (Some (decimal n)) ps i =
      Some (IPC_SEND_OK, ps[i := AF_RPC_SET_PARAM_AS_UINT32 (word_of_nat low)]) \<and>
    format_int_param 8 (Some (signed k)) ps i =
      Some (if -(2 ^ 7) \<le> slow \<and> slow < 2 ^ 7 then (IPC_SEND_OK, ps[i := AF_RPC_SET_PARAM_AS_INT8 (word_of_int slow)]) else (IPC_SEND_ERR, ps)) \<and>
    format_int_param 16 (Some (signed k)) ps i =
      Some (if -(2 ^ 15) \<le> slow \<and> slow < 2 ^ 15 then (IPC_SEND_OK, ps[i := AF_RPC_SET_PARAM_AS_INT16 (word_of_int slow)]) else (IPC_SEND_ERR, ps)) \<and>
    format_int_param 32 (Some (signed k)) ps i =
      Some (IPC_SEND_OK, ps[i := AF_RPC_SET_PARAM_AS_INT32 (word_of_int slow)])"
proof -
  have "int n < int (2 ^ 64)" using assms(2) by (simp only: of_nat_less_iff)
  then have n: "int n < 2 ^ 64" by simp
  have u: "uint (word_of_nat n :: u32) = int low" by (simp add: low_def unsigned_of_nat take_bit_eq_mod zmod_int)
  have w: "(word_of_nat n :: u32) = word_of_nat low"
    by (simp add: low_def word_of_nat_eq_iff take_bit_eq_mod)
  have nar: "(ucast (word_of_nat j :: u32) :: byte) = word_of_nat j" "(ucast (word_of_nat j :: u32) :: u16) = word_of_nat j" for j
    by (rule bit_word_eqI; auto simp: bit_simps)+
  have snar: "word_of_int (sint v) = (ucast v :: byte)" "word_of_int (sint v) = (ucast v :: u16)" for v :: u32
    by (rule bit_word_eqI; auto simp: bit_simps)+
  have "word_of_int slow = (ucast (word_of_int k :: u32) :: byte)" "word_of_int slow = (ucast (word_of_int k :: u32) :: u16)"
    "word_of_int slow = (word_of_int k :: u32)"
    unfolding slow_def by (rule snar, rule snar, simp)
  note sets = this
  have uint: "format_uint_param 8 (Some (decimal n)) ps i =
      Some (if low < 2 ^ 8 then (IPC_SEND_OK, ps[i := AF_RPC_SET_PARAM_AS_UINT8 (word_of_nat low)]) else (IPC_SEND_ERR, ps))"
    "format_uint_param 16 (Some (decimal n)) ps i =
      Some (if low < 2 ^ 16 then (IPC_SEND_OK, ps[i := AF_RPC_SET_PARAM_AS_UINT16 (word_of_nat low)]) else (IPC_SEND_ERR, ps))"
    "format_uint_param 32 (Some (decimal n)) ps i =
      Some (IPC_SEND_OK, ps[i := AF_RPC_SET_PARAM_AS_UINT32 (word_of_nat low)])"
    unfolding format_uint_decimal [OF assms(1) n] scalar_def set_param.simps w u [unfolded w] nar by auto
  have sint: "format_int_param 8 (Some (signed k)) ps i =
      Some (if -(2 ^ 7) \<le> slow \<and> slow < 2 ^ 7 then (IPC_SEND_OK, ps[i := AF_RPC_SET_PARAM_AS_INT8 (word_of_int slow)]) else (IPC_SEND_ERR, ps))"
    "format_int_param 16 (Some (signed k)) ps i =
      Some (if -(2 ^ 15) \<le> slow \<and> slow < 2 ^ 15 then (IPC_SEND_OK, ps[i := AF_RPC_SET_PARAM_AS_INT16 (word_of_int slow)]) else (IPC_SEND_ERR, ps))"
    "format_int_param 32 (Some (signed k)) ps i =
      Some (IPC_SEND_OK, ps[i := AF_RPC_SET_PARAM_AS_INT32 (word_of_int slow)])"
    unfolding format_int_signed [OF assms(1,3,4)] slow_def [symmetric] scalar_def set_param.simps sets by auto
  show ?thesis by (intro conjI uint sint)
qed

theorem numbers_truncated_example:
  "format_uint_param 8 (Some (decimal 4294967297)) [\<lparr>base = NULL, ptype = 0\<rparr>] 0 =
      Some (IPC_SEND_OK, [AF_RPC_SET_PARAM_AS_UINT8 1]) \<and>
    format_uint_param 32 (Some (decimal 4294967297)) [\<lparr>base = NULL, ptype = 0\<rparr>] 0 =
      Some (IPC_SEND_OK, [AF_RPC_SET_PARAM_AS_UINT32 1])"
  using numbers_truncated [of 0 "[\<lparr>base = NULL, ptype = 0\<rparr>]" 4294967297 0] by simp

end
