(* ===== verification/Send_Request.thy ===== *)
theory Send_Request
  imports Send_Main Tool_Exchange Send_Correct
begin

text \<open>
  The handler \<^verbatim>\<open>ipc_send_wrapper\<close> of \<^verbatim>\<open>src/pkg/src/ipc_send.c\<close>: the message it builds from the
  parameters, and what sending it does to the connection.
\<close>

section \<open>The parameters and the static buffers\<close>

lemma create_loop_take: "n \<le> length ps \<Longrightarrow> create_loop m buf k ps n pos = create_loop m buf k (take n ps) n pos"
proof (induction ps arbitrary: n m pos)
  case (Cons p ps)
  then show ?case by (cases n) (auto split: option.split sum.split)
qed simp

lemma create_take: "n \<le> length ps \<Longrightarrow>
  af_rpc_create_buffer_with_params m buf k (Some ps) (int n) = af_rpc_create_buffer_with_params m buf k (Some (take n ps)) (int n)"
  by (simp add: af_rpc_create_buffer_with_params_def create_loop_take [of n ps])

lemma is_blob_bit: "AF_RPC_TYPE_IS_BLOB (w :: u32) \<longleftrightarrow> \<not> bit w 15"
proof -
  have pow: "(0x8000 :: u32) = 2 ^ 15" by simp
  show ?thesis unfolding AF_RPC_TYPE_IS_BLOB_def pow by (rule and_exp_eq_0_iff_not_bit)
qed

lemma not_owned_integer: "\<not> owned p \<Longrightarrow> base p \<noteq> NULL \<Longrightarrow> AF_RPC_TYPE_IS_INTEGER (ucast (ptype p) :: u16)"
  by (simp add: owned_def is_blob_bit is_integer_bit bit_ucast_iff)

lemma load_static: "(\<And>i. p \<noteq> VPtr b i) \<Longrightarrow> load (m(b \<mapsto> obj)) p n = load m p n"
  by (cases p) (auto simp: load_def)

lemma param_value_static:
  assumes "owned p \<Longrightarrow> \<exists>c. base p = VPtr c 0 \<and> c \<noteq> b"
  shows "param_value (m(b \<mapsto> obj)) p = param_value m p"
proof (cases "AF_RPC_TYPE_IS_INTEGER (ucast (ptype p) :: u16)")
  case False
  then have "owned p \<or> base p = NULL" using not_owned_integer by blast
  then have "base p \<noteq> VPtr b i" for i using assms by (auto simp: NULL_def)
  then have "load (m(b \<mapsto> obj)) (base p) n = load m (base p) n" for n by (rule load_static)
  then show ?thesis by (simp only: param_value_def)
qed (simp add: param_value_def)

lemma parsed_owned:
  assumes "parsed m0 ts w" "p \<in> set (in_params w)" "owned p"
  obtains c where "2 \<le> c" "base p = VPtr c 0" "m0 c = None"
  using assms by (auto simp: parsed_def owns_def)

lemma parsed_static:
  assumes inv: "parsed m0 ts w" and b: "m0 b \<noteq> None"
    and w': "in_params w' = in_params w" "heap w' = (heap w)(b \<mapsto> obj)" "tick w \<le> tick w'" "b < 2"
  shows "parsed (m0(b \<mapsto> obj)) ts w'"
proof -
  have ps: "owned p \<Longrightarrow> \<exists>c. base p = VPtr c 0 \<and> c \<noteq> b" if "p \<in> set (in_params w)" for p
    using parsed_owned [OF inv that] b by metis
  have "map (param_value (heap w')) (take (length ts) (in_params w)) = map (param_value (heap w)) (take (length ts) (in_params w))"
    using ps by (auto simp: w'(2) intro!: param_value_static dest: in_set_takeD)
  then have vals: "map (param_value (heap w')) (take (length ts) (in_params w)) = map Some ts"
    using inv by (simp only: parsed_def)
  have owns: "owns (m0(b \<mapsto> obj)) (in_params w) (heap w')"
  proof -
    have o: "distinct (blocks (in_params w))" "\<And>c. c \<notin> set (blocks (in_params w)) \<Longrightarrow> heap w c = m0 c"
      "\<And>p. p \<in> set (in_params w) \<Longrightarrow> owned p \<Longrightarrow> \<exists>c\<ge>2. base p = VPtr c 0 \<and> m0 c = None \<and> heap w c \<noteq> None"
      using inv by (auto simp: parsed_def owns_def)
    have "c \<noteq> b" if "2 \<le> c" for c using that w'(4) by simp
    then have "\<exists>c\<ge>2. base p = VPtr c 0 \<and> (m0(b \<mapsto> obj)) c = None \<and> heap w' c \<noteq> None"
      if "p \<in> set (in_params w)" "owned p" for p
      using o(3) [OF that] w'(2) by (metis fun_upd_other)
    then show ?thesis using o(1,2) w'(2) unfolding owns_def by auto
  qed
  have "heap w' c = None" if "tick w' + 2 \<le> c" for c
    using inv w' that by (auto simp: parsed_def)
  with vals owns inv show ?thesis by (simp add: parsed_def w'(1))
qed

lemma parsed_heap:
  assumes "parsed m0 ts w" "b < 2"
  shows "heap w b = m0 b"
proof -
  have "b \<notin> set (blocks (in_params w))"
  proof
    assume "b \<in> set (blocks (in_params w))"
    then obtain p where "p \<in> set (in_params w)" "owned p" "b = block (base p)" by (auto simp: blocks_def)
    from parsed_owned [OF assms(1) this(1,2)] obtain c where "2 \<le> c" "base p = VPtr c 0" by blast
    with \<open>b = block (base p)\<close> assms(2) show False by simp
  qed
  then show ?thesis using assms(1) by (simp add: parsed_def owns_def)
qed

section \<open>The message\<close>

text \<open>The buffer holds the encoding of the values, if they fit.\<close>

lemma build_request:
  assumes inv: "parsed [0 \<mapsto> r, 1 \<mapsto> t] ts w" and t: "length t = 256" and n: "num_in_params w = int (length ts)"
  shows "\<exists>t'. length t' = 256 \<and>
    af_rpc_create_buffer_with_params (heap w) txBuffer 256 (Some (in_params w)) (num_in_params w) =
      Some ((heap w)(1 \<mapsto> t'), if msg_len ts \<le> 256 then int (msg_len ts) else AF_RPC_ERR_BUFFER_OVERFLOW) \<and>
    (msg_len ts \<le> 256 \<longrightarrow> take (msg_len ts) t' = enc_msg ts)"
proof -
  let ?ps = "take (length ts) (in_params w)"
  have h: "heap w 1 = Some t" using parsed_heap [OF inv, of 1] by simp
  have ld: "load (heap w) txBuffer (nat 256) = Some t" using h t by (simp add: load_def txBuffer_def)
  have vals: "map (param_value (heap w)) ?ps = map Some ts" "length ?ps = length ts" "length ts \<le> length (in_params w)"
    using inv by (simp_all add: parsed_def)
  have ow: "overwrite (heap w) txBuffer bs = (heap w)(1 \<mapsto> bs)" if "length bs = 256" for bs
    using h t that by (simp add: overwrite_def txBuffer_def poke_def)
  have "param_apart txBuffer (nat 256) p" if p: "p \<in> set ?ps" for p
  proof (cases "owned p")
    case True
    then obtain c where "2 \<le> c" "base p = VPtr c 0" using parsed_owned [OF inv in_set_takeD [OF p]] by blast
    then show ?thesis by (simp add: param_apart_def txBuffer_def Let_def)
  next
    case False
    then show ?thesis using not_owned_integer [of p]
      by (cases "base p") (auto simp: param_apart_def txBuffer_def Let_def NULL_def)
  qed
  then have apart: "\<forall>p \<in> set ?ps. param_apart txBuffer (nat 256) p" by blast
  have take: "af_rpc_create_buffer_with_params (heap w) txBuffer 256 (Some (in_params w)) (num_in_params w) =
      af_rpc_create_buffer_with_params (heap w) txBuffer 256 (Some ?ps) (int (length ?ps))"
    using create_take [of "length ts" "in_params w" "heap w" txBuffer 256] vals n by simp
  show ?thesis
  proof (cases "msg_len ts \<le> 256")
    case True
    then have "af_rpc_create_buffer_with_params (heap w) txBuffer 256 (Some ?ps) (int (length ?ps)) =
        Some (overwrite (heap w) txBuffer (write_msg t ts), int (msg_len ts))"
      using create_ok [OF ld _ _ vals(1) apart] by simp
    moreover have "length (write_msg t ts) = 256" "take (msg_len ts) (write_msg t ts) = enc_msg ts"
      using True t by (simp_all add: write_msg_def poke_def)
    ultimately show ?thesis using take ow True by (intro exI [of _ "write_msg t ts"]) simp
  next
    case False
    then have "int (msg_len ts) > 256" by simp
    from create_full [OF ld _ _ vals(1) apart this] obtain bs' where "length bs' = length t"
      "af_rpc_create_buffer_with_params (heap w) txBuffer 256 (Some ?ps) (int (length ?ps)) =
        Some (overwrite (heap w) txBuffer bs', AF_RPC_ERR_BUFFER_OVERFLOW)" by auto
    then show ?thesis using take ow False t by (intro exI [of _ bs']) simp
  qed
qed

section \<open>Sending\<close>

lemma tool_ok_moves:
  assumes ok: "tool_ok oc b U tm w" and s: "s_server w = Some s"
    and sv: "sv_closeCallback sv \<noteq> None" "sv_event sv = Some e" "dom (lasting w) = insert e U"
      "dom (ctls w) = {s}" "dom (servers w) = {s}"
    and w': "idle s sv oc 0 w'" "lasting w' = lasting w" "dom (ctls w') = dom (ctls w)" "servers w' = servers w"
      "client_world.more w' = client_world.more w"
  shows "tool_ok oc b U tm w'"
proof -
  have "heap w' = heap w" "bases w' = bases w" "s_base w' = s_base w" "s_server w' = s_server w"
    "dataReceived w' = dataReceived w" "outBufferSize w' = outBufferSize w" "exiting w' = exiting w"
    using w'(5) by (cases w; cases w'; simp)+
  moreover have "world_ok w'" "outcomes w' = oc" using w'(1) by (simp_all add: conn_def client_open_def)
  ultimately show ?thesis
    using ok s sv w' unfolding tool_ok_def message_kept_def by auto
qed

text \<open>The request is registered and sent, or the connection is closed; in both cases the invariant stays.\<close>

lemma skip_seq_more: "client_world.more (skip_seq c w) = client_world.more w" "servers (skip_seq c w) = servers w"
  "dom (ctls (skip_seq c w)) = dom (ctls w)" "events (skip_seq c w) = events w" "tick (skip_seq c w) = tick w"
  "outcomes (skip_seq c w) = outcomes w" "reqs (skip_seq c w) = reqs w" "io_log (skip_seq c w) = io_log w"
  by (auto simp: skip_seq_def split: option.split)

text \<open>The state with the request registered and its message sent, or with the request taken back.\<close>

definition asked :: "int \<Rightarrow> nat \<Rightarrow> byte list \<Rightarrow> 'a tool_world_scheme \<Rightarrow> 'a tool_world_scheme" where
  "asked fd s msg w = sent fd (frame (new_seqNum w s OR AF_IPC_SEQNUM_NEW_REQUEST_MASK) msg) (registered s (Some 0) 0 3000 w)"

definition unasked_again :: "nat \<Rightarrow> 'a tool_world_scheme \<Rightarrow> 'a tool_world_scheme" where
  "unasked_again s w = set_errno (ext_errno (ext_now (registered s (Some 0) 0 3000 w)))
     (skip_seq s (next_tick (next_tick (next_tick w))))"

lemma asked_ok:
  assumes w: "idle s sv oc 0 w" "pending w s = []" "sv_event sv = Some e"
  shows "idle s sv oc 0 (asked fd s msg w)" "lasting (asked fd s msg w) = lasting w"
    "dom (ctls (asked fd s msg w)) = dom (ctls w)" "servers (asked fd s msg w) = servers w"
    "client_world.more (asked fd s msg w) = client_world.more w" "tick w \<le> tick (asked fd s msg w)"
proof -
  let ?r = "registered s (Some 0) 0 3000 w"
  obtain f where f: "client_open w s" "outcomes w = oc" "servers w s = Some (sv\<lparr>sv_flags := f\<rparr>)"
    "f AND FLAGS_IN_RECEIVE = 0" "f AND FLAGS_MARKED_FOR_SHUTDOWN = 0" using w(1) by (auto simp: conn_def)
  obtain v where v: "world_ok w" "db_open w s" "0 \<le> sv_fd sv" "events w e = Some v" "ev_handler v = On_recv s" "ev_added v"
    using f(1,3) w(3) by (auto elim!: client_openE)
  note sel = registered_sel [OF v(2)]
  have fresh: "events w (Suc (tick w)) = None"
    using fresh_tick [OF world_ok_tick [OF v(1)]] by (simp add: next_tick_def)
  then have ne: "e \<noteq> Suc (tick w)" using v(4) by auto
  have wok: "world_ok ?r" by (rule registered_ok [OF v(1,2)]) (use w(2) in simp_all)
  have "client_open ?r s"
    using wok sel(1,5) f(3) v w(3) ne by (simp add: client_open_def recv_event_ok_def registered_more)
  then have idle: "idle s sv oc 0 ?r"
    using f sel(7) by (auto simp: conn_def registered_more)
  then show "idle s sv oc 0 (asked fd s msg w)"
    unfolding asked_def by (rule conn_cong) (auto simp: sent_def next_tick_def log_io_def)
  have "lasting ?r = lasting w"
    using sel(5) fresh by (auto simp: fun_eq_iff lasting_def new_timer_def)
  moreover have "lasting (asked fd s msg w) = lasting ?r" by (rule lasting_cong) (simp add: asked_def)
  ultimately show "lasting (asked fd s msg w) = lasting w" by simp
  show "dom (ctls (asked fd s msg w)) = dom (ctls w)" by (simp add: asked_def registered_more)
  show "servers (asked fd s msg w) = servers w"
    by (simp add: asked_def sent_def next_tick_def log_io_def registered_more)
  show "client_world.more (asked fd s msg w) = client_world.more w"
    by (simp add: asked_def sent_def next_tick_def log_io_def registered_more)
  show "tick w \<le> tick (asked fd s msg w)" using sel(6) by (simp add: asked_def)
qed

lemma unasked_ok:
  assumes w: "idle s sv oc 0 w" "sv_event sv = Some e"
  shows "idle s sv oc 0 (unasked_again s w)" "lasting (unasked_again s w) = lasting w"
    "dom (ctls (unasked_again s w)) = dom (ctls w)" "servers (unasked_again s w) = servers w"
    "client_world.more (unasked_again s w) = client_world.more w" "tick w \<le> tick (unasked_again s w)"
proof -
  let ?n = "next_tick (next_tick (next_tick w))"
  obtain f where f: "client_open w s" "outcomes w = oc" "servers w s = Some (sv\<lparr>sv_flags := f\<rparr>)"
    "f AND FLAGS_IN_RECEIVE = 0" "f AND FLAGS_MARKED_FOR_SHUTDOWN = 0" using w(1) by (auto simp: conn_def)
  obtain v where v: "world_ok w" "db_open w s" "0 \<le> sv_fd sv" "events w e = Some v" "ev_handler v = On_recv s" "ev_added v"
    using f(1,3) w(2) by (auto elim!: client_openE)
  have n: "world_ok ?n" "db_open ?n s" using v(1,2) by (simp_all add: db_open_def) (simp add: next_tick_def)
  have sel: "ctls (unasked_again s w) = ctls (skip_seq s ?n)" "reqs (unasked_again s w) = reqs w"
    "events (unasked_again s w) = events w" "servers (unasked_again s w) = servers w" "tick (unasked_again s w) = tick w + 3"
    "outcomes (unasked_again s w) = outcomes w" "client_world.more (unasked_again s w) = client_world.more w"
    by (simp_all add: unasked_again_def set_errno_def skip_seq_more) (simp_all add: next_tick_def)
  have "world_ok (unasked_again s w)" using skip_seq_ok(1) [OF n] by (simp add: unasked_again_def)
  moreover have "db_open (unasked_again s w) s" using skip_seq_ok(2) [OF n, of s] n(2) by (simp add: db_open_def sel)
  ultimately have "client_open (unasked_again s w) s"
    using v f(3) w(2) by (simp add: client_open_def recv_event_ok_def sel)
  then show "idle s sv oc 0 (unasked_again s w)" using f by (auto simp: conn_def sel)
  show "lasting (unasked_again s w) = lasting w" by (rule lasting_cong) (rule sel)
  show "dom (ctls (unasked_again s w)) = dom (ctls w)" unfolding sel skip_seq_more by (simp add: next_tick_def)
qed (simp_all add: unasked_again_def set_errno_def skip_seq_more, simp_all add: next_tick_def)

lemma same_tool_more: "client_world.more w' = client_world.more w \<Longrightarrow> tick w \<le> tick w' \<Longrightarrow> same_tool w w' \<and> exiting w' = exiting w"
  by (cases w; cases w') (simp add: same_tool_def)

lemma send_request_tool:
  fixes w :: "'a tool_world_scheme"
  assumes ok: "tool_ok oc b U tm w" and s: "s_server w = Some s" and pend: "pending w s = []"
    and mem: "\<forall>n. \<not> ext_null (oc n)" and len: "length msg \<le> 4088"
  shows "\<exists>r w'. af_ipcc_send_request tool_closer (Some s) msg (int (length msg)) (Some 0) 0 3000 w = Some (r, w') \<and>
    tool_ok oc b U tm w' \<and> same_tool w w' \<and> (exiting w \<longrightarrow> exiting w') \<and>
    (\<forall>x v k. lasting w x = Some v \<longrightarrow> ev_handler v = On_user k \<longrightarrow> lasting w' x = Some v)"
proof -
  obtain sv e where sv: "idle s sv oc (tick w) w" "sv_closeCallback sv \<noteq> None" "sv_event sv = Some e"
    "dom (lasting w) = insert e U" "dom (ctls w) = {s}" "dom (servers w) = {s}" "e \<notin> U"
    by (rule tool_ok_server [OF ok s])
  have idle: "idle s sv oc 0 w" using sv(1) by (simp add: conn_def)
  obtain f where f: "client_open w s" "servers w s = Some (sv\<lparr>sv_flags := f\<rparr>)" using idle by (auto simp: conn_def)
  have open0: "world_ok w" "db_open w s" "0 \<le> sv_fd sv" using f by (simp_all add: client_open_def)
  have oc: "outcomes w = oc" using ok by (simp add: tool_ok_def)
  let ?bad = "ext_ret (ext_now (registered s (Some 0) 0 3000 w)) < 0"
  have send: "af_ipc_send (sv_fd sv) (Some s) 0 msg (int (length msg)) (Some 0) 0 3000 w =
      Some (if ?bad then (-1, unasked_again s w) else (0, asked (sv_fd sv) s msg w))"
    using send_request_eq [OF open0(1,2) _ len, of 3000 "sv_fd sv" 0 "Some 0" 0] pend mem oc
    by (simp add: unasked_again_def asked_def)
  show ?thesis
  proof (cases ?bad)
    case False
    note a = asked_ok [OF idle pend sv(3), of "sv_fd sv" msg]
    have "af_ipcc_send_request tool_closer (Some s) msg (int (length msg)) (Some 0) 0 3000 w = Some (0, asked (sv_fd sv) s msg w)"
      using f(2) open0(3) send False by (simp add: af_ipcc_send_request_def client_send_def)
    moreover have "tool_ok oc b U tm (asked (sv_fd sv) s msg w)"
      by (rule tool_ok_moves [OF ok s sv(2-6) a(1-5)])
    ultimately show ?thesis using same_tool_more [OF a(5,6)] a(2) by auto
  next
    case True
    note a = unasked_ok [OF idle sv(3)]
    let ?w = "unasked_again s w"
    have ok1: "tool_ok oc b U tm ?w" by (rule tool_ok_moves [OF ok s sv(2-6) a(1-5)])
    have "s_server ?w = s_server w" using a(5) by (cases w; cases "unasked_again s w") simp
    then have s1: "s_server ?w = Some s" using s by simp
    have f1: "client_open ?w s" "servers ?w s = Some (sv\<lparr>sv_flags := f\<rparr>)"
      using a(1,4) f(2) by (auto simp: conn_def)
    have cb: "sv_closeCallback (sv\<lparr>sv_flags := f\<rparr>) \<noteq> None" "sv_event (sv\<lparr>sv_flags := f\<rparr>) = Some e" using sv by simp_all
    have dom: "dom (lasting ?w) = insert e U" "dom (ctls ?w) = {s}" "dom (servers ?w) = {s}" using a(2-4) sv by simp_all
    have self: "since ?w ?w" using ok1 kept_heap [of ?w] by (auto simp: since_def tool_ok_def)
    note closes = tool_ok_closes(1,2) [OF ok1 s1 f1 cb dom sv(7) self order_refl]
    have "af_ipcc_send_request tool_closer (Some s) msg (int (length msg)) (Some 0) 0 3000 w = Some (-1, disconnected s ?w)"
      using f(2) open0(3) send True close_eq [OF f1, of tool_closer] closes(1)
      by (simp add: af_ipcc_send_request_def client_send_def)
    moreover have "same_tool w (disconnected s ?w)"
      using same_tool_more [OF a(5,6)] disconnected_same same_tool_trans by blast
    moreover have "exiting (disconnected s ?w)" by (simp add: disconnected_def)
    moreover have "lasting (disconnected s ?w) x = Some v" if "lasting w x = Some v" "ev_handler v = On_user k" for x v k
      using closes(2) a(2) that by (auto simp: kept_def)
    ultimately show ?thesis using closes(2) by blast
  qed
qed

end
