(* ===== verification/Send_Session.thy ===== *)
theory Send_Session
  imports Send_Request
begin

text \<open>
  The event loop of \<^verbatim>\<open>src/pkg/src/ipc_send.c\<close> as an instance of \<open>tool_loop\<close>: the parameters stay as
  they were parsed, and the request is sent at most once.
\<close>

section \<open>The invariant\<close>

text \<open>\<open>ts\<close> are the values of the parameters, \<open>te\<close> is \<^verbatim>\<open>test_event\<close> and \<open>tm\<close> is \<^verbatim>\<open>tm_event\<close>.\<close>

definition sending :: "tlv list \<Rightarrow> nat \<Rightarrow> nat \<Rightarrow> 'a send_world_scheme \<Rightarrow> bool" where
  "sending ts te tm w \<longleftrightarrow> (\<forall>n. \<not> ext_null (outcomes w n)) \<and>
     (\<exists>r t. length r = 256 \<and> length t = 256 \<and> parsed [0 \<mapsto> r, 1 \<mapsto> t] ts w) \<and>
     num_in_params w = int (length ts) \<and> te \<noteq> tm \<and>
     (\<exists>v. lasting w te = Some v \<and> ev_handler v = On_user 0 \<and> (ev_added v \<longrightarrow> (\<forall>s. pending w s = []))) \<and>
     (\<exists>v. lasting w tm = Some v \<and> ev_handler v = On_user 1)"

lemma send_more:
  assumes "tool_world.more w' = tool_world.more w"
  shows "in_params w' = in_params w" "num_in_params w' = num_in_params w" "name w' = name w"
  using assms by (cases w; cases w'; simp)+

lemma parsed_cong:
  assumes "parsed m0 ts w" "in_params w' = in_params w" "heap w' = heap w" "tick w \<le> tick w'"
  shows "parsed m0 ts w'"
  using assms by (auto simp: parsed_def)

lemma sending_kept:
  assumes w: "tool_ok oc b U tm w" "sending ts te tm w" "kept w w'" "tool_ok oc b U tm w'"
  shows "sending ts te tm w'"
proof -
  have m: "tool_world.more w' = tool_world.more w" "tick w \<le> tick w'" using w(3) by (simp_all add: kept_def)
  obtain r t where p: "length r = 256" "length t = 256" "parsed [0 \<mapsto> r, 1 \<mapsto> t] ts w"
    using w(2) by (auto simp: sending_def)
  obtain obj where obj: "heap w' = (heap w)(0 \<mapsto> obj)" using w(3) by (auto simp: kept_def)
  have "length obj = 256" using w(4) obj by (auto simp: tool_ok_def message_kept_def)
  moreover have "parsed ([0 \<mapsto> r, 1 \<mapsto> t](0 \<mapsto> obj)) ts w'"
    by (rule parsed_static [OF p(3)]) (use send_more [OF m(1)] obj m(2) in simp_all)
  then have "parsed [0 \<mapsto> obj, 1 \<mapsto> t] ts w'" by (simp add: fun_upd_twist)
  moreover have "pending w' s = []" if "\<forall>s. pending w s = []" for s
    using w(3) that by (auto simp: kept_def)
  moreover have "lasting w' x = Some v" if "lasting w x = Some v" "ev_handler v = On_user k" for x v k
    using w(3) that by (auto simp: kept_def)
  moreover have "outcomes w' = outcomes w" using w(1,4) by (simp add: tool_ok_def)
  ultimately show ?thesis
    using w(2) p(2) send_more [OF m(1)] unfolding sending_def by metis
qed

section \<open>The handlers\<close>

lemma wrapper_ok:
  assumes ok: "tool_ok oc b {te, tm} tm w" and inv: "sending ts te tm w"
    and e: "events w te = Some v" "ev_added v" "ev_handler v = On_user 0"
  shows "\<exists>w'. ipc_send_wrapper False (fired te v w) = Some w' \<and> tool_ok oc b {te, tm} tm w' \<and> sending ts te tm w' \<and>
    stdout w' = stdout w \<and> (exiting w \<longrightarrow> exiting w')"
proof -
  have base: "tool_base oc b {te, tm} w" using ok by (simp add: tool_ok_base_iff)
  note f = fired_ok [OF base e(1,3)]
  have ne: "te \<noteq> tm" using inv by (simp add: sending_def)
  have lte: "lasting w te = Some v" using e by (simp add: lasting_def)
  then have pend: "pending w s = []" for s using inv e(2) by (auto simp: sending_def)
  let ?w1 = "fired te v w"
  have ok1: "tool_ok oc b {te, tm} tm ?w1" using ok f(1,3) ne by (auto simp: tool_ok_base_iff)
  obtain r t where p: "length r = 256" "length t = 256" "parsed [0 \<mapsto> r, 1 \<mapsto> t] ts w"
    using inv by (auto simp: sending_def)
  have m1: "in_params ?w1 = in_params w" "num_in_params ?w1 = num_in_params w" by (simp_all add: fired_def)
  have p1: "parsed [0 \<mapsto> r, 1 \<mapsto> t] ts ?w1" by (rule parsed_cong [OF p(3)]) (simp_all add: m1)
  have n1: "num_in_params ?w1 = int (length ts)" using inv m1 by (simp add: sending_def)
  obtain t' where t': "length t' = 256" "af_rpc_create_buffer_with_params (heap ?w1) txBuffer 256
      (Some (in_params ?w1)) (num_in_params ?w1) =
      Some ((heap ?w1)(1 \<mapsto> t'), if msg_len ts \<le> 256 then int (msg_len ts) else AF_RPC_ERR_BUFFER_OVERFLOW)"
    "msg_len ts \<le> 256 \<longrightarrow> take (msg_len ts) t' = enc_msg ts"
    using build_request [OF p1 p(2) n1] by blast
  let ?w2 = "?w1\<lparr>heap := (heap ?w1)(1 \<mapsto> t')\<rparr>"
  have p2: "parsed [0 \<mapsto> r, 1 \<mapsto> t'] ts ?w2"
    using parsed_static [OF p1, of 1 ?w2 t'] by (simp add: m1)
  have ok2: "tool_ok oc b {te, tm} tm ?w2"
    by (rule tool_ok_cong [OF ok1]) (use ok1 in \<open>auto simp: tool_ok_def message_kept_def\<close>)
  have l2: "lasting ?w2 = lasting ?w1" "pending ?w2 = pending ?w1" by (rule lasting_cong pending_cong; simp)+
  have l2te: "lasting ?w2 te = Some (v\<lparr>ev_added := False\<rparr>)" unfolding l2 f(3) by simp
  have l2tm: "lasting ?w2 tm = lasting w tm" unfolding l2 f(3) using ne by simp
  have mem: "\<forall>n. \<not> ext_null (oc n)" using inv ok by (simp add: sending_def tool_ok_def)
  have fin: "sending ts te tm w'" if "tool_ok oc b {te, tm} tm w'" "same_tool ?w2 w'"
    "\<And>x v k. lasting ?w2 x = Some v \<Longrightarrow> ev_handler v = On_user k \<Longrightarrow> lasting w' x = Some v" for w'
  proof -
    have m: "tool_world.more w' = tool_world.more ?w2" "heap w' = heap ?w2" "tick ?w2 \<le> tick w'"
      using that(2) by (simp_all add: same_tool_def)
    have "parsed [0 \<mapsto> r, 1 \<mapsto> t'] ts w'" by (rule parsed_cong [OF p2 send_more(1) [OF m(1)] m(2,3)])
    moreover have "lasting w' te = Some (v\<lparr>ev_added := False\<rparr>)" by (rule that(3) [OF l2te]) (simp add: e(3))
    moreover obtain vm where "lasting w tm = Some vm" "ev_handler vm = On_user 1" using inv by (auto simp: sending_def)
    then have "lasting w' tm = Some vm" using that(3) [of tm vm] l2tm by simp
    moreover have "num_in_params w' = int (length ts)" using send_more(2) [OF m(1)] n1 by simp
    moreover have "outcomes w' = oc" using that(1) by (simp add: tool_ok_def)
    ultimately show ?thesis
      using mem ne p(1) t'(1) e(3) \<open>ev_handler vm = On_user 1\<close> unfolding sending_def by auto
  qed
  have sent: "\<exists>w'. ipc_send_wrapper False ?w1 = Some w' \<and> tool_ok oc b {te, tm} tm w' \<and> same_tool ?w2 w' \<and>
      (exiting w \<longrightarrow> exiting w') \<and>
      (\<forall>x v k. lasting ?w2 x = Some v \<longrightarrow> ev_handler v = On_user k \<longrightarrow> lasting w' x = Some v)"
  proof (cases "msg_len ts \<le> 256")
    case False
    then have "ipc_send_wrapper False ?w1 = Some ?w2"
      using t'(1,2) by (simp add: ipc_send_wrapper_def IPC_SEND_INSTR_MAX_LEN_def rpc_errs load_def txBuffer_def)
    then show ?thesis using ok2 by (auto simp: same_tool_def)
  next
    case True
    have ld: "load (heap ?w2) txBuffer (msg_len ts) = Some (enc_msg ts)"
      using t'(1,3) True by (simp add: load_def txBuffer_def)
    have pos: "0 < msg_len ts" using msg_len_ge [of ts] by simp
    have run: "ipc_send_wrapper False ?w1 = map_option snd
        (af_ipcc_send_request tool_closer (s_server ?w2) (enc_msg ts) (int (msg_len ts)) (Some 0) 0 3000 ?w2)"
      using t'(2) True ld pos
      by (simp add: ipc_send_wrapper_def IPC_SEND_INSTR_MAX_LEN_def map_conv_bind_option split_def comp_def)
    show ?thesis
    proof (cases "s_server w")
      case None
      let ?w3 = "set_errno 22 ?w2"
      have "ipc_send_wrapper False ?w1 = Some ?w3"
        using run None by (simp add: af_ipcc_send_request_def client_send_def)
      moreover have "tool_ok oc b {te, tm} tm ?w3"
        by (rule tool_ok_cong [OF ok2]) (use ok2 in \<open>auto simp: set_errno_def tool_ok_def message_kept_def\<close>)
      moreover have "lasting ?w3 = lasting ?w2" by (rule lasting_cong) (simp add: set_errno_def)
      moreover have "same_tool ?w2 ?w3" "exiting ?w3 = exiting w" by (simp_all add: same_tool_def set_errno_def)
      ultimately show ?thesis by (intro exI [of _ ?w3]) simp
    next
      case (Some s)
      then have s: "s_server ?w2 = Some s" "pending ?w2 s = []" using l2 pend by simp_all
      have len: "length (enc_msg ts) \<le> 4088" using True by simp
      from send_request_tool [OF ok2 s mem len] obtain r w' where
        "af_ipcc_send_request tool_closer (Some s) (enc_msg ts) (int (msg_len ts)) (Some 0) 0 3000 ?w2 = Some (r, w')"
        "tool_ok oc b {te, tm} tm w'" "same_tool ?w2 w'" "exiting ?w2 \<longrightarrow> exiting w'"
        "\<forall>x v k. lasting ?w2 x = Some v \<longrightarrow> ev_handler v = On_user k \<longrightarrow> lasting w' x = Some v" by auto
      then show ?thesis using run s(1) by (intro exI [of _ w']) simp
    qed
  qed
  then obtain w' where "ipc_send_wrapper False ?w1 = Some w'" "tool_ok oc b {te, tm} tm w'" "same_tool ?w2 w'"
    "exiting w \<longrightarrow> exiting w'" "\<And>x v k. lasting ?w2 x = Some v \<Longrightarrow> ev_handler v = On_user k \<Longrightarrow> lasting w' x = Some v" by blast
  with fin [OF this(2,3,5)] show ?thesis by (intro exI [of _ w']) (simp add: same_tool_def)
qed

interpretation sending: tool_loop "send_user False" "sending ts te tm" oc b "{te, tm}" tm for ts te tm oc b
proof
  fix w w' :: "'a send_world_scheme"
  show "tool_ok oc b {te, tm} tm w \<Longrightarrow> sending ts te tm w \<Longrightarrow> kept w w' \<Longrightarrow> tool_ok oc b {te, tm} tm w' \<Longrightarrow> sending ts te tm w'"
    by (rule sending_kept)
next
  fix w :: "'a send_world_scheme" and e v k
  assume w: "tool_ok oc b {te, tm} tm w" "sending ts te tm w" and e: "events w e = Some v" "ev_added v" "ev_handler v = On_user k"
  have l: "lasting w e = Some v" using e by (simp add: lasting_def)
  have base: "tool_base oc b {te, tm} w" using w(1) by (simp add: tool_ok_base_iff)
  note f = fired_ok [OF base e(1,3)]
  have "\<exists>w'. send_user False k (fired e v w) = Some w' \<and> tool_ok oc b {te, tm} tm w' \<and> sending ts te tm w' \<and>
      stdout w' = stdout w \<and> (exiting w \<longrightarrow> exiting w') \<and> (e = tm \<longrightarrow> exiting w')"
  proof (cases "e = te")
    case True
    then have k: "k = 0" using w(2) l e(3) by (auto simp: sending_def)
    have "te \<noteq> tm" using w(2) by (simp add: sending_def)
    then show ?thesis
      using wrapper_ok [OF w, of v] e True k by (auto simp: send_user_def)
  next
    case False
    then have tm: "e = tm" using f(4) by simp
    then have k: "k = 1" using w(2) l e(3) by (auto simp: sending_def)
    let ?w = "(fired e v w)\<lparr>exiting := True\<rparr>"
    have tm': "tm \<in> {te, tm}" by simp
    note ex = loopexit_ok [OF f(1) tm']
    have las: "lasting ?w = lasting (fired e v w)" "pending ?w = pending w" by (rule lasting_cong pending_cong; simp)+
    have "outcomes ?w = outcomes w" "num_in_params ?w = num_in_params w" by (simp_all add: fired_def)
    moreover have "parsed m0 ts ?w" if "parsed m0 ts w" for m0
      by (rule parsed_cong [OF that]) (simp_all add: fired_def)
    ultimately have "sending ts te tm ?w"
      using w(2) las f(3) tm e(3) k unfolding sending_def by auto
    then show ?thesis using ex k by (auto simp: send_user_def ipc_send_tmout_callback_def)
  qed
  then show "\<exists>w'. send_user False k (w\<lparr>events := (events w)(e \<mapsto> v\<lparr>ev_added := False\<rparr>)\<rparr>) = Some w' \<and>
      tool_ok oc b {te, tm} tm w' \<and> sending ts te tm w' \<and>
      stdout w' = stdout w \<and> (exiting w \<longrightarrow> exiting w') \<and> (e = tm \<longrightarrow> exiting w')"
    by (simp add: fired_def)
qed

end
