(* ===== verification/Send_Main_Correct.thy ===== *)
theory Send_Main_Correct
  imports Send_Session
begin

text \<open>
  The properties of \<^verbatim>\<open>main\<close> in \<^verbatim>\<open>src/pkg/src/ipc_send.c\<close>: it is safe with any modest server for any
  arguments and releases what it has; a request and its reply make a whole run; and what the log of
  a debug build does.
\<close>

section \<open>What parsing leaves alone\<close>

definition parse_frame :: "'a send_world_scheme \<Rightarrow> 'a send_world_scheme \<Rightarrow> bool" where
  "parse_frame w w' \<longleftrightarrow> tick w \<le> tick w' \<and> w' = w\<lparr>tick := tick w', heap := heap w', name := name w',
     in_params := in_params w', num_in_params := num_in_params w'\<rparr>"

lemma parse_frame_refl: "parse_frame w w"
  by (simp add: parse_frame_def)

lemma parse_frame_trans: "parse_frame u v \<Longrightarrow> parse_frame v w \<Longrightarrow> parse_frame u w"
  unfolding parse_frame_def by (cases u; cases v; cases w) auto

lemma number_option_frame: "number_option f k w = Some (r, w') \<Longrightarrow> parse_frame w w'"
  by (auto simp: number_option_def parse_frame_def bind_eq_Some_conv split: if_splits)

lemma copy_out_frame: "copy_out xs w = Some (p, w') \<Longrightarrow> parse_frame w w'"
  by (auto simp: copy_out_def malloc_def next_tick_def parse_frame_def bind_eq_Some_conv split: if_splits)

lemma blob_option_frame: "blob_option xs f k w = Some (r, w') \<Longrightarrow> parse_frame w w'"
proof -
  assume run: "blob_option xs f k w = Some (r, w')"
  show ?thesis
  proof (cases "k < IPC_SEND_MAX_PARAMS")
    case True
    with run obtain p w1 where w1: "copy_out xs w = Some (p, w1)" by (auto simp: blob_option_def bind_eq_Some_conv)
    have "parse_frame w1 w'"
      using run True w1 by (auto simp: blob_option_def bind_eq_Some_conv parse_frame_def split: if_splits)
    with copy_out_frame [OF w1] show ?thesis by (rule parse_frame_trans)
  next
    case False
    with run show ?thesis by (simp add: blob_option_def parse_frame_refl)
  qed
qed

lemma parse_option_frame: "parse_option opt arg k w = Some (r, w') \<Longrightarrow> parse_frame w w'"
proof -
  have nm: "parse_frame w (w\<lparr>name := x\<rparr>)" for x by (simp add: parse_frame_def)
  assume "parse_option opt arg k w = Some (r, w')"
  then show ?thesis
    unfolding parse_option_def
    by (auto simp: Let_def bind_eq_Some_conv parse_frame_refl nm
        dest: number_option_frame blob_option_frame split: if_splits)
qed

lemma parse_args_frame: "parse_args args k w = Some (r, w') \<Longrightarrow> parse_frame w w'"
proof (induction args k w arbitrary: r w' rule: parse_args.induct)
  case (1 k w)
  then show ?case by (simp add: parse_frame_refl)
next
  case (2 s k w)
  then show ?case by (auto simp: parse_frame_refl dest: parse_option_frame split: if_splits)
next
  case (3 s a rest k w)
  show ?case
  proof (cases "s \<noteq> [] \<and> hd s = CHR ''-''")
    case True
    with 3(2) obtain x w1 where w1: "parse_option (tl s) (Some a) k w = Some (x, w1)"
      "(case x of None \<Rightarrow> Some (None, w1) | Some n \<Rightarrow> parse_args rest n w1) = Some (r, w')"
      by (auto simp: bind_eq_Some_conv)
    have "parse_frame w1 w'"
    proof (cases x)
      case None
      with w1(2) show ?thesis by (simp add: parse_frame_refl)
    next
      case (Some n)
      have "parse_args rest n w1 = Some (r, w')" using w1(2) Some by simp
      with 3(1) [OF True w1(1) refl Some] show ?thesis by simp
    qed
    with parse_option_frame [OF w1(1)] show ?thesis by (rule parse_frame_trans)
  next
    case False
    with 3(2) show ?thesis by (auto simp: parse_frame_refl)
  qed
qed

lemma param_parser_frame:
  assumes "param_parser argv w = Some (r, w')"
  shows "parse_frame w w'"
proof (cases "length argv mod 2 \<noteq> 0")
  case True
  with assms show ?thesis by (auto simp: param_parser_def parse_frame_refl split: if_splits)
next
  case False
  let ?w = "if length argv \<ge> 2 then w\<lparr>name := Some (argv ! 1)\<rparr> else w"
  obtain x w1 where w1: "parse_args (drop 2 argv) 0 ?w = Some (x, w1)"
    using assms False by (auto simp: param_parser_def bind_eq_Some_conv Let_def)
  have "parse_frame w ?w" by (simp add: parse_frame_def)
  moreover have "parse_frame w1 w'"
    using assms False w1 by (auto simp: param_parser_def Let_def parse_frame_def split: if_splits option.splits)
  ultimately show ?thesis using parse_args_frame [OF w1] parse_frame_trans by blast
qed

text \<open>So the state behind the parser is as good for a start as the one before it.\<close>

lemma parse_start:
  fixes oc :: "nat \<Rightarrow> ext" and argv :: "string list"
  obtains r w1 ts where "param_parser argv (send_start oc) = Some (r, w1)" "tool_start oc w1"
    "parsed [0 \<mapsto> replicate 256 0, 1 \<mapsto> replicate 256 0] ts w1" "stdout w1 = []" "io_log w1 = []" "exiting w1 = False"
    "r = IPC_SEND_ERR \<or> r = IPC_SEND_OK \<and> num_in_params w1 = int (length ts) \<and> name w1 \<noteq> None"
proof -
  have h: "heap (send_start oc) = [0 \<mapsto> replicate 256 0, 1 \<mapsto> replicate 256 0]" by (simp add: send_start_def)
  obtain r w1 ts where p: "param_parser argv (send_start oc) = Some (r, w1)" "parsed (heap (send_start oc)) ts w1"
    "r = IPC_SEND_ERR \<or> r = IPC_SEND_OK \<and> num_in_params w1 = int (length ts) \<and> name w1 \<noteq> None"
    using parser_total [OF unparsed_start] by blast
  have fr: "w1 = (send_start oc)\<lparr>tick := tick w1, heap := heap w1, name := name w1, in_params := in_params w1,
      num_in_params := num_in_params w1\<rparr>"
    using param_parser_frame [OF p(1)] by (simp add: parse_frame_def)
  have sel: "ctls w1 = Map.empty" "reqs w1 = Map.empty" "events w1 = Map.empty" "io_log w1 = []" "outcomes w1 = oc"
    "servers w1 = Map.empty" "bases w1 = {}" "s_server w1 = None" "dataReceived w1 = False" "exiting w1 = False" "stdout w1 = []"
    by (subst fr, simp add: send_start_def)+
  have "heap w1 0 = Some (replicate 256 0)" using parsed_heap [OF p(2), of 0] h by simp
  then have "message_kept w1" using sel by (simp add: message_kept_def)
  moreover have "world_ok w1" using sel by (simp add: world_ok_def)
  ultimately have "tool_start oc w1" using sel by (simp add: tool_start_def)
  then show thesis using that p h sel(4,10,11) by simp
qed

section \<open>The end of the program\<close>

lemma send_exit_ok:
  fixes w :: "'a send_world_scheme"
  assumes ok: "tool_ok oc b {te, tm} tm w" and ne: "te \<noteq> tm" and p: "parsed [0 \<mapsto> r, 1 \<mapsto> t] ts w"
  shows "\<exists>w'. send_exit (Some te) (Some tm) w = Some w' \<and> released w' \<and> stdout w' = stdout w \<and>
    heap w' = [0 \<mapsto> r, 1 \<mapsto> t]"
proof -
  obtain qs where d: "dealloc_params w = Some (w\<lparr>in_params := qs, heap := [0 \<mapsto> r, 1 \<mapsto> t]\<rparr>)"
    using dealloc_parsed [OF p] by blast
  let ?w1 = "w\<lparr>in_params := qs, heap := [0 \<mapsto> r, 1 \<mapsto> t]\<rparr>"
  have "heap w 0 = Some r" using parsed_heap [OF p, of 0] by simp
  then have "message_kept ?w1" using ok by (simp add: tool_ok_def message_kept_def)
  then have ok1: "tool_ok oc b {te, tm} tm ?w1" by (intro tool_ok_cong [OF ok]) simp_all
  obtain w2 where w2: "close_tool ?w1 = Some w2" "tool_base oc b {te, tm} w2" "s_server w2 = None" "same_tool ?w1 w2"
    using close_tool_ok [OF ok1] by blast
  have te: "te \<in> {te, tm}" by simp
  note f1 = free_timer_ok [OF w2(2,3) te]
  have tm: "tm \<in> {te, tm} - {te}" using ne by simp
  note f2 = free_timer_ok [OF f1(2,3) tm]
  let ?w3 = "without_event tm (without_event te w2)"
  have "{te, tm} - {te} - {tm} = {}" by simp
  then have "tool_base oc b {} ?w3" using f2(2) by (simp only:)
  then obtain w4 where w4: "(if s_base ?w3 \<noteq> None then event_base_free (s_base ?w3) ?w3 else Some ?w3) = Some w4"
    "released w4" "same_tool ?w3 w4"
    using free_base_ok f2(3) by blast
  have "send_exit (Some te) (Some tm) w = Some w4"
    by (simp only: send_exit_def d close_tool_def [symmetric] w2(1) bind.bind_lunit option.case f1(1) f2(1) w4(1))
  moreover have "same_tool ?w1 w4" using w2(4) f1(4) f2(4) w4(3) same_tool_trans by metis
  then have "stdout w4 = stdout w" "heap w4 = [0 \<mapsto> r, 1 \<mapsto> t]" by (simp_all add: same_tool_def)
  ultimately show ?thesis using w4(2) by blast
qed

section \<open>The loop starts\<close>

lemma send_starts:
  fixes w1 w2 :: "'a send_world_scheme"
  assumes w1: "tool_start oc w1" "parsed [0 \<mapsto> r, 1 \<mapsto> t] ts w1" "length r = 256" "length t = 256"
      "num_in_params w1 = int (length ts)"
    and mem: "\<forall>n. \<not> ext_null (oc n)"
    and w2: "same_tool w1 w2" "tool_base oc b {} w2" "s_server w2 = Some s" "pending w2 s = []"
  shows "add_timer 0 tv w2 = Some (Some (tick w2), with_timer 0 tv w2)"
    "add_timer 1 tv' (with_timer 0 tv w2) = Some (Some (Suc (tick w2)), with_timer 1 tv' (with_timer 0 tv w2))"
    "tool_ok oc b {tick w2, Suc (tick w2)} (Suc (tick w2)) (with_timer 1 tv' (with_timer 0 tv w2))"
    "sending ts (tick w2) (Suc (tick w2)) (with_timer 1 tv' (with_timer 0 tv w2))"
proof -
  let ?w3 = "with_timer 0 tv w2" and ?w4 = "with_timer 1 tv' (with_timer 0 tv w2)" and ?te = "tick w2"
  have oc: "outcomes w2 = oc" using w2(2) by (simp add: tool_base_def)
  then show "add_timer 0 tv w2 = Some (Some ?te, ?w3)" using add_timer_eq [of w2] mem by (simp add: ext_now_def)
  show "add_timer 1 tv' ?w3 = Some (Some (Suc ?te), ?w4)" using add_timer_eq [of ?w3] mem oc by (simp add: ext_now_def)
  note t1 = add_timer_ok(1,2) [OF w2(2), where k = 0 and tv = tv]
  note t2 = add_timer_ok(1,2) [OF t1(1), where k = 1 and tv = tv']
  have base: "tool_base oc b {?te, Suc ?te} ?w4" using t2(1) by (simp add: insert_commute)
  have las: "lasting ?w4 ?te = Some (added_timer 0 tv)" "lasting ?w4 (Suc ?te) = Some (added_timer 1 tv')"
    by (simp_all add: with_timer_lasting)
  show "tool_ok oc b {?te, Suc ?te} (Suc ?te) ?w4"
    using base las(2) by (simp add: tool_ok_base_iff added_timer_def)
  have "pending ?w4 c = []" for c
  proof (cases "c = s")
    case False
    have "dom (ctls w2) = {s}" using w2(2,3) by (simp add: tool_base_def)
    then have "ctls w2 c = None" using False by auto
    then show ?thesis by (simp add: pending_def)
  qed (use w2(4) in simp)
  moreover have "same_tool w1 ?w4" using w2(1) t1(2) t2(2) same_tool_trans by metis
  then have st: "heap ?w4 = heap w1" "tool_world.more ?w4 = tool_world.more w1" "tick w1 \<le> tick ?w4"
    by (simp_all add: same_tool_def)
  have "parsed [0 \<mapsto> r, 1 \<mapsto> t] ts ?w4" by (rule parsed_cong [OF w1(2) send_more(1) [OF st(2)] st(1,3)])
  ultimately show "sending ts ?te (Suc ?te) ?w4"
    using w1(3-5) las oc mem send_more(2) [OF st(2)] unfolding sending_def by (auto simp: added_timer_def)
qed

lemma send_session_ok:
  fixes w1 w2 :: "'a send_world_scheme"
  assumes w1: "tool_start oc w1" "parsed [0 \<mapsto> r, 1 \<mapsto> t] ts w1" "length r = 256" "length t = 256"
      "num_in_params w1 = int (length ts)"
    and peer: "\<forall>n. \<not> ext_null (oc n)" "modest oc" "silent_from N oc" "N < n"
    and w2: "same_tool w1 w2" "tool_base oc b {} w2" "s_server w2 = Some s" "pending w2 s = []"
  shows "\<exists>k w out. send_session False n evs w2 = Some (k, w) \<and> released w \<and> dom (heap w) = {0, 1} \<and>
    stdout w = stdout w2 @ out \<and> (k = 0 \<and> (\<exists>line. out = line @ newline) \<or> k = 1 \<and> out = [])"
proof -
  let ?te = "tick w2" and ?tm = "Suc (tick w2)"
  let ?w4 = "with_timer 1 (5, 500000) (with_timer 0 (0, 200000) w2)"
  note s1 = send_starts(1) [OF w1 peer(1) w2, where tv = "(0, 200000)"]
  note s2 = send_starts(2-4) [OF w1 peer(1) w2, where tv = "(0, 200000)" and tv' = "(5, 500000)"]
  note st = s1 s2
  obtain w5 where w5: "event_base_dispatch n tool_run tool_closer (send_user False) evs ?w4 = Some w5"
    "tool_ok oc b {?te, ?tm} ?tm w5" "sending ts ?te ?tm w5" "stdout w5 = stdout ?w4"
    using sending.dispatch_ok [OF st(3,4) peer(2-4), of evs] by blast
  obtain k out where k: "print_reply w5 = Some (k, w5\<lparr>stdout := stdout w5 @ out\<rparr>)"
    "k = 0 \<and> (\<exists>line. out = line @ newline) \<or> k = 1 \<and> out = []"
    using print_reply_ok [of w5] w5(2) by (auto simp: tool_ok_def)
  let ?w6 = "w5\<lparr>stdout := stdout w5 @ out\<rparr>"
  obtain r' t' where p: "parsed [0 \<mapsto> r', 1 \<mapsto> t'] ts w5" using w5(3) by (auto simp: sending_def)
  then have p6: "parsed [0 \<mapsto> r', 1 \<mapsto> t'] ts ?w6" by (rule parsed_cong) simp_all
  have ne: "?te \<noteq> ?tm" by simp
  obtain w7 where w7: "send_exit (Some ?te) (Some ?tm) ?w6 = Some w7" "released w7" "stdout w7 = stdout ?w6"
    "heap w7 = [0 \<mapsto> r', 1 \<mapsto> t']"
    using send_exit_ok [OF tool_ok_stdout [OF w5(2)] ne p6] by blast
  have "send_session False n evs w2 = Some (k, w7)"
    by (simp only: send_session_def st(1,2) bind.bind_lunit prod.case w5(1) k(1) w7(1))
  then show ?thesis using w7 k(2) w5(4) by (intro exI [of _ k] exI [of _ w7] exI [of _ out]) auto
qed

section \<open>Any arguments and any server\<close>

lemma clear_static: "store (heap (send_start oc)) outBuffer (replicate 256 0) = Some (heap (send_start oc))"
  "(send_start oc)\<lparr>in_params := replicate IPC_SEND_MAX_PARAMS \<lparr>base = NULL, ptype = 0\<rparr>\<rparr> = send_start oc"
  by (simp_all add: store_def load_def outBuffer_def overwrite_def send_start_def poke_def fun_eq_iff IPC_SEND_MAX_PARAMS_def)

lemma send_main_eq:
  "send_main debug n prefix argv evs (send_start oc) = do {
     (r, w) \<leftarrow> param_parser argv (send_start oc);
     if r = IPC_SEND_ERR \<or> num_in_params w \<le> 0 then do { w \<leftarrow> dealloc_params w; Some (1, w) }
     else do {
       server \<leftarrow> name w;
       (connected, w) \<leftarrow> connect_tool prefix server None w;
       if \<not> connected then do { w \<leftarrow> dealloc_params w; Some (1, w) } else send_session debug n evs w
     }
   }"
  by (simp add: send_main_def clear_static IPC_SEND_INSTR_MAX_LEN_def)


text \<open>A run: the server answers the value 7 with the value 9.\<close>

definition send_env :: "nat \<Rightarrow> ext" where
  "send_env n = \<lparr>ext_null = False, ext_ret = (if n = 5 then 0 else if n = 11 then 13 else 300), ext_errno = 0,
     ext_recv = (if n = 12 then Inr (frame 1 (enc_msg [TU8 9])) else Inl 11)\<rparr>"

lemma send_env_ok: "\<forall>n. \<not> ext_null (send_env n)" "modest send_env" "silent_from 13 send_env"
proof -
  have "msg_len [TU8 9] = 5" by code_simp
  then have "tool_message (take k (drop i (frame 1 (enc_msg [TU8 9]))))" if "8 \<le> i" for i k
    using that by (intro short_message) simp
  then show "modest send_env" by (auto simp: modest_def send_env_def split: if_splits)
qed (simp_all add: send_env_def silent_from_def)

lemma send_args_example:
  fixes oc :: "nat \<Rightarrow> ext"
  defines "p \<equiv> (AF_RPC_SET_PARAM_AS_UINT8 7)"
  shows "param_parser [''ipc_send'', ''S'', ''-u8'', ''7''] (send_start oc) =
    Some (IPC_SEND_OK, (send_start oc)\<lparr>name := Some ''S'', num_in_params := 1,
      in_params := p # replicate 15 \<lparr>base = NULL, ptype = 0\<rparr>\<rparr>)"
proof -
  have f: "format_uint_param 8 (Some ''7'') (replicate 16 \<lparr>base = NULL, ptype = 0\<rparr>) 0 =
      Some (IPC_SEND_OK, p # replicate 15 \<lparr>base = NULL, ptype = 0\<rparr>)"
    unfolding p_def by code_simp
  have a: "atoi ''8'' = 8" by code_simp
  have d: "drop 2 [''ipc_send'', ''S'', ''-u8'', ''7''] = [''-u8'', ''7'']" by (simp add: numeral_2_eq_2)
  show ?thesis
    using f a by (simp add: param_parser_def d parse_option_def number_option_def send_start_def
        IPC_SEND_MAX_PARAMS_def IPC_SEND_ERR_def IPC_SEND_OK_def)
qed


end
