(* ===== verification/Send_Exchange.thy ===== *)
theory Send_Exchange
  imports Send_Main_Correct
begin

text \<open>
  A whole run of \<^verbatim>\<open>src/pkg/src/ipc_send.c\<close> in which the server answers: the request on the wire is
  the encoding of the arguments, the reply is printed. And what the log of a debug build does.
\<close>

section \<open>Sending\<close>

lemma wrapper_sends:
  fixes w :: "'a send_world_scheme"
  assumes p: "parsed [0 \<mapsto> r, 1 \<mapsto> t] ts w" "length t = 256" "num_in_params w = int (length ts)" "msg_len ts \<le> 256"
    and w: "idle s sv oc 0 w" "s_server w = Some s" "pending w s = []"
    and env: "\<forall>n. \<not> ext_null (oc n)" "0 \<le> ext_ret (oc (tick w + 2))"
  shows "\<exists>t'. length t' = 256 \<and>
    ipc_send_wrapper False w = Some (asked (sv_fd sv) s (enc_msg ts) (w\<lparr>heap := (heap w)(1 \<mapsto> t')\<rparr>))"
proof -
  obtain t' where t': "length t' = 256" "af_rpc_create_buffer_with_params (heap w) txBuffer 256 (Some (in_params w))
      (num_in_params w) = Some ((heap w)(1 \<mapsto> t'), int (msg_len ts))" "take (msg_len ts) t' = enc_msg ts"
    using build_request [OF p(1-3)] p(4) by auto
  let ?w = "w\<lparr>heap := (heap w)(1 \<mapsto> t')\<rparr>"
  have idle: "idle s sv oc 0 ?w" using w(1) by (rule conn_cong) auto
  obtain f where f: "client_open ?w s" "servers ?w s = Some (sv\<lparr>sv_flags := f\<rparr>)" "outcomes ?w = oc"
    using idle by (auto simp: conn_def)
  have open0: "world_ok ?w" "db_open ?w s" "0 \<le> sv_fd sv" using f by (simp_all add: client_open_def)
  have pend: "pending ?w s = []" using w(3) by (simp add: pending_def)
  have len: "length (enc_msg ts) \<le> 4088" using p(4) by simp
  have "ext_now (registered s (Some 0) 0 3000 ?w) = oc (tick w + 2)"
    using registered_sel(6,7) [OF open0(2)] f(3) by (simp add: ext_now_def)
  then have "af_ipc_send (sv_fd sv) (Some s) 0 (enc_msg ts) (int (length (enc_msg ts))) (Some 0) 0 3000 ?w =
      Some (0, asked (sv_fd sv) s (enc_msg ts) ?w)"
    using send_request_eq [OF open0(1,2) _ len, of 3000 "sv_fd sv" 0 "Some 0" 0] pend env f(3) by (simp add: asked_def)
  then have send: "af_ipcc_send_request tool_closer (Some s) (enc_msg ts) (int (msg_len ts)) (Some 0) 0 3000 ?w =
      Some (0, asked (sv_fd sv) s (enc_msg ts) ?w)"
    using f(2) open0(3) by (simp add: af_ipcc_send_request_def client_send_def)
  have ld: "load (heap ?w) txBuffer (msg_len ts) = Some (enc_msg ts)"
    using t'(1,3) p(4) by (simp add: load_def txBuffer_def)
  have pos: "0 < msg_len ts" using msg_len_ge [of ts] by simp
  have "ipc_send_wrapper False w = Some (asked (sv_fd sv) s (enc_msg ts) ?w)"
    using t'(2) ld pos send w(2) by (simp add: ipc_send_wrapper_def IPC_SEND_INSTR_MAX_LEN_def)
  with t'(1) show ?thesis by blast
qed

section \<open>The reply\<close>

text \<open>
  The request is answered and gone: of the registration only the sequence id is left. \<open>svs\<close> are
  the structures of the client library meanwhile.
\<close>

definition answered :: "int \<Rightarrow> nat \<Rightarrow> byte list \<Rightarrow> (nat \<Rightarrow> af_ipcc_server option) \<Rightarrow> 'a tool_world_scheme
    \<Rightarrow> 'a tool_world_scheme" where
  "answered fd s msg svs w = (skip_seq s w)\<lparr>tick := tick w + 4, servers := svs,
     io_log := io_log w @ [Sent fd (take (nat (ext_ret (outcomes w (tick w + 2))))
       (frame (new_seqNum w s OR AF_IPC_SEQNUM_NEW_REQUEST_MASK) msg))]\<rparr>"

lemma answered_sel [simp]:
  "ctls (answered fd s msg svs w) = ctls (skip_seq s w)" "reqs (answered fd s msg svs w) = reqs w"
  "servers (answered fd s msg svs w) = svs" "events (answered fd s msg svs w) = events w"
  "tick (answered fd s msg svs w) = tick w + 4" "outcomes (answered fd s msg svs w) = outcomes w"
  "io_log (answered fd s msg svs w) = io_log w @ [Sent fd (take (nat (ext_ret (outcomes w (tick w + 2))))
     (frame (new_seqNum w s OR AF_IPC_SEQNUM_NEW_REQUEST_MASK) msg))]"
  by (simp_all add: answered_def skip_seq_more)

lemma answered_more:
  "heap (answered fd s msg svs w) = heap w" "bases (answered fd s msg svs w) = bases w"
  "s_base (answered fd s msg svs w) = s_base w" "s_server (answered fd s msg svs w) = s_server w"
  "exiting (answered fd s msg svs w) = exiting w" "stdout (answered fd s msg svs w) = stdout w"
  "tool_world.more (answered fd s msg svs w) = tool_world.more w"
  unfolding answered_def using skip_seq_more(1) [of s w] by (cases "skip_seq s w"; cases w; simp)+

lemma drop_asked:
  assumes ok: "world_ok w" "db_open w s"
  shows "drop_pending s (tick w) ((next_tick (asked fd s msg w))\<lparr>servers := svs\<rparr>) = answered fd s msg svs w"
proof -
  have move: "drop_pending s a ((next_tick (sent fd bs v))\<lparr>servers := svs\<rparr>) =
      (drop_pending s a v)\<lparr>tick := tick v + 2, io_log := io_log v @ [Sent fd (take (nat (ext_ret (ext_now v))) bs)],
        servers := svs\<rparr>" for a bs and v :: "'a tool_world_scheme"
    by (cases v) (simp add: drop_pending_def sent_def next_tick_def log_io_def ext_now_def split: option.split)
  obtain rc where rc: "ctls w s = Some rc" by (rule db_openE [OF ok])
  note sel = registered_sel(6-8) [OF ok(2), where callback = "Some 0" and timeoutMs = 3000]
  show ?thesis
    unfolding asked_def move drop_registered [OF ok] using sel rc
    by (cases w) (simp add: answered_def skip_seq_def next_tick_def ext_now_def)
qed

lemma answered_ok:
  assumes "idle s sv oc 0 w" "svs s = Some (sv\<lparr>sv_flags := f\<rparr>)"
  shows "client_open (answered fd s msg svs w) s"
proof -
  obtain g where g: "client_open w s" "servers w s = Some (sv\<lparr>sv_flags := g\<rparr>)" using assms(1) by (auto simp: conn_def)
  obtain e v where v: "world_ok w" "db_open w s" "0 \<le> sv_fd sv" "sv_event sv = Some e" "events w e = Some v"
    "ev_handler v = On_recv s" "ev_added v"
    using g by (auto elim!: client_openE)
  have "world_ok (answered fd s msg svs w)"
    by (rule world_ok_cong [OF _ _ _ _ skip_seq_ok(1) [OF v(1,2)]]) (simp_all add: skip_seq_more)
  moreover have "db_open (answered fd s msg svs w) s"
    using skip_seq_ok(2) [OF v(1,2), of s] v(2) by (simp add: db_open_def)
  ultimately show ?thesis using v assms(2) by (simp add: client_open_def recv_event_ok_def)
qed

text \<open>The reply comes in one piece: the callback notes it, and the connection stays.\<close>

lemma reply_runs:
  fixes w :: "'a tool_world_scheme"
  assumes w: "idle s sv oc 0 w" "pending w s = []" "servers w s = Some sv" "sv_flags sv = 0"
      "s_base w = Some b" "b \<in> bases w" "heap w 0 = Some obj0" "length obj0 = 256"
    and reply: "ext_recv (oc (tick w + 3)) = Inr (frame (new_seqNum w s) p)" "ext_recv (oc (tick w + 4)) = Inl 11"
      "p \<noteq> []" "length p \<le> 256"
  defines "svs \<equiv> (servers w)(s \<mapsto> sv\<lparr>sv_flags := FLAGS_IN_RECEIVE\<rparr>)"
  shows "\<exists>obj. length obj = 256 \<and> take (length p) obj = p \<and>
    client_recv_loop (Suc (Suc n)) tool_run tool_closer s (asked fd s msg w) =
      Some (next_tick (set_errno 11 ((noted obj p (answered fd s msg svs w))\<lparr>servers := svs(s \<mapsto> sv)\<rparr>)))"
proof -
  have oc: "outcomes w = oc" "client_open w s" using w(1) by (simp_all add: conn_def)
  then have ok: "world_ok w" "db_open w s" by (simp_all add: client_open_def)
  obtain e where e: "sv_event sv = Some e" using oc(2) w(3) by (auto elim!: client_openE)
  note a = asked_ok [OF w(1,2) e, of fd msg]
  note sel = registered_sel(2,4,6,7) [OF ok(2), where callback = "Some 0" and timeoutMs = 3000]
  let ?wa = "asked fd s msg w" and ?rq = "new_request w s (Some 0) 0 3000" and ?sn = "new_seqNum w s"
  let ?wf = "(next_tick ?wa)\<lparr>servers := svs\<rparr>"
  have t: "tick ?wa = tick w + 3" "outcomes ?wa = oc" using sel(3,4) oc by (simp_all add: asked_def)
  have "world_ok ?wa" "db_open ?wa s" using a(1) by (simp_all add: conn_def client_open_def)
  then have wf: "world_ok ?wf" "db_open ?wf s"
    by (auto simp: db_open_def next_tick_def intro: world_ok_cong [of _ ?wa])
  have in_wf: "tick w \<in> set (pending ?wf s)" "reqs ?wf (tick w) = Some ?rq"
    using sel(1,2) by (simp_all add: pending_def next_tick_def asked_def)
  then have "seq_of ?wf (tick w) = ?sn" by (simp add: seq_of_def new_request_def)
  with find_reply_unique [OF wf in_wf(1)] have find: "find_reply ?wf s ?sn = Some (tick w)" by simp
  let ?d = "answered fd s msg svs w"
  have d: "heap ?d 0 = Some obj0" "s_base ?d = Some b" "b \<in> bases ?d" using w(5-7) by (simp_all add: answered_more)
  obtain obj where obj: "tool_run 0 0 ?sn p 0 ?d = Some (noted obj p ?d)" "length obj = 256" "take (length p) obj = p"
    using tool_run_notes [OF d(1) w(8) reply(4) d(2,3)] by blast
  have one: "receive_reply tool_run (Some s) ?sn p ?wf = Some (noted obj p ?d)"
    using find in_wf(2) drop_asked [OF ok, where fd = fd and msg = msg and svs = svs] obj(1)
    by (simp add: receive_reply_eq [OF wf] run_callback_def new_request_def)
  have "?sn \<noteq> 0" "\<not> AF_IPC_SEQNUM_IS_NEW_REQUEST ?sn"
    "AF_IPC_GET_SEQ_ID ?sn = ?sn"
    using request_id(6-8) [OF new_seqNum_range [OF ok]] by simp_all
  then have deliver: "deliver tool_run 0 (Some s) rcb ctx [(?sn, p)] ?wf = Some (noted obj p ?d)" for rcb ctx
    using one by (simp add: receive_one_def)
  have fs: "frames [(?sn, p)] = frame ?sn p" by simp
  have handle: "af_ipc_handle_receive_message tool_run (frame ?sn p) (int (length (frame ?sn p))) 0 (Some s) rcb ctx ?wf =
      Some (noted obj p ?d)" for rcb ctx
    using handle_frames [of "[(?sn, p)]" "[]" tool_run 0 "Some s" rcb ctx ?wf] reply(3,4) deliver fs by simp
  have "client_recv_loop (Suc (Suc n)) tool_run tool_closer s ?wa =
      Some (next_tick (set_errno 11 ((noted obj p ?d)\<lparr>servers := (servers (noted obj p ?d))(s \<mapsto> sv)\<rparr>)))"
  proof (rule recv_once [where bs = "frame ?sn p"])
    show "servers ?wa s = Some sv" using a(4) w(3) by simp
    show "ext_recv (ext_now ?wa) = Inr (frame ?sn p)" using reply(1) t by (simp add: ext_now_def)
    show "frame ?sn p \<noteq> []" "length (frame ?sn p) \<le> 4096" using reply(4) by (auto simp: frame_def hdr_bytes_def)
    have "svs = (servers ?wa)(s \<mapsto> sv\<lparr>sv_flags := FLAGS_IN_RECEIVE\<rparr>)" using a(4) by (simp add: svs_def)
    then show "af_ipc_handle_receive_message tool_run (frame ?sn p) (int (length (frame ?sn p))) 0 (Some s)
        (sv_receiveCallback sv) (sv_receiveContext sv)
        ((next_tick ?wa)\<lparr>servers := (servers ?wa)(s \<mapsto> sv\<lparr>sv_flags := FLAGS_IN_RECEIVE\<rparr>)\<rparr>) = Some (noted obj p ?d)"
      using handle by simp
    show "servers (noted obj p ?d) s = Some (sv\<lparr>sv_flags := FLAGS_IN_RECEIVE\<rparr>)" by (simp add: svs_def)
    show "ext_recv (ext_now (noted obj p ?d)) = Inl 11" using reply(2) oc(1) by (simp add: ext_now_def)
  qed (rule w(4))
  then show ?thesis using obj(2,3) by (intro exI [of _ obj]) simp
qed

section \<open>The loop\<close>

lemma asked_event: "db_open w s \<Longrightarrow> e \<noteq> Suc (tick w) \<Longrightarrow> events (asked fd s msg w) e = events w e"
  by (simp add: asked_def sent_def next_tick_def log_io_def registered_sel(5))

text \<open>The timer \<open>te\<close> sends the request, and the reply arrives.\<close>

lemma send_dispatch_runs:
  fixes w :: "'a send_world_scheme"
  assumes base: "tool_base oc b U w" and te: "events w te = Some (added_timer 0 tv)"
    and e: "events w e = Some (recv_ev s)" "e \<noteq> te" "e < tick w" "servers w s = Some sv" "sv_flags sv = 0" "sv_event sv = Some e"
    and w: "s_server w = Some s" "pending w s = []"
    and p: "parsed [0 \<mapsto> r, 1 \<mapsto> t] ts w" "length r = 256" "length t = 256" "num_in_params w = int (length ts)" "msg_len ts \<le> 256"
    and env: "\<forall>n. \<not> ext_null (oc n)" "0 \<le> ext_ret (oc (tick w + 2))"
    and reply: "ext_recv (oc (tick w + 3)) = Inr (frame (new_seqNum w s) (enc_msg us))" "ext_recv (oc (tick w + 4)) = Inl 11"
      "msg_len us \<le> 256"
  shows "\<exists>t' obj wH w'. length t' = 256 \<and> length obj = 256 \<and> take (msg_len us) obj = enc_msg us \<and>
    wH = (fired te (added_timer 0 tv) w)\<lparr>heap := (heap w)(1 \<mapsto> t')\<rparr> \<and> idle s sv oc 0 wH \<and>
    w' = next_tick (set_errno 11 ((noted obj (enc_msg us) (answered (sv_fd sv) s (enc_msg ts)
      ((servers w)(s \<mapsto> sv\<lparr>sv_flags := FLAGS_IN_RECEIVE\<rparr>)) wH))\<lparr>servers := (servers w)(s \<mapsto> sv)\<rparr>)) \<and>
    event_base_dispatch (Suc (Suc n)) tool_run tool_closer (send_user False) [te, e] w = Some w'"
proof -
  let ?v = "added_timer 0 tv"
  let ?wf = "fired te ?v w"
  have h: "ev_handler ?v = On_user 0" "ev_added ?v" by (simp_all add: added_timer_def)
  note f = fired_ok [OF base te h(1)]
  obtain sv' e' where "idle s sv' oc 0 ?wf" "sv_event sv' = Some e'" using f(1) w(1) by (auto simp: tool_base_def)
  then have op: "client_open ?wf s" "outcomes ?wf = oc" by (simp_all add: conn_def)
  have "sv\<lparr>sv_flags := 0\<rparr> = sv" using e(5) by (cases sv) simp
  then have idle: "idle s sv oc 0 ?wf" using op e(4,5) by (auto simp: conn_def intro!: exI [of _ 0])
  have m1: "in_params ?wf = in_params w" "num_in_params ?wf = num_in_params w" by (simp_all add: fired_def)
  have p1: "parsed [0 \<mapsto> r, 1 \<mapsto> t] ts ?wf" by (rule parsed_cong [OF p(1)]) (simp_all add: m1)
  have s1: "s_server ?wf = Some s" "pending ?wf s = []" "num_in_params ?wf = int (length ts)" "0 \<le> ext_ret (oc (tick ?wf + 2))"
    using w p(4) env(2) m1 by simp_all
  obtain t' where t': "length t' = 256" "ipc_send_wrapper False ?wf =
      Some (asked (sv_fd sv) s (enc_msg ts) (?wf\<lparr>heap := (heap ?wf)(1 \<mapsto> t')\<rparr>))"
    using wrapper_sends [OF p1 p(3) s1(3) p(5) idle s1(1,2) env(1) s1(4)] by blast
  let ?wH = "?wf\<lparr>heap := (heap w)(1 \<mapsto> t')\<rparr>"
  have run1: "dispatch_event (Suc (Suc n)) tool_run tool_closer (send_user False) te w = Some (asked (sv_fd sv) s (enc_msg ts) ?wH)"
    using te h t'(2) by (simp add: dispatch_event_def send_user_def fired_def)
  have idleH: "idle s sv oc 0 ?wH" using idle by (rule conn_cong) auto
  have "servers ?wH s = Some sv" "pending ?wH s = []" using e(4) w(2) s1(2) by (simp_all add: pending_def)
  moreover have "s_base ?wH = Some b" "b \<in> bases ?wH" using f(1) by (simp_all add: tool_base_def)
  moreover have "heap ?wH 0 = Some r" using parsed_heap [OF p(1), of 0] by simp
  moreover have sn: "new_seqNum ?wH s = new_seqNum w s" by (simp add: new_seqNum_def)
  moreover have "enc_msg us \<noteq> []" by (metis length_enc_msg msg_len_ge list.size(3) not_numeral_le_zero)
  moreover have "tick ?wH = tick w" "servers ?wH = servers w" by simp_all
  ultimately obtain obj where obj: "length obj = 256" "take (length (enc_msg us)) obj = enc_msg us"
    "client_recv_loop (Suc (Suc n)) tool_run tool_closer s (asked (sv_fd sv) s (enc_msg ts) ?wH) =
      Some (next_tick (set_errno 11 ((noted obj (enc_msg us) (answered (sv_fd sv) s (enc_msg ts)
      ((servers w)(s \<mapsto> sv\<lparr>sv_flags := FLAGS_IN_RECEIVE\<rparr>)) ?wH))\<lparr>servers := (servers w)(s \<mapsto> sv)\<rparr>)))"
    using reply_runs [OF idleH _ _ e(5) _ _ _ p(2), of b "enc_msg us" n "sv_fd sv" "enc_msg ts"] reply by auto
  have "db_open ?wH s" using idleH by (simp add: conn_def client_open_def)
  moreover have "events ?wH e = Some (recv_ev s)" "e \<noteq> Suc (tick ?wH)" using e(1-3) by simp_all
  ultimately have "events (asked (sv_fd sv) s (enc_msg ts) ?wH) e = Some (recv_ev s)"
    by (metis asked_event)
  then have "dispatch_event (Suc (Suc n)) tool_run tool_closer (send_user False) e (asked (sv_fd sv) s (enc_msg ts) ?wH) =
      client_recv_loop (Suc (Suc n)) tool_run tool_closer s (asked (sv_fd sv) s (enc_msg ts) ?wH)"
    by (simp add: dispatch_event_def recv_ev_def af_ipcc_client_on_recv_def EV_READ_def del: client_recv_loop.simps)
  with obj(3) have run: "event_base_dispatch (Suc (Suc n)) tool_run tool_closer (send_user False) [te, e] w =
      Some (next_tick (set_errno 11 ((noted obj (enc_msg us) (answered (sv_fd sv) s (enc_msg ts)
      ((servers w)(s \<mapsto> sv\<lparr>sv_flags := FLAGS_IN_RECEIVE\<rparr>)) ?wH))\<lparr>servers := (servers w)(s \<mapsto> sv)\<rparr>)))"
    by (simp only: event_base_dispatch.simps run1 bind.bind_lunit)
  show ?thesis
    by (rule exI [of _ t'], rule exI [of _ obj], rule exI [of _ ?wH], rule exI, intro conjI)
      (use t'(1) obj(1,2) idleH run in simp_all)
qed

section \<open>The end\<close>

lemma send_exit_runs:
  fixes w :: "'a send_world_scheme"
  assumes op: "client_open w s" and sv: "servers w s = Some sv" "sv_flags sv = 0" "sv_closeCallback sv = Some f"
      "sv_event sv = Some e"
    and w: "s_server w = Some s" "s_base w = Some b" "b \<in> bases w" "pending w s = []"
    and p: "parsed m0 ts w" and ev: "events w te \<noteq> None" "events w tm \<noteq> None" "te \<noteq> tm" "te \<noteq> e" "tm \<noteq> e"
  shows "\<exists>w'. send_exit (Some te) (Some tm) w = Some w' \<and> stdout w' = stdout w \<and> heap w' = m0 \<and>
    io_log w' = io_log w @ [Shutdown (sv_fd sv) SHUT_RDWR, Closed (sv_fd sv)]"
proof -
  obtain qs where d: "dealloc_params w = Some (w\<lparr>in_params := qs, heap := m0\<rparr>)"
    using dealloc_parsed [OF p] by blast
  let ?w1 = "w\<lparr>in_params := qs, heap := m0\<rparr>"
  have "sv\<lparr>sv_flags := 0\<rparr> = sv" using sv(2) by (cases sv) simp
  then have op1: "client_open ?w1 s"
    by (intro client_open_cong [OF op, of ?w1 sv 0]) (use sv in simp_all)
  have w1: "servers ?w1 s = Some sv" "s_server ?w1 = Some s" "s_base ?w1 = Some b" "b \<in> bases ?w1" "pending ?w1 s = []"
    using sv w by (simp_all add: pending_def)
  note close = close_tool_runs [OF op1 w1(1) sv(2-4) w1(2-5)]
  let ?w2 = "disconnected s ?w1"
  have ev2: "events ?w2 te \<noteq> None" "events (without_event te ?w2) tm \<noteq> None"
    using close(3) ev by (simp_all add: without_event_def)
  then have f: "event_free te ?w2 = Some (without_event te ?w2)"
    "event_free tm (without_event te ?w2) = Some (without_event tm (without_event te ?w2))"
    by (auto simp: event_free_def without_event_def)
  let ?w3 = "without_event tm (without_event te ?w2)"
  have base: "s_base ?w3 = Some b" "bases ?w3 = bases w" using close(4,5) by (simp_all add: without_event_def)
  then have free: "(if s_base ?w3 \<noteq> None then event_base_free (s_base ?w3) ?w3 else Some ?w3) = Some (?w3\<lparr>bases := bases w - {b}\<rparr>)"
    using w(3) by (simp add: event_base_free_def)
  have "send_exit (Some te) (Some tm) w = Some (?w3\<lparr>bases := bases w - {b}\<rparr>)"
    by (simp only: send_exit_def d close_tool_def [symmetric] close(1) bind.bind_lunit option.case f free)
  moreover have "stdout ?w3 = stdout w" "heap ?w3 = m0"
    using close(2) by (simp_all add: same_tool_def without_event_def)
  moreover have "io_log ?w3 = io_log w @ [Shutdown (sv_fd sv) SHUT_RDWR, Closed (sv_fd sv)]"
    using close(6) by (simp add: without_event_def)
  ultimately show ?thesis by (intro exI [of _ "?w3\<lparr>bases := bases w - {b}\<rparr>"]) simp
qed

section \<open>The whole run\<close>

text \<open>From an open connection to the end: the request, the reply, what is printed.\<close>

lemma send_session_runs:
  fixes w1 w2 :: "'a send_world_scheme" and t :: nat
  assumes w1: "tool_start oc w1" "parsed [0 \<mapsto> r, 1 \<mapsto> x] ts w1" "length r = 256" "length x = 256"
      "num_in_params w1 = int (length ts)" "msg_len ts \<le> 256"
    and w2: "same_tool w1 w2" "tool_base oc b {} w2" "s_server w2 = Some s" "servers w2 s = Some sv"
      "ctls w2 s = Some (open_db (Pool_live []) True)" "events w2 = [e \<mapsto> recv_ev s]" "e < tick w2" "t = tick w2"
      "sv_flags sv = 0" "sv_event sv = Some e" "sv_closeCallback sv = Some f"
    and env: "\<forall>n. \<not> ext_null (oc n)" "ext_ret (oc (t + 4)) = int (msg_len ts) + 8"
      "ext_recv (oc (t + 5)) = Inr (frame 1 (enc_msg us))" "ext_recv (oc (t + 6)) = Inl 11"
    and us: "list_all tlv_wf us" "list_all printable us" "length us \<le> 16" "length (joined (visible us)) < 254" "msg_len us \<le> 256"
  shows "\<exists>w. send_session False (Suc (Suc n)) [t, e] w2 = Some (0, w) \<and> stdout w = stdout w2 @ printed us @ newline \<and>
    dom (heap w) = {0, 1} \<and> io_log w = io_log w2 @ [Sent (sv_fd sv) (frame 0x8001 (enc_msg ts)),
      Shutdown (sv_fd sv) SHUT_RDWR, Closed (sv_fd sv)]"
proof -
  have pend: "pending w2 s = []" using w2(5) by (simp add: pending_def open_db_def)
  note s1 = send_starts(1) [OF w1(1-5) env(1) w2(1-3) pend, where tv = "(0, 200000)"]
  note s2 = send_starts(2-4) [OF w1(1-5) env(1) w2(1-3) pend, where tv = "(0, 200000)" and tv' = "(5, 500000)"]
  let ?w4 = "with_timer 1 (5, 500000) (with_timer 0 (0, 200000) w2)"
  have base: "tool_base oc b {t, Suc t} ?w4" using s2(2) w2(8) by (simp add: tool_ok_base_iff)
  have same: "tool_world.more ?w4 = tool_world.more w1" "heap ?w4 = heap w1" "tick w1 \<le> tick ?w4"
    using w2(1) by (simp_all add: same_tool_def)
  have p4: "parsed [0 \<mapsto> r, 1 \<mapsto> x] ts ?w4" by (rule parsed_cong [OF w1(2) send_more(1) [OF same(1)] same(2,3)])
  have e: "events ?w4 t = Some (added_timer 0 (0, 200000))" "events ?w4 e = Some (recv_ev s)" "e \<noteq> t" "e < tick ?w4"
    "servers ?w4 s = Some sv" "s_server ?w4 = Some s" "pending ?w4 s = []" "num_in_params ?w4 = int (length ts)"
    using w2(3-8) pend send_more(2) [OF same(1)] w1(5) by simp_all
  have sn: "new_seqNum ?w4 s = 1" "(1 :: u32) OR AF_IPC_SEQNUM_NEW_REQUEST_MASK = 0x8001"
    using w2(5) by (simp add: new_seqNum_def open_db_def next_seq_def, code_simp)
  have tick: "tick ?w4 = t + 2" using w2(8) by simp
  have num: "t + 2 + 2 = t + 4" "t + 2 + 3 = t + 5" "t + 2 + 4 = t + 6" by simp_all
  have env4: "0 \<le> ext_ret (oc (tick ?w4 + 2))" "ext_recv (oc (tick ?w4 + 3)) = Inr (frame (new_seqNum ?w4 s) (enc_msg us))"
    "ext_recv (oc (tick ?w4 + 4)) = Inl 11"
    using env(2-4) unfolding sn(1) tick num by simp_all
  obtain t' obj wH w5 where run: "length t' = 256" "length obj = 256" "take (msg_len us) obj = enc_msg us"
    "wH = (fired t (added_timer 0 (0, 200000)) ?w4)\<lparr>heap := (heap ?w4)(1 \<mapsto> t')\<rparr>" "idle s sv oc 0 wH"
    "w5 = next_tick (set_errno 11 ((noted obj (enc_msg us) (answered (sv_fd sv) s (enc_msg ts)
      ((servers ?w4)(s \<mapsto> sv\<lparr>sv_flags := FLAGS_IN_RECEIVE\<rparr>)) wH))\<lparr>servers := (servers ?w4)(s \<mapsto> sv)\<rparr>))"
    "event_base_dispatch (Suc (Suc n)) tool_run tool_closer (send_user False) [t, e] ?w4 = Some w5"
    using send_dispatch_runs [OF base e(1-5) w2(9,10) e(6,7) p4 w1(3,4) e(8) w1(6) env(1) env4 us(5), of n]
    by (elim exE conjE) (rule that; assumption)
  let ?svs = "(servers ?w4)(s \<mapsto> sv\<lparr>sv_flags := FLAGS_IN_RECEIVE\<rparr>)"
  let ?A = "answered (sv_fd sv) s (enc_msg ts) ?svs wH"
  have wH: "events wH = (events ?w4)(t \<mapsto> (added_timer 0 (0, 200000))\<lparr>ev_added := False\<rparr>)" "heap wH = (heap ?w4)(1 \<mapsto> t')"
    "tick wH = tick ?w4" "outcomes wH = oc" "io_log wH = io_log w2" "stdout wH = stdout w2" "s_server wH = Some s"
    "s_base wH = Some b" "b \<in> bases wH" "pending wH s = []" "new_seqNum wH s = 1" "tool_world.more wH = tool_world.more w1"
    using run(4) base e(6,7) sn(1) same(1) by (simp_all add: tool_base_def new_seqNum_def pending_def)
  have w5: "dataReceived w5" "outBufferSize w5 = int (msg_len us)" "heap w5 0 = Some obj" "stdout w5 = stdout w2"
    using run(6) wH(6) by (simp_all add: next_tick_def set_errno_def answered_more)
  let ?w6 = "w5\<lparr>stdout := stdout w2 @ printed us @ newline\<rparr>"
  have printed: "print_reply w5 = Some (0, ?w6)"
    using print_reply_prints [OF w5(1-3) run(2,3) us(5,1-4)] w5(4) by simp
  have moH: "tool_world.more wH = tool_world.more ?w4" unfolding wH(12) same(1) ..
  have "tool_world.more ?w6 = tool_world.more wH"
    using run(6) by (simp add: next_tick_def set_errno_def answered_more)
  then have m6: "in_params ?w6 = in_params wH" by (rule send_more(1))
  have h6: "heap ?w6 = (heap wH)(0 \<mapsto> obj)" "tick wH \<le> tick ?w6"
    using run(6) by (simp_all add: next_tick_def set_errno_def answered_more)
  have "parsed ([0 \<mapsto> r, 1 \<mapsto> x](1 \<mapsto> t')) ts wH"
    by (rule parsed_static [OF p4]) (use wH(2,3) send_more(1) [OF moH] in simp_all)
  then have "parsed ([0 \<mapsto> r, 1 \<mapsto> x](1 \<mapsto> t', 0 \<mapsto> obj)) ts ?w6"
    by (rule parsed_static) (use m6 h6 in simp_all)
  then have p6: "parsed [0 \<mapsto> obj, 1 \<mapsto> t'] ts ?w6" by (simp add: fun_upd_twist)
  have opA: "client_open ?A s" by (rule answered_ok [OF run(5)]) simp
  have "sv\<lparr>sv_flags := 0\<rparr> = sv" using w2(9) by (cases sv) simp
  then have op: "client_open ?w6 s"
    by (intro client_open_cong [OF opA, of _ "sv\<lparr>sv_flags := FLAGS_IN_RECEIVE\<rparr>" 0])
      (use run(6) in \<open>simp_all add: next_tick_def set_errno_def\<close>)
  have "pending ?A s = []"
    using wH(10) w2(5) run(5) skip_seq_ok(3) [of wH s s] by (simp add: conn_def client_open_def pending_def)
  moreover have "io_log ?A = io_log w2 @ [Sent (sv_fd sv) (frame 0x8001 (enc_msg ts))]"
    unfolding answered_sel(7) wH(3-5,11) sn(2) tick num env(2) by simp
  ultimately have w6: "servers ?w6 s = Some sv" "s_server ?w6 = Some s" "s_base ?w6 = Some b" "b \<in> bases ?w6" "pending ?w6 s = []"
    "io_log ?w6 = io_log w2 @ [Sent (sv_fd sv) (frame 0x8001 (enc_msg ts))]"
    using run(6) wH(6-9) by (simp_all add: next_tick_def set_errno_def answered_more pending_def del: answered_sel)
  have ev: "events ?w6 t \<noteq> None" "events ?w6 (Suc t) \<noteq> None" "t \<noteq> Suc t" "t \<noteq> e" "Suc t \<noteq> e"
    using run(6) wH(1) w2(7,8) by (simp_all add: next_tick_def set_errno_def)
  obtain w7 where w7: "send_exit (Some t) (Some (Suc t)) ?w6 = Some w7" "stdout w7 = stdout ?w6"
    "heap w7 = [0 \<mapsto> obj, 1 \<mapsto> t']" "io_log w7 = io_log ?w6 @ [Shutdown (sv_fd sv) SHUT_RDWR, Closed (sv_fd sv)]"
    using send_exit_runs [OF op w6(1) w2(9,11,10) w6(2-5) p6 ev] by blast
  have "send_session False (Suc (Suc n)) [t, e] w2 = Some (0, w7)"
    using s1 s2(1) run(7) by (simp only: send_session_def w2(8) [symmetric] bind.bind_lunit prod.case printed w7(1))
  then show ?thesis using w7(2-4) w6(6) by (intro exI [of _ w7]) auto
qed

text \<open>
  C32. \<^verbatim>\<open>ipc_send\<close> from its arguments to its exit status. If the arguments denote the values \<open>ts\<close>, the
  connection is made and the server answers the request with the values \<open>us\<close>, then exactly one
  request is sent, as request number 1 with the encoding of \<open>ts\<close>, the values \<open>us\<close> are printed
  as one line in the way of \<open>printed\<close>, the exit status is 0, the socket is closed, and only the static buffers are left.
\<close>

theorem send_main_exchange:
  fixes oc :: "nat \<Rightarrow> ext" and fd :: int and t :: nat
  assumes args: "param_parser argv (send_start oc) = Some (IPC_SEND_OK, w1)" "name w1 = Some server" "t = tick w1"
      "num_in_params w1 = int (length ts)" "ts \<noteq> []" "msg_len ts \<le> 256"
      "map (param_value (heap w1)) (take (length ts) (in_params w1)) = map Some ts" "length prefix + length server < 107"
    and env: "\<forall>n. \<not> ext_null (oc n)" "fd = ext_ret (oc (t + 2))" "0 \<le> fd" "0 \<le> ext_ret (oc (t + 3))"
      "ext_ret (oc (t + 5)) = 0" "ext_ret (oc (t + 11)) = int (msg_len ts) + 8"
    and reply: "ext_recv (oc (t + 12)) = Inr (frame 1 (enc_msg us))" "ext_recv (oc (t + 13)) = Inl 11"
    and us: "list_all tlv_wf us" "list_all printable us" "length us \<le> 16" "length (joined (visible us)) < 254" "msg_len us \<le> 256"
  shows "\<exists>w. send_main False (Suc (Suc n)) prefix argv [t + 7, t + 6] (send_start oc) = Some (0, w) \<and>
    stdout w = printed us @ newline \<and> dom (heap w) = {0, 1} \<and>
    io_log w = [Connect fd (prefix @ server), Sent fd (frame 0x8001 (enc_msg ts)), Shutdown fd SHUT_RDWR, Closed fd]"
proof -
  let ?z = "replicate 256 0 :: byte list"
  obtain r w1' ts' where "param_parser argv (send_start oc) = Some (r, w1')" "tool_start oc w1'"
    "parsed [0 \<mapsto> ?z, 1 \<mapsto> ?z] ts' w1'" "stdout w1' = []" "io_log w1' = []"
    "r = IPC_SEND_ERR \<or> r = IPC_SEND_OK \<and> num_in_params w1' = int (length ts')"
    using parse_start [of argv oc] by metis
  then have st: "tool_start oc w1" "parsed [0 \<mapsto> ?z, 1 \<mapsto> ?z] ts' w1" "stdout w1 = []" "io_log w1 = []"
    "num_in_params w1 = int (length ts')"
    using args(1) by (auto simp: IPC_SEND_OK_def IPC_SEND_ERR_def)
  have "length ts' = length ts" using st(5) args(4) by simp
  then have "map Some ts' = map Some ts" using st(2) args(7) by (simp only: parsed_def)
  then have "ts' = ts" by (rule map_injective) simp
  with st(2) have p: "parsed [0 \<mapsto> ?z, 1 \<mapsto> ?z] ts w1" by simp
  let ?sv = "new_server fd (Some t) None 0 (Some 0) (Some (t + 6))"
  obtain w2 where w2: "connect_tool prefix server None w1 = Some (True, w2)" "tool_base oc t {} w2" "same_tool w1 w2"
    "s_server w2 = Some (t + 1)" "servers w2 (t + 1) = Some ?sv" "ctls w2 (t + 1) = Some (open_db (Pool_live []) True)"
    "events w2 = [t + 6 \<mapsto> recv_ev (t + 1)]" "tick w2 = t + 7" "io_log w2 = io_log w1 @ [Connect fd (prefix @ server)]"
    using connect_tool_runs [OF st(1) env(1) args(8,3) env(2-5), of None] by blast
  have z: "length ?z = 256" by simp
  have num: "t + 7 + 4 = t + 11" "t + 7 + 5 = t + 12" "t + 7 + 6 = t + 13" by simp_all
  have e: "t + 6 < tick w2" "t + 7 = tick w2" using w2(8) by simp_all
  have sv: "sv_flags ?sv = 0" "sv_event ?sv = Some (t + 6)" "sv_closeCallback ?sv = Some 0" "sv_fd ?sv = fd"
    by (simp_all add: new_server_def)
  obtain w where w: "send_session False (Suc (Suc n)) [t + 7, t + 6] w2 = Some (0, w)"
    "stdout w = stdout w2 @ printed us @ newline" "dom (heap w) = {0, 1}"
    "io_log w = io_log w2 @ [Sent (sv_fd ?sv) (frame 0x8001 (enc_msg ts)), Shutdown (sv_fd ?sv) SHUT_RDWR, Closed (sv_fd ?sv)]"
    using send_session_runs [OF st(1) p z z args(4,6) w2(3,2,4-7) e sv(1-3) env(1) env(6) [folded num(1)]
        reply(1) [folded num(2)] reply(2) [folded num(3)] us, of n] by blast
  have "0 < num_in_params w1" using args(4,5) by simp
  then have "send_main False (Suc (Suc n)) prefix argv [t + 7, t + 6] (send_start oc) = Some (0, w)"
    by (simp add: send_main_eq args(1,2) w2(1) w(1) IPC_SEND_OK_def IPC_SEND_ERR_def)
  moreover have "stdout w2 = []" using w2(3) st(3) by (simp add: same_tool_def)
  ultimately show ?thesis using w(2-4) w2(9) st(4) sv(4) by (intro exI [of _ w]) simp
qed

theorem send_main_exchange_example:
  "\<exists>w. send_main False 2 ''/var/run/'' [''ipc_send'', ''S'', ''-u8'', ''7''] [7, 6] (send_start send_env) = Some (0, w) \<and>
    stdout w = ''9'' @ newline \<and>
    io_log w = [Connect 300 ''/var/run/S'', Sent 300 (frame 0x8001 (enc_msg [TU8 7])), Shutdown 300 SHUT_RDWR, Closed 300]"
proof -
  let ?w1 = "(send_start send_env)\<lparr>name := Some ''S'', num_in_params := 1,
      in_params := AF_RPC_SET_PARAM_AS_UINT8 7 # replicate 15 \<lparr>base = NULL, ptype = 0\<rparr>\<rparr>"
  have v: "param_value (heap ?w1) (AF_RPC_SET_PARAM_AS_UINT8 7) = Some (TU8 7)"
    by (simp add: param_value_def AF_RPC_SET_PARAM_AS_UINT8_def)
  have len: "msg_len [TU8 7] = 5" "msg_len [TU8 9] = 5" "printed [TU8 9] = ''9''" "length (joined (visible [TU8 9])) = 1"
    by code_simp+
  have t: "0 = tick ?w1" by (simp add: send_start_def)
  have "\<exists>w. send_main False (Suc (Suc 0)) ''/var/run/'' [''ipc_send'', ''S'', ''-u8'', ''7''] [0 + 7, 0 + 6] (send_start send_env) =
      Some (0, w) \<and> stdout w = printed [TU8 9] @ newline \<and> dom (heap w) = {0, 1} \<and>
    io_log w = [Connect 300 (''/var/run/'' @ ''S''), Sent 300 (frame 0x8001 (enc_msg [TU8 7])), Shutdown 300 SHUT_RDWR, Closed 300]"
    by (rule send_main_exchange [OF send_args_example _ t, where ts = "[TU8 7]"])
      (use len v in \<open>simp_all add: send_env_def\<close>)
  then show ?thesis unfolding len(3) by (auto simp: numeral_2_eq_2)
qed

section \<open>The log of a debug build\<close>

text \<open>Two digits and a blank for each byte, without the first blank.\<close>

lemma put_debug_ok:
  assumes "0 \<le> pos" "pos + 3 * int (length xs) \<le> int (length buffer) + (if first then 1 else 0) - 1"
  shows "\<exists>buffer'. put_debug buffer pos first xs =
      Some (buffer', pos + 3 * int (length xs) - (if first \<and> xs \<noteq> [] then 1 else 0)) \<and> length buffer' = length buffer"
  using assms
proof (induction buffer pos first xs rule: put_debug.induct)
  case (2 buffer pos first b bs)
  let ?s = "if first then format_02x b else CHR '' '' # format_02x b"
  let ?k = "if first then 2 else 3 :: int"
  have len: "int (length ?s) = ?k" by simp
  let ?b1 = "poke buffer (nat pos) (bytes_of ?s @ [0])"
  have put: "put buffer pos (bytes_of ?s @ [0]) = Some ?b1"
    using 2(2,3) by (auto simp: put_def split: if_splits)
  have lb: "length ?b1 = length buffer" using 2(2,3) by (auto split: if_splits)
  have "0 \<le> pos + int (length ?s)" "pos + int (length ?s) + 3 * int (length bs) \<le> int (length ?b1) + (if False then 1 else 0) - 1"
    using 2(2,3) len by (auto split: if_splits)
  from 2(1) [OF refl put this] obtain b2 where "put_debug ?b1 (pos + int (length ?s)) False bs =
      Some (b2, pos + int (length ?s) + 3 * int (length bs))" "length b2 = length ?b1" by auto
  then show ?case using put len lb by (auto simp: Let_def)
qed simp

text \<open>
  C33. The log of a debug build overflows its buffer exactly when the message fills
  \<^verbatim>\<open>txBuffer\<close>: for every shorter message the text with its line feed and terminator fits.
\<close>

theorem debug_text_overflows:
  assumes "length xs \<le> 256"
  shows "debug_text xs = None \<longleftrightarrow> length xs = 256"
proof -
  let ?b = "replicate (nat IPC_SEND_INSTR_MAX_LEN * 3) (0 :: byte)"
  have len: "length ?b = 768" by (simp add: IPC_SEND_INSTR_MAX_LEN_def)
  let ?p = "0 + 3 * int (length xs) - (if True \<and> xs \<noteq> [] then 1 else 0)"
  have "0 + 3 * int (length xs) \<le> int (length ?b) + (if True then 1 else 0) - 1" using len assms by simp
  from put_debug_ok [OF order_refl this] obtain b1 where b1: "put_debug ?b 0 True xs = Some (b1, ?p)" "length b1 = 768"
    using len by metis
  have p: "0 \<le> ?p" by (cases xs) simp_all
  have "put b1 ?p [0x0A] = Some (poke b1 (nat ?p) [0x0A])" and lp: "length (poke b1 (nat ?p) [0x0A]) = 768"
    using assms b1(2) p by (auto simp: put_def)
  then have "debug_text xs = put (poke b1 (nat ?p) [0x0A]) (?p + 1) [0]" using b1(1) by (simp add: debug_text_def)
  moreover have "length xs = 256 \<Longrightarrow> xs \<noteq> []" by auto
  ultimately show ?thesis using assms lp p by (auto simp: put_def)
qed

theorem debug_text_overflows_example:
  "debug_text (replicate 256 7) = None \<and> debug_text (replicate 255 7) \<noteq> None"
  using debug_text_overflows [of "replicate 256 7"] debug_text_overflows [of "replicate 255 7"] by simp

end
