(* ===== verification/Wait_Main.thy ===== *)
theory Wait_Main
  imports Tool_Loop
begin

text \<open>
  The program \<^verbatim>\<open>src/pkg/src/ipc_wait.c\<close>: it waits for a message from a server and prints its values,
  with the callbacks and the printing of \<^verbatim>\<open>Tool_Loop\<close>. Messages on \<^verbatim>\<open>stderr\<close> and in the log are
  left out.
\<close>

section \<open>The command line\<close>

text \<open>The name of the server and the timeout in seconds; \<open>None\<close> is \<^verbatim>\<open>usage\<close> and \<^verbatim>\<open>return retVal\<close>.\<close>

definition wait_args :: "string list \<Rightarrow> (string \<times> int) option" where
  "wait_args argv =
     (if length argv \<ge> 2 then
        (if length argv \<ge> 3 then
           (if argv ! 2 = ''-t'' then
              (if length argv = 4 then Some (argv ! 1, atoi (argv ! 3)) else None)
            else None)
         else Some (argv ! 1, 10))
      else None)"

section \<open>main\<close>

text \<open>\<^verbatim>\<open>handle_receive\<close>, \<^verbatim>\<open>handle_close\<close> and \<^verbatim>\<open>handle_timeout\<close> as callbacks of the libraries.\<close>

definition wait_run :: "'a tool_world_ext client_world_ext runner" where
  "wait_run cb status seqNum payload ctx w =
     handle_receive status seqNum (if status = AF_IPC_STATUS_OK then Some payload else None) ctx w"

definition wait_closer :: "'a tool_world_ext closer" where
  "wait_closer cb status ctx w = handle_close status ctx w"

definition wait_user :: "nat \<Rightarrow> 'a tool_world_scheme \<Rightarrow> 'a tool_world_scheme option" where
  "wait_user k w = handle_timeout w"

text \<open>The code at the label \<^verbatim>\<open>exit\<close>.\<close>

definition wait_exit :: "nat option \<Rightarrow> 'a tool_world_scheme \<Rightarrow> 'a tool_world_scheme option" where
  "wait_exit tm_event w = do {
     w \<leftarrow> (if s_server w \<noteq> None then af_ipcc_close wait_closer (s_server w) w else Some w);
     w \<leftarrow> (case tm_event of None \<Rightarrow> Some w | Some e \<Rightarrow> event_free e w);
     if s_base w \<noteq> None then event_base_free (s_base w) w else Some w
   }"

definition wait_session :: "nat \<Rightarrow> int \<Rightarrow> nat list \<Rightarrow> 'a tool_world_scheme \<Rightarrow> (int \<times> 'a tool_world_scheme) option" where
  "wait_session n timeout evs w = do {
     (tm_event, w) \<leftarrow> add_timer 0 (timeout, 0) w;
     w \<leftarrow> event_base_dispatch n wait_run wait_closer wait_user evs w;
     (retVal, w) \<leftarrow> print_reply w;
     w \<leftarrow> wait_exit tm_event w;
     Some (retVal, w)
   }"

definition wait_main ::
    "nat \<Rightarrow> string \<Rightarrow> string list \<Rightarrow> nat list \<Rightarrow> 'a tool_world_scheme \<Rightarrow> (int \<times> 'a tool_world_scheme) option" where
  "wait_main n prefix argv evs w = do {
     m \<leftarrow> store (heap w) outBuffer (replicate 256 0);
     let w = w\<lparr>heap := m\<rparr>;
     case wait_args argv of
       None \<Rightarrow> Some (1, w)
     | Some (server, timeout) \<Rightarrow> do {
         (connected, w) \<leftarrow> connect_tool prefix server (Some 0) w;
         if \<not> connected then Some (1, w) else wait_session n timeout evs w
       }
   }"

end
