(* ===== verification/Wait_Correct.thy ===== *)
theory Wait_Correct
  imports Wait_Main Tool_Exchange
begin

text \<open>
  The properties of \<^verbatim>\<open>src/pkg/src/ipc_wait.c\<close>: it is safe with any modest server, prints at most one
  line and says so in its exit status, and releases what it has; its loop is told to exit by the
  timer, a message, or the end of the connection; and it prints the values of the message it gets.
\<close>

section \<open>The loop\<close>

lemma wait_is_tool: "wait_run = tool_run" "wait_closer = tool_closer"
  by (simp_all add: fun_eq_iff wait_run_def tool_run_def wait_closer_def tool_closer_def wait_callbacks)

lemma wait_user_eq: "wait_user k w = event_base_loopexit (s_base w) w"
  by (simp add: wait_user_def handle_timeout_def)

text \<open>The tool keeps its connection, or has forgotten it.\<close>

interpretation waiting: tool_loop wait_user "\<lambda>w. s_server w = srv \<or> s_server w = None" oc b U tm for srv oc b U tm
proof
  fix w :: "'a tool_world_scheme" and e v k
  assume ok: "tool_ok oc b U tm w" and e: "events w e = Some v" "ev_handler v = On_user k"
    and srv: "s_server w = srv \<or> s_server w = None"
  have w: "tool_base oc b U w" "tm \<in> U" using ok by (auto simp: tool_ok_base_iff)
  note f = fired_ok [OF w(1) e]
  have "wait_user k (fired e v w) = Some ((fired e v w)\<lparr>exiting := True\<rparr>)"
    "tool_ok oc b U tm ((fired e v w)\<lparr>exiting := True\<rparr>)"
    unfolding wait_user_eq by (rule loopexit_ok [OF f(1) w(2)])+
  then show "\<exists>w'. wait_user k (w\<lparr>events := (events w)(e \<mapsto> v\<lparr>ev_added := False\<rparr>)\<rparr>) = Some w' \<and>
      tool_ok oc b U tm w' \<and> (s_server w' = srv \<or> s_server w' = None) \<and> stdout w' = stdout w \<and>
      (exiting w \<longrightarrow> exiting w') \<and> (e = tm \<longrightarrow> exiting w')"
    using srv by (simp add: fired_def)
qed (auto simp: kept_def)

text \<open>The state when the loop starts.\<close>

lemma wait_starts:
  assumes "tool_start oc w" "\<forall>n. \<not> ext_null (oc n)" "length prefix + length server < 107"
    and "connect_tool prefix server rcb w = Some (True, w1)"
  shows "add_timer 0 tv w1 = Some (Some (tick w1), with_timer 0 tv w1)"
    and "tool_ok oc (tick w) {tick w1} (tick w1) (with_timer 0 tv w1)"
    and "same_tool w (with_timer 0 tv w1)" "exiting (with_timer 0 tv w1) = exiting w"
proof -
  obtain ok w' where "connect_tool prefix server rcb w = Some (ok, w')" "same_tool w w'"
    "ok \<Longrightarrow> exiting w' = exiting w \<and> tool_base oc (tick w) {} w'"
    using connect_tool_ok [OF assms(1-3), of rcb] by (auto split: if_splits)
  then have c: "same_tool w w1" "exiting w1 = exiting w" "tool_base oc (tick w) {} w1" using assms(4) by auto
  then have "\<not> ext_null (ext_now w1)" using assms(2) by (simp add: tool_base_def ext_now_def)
  then show "add_timer 0 tv w1 = Some (Some (tick w1), with_timer 0 tv w1)" by (rule add_timer_eq)
  note t = add_timer_ok(1,2) [OF c(3), where k = 0 and tv = tv]
  have "lasting (with_timer 0 tv w1) (tick w1) = Some (added_timer 0 tv)" by (simp add: with_timer_lasting)
  then show "tool_ok oc (tick w) {tick w1} (tick w1) (with_timer 0 tv w1)"
    using t(1) by (simp add: tool_ok_base_iff added_timer_def)
  show "same_tool w (with_timer 0 tv w1)" using c(1) t(2) by (rule same_tool_trans)
  show "exiting (with_timer 0 tv w1) = exiting w" using c(2) by simp
qed

lemma wait_exit_ok:
  assumes "tool_ok oc b {tm} tm w"
  shows "\<exists>w'. wait_exit (Some tm) w = Some w' \<and> released w' \<and> stdout w' = stdout w"
proof -
  obtain w1 where w1: "close_tool w = Some w1" "tool_base oc b {tm} w1" "s_server w1 = None" "same_tool w w1"
    using close_tool_ok [OF assms] by blast
  have tm: "tm \<in> {tm}" by simp
  note free = free_timer_ok [OF w1(2,3) tm]
  have "tool_base oc b {} (without_event tm w1)" using free(2) by simp
  then obtain w2 where w2: "(if s_base (without_event tm w1) \<noteq> None
      then event_base_free (s_base (without_event tm w1)) (without_event tm w1) else Some (without_event tm w1)) = Some w2"
    "released w2" "same_tool (without_event tm w1) w2"
    using free_base_ok free(3) by blast
  have "wait_exit (Some tm) w = Some w2"
    by (simp only: wait_exit_def wait_is_tool close_tool_def [symmetric] w1(1) bind.bind_lunit option.case free(1) w2(1))
  moreover have "stdout w2 = stdout w" using w1(4) free(4) w2(3) by (simp add: same_tool_def)
  ultimately show ?thesis using w2(2) by blast
qed

section \<open>Any server\<close>

text \<open>The state in which the program starts.\<close>

definition wait_start :: "(nat \<Rightarrow> ext) \<Rightarrow> tool_world" where
  "wait_start oc = \<lparr>ctls = Map.empty, reqs = Map.empty, events = Map.empty, io_log = [], cerrno = 0, tick = 0,
     outcomes = oc, servers = Map.empty, heap = [0 \<mapsto> replicate 256 0, 1 \<mapsto> replicate 256 0],
     bases = {}, s_base = None, s_server = None, dataReceived = False, outBufferSize = 0, exiting = False, stdout = []\<rparr>"

lemma wait_start_ok: "tool_start oc (wait_start oc)"
  by (simp add: tool_start_def wait_start_def world_ok_def message_kept_def)

lemma clear_buffer: "store (heap (wait_start oc)) outBuffer (replicate 256 0) = Some (heap (wait_start oc))"
  by (simp add: store_def load_def outBuffer_def overwrite_def wait_start_def poke_def fun_eq_iff)

text \<open>
  C34. \<^verbatim>\<open>ipc_wait\<close> is safe under four conditions: every allocation succeeds, the path of the server has
  less than 107 characters, no message of the server is longer than \<^verbatim>\<open>outBuffer\<close> or has an integer
  that overflows \<^verbatim>\<open>tmp\<close> (\<open>modest\<close>), and the server is silent in the end. Then \<^verbatim>\<open>main\<close> returns for
  any other arguments, any results of the socket calls and any events. It prints one line and
  returns 0, or prints nothing and returns 1, and all events, requests and the event base are
  released. The structure of the connection is released too, except in one case: the arguments
  are good and the connection fails; then the structure the library allocated is lost.
\<close>

theorem wait_main_safe:
  assumes "\<forall>n. \<not> ext_null (oc n)" "modest oc" "silent_from N oc" "N < n"
    and "\<And>server timeout. wait_args argv = Some (server, timeout) \<Longrightarrow> length prefix + length server < 107"
  shows "\<exists>r w. wait_main n prefix argv evs (wait_start oc) = Some (r, w) \<and>
    (r = 0 \<and> (\<exists>line. stdout w = line @ newline) \<or> r = 1 \<and> stdout w = []) \<and>
    events w = Map.empty \<and> reqs w = Map.empty \<and> bases w = {} \<and> s_server w = None \<and>
    (if wait_args argv = None \<or> connects oc 0 then servers w = Map.empty \<and> ctls w = Map.empty else connect_leak w)"
proof (cases "wait_args argv")
  case None
  then have "wait_main n prefix argv evs (wait_start oc) = Some (1, wait_start oc)"
    by (simp add: wait_main_def clear_buffer)
  then show ?thesis using None by (simp add: wait_start_def)
next
  case (Some a)
  obtain server timeout where a: "a = (server, timeout)" by (cases a)
  have len: "length prefix + length server < 107" using assms(5) Some a by simp
  obtain ok w1 where c: "connect_tool prefix server (Some 0) (wait_start oc) = Some (ok, w1)" "same_tool (wait_start oc) w1"
    "\<not> ok \<Longrightarrow> reqs w1 = Map.empty \<and> events w1 = Map.empty \<and> bases w1 = {} \<and> s_server w1 = None \<and> connect_leak w1"
    "ok = connects oc 0"
    using connect_tool_ok [OF wait_start_ok assms(1) len, of "Some 0"] by (auto simp: wait_start_def split: if_splits)
  show ?thesis
  proof (cases ok)
    case False
    then have "wait_main n prefix argv evs (wait_start oc) = Some (1, w1)"
      using Some a c(1) by (simp add: wait_main_def clear_buffer)
    then show ?thesis using Some False c(2,3,4) by (simp add: same_tool_def) (simp add: wait_start_def)
  next
    case True
    let ?w2 = "with_timer 0 (timeout, 0) w1" and ?tm = "tick w1" and ?b = "tick (wait_start oc)"
    note st = wait_starts [OF wait_start_ok assms(1) len c(1) [unfolded eqTrueI [OF True]], of "(timeout, 0)"]
    obtain w3 where w3: "event_base_dispatch n tool_run tool_closer wait_user evs ?w2 = Some w3"
      "tool_ok oc ?b {?tm} ?tm w3" "stdout w3 = stdout ?w2"
      using waiting.dispatch_ok [OF st(2) disjI1 [OF refl] assms(2-4), of evs] by auto
    then obtain r s where r: "print_reply w3 = Some (r, w3\<lparr>stdout := stdout w3 @ s\<rparr>)"
      "r = 0 \<and> (\<exists>line. s = line @ newline) \<or> r = 1 \<and> s = []"
      using print_reply_ok [of w3] by (auto simp: tool_ok_def)
    obtain w4 where w4: "wait_exit (Some ?tm) (w3\<lparr>stdout := stdout w3 @ s\<rparr>) = Some w4" "released w4"
      "stdout w4 = stdout w3 @ s"
      using wait_exit_ok [OF tool_ok_stdout [OF w3(2)], of "stdout w3 @ s"] by auto
    have "wait_main n prefix argv evs (wait_start oc) = Some (r, w4)"
      using Some a c(1) True st(1) w3(1) r(1) w4(1)
      by (simp add: wait_main_def clear_buffer wait_session_def wait_is_tool)
    moreover have "stdout w4 = s" using w4(3) w3(3) st(3) by (simp add: same_tool_def) (simp add: wait_start_def)
    ultimately show ?thesis using r(2) w4(2) True c(4) by (auto simp: released_def)
  qed
qed

section \<open>An example\<close>

definition wait_env :: "nat \<Rightarrow> ext" where
  "wait_env n = \<lparr>ext_null = False, ext_ret = (if n = 5 then 0 else 300), ext_errno = 0,
     ext_recv = (if n = 8 then Inr (frame 0 (enc_msg [TU8 7])) else Inl 11)\<rparr>"

lemma wait_env_ok: "\<forall>n. \<not> ext_null (wait_env n)" "modest wait_env" "silent_from 9 wait_env"
proof -
  have "msg_len [TU8 7] = 5" by code_simp
  then have "tool_message (take k (drop i (frame 0 (enc_msg [TU8 7]))))" if "8 \<le> i" for i k
    using that by (intro short_message) simp
  then show "modest wait_env" by (auto simp: modest_def wait_env_def split: if_splits)
qed (simp_all add: wait_env_def silent_from_def)

lemma wait_args_example: "wait_args [''ipc_wait'', ''S'', ''-t'', ''5''] = Some (''S'', 5)"
  by code_simp

theorem wait_main_safe_example:
  "\<exists>r w. wait_main 10 ''/var/run/'' [''ipc_wait'', ''S'', ''-t'', ''5''] [6, 7, 3] (wait_start wait_env) = Some (r, w) \<and>
    (r = 0 \<and> (\<exists>line. stdout w = line @ newline) \<or> r = 1 \<and> stdout w = []) \<and> events w = Map.empty \<and> servers w = Map.empty"
  using wait_main_safe [OF wait_env_ok(1-3), of 10 "[''ipc_wait'', ''S'', ''-t'', ''5'']" "''/var/run/''" "[6, 7, 3]"]
    wait_args_example by (auto simp: connects_def wait_env_def)

text \<open>
  C35. When the loop of \<^verbatim>\<open>ipc_wait\<close> is done, it has been told to exit if the timer has run, a message
  was kept, or the library has freed the structure of the connection \<open>s\<close>, because the peer has
  closed it or it has failed. The tool has forgotten \<open>s\<close> exactly in the last case, so that
  it never closes the connection twice.
\<close>

theorem wait_loop_exits:
  assumes "\<forall>n. \<not> ext_null (oc n)" "modest oc" "silent_from N oc" "N < n" "length prefix + length server < 107"
    and "connect_tool prefix server (Some 0) (wait_start oc) = Some (True, w1)" "s_server w1 = Some s"
    and "add_timer 0 (timeout, 0) w1 = Some (Some tm, w2)"
  shows "\<exists>w3. event_base_dispatch n wait_run wait_closer wait_user evs w2 = Some w3 \<and>
    (tm \<in> set evs \<or> dataReceived w3 \<or> servers w3 s = None \<longrightarrow> exiting w3) \<and>
    (if servers w3 s = None then s_server w3 = None else s_server w3 = Some s)"
proof -
  note st = wait_starts [OF wait_start_ok assms(1,5,6), of "(timeout, 0)"]
  have w2: "tm = tick w1" "w2 = with_timer 0 (timeout, 0) w1" using st(1) assms(8) by simp_all
  obtain w3 where w3: "event_base_dispatch n tool_run tool_closer wait_user evs w2 = Some w3"
    "tool_ok oc (tick (wait_start oc)) {tm} tm w3" "tm \<in> set evs \<longrightarrow> exiting w3"
    "s_server w3 = s_server w2 \<or> s_server w3 = None"
    using waiting.dispatch_ok [OF st(2) disjI1 [OF refl] assms(2-4), of evs] w2 by auto
  moreover have "dataReceived w3 \<longrightarrow> exiting w3" using w3(2) by (auto simp: tool_ok_def message_kept_def)
  moreover have "if servers w3 s = None then s_server w3 = None \<and> exiting w3 else s_server w3 = Some s"
    using w3(2,4) w2(2) assms(7) by (auto simp: tool_ok_def dom_def split: option.splits)
  ultimately show ?thesis by (auto simp: wait_is_tool split: if_splits)
qed

theorem wait_loop_exits_example:
  "\<exists>w1 w2 w3. connect_tool ''/var/run/'' ''S'' (Some 0) (wait_start wait_env) = Some (True, w1) \<and>
    add_timer 0 (5, 0) w1 = Some (Some 7, w2) \<and>
    event_base_dispatch 10 wait_run wait_closer wait_user [7] w2 = Some w3 \<and> exiting w3"
proof -
  have t: "0 = tick (wait_start wait_env)" by (simp add: wait_start_def)
  have ret: "300 = ext_ret (wait_env (0 + 2))" "(0 :: int) \<le> 300" "0 \<le> ext_ret (wait_env (0 + 3))" "ext_ret (wait_env (0 + 5)) = 0"
    by (simp_all add: wait_env_def)
  have len: "length ''/var/run/'' + length ''S'' < 107" by simp
  obtain w1 where w1: "connect_tool ''/var/run/'' ''S'' (Some 0) (wait_start wait_env) = Some (True, w1)" "tick w1 = 7"
    "s_server w1 = Some (0 + 1)"
    using connect_tool_runs [OF wait_start_ok wait_env_ok(1) len t ret, of "Some 0"] by auto
  have timer: "add_timer 0 (5, 0) w1 = Some (Some 7, with_timer 0 (5, 0) w1)"
    using wait_starts(1) [OF wait_start_ok wait_env_ok(1) len w1(1)] w1(2) by simp
  from wait_loop_exits [OF wait_env_ok _ len w1(1,3) timer, of 10 "[7]"] w1(1) timer show ?thesis by auto
qed

section \<open>The message\<close>

text \<open>Messages that the receive callback gets: unsolicited ones and requests.\<close>

definition unasked :: "u32 \<Rightarrow> bool" where
  "unasked sn \<longleftrightarrow> AF_IPC_GET_SEQ_ID sn = 0 \<or> AF_IPC_SEQNUM_IS_NEW_REQUEST (AF_IPC_GET_SEQ_ID sn)"

lemma deliver_notes:
  assumes "fs \<noteq> []" "\<forall>(sn, p) \<in> set fs. unasked sn \<and> length p \<le> 256"
    and "heap w 0 = Some obj0" "length obj0 = 256" "s_base w = Some b" "b \<in> bases w"
  shows "\<exists>obj. deliver tool_run cid rc (Some cb) ctx fs w = Some (noted obj (snd (last fs)) w) \<and> length obj = 256 \<and>
    take (length (snd (last fs))) obj = snd (last fs)"
  using assms
proof (induction fs arbitrary: w obj0)
  case (Cons f fs)
  obtain sn p where f: "f = (sn, p)" by (cases f)
  have p: "unasked sn" "length p \<le> 256" using Cons.prems(2) f by auto
  from tool_run_notes [OF Cons.prems(3,4) p(2) Cons.prems(5,6), of cb "incoming_seqNum cid (AF_IPC_GET_SEQ_ID sn)" ctx]
  obtain obj where obj: "receive_one tool_run cid rc (Some cb) ctx (AF_IPC_GET_SEQ_ID sn) p w = Some (noted obj p w)"
    "length obj = 256" "take (length p) obj = p"
    using p(1) by (auto simp: receive_one_def unasked_def)
  show ?case
  proof (cases "fs = []")
    case True
    then show ?thesis using f obj by (intro exI [of _ obj]) simp
  next
    case False
    have "heap (noted obj p w) 0 = Some obj" "s_base (noted obj p w) = Some b" "b \<in> bases (noted obj p w)"
      using Cons.prems(5,6) by simp_all
    from Cons.IH [OF False _ this(1) obj(2) this(2,3)] Cons.prems(2) obtain obj' where
      "deliver tool_run cid rc (Some cb) ctx fs (noted obj p w) = Some (noted obj' (snd (last fs)) (noted obj p w))"
      "length obj' = 256" "take (length (snd (last fs))) obj' = snd (last fs)" by auto
    with f obj(1) False show ?thesis by (auto simp: noted_noted)
  qed
qed simp

text \<open>
  C36. \<^verbatim>\<open>ipc_wait\<close> prints the message it waits for: when the connection is made and messages arrive in one
  piece, the values of the last of them are printed as one line in the way of \<open>printed\<close>, the exit status is 0, and the
  socket has been connected once and closed.
\<close>

theorem wait_main_prints:
  fixes oc :: "nat \<Rightarrow> ext" and fd :: int
  assumes args: "wait_args argv = Some (server, timeout)" "length prefix + length server < 107"
    and env: "\<forall>n. \<not> ext_null (oc n)" "fd = ext_ret (oc 2)" "0 \<le> fd" "0 \<le> ext_ret (oc 3)" "ext_ret (oc 5) = 0"
    and data: "ext_recv (oc 8) = Inr (frames fs)" "ext_recv (oc 9) = Inl 11" "length (frames fs) \<le> 4096" "fs \<noteq> []"
      "\<forall>(sn, p) \<in> set fs. unasked sn \<and> length p \<le> 256" "snd (last fs) = enc_msg ts"
    and ts: "list_all tlv_wf ts" "list_all printable ts" "length ts \<le> 16" "length (joined (visible ts)) < 254"
  shows "\<exists>w. wait_main (Suc (Suc n)) prefix argv [6] (wait_start oc) = Some (0, w) \<and>
    stdout w = printed ts @ newline \<and>
    io_log w = [Connect fd (prefix @ server), Shutdown fd SHUT_RDWR, Closed fd]"
proof -
  let ?w0 = "wait_start oc" and ?sv = "new_server fd (Some 0) (Some 0) 0 (Some 0) (Some 6)"
  have t: "tick ?w0 = 0" "io_log ?w0 = []" "exiting ?w0 = False" by (simp_all add: wait_start_def)
  have e: "fd = ext_ret (oc (0 + 2))" "0 \<le> ext_ret (oc (0 + 3))" "ext_ret (oc (0 + 5)) = 0"
    using env by (simp_all add: numeral_2_eq_2)
  obtain w1 where w1: "connect_tool prefix server (Some 0) ?w0 = Some (True, w1)" "tool_base oc 0 {} w1"
    "same_tool ?w0 w1" "s_server w1 = Some 1" "servers w1 1 = Some ?sv" "ctls w1 1 = Some (open_db (Pool_live []) True)"
    "events w1 = [6 \<mapsto> recv_ev 1]" "tick w1 = 7" "io_log w1 = [Connect fd (prefix @ server)]"
    using connect_tool_runs [OF wait_start_ok env(1) args(2) t(1) [symmetric] e(1) env(3) e(2,3), of "Some 0"] t(2)
    by auto
  let ?w2 = "with_timer 0 (timeout, 0) w1"
  have timer: "add_timer 0 (timeout, 0) w1 = Some (Some 7, ?w2)"
    using add_timer_eq [of w1 0 "(timeout, 0)"] w1(2,8) env(1) by (simp add: tool_base_def ext_now_def)
  note t2 = add_timer_ok(1,2) [OF w1(2), where k = 0 and tv = "(timeout, 0)"]
  have base: "s_base ?w2 = Some 0" "0 \<in> bases ?w2" "outcomes ?w2 = oc"
    using t2(1) by (simp_all add: tool_base_def)
  have heap: "heap ?w2 0 = Some (replicate 256 0)" using w1(3) by (simp add: same_tool_def) (simp add: wait_start_def)
  have sv: "servers ?w2 1 = Some ?sv" "sv_flags ?sv = 0" using w1(5) by (simp_all add: new_server_def)
  let ?wf = "(next_tick ?w2)\<lparr>servers := (servers ?w2)(1 \<mapsto> ?sv\<lparr>sv_flags := FLAGS_IN_RECEIVE\<rparr>)\<rparr>"
  have hf: "heap ?wf 0 = Some (replicate 256 0)" "s_base ?wf = Some 0" "0 \<in> bases ?wf"
    using heap base by (simp_all add: next_tick_def)
  obtain obj where obj: "deliver tool_run 0 (Some 1) (Some 0) 0 fs ?wf = Some (noted obj (enc_msg ts) ?wf)"
    "length obj = 256" "take (length (enc_msg ts)) obj = enc_msg ts"
    using deliver_notes [OF data(4,5) hf(1) _ hf(2,3), of 0 "Some 1" 0 0] data(6) by auto
  let ?wn = "noted obj (enc_msg ts) ?wf"
  have len: "msg_len ts \<le> 256" using data(4,5,6) by (auto dest!: bspec [OF _ last_in_set])
  have ne: "frames fs \<noteq> []" using data(4) by (cases fs) (auto simp: frames_def frame_def hdr_bytes_def)
  have "enc_msg ts \<noteq> []" by (metis length_enc_msg msg_len_ge list.size(3) not_numeral_le_zero)
  have "af_ipc_handle_receive_message tool_run (frames fs @ []) (int (length (frames fs @ []))) 0 (Some 1) (Some 0) 0 ?wf =
      deliver tool_run 0 (Some 1) (Some 0) 0 fs ?wf"
    by (rule handle_frames) (use data \<open>enc_msg ts \<noteq> []\<close> in auto)
  then have handle: "af_ipc_handle_receive_message tool_run (frames fs) (int (length (frames fs))) 0 (Some 1)
      (sv_receiveCallback ?sv) (sv_receiveContext ?sv) ?wf = Some ?wn"
    using obj(1) by (simp add: new_server_def)
  let ?w3 = "next_tick (set_errno 11 (?wn\<lparr>servers := (servers ?wn)(1 \<mapsto> ?sv)\<rparr>))"
  have "client_recv_loop (Suc (Suc n)) tool_run tool_closer 1 ?w2 = Some ?w3"
  proof (rule recv_once [OF sv _ ne data(3) handle])
    show "ext_recv (ext_now ?w2) = Inr (frames fs)" using data(1) base(3) w1(8) by (simp add: ext_now_def)
    show "ext_recv (ext_now ?wn) = Inl 11" using data(2) base(3) w1(8) by (simp add: ext_now_def next_tick_def)
  qed simp
  then have dispatch: "event_base_dispatch (Suc (Suc n)) wait_run wait_closer wait_user [6] ?w2 = Some ?w3"
    using w1(7,8)
    by (simp add: wait_is_tool dispatch_event_def recv_ev_def af_ipcc_client_on_recv_def EV_READ_def)
  have w3: "dataReceived ?w3" "outBufferSize ?w3 = int (msg_len ts)" "heap ?w3 0 = Some obj" "stdout ?w3 = []"
    using w1(3) by (simp_all add: next_tick_def set_errno_def same_tool_def) (simp add: wait_start_def)
  let ?w4 = "?w3\<lparr>stdout := printed ts @ newline\<rparr>"
  have obj': "take (msg_len ts) obj = enc_msg ts" using obj(3) by simp
  have printed: "print_reply ?w3 = Some (0, ?w4)"
    using print_reply_prints [OF w3(1-3) obj(2) obj' len ts] w3(4) by simp
  obtain sv' where "idle 1 sv' oc 0 ?w2" using t2(1) w1(4) by (auto simp: tool_base_def)
  then have "client_open ?w2 1" by (auto simp: conn_def)
  moreover have "?sv\<lparr>sv_flags := 0\<rparr> = ?sv" by (simp add: new_server_def)
  ultimately have op: "client_open ?w4 1"
    by (intro client_open_cong [of ?w2 1 ?w4 ?sv 0]) (use sv in \<open>simp_all add: next_tick_def set_errno_def\<close>)
  have s4: "servers ?w4 1 = Some ?sv" "sv_closeCallback ?sv = Some 0" "sv_event ?sv = Some 6" "s_server ?w4 = Some 1"
    "s_base ?w4 = Some 0" "0 \<in> bases ?w4" "pending ?w4 1 = []" "sv_fd ?sv = fd" "io_log ?w4 = [Connect fd (prefix @ server)]"
    using w1(4,6,9) base by (simp_all add: next_tick_def set_errno_def new_server_def pending_def open_db_def)
  note close = close_tool_runs [OF op s4(1) sv(2) s4(2-7)]
  let ?w5 = "disconnected 1 ?w4"
  have "events ?w5 7 \<noteq> None" using close(3) w1(8) by (simp add: next_tick_def set_errno_def)
  then have "event_free 7 ?w5 = Some (without_event 7 ?w5)" by (auto simp: event_free_def without_event_def)
  moreover have "event_base_free (s_base (without_event 7 ?w5)) (without_event 7 ?w5) =
      Some ((without_event 7 ?w5)\<lparr>bases := bases ?w5 - {0}\<rparr>)"
    using close(4,5) s4(6) by (simp add: without_event_def event_base_free_def)
  ultimately have exit: "wait_exit (Some 7) ?w4 = Some ((without_event 7 ?w5)\<lparr>bases := bases ?w5 - {0}\<rparr>)"
    using close(1,4) unfolding wait_exit_def wait_is_tool close_tool_def [symmetric]
    by (simp add: without_event_def)
  have "wait_session (Suc (Suc n)) timeout [6] w1 = Some (0, (without_event 7 ?w5)\<lparr>bases := bases ?w5 - {0}\<rparr>)"
    by (simp only: wait_session_def timer bind.bind_lunit prod.case dispatch printed exit)
  then have "wait_main (Suc (Suc n)) prefix argv [6] ?w0 = Some (0, (without_event 7 ?w5)\<lparr>bases := bases ?w5 - {0}\<rparr>)"
    using args(1) w1(1) by (simp add: wait_main_def clear_buffer)
  moreover have "stdout ?w5 = printed ts @ newline" using close(2) by (simp add: same_tool_def)
  ultimately show ?thesis
    using close(6) s4(8,9) by (simp add: without_event_def)
qed

theorem wait_main_prints_example:
  "\<exists>w. wait_main 2 ''/var/run/'' [''ipc_wait'', ''S'', ''-t'', ''5''] [6] (wait_start wait_env) = Some (0, w) \<and>
    stdout w = ''7'' @ newline \<and>
    io_log w = [Connect 300 ''/var/run/S'', Shutdown 300 SHUT_RDWR, Closed 300]"
proof -
  have fs: "frames [(0, enc_msg [TU8 7])] = frame 0 (enc_msg [TU8 7])" by simp
  have len: "msg_len [TU8 7] = 5" "printed [TU8 7] = ''7''" "length (joined (visible [TU8 7])) = 1" by code_simp+
  have "\<exists>w. wait_main (Suc (Suc 0)) ''/var/run/'' [''ipc_wait'', ''S'', ''-t'', ''5''] [6] (wait_start wait_env) = Some (0, w) \<and>
    stdout w = printed [TU8 7] @ newline \<and>
    io_log w = [Connect 300 (''/var/run/'' @ ''S''), Shutdown 300 SHUT_RDWR, Closed 300]"
    by (rule wait_main_prints [OF wait_args_example, where fs = "[(0, enc_msg [TU8 7])]"])
      (use len fs in \<open>simp_all add: wait_env_def unasked_def AF_IPC_GET_SEQ_ID_def\<close>)
  then show ?thesis unfolding len(2) by (simp add: numeral_2_eq_2)
qed

end
