(* ===== verification/Test_Client.thy ===== *)
theory Test_Client
  imports Client
begin

text \<open>
  The program \<^verbatim>\<open>src/pkg/src/libaf_ipc_test_client.c\<close>, an application of the client library that tests
  it together with \<^verbatim>\<open>libaf_ipc_test_server.c\<close>; the messages they exchange are those of
  \<^verbatim>\<open>libaf_ipc_test_common.h\<close>. The log is left out.
\<close>

section \<open>Messages\<close>

text \<open>The first byte of a message from the client, and of one from the server.\<close>

definition CLIENT_TEST_BROADCAST_CLIENTCMDS :: byte where "CLIENT_TEST_BROADCAST_CLIENTCMDS = 0"
definition CLIENT_TEST_SERVERCMDS :: byte where "CLIENT_TEST_SERVERCMDS = 1"
definition CLIENT_TEST_SERVERUNSOL :: byte where "CLIENT_TEST_SERVERUNSOL = 2"
definition CLIENT_SERVEREXIT :: byte where "CLIENT_SERVEREXIT = 3"
definition CLIENT_COMMANDS :: byte where "CLIENT_COMMANDS = 4"
definition CLIENT_REPLIES :: byte where "CLIENT_REPLIES = 5"

definition SERVER_BROADCAST_TO_CLIENTS :: byte where "SERVER_BROADCAST_TO_CLIENTS = 0"
definition SERVER_COMMANDS_TO_CLIENT :: byte where "SERVER_COMMANDS_TO_CLIENT = 1"
definition SERVER_UNSOL_TO_CLIENT :: byte where "SERVER_UNSOL_TO_CLIENT = 2"
definition SERVER_REPLIES :: byte where "SERVER_REPLIES = 3"

lemmas client_messages = CLIENT_TEST_BROADCAST_CLIENTCMDS_def CLIENT_TEST_SERVERCMDS_def
  CLIENT_TEST_SERVERUNSOL_def CLIENT_SERVEREXIT_def CLIENT_COMMANDS_def CLIENT_REPLIES_def
lemmas server_messages = SERVER_BROADCAST_TO_CLIENTS_def SERVER_COMMANDS_TO_CLIENT_def
  SERVER_UNSOL_TO_CLIENT_def SERVER_REPLIES_def

definition MAX_REQUESTS :: nat where "MAX_REQUESTS = 4"

section \<open>The state\<close>

text \<open>
  The static variables; \<open>c_bases\<close> are the live event bases, and \<open>c_broken\<close> says that
  \<^verbatim>\<open>event_base_loopbreak\<close> was called.
\<close>

record test_client_world = client_world +
  my_server :: "nat option"
  s_client_evbase :: "nat option"
  s_failures :: int
  s_replies :: int
  c_bases :: "nat set"
  c_broken :: bool

definition c_loopbreak :: "'a test_client_world_scheme \<Rightarrow> 'a test_client_world_scheme option" where
  "c_loopbreak w = (case s_client_evbase w of None \<Rightarrow> None
     | Some b \<Rightarrow> if b \<in> c_bases w then Some (w\<lparr>c_broken := True\<rparr>) else None)"

text \<open>The program passes no close callback, so the library calls none.\<close>

definition no_close :: "'a closer" where
  "no_close cb status ctx w = None"

section \<open>The receive callback\<close>

text \<open>\<^verbatim>\<open>if (status != 0) s_failures++;\<close>\<close>

definition count_failure :: "int \<Rightarrow> 'a test_client_world_scheme \<Rightarrow> 'a test_client_world_scheme" where
  "count_failure status w = (if status \<noteq> 0 then w\<lparr>s_failures := s_failures w + 1\<rparr> else w)"

text \<open>The loop that sends the requests \<open>i\<close>, \<open>i + 1\<close>, \<dots>, \<open>MAX_REQUESTS - 1\<close>; \<open>n\<close> of them are left.\<close>

fun send_commands :: "nat \<Rightarrow> nat \<Rightarrow> 'a test_client_world_scheme \<Rightarrow> 'a test_client_world_scheme option" where
  "send_commands 0 i w = Some w"
| "send_commands (Suc n) i w = do {
     let message = [CLIENT_COMMANDS, word_of_nat i];
     (status, w) \<leftarrow> af_ipcc_send_request no_close (my_server w) message 2 (Some 0) i 2000 w;
     send_commands n (Suc i) (count_failure status w)
   }"

text \<open>
  \<^verbatim>\<open>s_replies |= (1 << i)\<close>, and the end of the loop when all replies are there. The shift is
  undefined for 31 and more.
\<close>

definition note_reply :: "nat \<Rightarrow> 'a test_client_world_scheme \<Rightarrow> 'a test_client_world_scheme option" where
  "note_reply i w =
     (if i \<ge> 31 then None
      else do {
        let w = w\<lparr>s_replies := s_replies w OR 2 ^ i\<rparr>;
        if s_replies w = 2 ^ MAX_REQUESTS - 1 then do {
          w \<leftarrow> c_loopbreak w;
          Some (w\<lparr>s_replies := 0\<rparr>)
        }
        else Some w
      })"

text \<open>\<^verbatim>\<open>rxBuf[i]\<close>: a message is not longer than its bytes.\<close>

definition rx_byte :: "byte list \<Rightarrow> nat \<Rightarrow> byte option" where
  "rx_byte rxBuf i = (if i < length rxBuf then Some (rxBuf ! i) else None)"

definition test_receive ::
    "int \<Rightarrow> u32 \<Rightarrow> byte list \<Rightarrow> nat \<Rightarrow> 'a test_client_world_scheme \<Rightarrow> 'a test_client_world_scheme option" where
  "test_receive status seqNum rxBuf context1 w =
     (if status \<noteq> AF_IPC_STATUS_OK then Some w
      else do {
        b0 \<leftarrow> rx_byte rxBuf 0;
        if b0 = SERVER_BROADCAST_TO_CLIENTS then
          send_commands MAX_REQUESTS 0 (w\<lparr>s_replies := 0\<rparr>)
        else if b0 = SERVER_COMMANDS_TO_CLIENT then do {
          b1 \<leftarrow> rx_byte rxBuf 1;
          let message = [CLIENT_REPLIES, b1];
          (status, w) \<leftarrow> af_ipcc_send_response no_close (my_server w) seqNum message 2 w;
          note_reply (unat b1) (count_failure status w)
        }
        else if b0 = SERVER_UNSOL_TO_CLIENT then c_loopbreak w
        else if b0 = SERVER_REPLIES then do {
          b1 \<leftarrow> rx_byte rxBuf 1;
          if b1 \<noteq> word_of_nat context1 then Some (w\<lparr>s_failures := s_failures w + 1\<rparr>)
          else note_reply (unat b1) w
        }
        else Some w
      })"

text \<open>As the only callback of the library.\<close>

definition test_client_run :: "'a test_client_world_ext client_world_ext runner" where
  "test_client_run cb status seqNum payload ctx w = test_receive status seqNum payload ctx w"

section \<open>main\<close>

text \<open>The test that the first argument asks for.\<close>

definition send_test :: "string list \<Rightarrow> 'a test_client_world_scheme \<Rightarrow> 'a test_client_world_scheme option" where
  "send_test argv w =
     (let command = (\<lambda>b. do {
        (r, w) \<leftarrow> af_ipcc_send_unsolicited no_close (my_server w) [b] 1 w;
        Some w
      }) in
      if length argv > 1 \<and> argv ! 1 \<noteq> [] \<and> hd (argv ! 1) = CHR ''-'' then
        (case tl (argv ! 1) of
           [] \<Rightarrow> Some w
         | c # _ \<Rightarrow>
             if c = CHR ''b'' then command CLIENT_TEST_BROADCAST_CLIENTCMDS
             else if c = CHR ''s'' then command CLIENT_TEST_SERVERCMDS
             else if c = CHR ''u'' then command CLIENT_TEST_SERVERUNSOL
             else if c = CHR ''q'' then command CLIENT_SERVEREXIT
             else Some w)
      else Some w)"

text \<open>
  The events that the loop handles are a list that libevent chooses, as for the tools. What is not
  live or not added is passed over.
\<close>

definition c_dispatch_event :: "nat \<Rightarrow> nat \<Rightarrow> 'a test_client_world_scheme \<Rightarrow> 'a test_client_world_scheme option" where
  "c_dispatch_event n e w =
     (case events w e of
        None \<Rightarrow> Some w
      | Some v \<Rightarrow>
          if \<not> ev_added v then Some w
          else (case ev_handler v of
              On_timeout a \<Rightarrow> fire_timer test_client_run e w
            | On_recv s \<Rightarrow> af_ipcc_client_on_recv n test_client_run no_close EV_READ (Some s) w
            | On_accept s \<Rightarrow> None
            | On_user k \<Rightarrow> None))"

fun c_dispatch :: "nat \<Rightarrow> nat list \<Rightarrow> 'a test_client_world_scheme \<Rightarrow> 'a test_client_world_scheme option" where
  "c_dispatch n [] w = Some w"
| "c_dispatch n (e # es) w = do { w \<leftarrow> c_dispatch_event n e w; c_dispatch n es w }"

text \<open>\<^verbatim>\<open>main\<close>; \<^verbatim>\<open>SERVER_NAME\<close> is \<^verbatim>\<open>TEST_W\<close>. The base is not freed when there is no connection.\<close>

definition test_client_main ::
    "nat \<Rightarrow> string \<Rightarrow> string list \<Rightarrow> nat list \<Rightarrow> 'a test_client_world_scheme
     \<Rightarrow> (int \<times> 'a test_client_world_scheme) option" where
  "test_client_main n prefix argv evs w =
     (if ext_null (ext_now w) then Some (1, (next_tick w)\<lparr>s_client_evbase := None\<rparr>)
      else do {
        let b = tick w;
        let w = (next_tick w)\<lparr>s_client_evbase := Some b, c_bases := insert b (c_bases w)\<rparr>;
        (server, w) \<leftarrow> af_ipcc_open_server prefix (Some b) ''TEST_W'' (Some 0) 0 None w;
        let w = w\<lparr>my_server := server\<rparr>;
        if my_server w = None then Some (1, w)
        else do {
          w \<leftarrow> send_test argv w;
          w \<leftarrow> c_dispatch n evs w;
          w \<leftarrow> af_ipcc_close no_close (my_server w) w;
          Some (if s_failures w \<noteq> 0 then 1 else 0, w\<lparr>c_bases := c_bases w - {b}\<rparr>)
        }
      })"

end
