(* ===== verification/Test_Server.thy ===== *)
theory Test_Server
  imports Server_Io Test_Client
begin

text \<open>
  The program \<^verbatim>\<open>src/pkg/src/libaf_ipc_test_server.c\<close>, an application of the server library and the
  peer of the test client. The log is left out.
\<close>

section \<open>The state\<close>

text \<open>The static variables, without \<^verbatim>\<open>originatingClient\<close>, which is not used.\<close>

record test_server_world = server_world +
  ts_server :: "nat option"
  server_evbase :: "nat option"
  ts_failures :: int
  ts_bases :: "nat set"
  ts_broken :: bool

definition ts_loopbreak :: "'a test_server_world_scheme \<Rightarrow> 'a test_server_world_scheme option" where
  "ts_loopbreak w = (case server_evbase w of None \<Rightarrow> None
     | Some b \<Rightarrow> if b \<in> ts_bases w then Some (w\<lparr>ts_broken := True\<rparr>) else None)"

section \<open>The callbacks\<close>

definition close_callback :: "int \<Rightarrow> u16 \<Rightarrow> nat \<Rightarrow> 'a test_server_world_scheme \<Rightarrow> 'a test_server_world_scheme option" where
  "close_callback status clientId clientContext w = Some w"

text \<open>\<open>c\<close> is the client whose context is set; the result 0 is not used by the library.\<close>

definition accept_callback :: "nat \<Rightarrow> u16 \<Rightarrow> nat \<Rightarrow> 'a test_server_world_scheme \<Rightarrow> 'a test_server_world_scheme option" where
  "accept_callback acceptContext clientId c w =
     (if clientId > 0 then upd_cli c (cl_clientContext_update (\<lambda>_. 0)) w else Some w)"

definition test_server_closer :: "'a test_server_world_ext client_closer" where
  "test_server_closer cb status clientId ctx w = close_callback status clientId ctx w"

definition test_server_acceptor :: "'a test_server_world_ext acceptor" where
  "test_server_acceptor cb ctx clientId c w = accept_callback ctx clientId c w"

definition ts_count :: "int \<Rightarrow> 'a test_server_world_scheme \<Rightarrow> 'a test_server_world_scheme" where
  "ts_count status w = (if status \<noteq> 0 then w\<lparr>ts_failures := ts_failures w + 1\<rparr> else w)"

text \<open>The loop over the requests \<open>i\<close>, \<open>i + 1\<close>, \<dots>, of which \<open>n\<close> are left.\<close>

fun send_server_commands :: "u16 \<Rightarrow> nat \<Rightarrow> nat \<Rightarrow> 'a test_server_world_scheme \<Rightarrow> 'a test_server_world_scheme option" where
  "send_server_commands clientId 0 i w = Some w"
| "send_server_commands clientId (Suc n) i w = do {
     let message = [SERVER_COMMANDS_TO_CLIENT, word_of_nat i];
     (status, w) \<leftarrow> af_ipcs_send_request test_server_closer (ts_server w) clientId message 2 (Some 0) i 2000 w;
     send_server_commands clientId n (Suc i) (ts_count status w)
   }"

text \<open>The length is compared before the second byte is read, other than in the test client.\<close>

definition subsys_test1_receive ::
    "int \<Rightarrow> u32 \<Rightarrow> byte list \<Rightarrow> nat \<Rightarrow> 'a test_server_world_scheme \<Rightarrow> 'a test_server_world_scheme option" where
  "subsys_test1_receive status seqNum rxBuffer clientContext w =
     (if status \<noteq> AF_IPC_STATUS_OK then Some w
      else do {
        b0 \<leftarrow> rx_byte rxBuffer 0;
        let clientId = (ucast (AF_IPC_GET_CLIENT_ID seqNum) :: u16);
        if b0 = CLIENT_TEST_BROADCAST_CLIENTCMDS then do {
          (status, w) \<leftarrow> af_ipcs_send_unsolicited test_server_closer (ts_server w) 0 [SERVER_BROADCAST_TO_CLIENTS] 1 w;
          Some (ts_count status w)
        }
        else if b0 = CLIENT_TEST_SERVERCMDS then send_server_commands clientId MAX_REQUESTS 0 w
        else if b0 = CLIENT_TEST_SERVERUNSOL then do {
          (status, w) \<leftarrow> af_ipcs_send_unsolicited test_server_closer (ts_server w) clientId [SERVER_UNSOL_TO_CLIENT] 1 w;
          Some (ts_count status w)
        }
        else if b0 = CLIENT_SERVEREXIT then ts_loopbreak w
        else if b0 = CLIENT_REPLIES then
          (if length rxBuffer > 1 then do {
             b1 \<leftarrow> rx_byte rxBuffer 1;
             if uint b1 = int clientContext then Some w else Some (w\<lparr>ts_failures := ts_failures w + 1\<rparr>)
           }
           else Some (w\<lparr>ts_failures := ts_failures w + 1\<rparr>))
        else if b0 = CLIENT_COMMANDS then
          (if length rxBuffer > 1 then do {
             b1 \<leftarrow> rx_byte rxBuffer 1;
             (status, w) \<leftarrow> af_ipcs_send_response test_server_closer (ts_server w) seqNum [SERVER_REPLIES, b1] 2 w;
             Some (ts_count status w)
           }
           else Some (w\<lparr>ts_failures := ts_failures w + 1\<rparr>))
        else Some w
      })"

definition test_server_run :: "'a test_server_world_ext server_world_ext runner" where
  "test_server_run cb status seqNum payload ctx w = subsys_test1_receive status seqNum payload ctx w"

section \<open>main\<close>

definition ts_dispatch_event :: "nat \<Rightarrow> nat \<Rightarrow> 'a test_server_world_scheme \<Rightarrow> 'a test_server_world_scheme option" where
  "ts_dispatch_event n e w =
     (case events w e of
        None \<Rightarrow> Some w
      | Some v \<Rightarrow>
          if \<not> ev_added v then Some w
          else (case ev_handler v of
              On_timeout a \<Rightarrow> fire_timer test_server_run e w
            | On_recv c \<Rightarrow> on_recv n test_server_run test_server_closer EV_READ c w
            | On_accept s \<Rightarrow> on_accept test_server_acceptor test_server_closer EV_READ s w
            | On_user k \<Rightarrow> None))"

fun ts_dispatch :: "nat \<Rightarrow> nat list \<Rightarrow> 'a test_server_world_scheme \<Rightarrow> 'a test_server_world_scheme option" where
  "ts_dispatch n [] w = Some w"
| "ts_dispatch n (e # es) w = do { w \<leftarrow> ts_dispatch_event n e w; ts_dispatch n es w }"

definition test_server_main ::
    "nat \<Rightarrow> string \<Rightarrow> nat list \<Rightarrow> 'a test_server_world_scheme \<Rightarrow> (int \<times> 'a test_server_world_scheme) option" where
  "test_server_main n prefix evs w =
     (if ext_null (ext_now w) then Some (-1, (next_tick w)\<lparr>server_evbase := None\<rparr>)
      else do {
        let b = tick w;
        let w = (next_tick w)\<lparr>server_evbase := Some b, ts_bases := insert b (ts_bases w)\<rparr>;
        (server, w) \<leftarrow> af_ipcs_open prefix test_server_closer (Some b) ''TEST_W'' (Some 0) 0 (Some 0) (Some 0) w;
        let w = w\<lparr>ts_server := server\<rparr>;
        if ts_server w = None then Some (-1, w)
        else do {
          w \<leftarrow> ts_dispatch n evs w;
          w \<leftarrow> af_ipcs_close test_server_closer (ts_server w) w;
          Some (if ts_failures w \<noteq> 0 then 1 else 0, w\<lparr>ts_bases := ts_bases w - {b}\<rparr>)
        }
      })"

end
