(* ===== verification/Test_Correct.thy ===== *)
theory Test_Correct
  imports Test_Server Client_Correct Server_Correct
begin

text \<open>
  The properties of the test programs \<^verbatim>\<open>libaf_ipc_test_client.c\<close> and \<^verbatim>\<open>libaf_ipc_test_server.c\<close>: what
  the client counts, that the answer of the server to a command is what the client expects, the
  requests the client sends, and what happens when the server goes away.
\<close>

section \<open>Counting replies\<close>

text \<open>\<open>x\<close> has exactly the bits of \<open>S\<close>.\<close>

definition has_bits :: "nat set \<Rightarrow> int \<Rightarrow> bool" where
  "has_bits S x \<longleftrightarrow> (\<forall>n. bit x n \<longleftrightarrow> n \<in> S)"

lemma has_bits_empty: "has_bits {} 0"
  by (simp add: has_bits_def)

lemma has_bits_insert: "has_bits S x \<Longrightarrow> has_bits (insert i S) (x OR 2 ^ i)"
  by (auto simp: has_bits_def bit_or_iff bit_exp_iff)

lemma has_bits_all: "has_bits S x \<Longrightarrow> x = 2 ^ MAX_REQUESTS - 1 \<longleftrightarrow> S = {0..<4}"
proof -
  assume x: "has_bits S x"
  have m: "(2 ^ MAX_REQUESTS - 1 :: int) = mask 4" by (simp add: MAX_REQUESTS_def mask_eq_exp_minus_1)
  have "bit (mask 4 :: int) n \<longleftrightarrow> n \<in> {0..<4}" for n by (simp add: bit_mask_iff)
  moreover have "x = mask 4 \<longleftrightarrow> (\<forall>n. bit x n \<longleftrightarrow> bit (mask 4 :: int) n)" by (auto intro: bit_eqI)
  ultimately show ?thesis using x unfolding m has_bits_def by blast
qed

text \<open>The replies \<open>is\<close> arrive one after the other, each for the request with the same number.\<close>

fun receive_replies :: "u32 \<Rightarrow> nat list \<Rightarrow> 'a test_client_world_scheme \<Rightarrow> 'a test_client_world_scheme option" where
  "receive_replies sn [] w = Some w"
| "receive_replies sn (i # is) w = do {
     w \<leftarrow> test_receive AF_IPC_STATUS_OK sn [SERVER_REPLIES, word_of_nat i] i w;
     receive_replies sn is w
   }"

lemma small_byte: "i < 256 \<Longrightarrow> unat (word_of_nat i :: byte) = i"
  by (simp add: unat_of_nat)

lemma reply_noted:
  "i < 256 \<Longrightarrow> test_receive AF_IPC_STATUS_OK sn [SERVER_REPLIES, word_of_nat i] i w = note_reply i w"
  by (simp add: test_receive_def rx_byte_def server_messages small_byte)

lemma receive_replies_ok:
  assumes "distinct is" "set is \<inter> S = {}" "set is \<union> S \<subseteq> {0..<4}" "has_bits S (s_replies w)" "S \<noteq> {0..<4}"
    and "s_client_evbase w = Some b" "b \<in> c_bases w"
  shows "\<exists>x. receive_replies sn is w =
    Some (if set is \<union> S = {0..<4} then w\<lparr>s_replies := 0, c_broken := True\<rparr> else w\<lparr>s_replies := x\<rparr>)"
  using assms
proof (induction "is" arbitrary: w S)
  case Nil
  then show ?case by (intro exI [of _ "s_replies w"]) simp
next
  case (Cons i js)
  have i: "i < 4" "i \<notin> S" "i \<notin> set js" using Cons.prems by auto
  let ?x = "s_replies w OR 2 ^ i" and ?S = "insert i S"
  have bits: "has_bits ?S ?x" using Cons.prems(4) by (rule has_bits_insert)
  have step: "test_receive AF_IPC_STATUS_OK sn [SERVER_REPLIES, word_of_nat i] i w = note_reply i w"
    using i by (intro reply_noted) simp
  show ?case
  proof (cases "?S = {0..<4}")
    case True
    then have js: "js = []" using Cons.prems(1-3) by (cases js) auto
    have "?x = 2 ^ MAX_REQUESTS - 1" using has_bits_all [OF bits] True by simp
    then have "note_reply i w = Some (w\<lparr>s_replies := 0, c_broken := True\<rparr>)"
      using i Cons.prems(6,7) by (simp add: note_reply_def c_loopbreak_def)
    then show ?thesis using step js True by simp
  next
    case False
    then have "?x \<noteq> 2 ^ MAX_REQUESTS - 1" using has_bits_all [OF bits] by simp
    then have one: "note_reply i w = Some (w\<lparr>s_replies := ?x\<rparr>)" using i by (simp add: note_reply_def)
    let ?w = "w\<lparr>s_replies := ?x\<rparr>"
    have js: "distinct js" "set js \<inter> ?S = {}" "set js \<union> ?S \<subseteq> {0..<4}" using Cons.prems(1-3) i by auto
    have w: "has_bits ?S (s_replies ?w)" "s_client_evbase ?w = Some b" "b \<in> c_bases ?w" using bits Cons.prems(6,7) by simp_all
    obtain y where y: "receive_replies sn js ?w = Some (if set js \<union> ?S = {0..<4}
        then w\<lparr>s_replies := ?x, s_replies := 0, c_broken := True\<rparr> else w\<lparr>s_replies := ?x, s_replies := y\<rparr>)"
      using Cons.IH [OF js w(1) False w(2,3)] by blast
    have un: "set (i # js) \<union> S = set js \<union> ?S" by simp
    have "w\<lparr>s_replies := ?x, s_replies := 0, c_broken := True\<rparr> = w\<lparr>s_replies := 0, c_broken := True\<rparr>"
      "w\<lparr>s_replies := ?x, s_replies := y\<rparr> = w\<lparr>s_replies := y\<rparr>" by (cases w; simp)+
    with y step one show ?thesis by (intro exI [of _ y]) (simp only: un receive_replies.simps bind.bind_lunit)
  qed
qed

text \<open>
  C39. The client ends its loop exactly when all four of its requests are answered, in whatever order the
  replies come: after fewer it waits on, after the last one it leaves the loop, is ready for
  the next round, and has counted no failure.
\<close>

theorem replies_counted:
  assumes "distinct is" "set is \<subseteq> {0..<4}" "s_replies w = 0" "s_client_evbase w = Some b" "b \<in> c_bases w"
    and "\<not> c_broken w"
  shows "\<exists>w'. receive_replies sn is w = Some w' \<and> s_failures w' = s_failures w \<and>
    (c_broken w' \<longleftrightarrow> set is = {0..<4}) \<and> (c_broken w' \<longrightarrow> w' = w\<lparr>c_broken := True\<rparr>)"
proof -
  have "has_bits {} (s_replies w)" using assms(3) has_bits_empty by simp
  then obtain x where "receive_replies sn is w =
      Some (if set is \<union> {} = {0..<4} then w\<lparr>s_replies := 0, c_broken := True\<rparr> else w\<lparr>s_replies := x\<rparr>)"
    using receive_replies_ok [of "is" "{}" w b sn] assms(1,2,4,5) by auto
  moreover have "w\<lparr>s_replies := 0, c_broken := True\<rparr> = w\<lparr>c_broken := True\<rparr>" using assms(3) by (cases w) simp
  ultimately show ?thesis using assms(6) by (cases "set is = {0..<4}") auto
qed

definition client_start :: "(nat \<Rightarrow> ext) \<Rightarrow> test_client_world" where
  "client_start oc = \<lparr>ctls = Map.empty, reqs = Map.empty, events = Map.empty, io_log = [], cerrno = 0, tick = 0,
     outcomes = oc, servers = Map.empty, my_server = None, s_client_evbase = None, s_failures = 0, s_replies = 0,
     c_bases = {}, c_broken = False\<rparr>"

theorem replies_counted_example:
  "\<exists>w'. receive_replies 1 [2, 0, 3, 1] ((client_start (\<lambda>_. undefined))\<lparr>s_client_evbase := Some 0, c_bases := {0}\<rparr>) = Some w' \<and>
    s_failures w' = 0 \<and> c_broken w'"
proof -
  let ?w = "(client_start (\<lambda>_. undefined))\<lparr>s_client_evbase := Some 0, c_bases := {0}\<rparr>"
  have s: "set [2, 0, 3, 1] = {0..<4 :: nat}" by auto
  obtain w' where "receive_replies 1 [2, 0, 3, 1] ?w = Some w'" "s_failures w' = s_failures ?w"
    "c_broken w' \<longleftrightarrow> set [2, 0, 3, 1] = {0..<4 :: nat}"
    using replies_counted [of "[2, 0, 3, 1]" ?w 0 1] s by (auto simp: client_start_def)
  then show ?thesis using s by (auto simp: client_start_def)
qed

section \<open>A command and its answer\<close>

text \<open>
  C38. The answer of the server to a command is what the client expects: a client's request with the
  command \<open>i\<close> is answered once, to this client and under the number of the request, and when
  this answer reaches the client for its request \<open>i\<close>, it counts as reply \<open>i\<close> and not as a failure.
\<close>

theorem command_answered:
  fixes w :: "'a test_server_world_scheme" and v :: "'b test_client_world_scheme"
  assumes "server_ok w s" "ts_server w = Some s" "af_ipc_seq_num_is_request seqNum"
    and "client_with w s (af_ipc_get_client_id_from_seq_num seqNum) = Some c"
    and "10 \<le> ext_ret (ext_now w)" "i < 4" "s_client_evbase v = Some b" "b \<in> c_bases v"
  defines "answer \<equiv> [SERVER_REPLIES, word_of_nat i]"
  shows "\<exists>w' v'. subsys_test1_receive AF_IPC_STATUS_OK seqNum [CLIENT_COMMANDS, word_of_nat i] ctx w = Some w' \<and>
    server_ok w' s \<and> ts_failures w' = ts_failures w \<and> io_log w' = io_log w @ [Sent (fd_of w c) (frame seqNum answer)] \<and>
    test_receive AF_IPC_STATUS_OK sn answer i v = Some v' \<and> note_reply i v = Some v' \<and> s_failures v' = s_failures v"
proof -
  have c: "c \<in> set (clients_of w s)" using client_with_Some(1) [OF assms(4)] .
  then obtain cl where cl: "clis w c = Some cl" using server_ok_live [OF assms(1)] by blast
  let ?w = "sent (fd_of w c) (frame seqNum answer) w"
  have len: "length answer = 2" "int (length answer) = 2" by (simp_all add: answer_def)
  have "delivered test_server_closer s c seqNum answer w = Some (0, ?w)"
    using cl assms(5) by (simp add: delivered_def fd_of_def)
  then have "af_ipcs_send_response test_server_closer (Some s) seqNum answer 2 w = Some (0, ?w)"
    using send_response_eq [OF assms(1), of answer test_server_closer seqNum] assms(3,4) len by simp
  then have run: "subsys_test1_receive AF_IPC_STATUS_OK seqNum [CLIENT_COMMANDS, word_of_nat i] ctx w = Some ?w"
    using assms(2) by (simp add: subsys_test1_receive_def rx_byte_def client_messages ts_count_def answer_def)
  have "length (frame seqNum answer) \<le> nat (ext_ret (ext_now w))" using assms(5) len by simp
  then have log: "io_log ?w = io_log w @ [Sent (fd_of w c) (frame seqNum answer)]" by simp
  have fail: "ts_failures ?w = ts_failures w" by (simp add: sent_def next_tick_def log_io_def)
  have "test_receive AF_IPC_STATUS_OK sn answer i v = note_reply i v"
    using assms(6) unfolding answer_def by (intro reply_noted) simp
  moreover obtain v' where "note_reply i v = Some v'" "s_failures v' = s_failures v"
    using assms(6-8) by (cases "s_replies v OR 2 ^ i = 2 ^ MAX_REQUESTS - 1") (auto simp: note_reply_def c_loopbreak_def)
  ultimately show ?thesis using run log fail server_ok_told(2) [OF assms(1)] by auto
qed

text \<open>The server of \<^verbatim>\<open>Server_Correct\<close> as this program runs it.\<close>

definition test_srv :: test_server_world where
  "test_srv = \<lparr>ctls = [30 \<mapsto> open_db (Pool_live []) True], reqs = Map.empty,
     events = [27 \<mapsto> \<lparr>ev_handler = On_accept 20, ev_added = True, ev_timeout = None\<rparr>, 33 \<mapsto> recv_ev 30],
     io_log = [], cerrno = 0, tick = 34, outcomes = srv_env,
     srvs = [20 \<mapsto> \<lparr>sr_server_fd = 3, sr_base = Some 1, sr_listener_event = Some 27, sr_clnt_mutex = Mutex_free,
       sr_clients = [30], sr_clientPool = Pool_live [30], sr_lastCid = 1, sr_flags = 0, sr_acceptCallback = Some 0,
       sr_acceptContext = 0, sr_receiveCallback = Some 0, sr_closeCallback = Some 0\<rparr>],
     clis = [30 \<mapsto> new_client 20 7 1 (Some 33)], ts_server = Some 20, server_evbase = Some 1, ts_failures = 0,
     ts_bases = {1}, ts_broken = False\<rparr>"

lemma test_srv_ok: "server_ok test_srv 20" "clients_of test_srv 20 = [30]" "cid_of test_srv 30 = 1" "fd_of test_srv 30 = 7"
proof -
  have "world_ok test_srv"
    by (simp add: world_ok_def test_srv_def db_ok_def open_db_def timer_owned_def recv_ev_def)
  then show "server_ok test_srv 20"
    by (simp add: server_ok_def client_ok_def db_open_def open_db_def has_event_def)
      (simp add: test_srv_def db_open_def open_db_def new_client_def recv_ev_def client_ok_def has_event_def)
qed (simp_all add: test_srv_def clients_of_def cid_of_def fd_of_def new_client_def)

theorem command_answered_example:
  "\<exists>w'. subsys_test1_receive AF_IPC_STATUS_OK (AF_IPC_BUILD_SEQNUM 1 5) [4, 2] 0 test_srv = Some w' \<and>
    io_log w' = [Sent 7 (frame (AF_IPC_BUILD_SEQNUM 1 5) [3, 2])]"
proof -
  let ?v = "(client_start (\<lambda>_. undefined))\<lparr>s_client_evbase := Some 0, c_bases := {0}\<rparr>"
  have c: "client_with test_srv 20 (af_ipc_get_client_id_from_seq_num (AF_IPC_BUILD_SEQNUM 1 5)) = Some 30"
    "af_ipc_seq_num_is_request (AF_IPC_BUILD_SEQNUM 1 5)"
    using test_srv_ok(2,3) by (simp_all add: client_with_def af_ipc_seq_num_is_request_def AF_IPC_GET_SEQ_ID_def
        AF_IPC_BUILD_SEQNUM_def af_ipc_get_client_id_from_seq_num_def AF_IPC_GET_CLIENT_ID_def)
  have s: "ts_server test_srv = Some 20" "10 \<le> ext_ret (ext_now test_srv)" "(2 :: nat) < 4" "s_client_evbase ?v = Some 0"
    "0 \<in> c_bases ?v" "io_log test_srv = []"
    by (simp_all add: test_srv_def ext_now_def srv_env_def)
  from command_answered [OF test_srv_ok(1) s(1) c(2,1) s(2-5), of 0 1] show ?thesis
    using test_srv_ok(4) s(6) by (auto simp: client_messages server_messages)
qed

section \<open>The server goes away\<close>

text \<open>What the library leaves alone.\<close>

lemma test_more:
  fixes w w' :: "'a test_client_world_scheme"
  assumes "client_world.more w' = client_world.more w"
  shows "my_server w' = my_server w" "s_failures w' = s_failures w" "s_client_evbase w' = s_client_evbase w"
    "c_bases w' = c_bases w" "s_replies w' = s_replies w" "c_broken w' = c_broken w"
  using assms by (cases w; cases w'; simp)+

lemma closed_more: "client_world.more (closed_client s w) = client_world.more w"
  by (simp add: closed_client_def closed_db_more Let_def split: option.split)

text \<open>
  C40. The test client passes no close callback, so it does not learn that the library has closed the
  connection: when the server ends it, \<^verbatim>\<open>main\<close> calls \<^verbatim>\<open>af_ipcc_close\<close> with a structure that was
  freed. While the connection stays, the same run ends well.
\<close>

theorem test_client_eof_undefined:
  fixes oc :: "nat \<Rightarrow> ext" and prefix :: string and argv :: "string list"
  assumes "\<forall>n. \<not> ext_null (oc n)" "0 \<le> ext_ret (oc 2)" "0 \<le> ext_ret (oc 3)" "ext_ret (oc 5) = 0"
    and "ext_recv (oc 7) = Inr []" "length prefix < 101" "length argv \<le> 1"
  shows "test_client_main (Suc n) prefix argv [6] (client_start oc) = None \<and>
    (\<exists>w'. test_client_main (Suc n) prefix argv [] (client_start oc) = Some (0, w') \<and> events w' = Map.empty)"
proof -
  let ?w1 = "(next_tick (client_start oc))\<lparr>s_client_evbase := Some 0, c_bases := {0}\<rparr>"
  have w1: "tick ?w1 = 1" "outcomes ?w1 = oc" "world_ok ?w1" "ctls ?w1 (tick ?w1) = None" "events ?w1 = Map.empty"
    by (simp_all add: client_start_def next_tick_def world_ok_def)
  have len: "length (prefix @ ''TEST_W'') < 107" using assms(6) by simp
  let ?sv = "new_server (ext_ret (oc 2)) (Some 0) (Some 0) 0 None (Some 6)"
  let ?w2 = "with_server 1 ?sv (open_db (Pool_live []) True)
      ((connected (ext_ret (oc 2)) (prefix @ ''TEST_W'') ?w1)\<lparr>tick := 7, events := (events ?w1)(6 \<mapsto> recv_ev 1)\<rparr>)"
  have num: "(1 :: nat) + 1 = 2" "(1 :: nat) + 2 = 3" "(1 :: nat) + 3 = 4" "(1 :: nat) + 4 = 5" "(1 :: nat) + 5 = 6" "(1 :: nat) + 6 = 7"
    by simp_all
  have op: "af_ipcc_open_server prefix (Some 0) ''TEST_W'' (Some 0) 0 None ?w1 = Some (Some 1, ?w2)"
    unfolding open_eq [OF len] w1(1,2) num Let_def using assms(1-4) by simp
  let ?w3 = "?w2\<lparr>my_server := Some 1\<rparr>"
  have c2: "client_open ?w2 1" using open_connects [OF w1(3,4) len op] by blast
  have sv: "servers ?w2 1 = Some ?sv" "?sv\<lparr>sv_flags := 0\<rparr> = ?sv" by (simp_all add: new_server_def)
  have op3: "client_open ?w3 1" "client_open (next_tick ?w3) 1"
    by (rule client_open_cong [OF c2, of _ ?sv 0]; simp add: next_tick_def sv(2))+
  have s3: "servers ?w3 1 = Some ?sv" "servers (next_tick ?w3) 1 = Some ?sv" by (simp_all add: next_tick_def)
  have none: "sv_closeCallback ?sv = None" "sv_flags ?sv = 0" by (simp_all add: new_server_def)
  have start: "test_client_main (Suc n) prefix argv evs (client_start oc) = do {
      w \<leftarrow> c_dispatch (Suc n) evs ?w3;
      w \<leftarrow> af_ipcc_close no_close (my_server w) w;
      Some (if s_failures w \<noteq> 0 then 1 else 0, w\<lparr>c_bases := c_bases w - {0}\<rparr>)
    }" for evs
  proof -
    have "\<not> ext_null (ext_now (client_start oc))" "tick (client_start oc) = 0" "c_bases (client_start oc) = {}"
      using assms(1) by (simp_all add: client_start_def ext_now_def)
    moreover have "send_test argv ?w3 = Some ?w3" using assms(7) by (simp add: send_test_def)
    ultimately show ?thesis using op by (simp add: test_client_main_def)
  qed
  let ?c = "closed_client 1 (next_tick ?w3)"
  have "recv (nat AF_IPC_MAX_MSGLEN) ?w3 = (0, [], next_tick ?w3)"
    using assms(5) w1(2) by (simp add: recv_def ext_now_def)
  then have "client_recv_loop (Suc n) test_client_run no_close 1 ?w3 = Some ?c"
    using close_eq [OF op3(2) s3(2), of no_close] none(1) by (simp add: run_close_def)
  moreover have "events ?w3 6 = Some (recv_ev 1)" by simp
  ultimately have "c_dispatch (Suc n) [6] ?w3 = Some ?c"
    by (simp add: c_dispatch_event_def recv_ev_def af_ipcc_client_on_recv_def EV_READ_def del: client_recv_loop.simps)
  moreover have "my_server ?c = Some 1" "servers ?c 1 = None"
  proof -
    show "my_server ?c = Some 1" using test_more(1) [OF closed_more, of 1 "next_tick ?w3"] by (simp add: next_tick_def)
    show "servers ?c 1 = None" using closed_client_sel(2) [OF op3(2) s3(2)] by simp
  qed
  ultimately have "test_client_main (Suc n) prefix argv [6] (client_start oc) = None"
    by (simp add: start af_ipcc_close_def)
  moreover have "\<exists>w'. test_client_main (Suc n) prefix argv [] (client_start oc) = Some (0, w') \<and> events w' = Map.empty"
  proof -
    let ?d = "closed_client 1 ?w3"
    have "af_ipcc_close no_close (my_server ?w3) ?w3 = Some ?d"
      using s3(1) none close_eq [OF op3(1) s3(1), of no_close] by (simp add: af_ipcc_close_def run_close_def)
    moreover have "s_failures ?w2 = s_failures ?w1"
      by (rule test_more(2)) (simp add: with_server_more connected_more)
    then have "s_failures ?d = 0"
      using test_more(2) [OF closed_more, of 1 ?w3] by (simp add: client_start_def next_tick_def)
    moreover have "events ?d = Map.empty"
    proof
      fix x
      have "events ?w3 = [6 \<mapsto> recv_ev 1]" "sv_event ?sv = Some 6" using w1(5) by (simp, simp add: new_server_def)
      then have "events ?w3 x = None \<or> sv_event ?sv = Some x" by auto
      then show "events ?d x = None" unfolding closed_client_sel(6) [OF op3(1) s3(1)] by auto
    qed
    ultimately show ?thesis by (simp add: start)
  qed
  ultimately show ?thesis by blast
qed

definition eof_env :: "nat \<Rightarrow> ext" where
  "eof_env n = \<lparr>ext_null = False, ext_ret = (if n = 5 then 0 else 300), ext_errno = 0, ext_recv = Inr []\<rparr>"

theorem test_client_eof_undefined_example:
  "test_client_main 1 ''/var/run/'' [''test_client''] [6] (client_start eof_env) = None \<and>
    test_client_main 1 ''/var/run/'' [''test_client''] [] (client_start eof_env) \<noteq> None"
  using test_client_eof_undefined [of eof_env "''/var/run/''" "[''test_client'']" 0] by (auto simp: eof_env_def)

end
