(* ===== verification/Test_Requests.thy ===== *)
theory Test_Requests
  imports Test_Correct
begin

text \<open>
  The requests that the test client \<^verbatim>\<open>libaf_ipc_test_client.c\<close> sends in its receive callback: several
  are pending at the same time, each with its own number and context.
\<close>

section \<open>One request\<close>

text \<open>The state when a request was sent.\<close>

definition commanded :: "nat \<Rightarrow> int \<Rightarrow> byte list \<Rightarrow> nat \<Rightarrow> 'a client_world_scheme \<Rightarrow> 'a client_world_scheme" where
  "commanded s fd msg ctx w = sent fd (frame (new_seqNum w s OR AF_IPC_SEQNUM_NEW_REQUEST_MASK) msg) (registered s (Some 0) ctx 2000 w)"

lemma commanded_sel:
  assumes "db_open w s"
  shows "db_open (commanded s fd msg ctx w) s" "pending (commanded s fd msg ctx w) s = tick w # pending w s"
    "reqs (commanded s fd msg ctx w) = (reqs w)(tick w \<mapsto> new_request w s (Some 0) ctx 2000)"
    "events (commanded s fd msg ctx w) = (events w)(Suc (tick w) \<mapsto> new_timer (tick w) 2000)"
    "outcomes (commanded s fd msg ctx w) = outcomes w" "servers (commanded s fd msg ctx w) = servers w"
    "client_world.more (commanded s fd msg ctx w) = client_world.more w"
    "length msg + 8 \<le> nat (ext_ret (outcomes w (tick w + 2))) \<Longrightarrow> io_log (commanded s fd msg ctx w) =
      io_log w @ [Sent fd (frame (new_seqNum w s OR AF_IPC_SEQNUM_NEW_REQUEST_MASK) msg)]"
    "new_seqNum (commanded s fd msg ctx w) s = ucast (next_seq (ucast (new_seqNum w s)))"
    "tick (commanded s fd msg ctx w) = tick w + 3"
proof -
  note sel = registered_sel [OF assms, where callback = "Some 0" and timeoutMs = 2000]
  let ?r = "registered s (Some 0) ctx 2000 w"
  show "db_open (commanded s fd msg ctx w) s" using sel(1) [of ctx s] assms
    by (simp add: commanded_def db_open_def)
  show "pending (commanded s fd msg ctx w) s = tick w # pending w s" using sel(2) [of ctx]
    by (simp add: commanded_def pending_def)
  show "reqs (commanded s fd msg ctx w) = (reqs w)(tick w \<mapsto> new_request w s (Some 0) ctx 2000)"
    "events (commanded s fd msg ctx w) = (events w)(Suc (tick w) \<mapsto> new_timer (tick w) 2000)"
    "outcomes (commanded s fd msg ctx w) = outcomes w"
    using sel(4,5,7) [of ctx] by (simp_all add: commanded_def)
  show "tick (commanded s fd msg ctx w) = tick w + 3" using sel(6) [of ctx] by (simp add: commanded_def)
  show "servers (commanded s fd msg ctx w) = servers w" "client_world.more (commanded s fd msg ctx w) = client_world.more w"
    by (simp_all add: commanded_def sent_def next_tick_def log_io_def registered_more)
  have now: "ext_now ?r = outcomes w (tick w + 2)" using sel(6,7) [of ctx] by (simp add: ext_now_def)
  show "length msg + 8 \<le> nat (ext_ret (outcomes w (tick w + 2))) \<Longrightarrow> io_log (commanded s fd msg ctx w) =
      io_log w @ [Sent fd (frame (new_seqNum w s OR AF_IPC_SEQNUM_NEW_REQUEST_MASK) msg)]"
    using sel(8) [of ctx] now by (simp add: commanded_def)
  obtain rc where rc: "ctls w s = Some rc" using assms by (auto simp: db_open_def split: option.splits)
  then have "\<exists>rc'. ctls ?r s = Some rc' \<and> rc_lastSeqId rc' = ucast (new_seqNum w s)"
    by (simp add: registered_def add_pending_def next_tick_def new_request_def)
  then show "new_seqNum (commanded s fd msg ctx w) s = ucast (next_seq (ucast (new_seqNum w s)))"
    by (auto simp: new_seqNum_def commanded_def)
qed

lemma commanded_ok:
  assumes "client_open w s" "new_seqNum w s \<notin> seq_of w ` set (pending w s)"
  shows "client_open (commanded s fd msg ctx w) s"
proof -
  obtain sv e v where w: "world_ok w" "db_open w s" "servers w s = Some sv" "0 \<le> sv_fd sv"
    "sv_event sv = Some e" "events w e = Some v" "ev_handler v = On_recv s" "ev_added v"
    using assms(1) by (rule client_openE)
  note sel = commanded_sel(1,4,6) [OF w(2), where fd = fd and msg = msg and ctx = ctx]
  have "world_ok (registered s (Some 0) ctx 2000 w)" by (rule registered_ok [OF w(1,2) _ assms(2)]) simp
  then have "world_ok (commanded s fd msg ctx w)"
    unfolding commanded_def by (rule world_ok_cong [rotated -1]) simp_all
  moreover have "events w (Suc (tick w)) = None"
    using fresh_tick [OF world_ok_tick [OF w(1)]] by (simp add: next_tick_def)
  then have "e \<noteq> Suc (tick w)" using w(6) by auto
  ultimately show ?thesis using sel w(3-8) by (simp add: client_open_def recv_event_ok_def)
qed

lemma send_requested:
  assumes "client_open w s" "servers w s = Some sv" "new_seqNum w s \<notin> seq_of w ` set (pending w s)"
    and "\<not> ext_null (outcomes w (tick w))" "\<not> ext_null (outcomes w (Suc (tick w)))" "0 \<le> ext_ret (outcomes w (tick w + 2))"
    and "length msg \<le> 4088"
  shows "af_ipcc_send_request closer (Some s) msg (int (length msg)) (Some 0) ctx 2000 w = Some (0, commanded s (sv_fd sv) msg ctx w)"
proof -
  have w: "world_ok w" "db_open w s" "0 \<le> sv_fd sv" using assms(1,2) by (simp_all add: client_open_def)
  have "ext_now (registered s (Some 0) ctx 2000 w) = outcomes w (tick w + 2)"
    using registered_sel(6,7) [OF w(2), where callback = "Some 0" and timeoutMs = 2000] by (simp add: ext_now_def)
  then have "af_ipc_send (sv_fd sv) (Some s) 0 msg (int (length msg)) (Some 0) ctx 2000 w =
      Some (0, commanded s (sv_fd sv) msg ctx w)"
    using send_request_eq [OF w(1,2) _ assms(7,3), of 2000 "sv_fd sv" 0 "Some 0" ctx] assms(4-6)
    by (simp add: commanded_def)
  then show ?thesis using assms(2) w(3) by (simp add: af_ipcc_send_request_def client_send_def)
qed

section \<open>Several requests\<close>

text \<open>
  The requests \<open>0\<close>, \dots, \<open>i - 1\<close> are pending, the newest first, under consecutive ids from \<open>L\<close> on,
  each with its own number as context.
\<close>

definition queued :: "nat \<Rightarrow> u16 \<Rightarrow> nat \<Rightarrow> 'a client_world_scheme \<Rightarrow> bool" where
  "queued s L i w \<longleftrightarrow> client_open w s \<and> new_seqNum w s = ucast ((next_seq ^^ i) L) \<and>
     map (\<lambda>a. (seq_of w a, map_option rq_responseContext (reqs w a))) (pending w s) =
       rev (map (\<lambda>k. (ucast ((next_seq ^^ k) L), Some k)) [0..<i])"

lemma ids_differ:
  assumes "1 \<le> uint (L :: u16)" "uint L < 2 ^ 15" "k < i" "i < 32767"
  shows "(ucast ((next_seq ^^ k) L) :: u32) \<noteq> ucast ((next_seq ^^ i) L)"
proof
  assume "(ucast ((next_seq ^^ k) L) :: u32) = ucast ((next_seq ^^ i) L)"
  then have "(next_seq ^^ k) L = (next_seq ^^ i) L" by (metis ucast_back_16)
  then have "(uint L - 1 + int k) mod 32767 = (uint L - 1 + int i) mod 32767"
    using next_seq_iterate [OF assms(1,2)] by (metis add_right_cancel)
  then have "32767 dvd int i - int k" by (simp add: mod_eq_dvd_iff dvd_diff_commute)
  then show False using assms(3,4) by (auto dest!: zdvd_imp_le)
qed

lemma queued_fresh:
  assumes "queued s L i w" "1 \<le> uint L" "uint L < 2 ^ 15" "i < 32767"
  shows "new_seqNum w s \<notin> seq_of w ` set (pending w s)"
proof
  assume "new_seqNum w s \<in> seq_of w ` set (pending w s)"
  then obtain a where a: "a \<in> set (pending w s)" "seq_of w a = ucast ((next_seq ^^ i) L)"
    using assms(1) by (auto simp: queued_def)
  let ?f = "\<lambda>a. (seq_of w a, map_option rq_responseContext (reqs w a))"
  have "?f a \<in> set (map ?f (pending w s))" using a(1) by simp
  also have "set (map ?f (pending w s)) = (\<lambda>k. (ucast ((next_seq ^^ k) L), Some k)) ` {0..<i}"
    using assms(1) by (simp only: queued_def set_rev set_map set_upt)
  finally obtain k where "k < i" "seq_of w a = ucast ((next_seq ^^ k) L)" by auto
  with a(2) ids_differ [OF assms(2,3) \<open>k < i\<close> assms(4)] show False by simp
qed

lemma queued_next:
  assumes "queued s L i w" "1 \<le> uint L" "uint L < 2 ^ 15" "i < 32767"
  shows "queued s L (Suc i) (commanded s fd msg i w)"
proof -
  have op: "client_open w s" "db_open w s" "world_ok w" using assms(1) by (simp_all add: queued_def client_open_def)
  note fresh = queued_fresh [OF assms]
  note sel = commanded_sel(2,3,9) [OF op(2), where fd = fd and msg = msg and ctx = i]
  let ?w = "commanded s fd msg i w" and ?f = "\<lambda>w a. (seq_of w a, map_option rq_responseContext (reqs w a))"
  have new: "new_seqNum w s = ucast ((next_seq ^^ i) L)" using assms(1) by (simp add: queued_def)
  have "reqs w (tick w) = None" using fresh_tick [OF op(3)] by simp
  moreover have "reqs w a \<noteq> None" if "a \<in> set (pending w s)" for a
    using pending_live [OF op(3,2)] that by (auto elim: request_okE)
  ultimately have "tick w \<notin> set (pending w s)" by blast
  then have "\<forall>a \<in> set (pending w s). ?f ?w a = ?f w a" by (auto simp: seq_of_def sel(2))
  then have old: "map (?f ?w) (pending w s) = map (?f w) (pending w s)" by (simp only: map_eq_conv)
  have here: "?f ?w (tick w) = (ucast ((next_seq ^^ i) L), Some i)"
    by (simp add: seq_of_def sel(2) new_request_def new)
  have "map (?f ?w) (pending ?w s) = ?f ?w (tick w) # map (?f ?w) (pending w s)" by (simp only: sel(1) list.map)
  also have "\<dots> = (ucast ((next_seq ^^ i) L), Some i) # rev (map (\<lambda>k. (ucast ((next_seq ^^ k) L), Some k)) [0..<i])"
    unfolding old here using assms(1) by (simp only: queued_def)
  also have "\<dots> = rev (map (\<lambda>k. (ucast ((next_seq ^^ k) L), Some k)) [0..<Suc i])" by simp
  finally have "map (?f ?w) (pending ?w s) = rev (map (\<lambda>k. (ucast ((next_seq ^^ k) L), Some k)) [0..<Suc i])" .
  moreover have "new_seqNum ?w s = ucast ((next_seq ^^ Suc i) L)" by (simp add: sel(3) new ucast_back_16)
  ultimately show ?thesis using commanded_ok [OF op(1) fresh] by (simp add: queued_def)
qed

text \<open>The loop of the program.\<close>

lemma send_commands_ok:
  fixes w :: "'a test_client_world_scheme"
  assumes "queued s L i w" "1 \<le> uint L" "uint L < 2 ^ 15" "i + n < 32767"
    and "servers w s = Some sv" "my_server w = Some s" "\<forall>k \<ge> tick w. \<not> ext_null (outcomes w k) \<and> 10 \<le> ext_ret (outcomes w k)"
  shows "\<exists>w'. send_commands n i w = Some w' \<and> queued s L (i + n) w' \<and> client_world.more w' = client_world.more w \<and>
    io_log w' = io_log w @ map (\<lambda>k. Sent (sv_fd sv) (frame (ucast ((next_seq ^^ k) L) OR AF_IPC_SEQNUM_NEW_REQUEST_MASK)
      [CLIENT_COMMANDS, word_of_nat k])) [i..<i + n]"
  using assms
proof (induction n arbitrary: i w)
  case (Suc n)
  let ?msg = "[CLIENT_COMMANDS, word_of_nat i]" and ?fd = "sv_fd sv"
  let ?w = "commanded s ?fd ?msg i w"
  have i: "i < 32767" "Suc i + n < 32767" using Suc.prems(4) by simp_all
  have op: "client_open w s" "db_open w s" using Suc.prems(1) by (simp_all add: queued_def client_open_def)
  have new: "new_seqNum w s = ucast ((next_seq ^^ i) L)" using Suc.prems(1) by (simp add: queued_def)
  have env: "\<not> ext_null (outcomes w (tick w))" "\<not> ext_null (outcomes w (Suc (tick w)))" "10 \<le> ext_ret (outcomes w (tick w + 2))"
    using Suc.prems(7) by simp_all
  then have "0 \<le> ext_ret (outcomes w (tick w + 2))" by simp
  from send_requested [OF op(1) Suc.prems(5) queued_fresh [OF Suc.prems(1-3) i(1)] env(1,2) this, of ?msg no_close i]
  have send: "af_ipcc_send_request no_close (my_server w) ?msg 2 (Some 0) i 2000 w = Some (0, ?w)"
    using Suc.prems(6) by simp
  note sel = commanded_sel(5-7,10) [OF op(2), where fd = ?fd and msg = ?msg and ctx = i]
  have log: "io_log ?w = io_log w @ [Sent ?fd (frame (ucast ((next_seq ^^ i) L) OR AF_IPC_SEQNUM_NEW_REQUEST_MASK) ?msg)]"
    using commanded_sel(8) [OF op(2), of ?msg ?fd i] env(3) unfolding new by simp
  have w: "servers ?w s = Some sv" "my_server ?w = Some s" "\<forall>k \<ge> tick ?w. \<not> ext_null (outcomes ?w k) \<and> 10 \<le> ext_ret (outcomes ?w k)"
    using Suc.prems(5,7) sel(1,2,4) test_more(1) [OF sel(3)] Suc.prems(6) by simp_all
  from Suc.IH [OF queued_next [OF Suc.prems(1-3) i(1)] Suc.prems(2,3) i(2) w] obtain w' where
    "send_commands n (Suc i) ?w = Some w'" "queued s L (Suc i + n) w'" "client_world.more w' = client_world.more ?w"
    "io_log w' = io_log ?w @ map (\<lambda>k. Sent ?fd (frame (ucast ((next_seq ^^ k) L) OR AF_IPC_SEQNUM_NEW_REQUEST_MASK)
      [CLIENT_COMMANDS, word_of_nat k])) [Suc i..<Suc i + n]"
    by blast
  moreover have "count_failure 0 ?w = ?w" by (simp add: count_failure_def)
  ultimately show ?case using send sel(3) log by (simp add: Let_def upt_rec [of i])
qed simp

text \<open>
  C37. When the server asks for it, the client sends its four requests in one go: with nothing pending
  and a socket that takes the messages, the four commands go out in order, under four different
  ids, and each stays pending with its number as the context that the reply is compared with.
\<close>

theorem broadcast_sends_requests:
  fixes w :: "'a test_client_world_scheme"
  assumes "client_open w s" "servers w s = Some sv" "my_server w = Some s" "pending w s = []"
    and "\<forall>k \<ge> tick w. \<not> ext_null (outcomes w k) \<and> 10 \<le> ext_ret (outcomes w k)"
  defines "ids \<equiv> map (\<lambda>k. ucast ((next_seq ^^ k) (ucast (new_seqNum w s)))) [0..<4]"
  shows "\<exists>w'. test_receive AF_IPC_STATUS_OK sn [SERVER_BROADCAST_TO_CLIENTS] ctx w = Some w' \<and> client_open w' s \<and>
    s_failures w' = s_failures w \<and> s_replies w' = 0 \<and> distinct ids \<and>
    io_log w' = io_log w @ map (\<lambda>k. Sent (sv_fd sv) (frame (ids ! k OR AF_IPC_SEQNUM_NEW_REQUEST_MASK)
      [CLIENT_COMMANDS, word_of_nat k])) [0..<4] \<and>
    map (\<lambda>a. (seq_of w' a, map_option rq_responseContext (reqs w' a))) (rev (pending w' s)) = zip ids (map Some [0..<4])"
proof -
  let ?L = "ucast (new_seqNum w s) :: u16" and ?w = "w\<lparr>s_replies := 0\<rparr>"
  have op: "world_ok w" "db_open w s" using assms(1) by (simp_all add: client_open_def)
  obtain rc where rc: "ctls w s = Some rc" "uint (rc_lastSeqId rc) < 2 ^ 15" by (rule db_openE [OF op])
  then have L: "?L = next_seq (rc_lastSeqId rc)" "new_seqNum w s = ucast ?L" by (simp_all add: new_seqNum_def ucast_back_16)
  have range: "1 \<le> uint ?L" "uint ?L < 2 ^ 15" using next_seq_range [OF rc(2)] L(1) by simp_all
  have "client_open ?w s" by (rule client_open_cong [OF assms(1), of _ sv "sv_flags sv"]) (use assms(2) in simp_all)
  then have q: "queued s ?L 0 ?w" using L(2) assms(4) by (simp add: queued_def new_seqNum_def pending_def)
  have k: "0 + 4 < (32767 :: nat)" by simp
  have w: "servers ?w s = Some sv" "my_server ?w = Some s" "\<forall>k \<ge> tick ?w. \<not> ext_null (outcomes ?w k) \<and> 10 \<le> ext_ret (outcomes ?w k)"
    using assms(2,3,5) by simp_all
  obtain w' where w': "send_commands 4 0 ?w = Some w'" "queued s ?L (0 + 4) w'" "client_world.more w' = client_world.more ?w"
    "io_log w' = io_log ?w @ map (\<lambda>k. Sent (sv_fd sv) (frame (ucast ((next_seq ^^ k) ?L) OR AF_IPC_SEQNUM_NEW_REQUEST_MASK)
      [CLIENT_COMMANDS, word_of_nat k])) [0..<0 + 4]"
    using send_commands_ok [OF q range k w] by blast
  have "test_receive AF_IPC_STATUS_OK sn [SERVER_BROADCAST_TO_CLIENTS] ctx w = Some w'"
    using w'(1) by (simp add: test_receive_def rx_byte_def MAX_REQUESTS_def)
  moreover have "s_failures w' = s_failures w" "s_replies w' = 0" using test_more(2,5) [OF w'(3)] by simp_all
  moreover have "distinct ids"
  proof -
    have "inj_on (\<lambda>k. ucast ((next_seq ^^ k) ?L) :: u32) {0..<4}"
    proof (rule linorder_inj_onI)
      fix x y :: nat assume "x < y" "x \<in> {0..<4}" "y \<in> {0..<4}"
      then show "(ucast ((next_seq ^^ x) ?L) :: u32) \<noteq> ucast ((next_seq ^^ y) ?L)" using ids_differ [OF range] by simp
    qed auto
    then show ?thesis by (simp add: ids_def distinct_map)
  qed
  moreover have same: "map (\<lambda>k. Sent (sv_fd sv) (frame (ids ! k OR AF_IPC_SEQNUM_NEW_REQUEST_MASK) [CLIENT_COMMANDS, word_of_nat k])) [0..<4] =
      map (\<lambda>k. Sent (sv_fd sv) (frame (ucast ((next_seq ^^ k) ?L) OR AF_IPC_SEQNUM_NEW_REQUEST_MASK)
      [CLIENT_COMMANDS, word_of_nat k])) [0..<0 + 4]"
    by (intro map_cong) (simp_all add: ids_def)
  moreover have "map (\<lambda>a. (seq_of w' a, map_option rq_responseContext (reqs w' a))) (rev (pending w' s)) = zip ids (map Some [0..<4])"
  proof -
    have "map (\<lambda>a. (seq_of w' a, map_option rq_responseContext (reqs w' a))) (rev (pending w' s)) =
        map (\<lambda>k. (ucast ((next_seq ^^ k) ?L), Some k)) [0..<4]"
      using w'(2) by (simp only: queued_def rev_map [symmetric] rev_rev_ident add_0)
    also have "\<dots> = zip ids (map Some [0..<4])"
      by (simp only: ids_def zip_map_map zip_same_conv_map map_map comp_def prod.case)
    finally show ?thesis .
  qed
  moreover have "client_open w' s" using w'(2) by (simp add: queued_def)
  moreover have "io_log w' = io_log w @ map (\<lambda>k. Sent (sv_fd sv) (frame (ids ! k OR AF_IPC_SEQNUM_NEW_REQUEST_MASK)
      [CLIENT_COMMANDS, word_of_nat k])) [0..<4]"
    unfolding same w'(4) by (rule arg_cong2 [where f = append]) (simp, rule refl)
  ultimately show ?thesis by (intro exI [of _ w'] conjI)
qed

text \<open>A connection of the program, as \<^verbatim>\<open>main\<close> opens it.\<close>

definition test_env :: "nat \<Rightarrow> ext" where
  "test_env n = \<lparr>ext_null = False, ext_ret = (if n = 4 then 0 else 300), ext_errno = 0, ext_recv = Inl 11\<rparr>"

definition test_connection :: test_client_world where
  "test_connection = with_server 0 (new_server 300 (Some 9) (Some 0) 0 None (Some 5)) (open_db (Pool_live []) True)
     ((connected 300 ''S'' (client_start test_env))\<lparr>tick := 6, events := [5 \<mapsto> recv_ev 0], my_server := Some 0\<rparr>)"

lemma test_connection_ok: "client_open test_connection 0"
proof -
  have len: "length ([] @ ''S'') < 107" by simp
  let ?w = "(client_start test_env)\<lparr>my_server := Some 0\<rparr>"
  have w: "world_ok ?w" "ctls ?w (tick ?w) = None" by (simp_all add: client_start_def world_ok_def)
  have same: "(connected 300 ''S'' (client_start test_env))\<lparr>tick := 6, events := [5 \<mapsto> recv_ev 0], my_server := Some 0\<rparr> =
      (connected 300 ''S'' ?w)\<lparr>tick := 6, events := [5 \<mapsto> recv_ev 0]\<rparr>"
    by (simp add: connected_def client_start_def next_tick_def log_io_def)
  have "af_ipcc_open_server [] (Some 9) ''S'' (Some 0) 0 None ?w = Some (Some 0, test_connection)"
    unfolding open_eq [OF len] test_connection_def same
    by (simp add: client_start_def test_env_def)
  from open_connects [OF w len this] show ?thesis by blast
qed

theorem broadcast_sends_requests_example:
  "\<exists>w'. test_receive AF_IPC_STATUS_OK 0 [0] 0 test_connection = Some w' \<and> client_open w' 0 \<and>
    io_log w' = [Connect 300 ''S'', Sent 300 (frame 0x8001 [4, 0]), Sent 300 (frame 0x8002 [4, 1]),
      Sent 300 (frame 0x8003 [4, 2]), Sent 300 (frame 0x8004 [4, 3])]"
proof -
  let ?sv = "new_server 300 (Some 9) (Some 0) 0 None (Some 5)"
  have w: "servers test_connection 0 = Some ?sv" "my_server test_connection = Some 0" "pending test_connection 0 = []"
    "\<forall>k \<ge> tick test_connection. \<not> ext_null (outcomes test_connection k) \<and> 10 \<le> ext_ret (outcomes test_connection k)"
    "io_log test_connection = [Connect 300 ''S'']"
    by (simp_all add: test_connection_def pending_def open_db_def client_start_def test_env_def with_server_def)
  have sn: "new_seqNum test_connection 0 = 1"
    by (simp add: test_connection_def new_seqNum_def open_db_def next_seq_def)
  have ids: "map (\<lambda>k. ucast ((next_seq ^^ k) (ucast (new_seqNum test_connection 0)))) [0..<4] = [1, 2, 3, 4 :: u32]"
    unfolding sn by code_simp
  have four: "[0..<4] = [0, 1, 2, 3]" by code_simp
  have "(1 :: u32) OR AF_IPC_SEQNUM_NEW_REQUEST_MASK = 0x8001" "(2 :: u32) OR AF_IPC_SEQNUM_NEW_REQUEST_MASK = 0x8002"
    "(3 :: u32) OR AF_IPC_SEQNUM_NEW_REQUEST_MASK = 0x8003" "(4 :: u32) OR AF_IPC_SEQNUM_NEW_REQUEST_MASK = 0x8004" by code_simp+
  with broadcast_sends_requests [OF test_connection_ok w(1-4), of 0 0] show ?thesis
    unfolding ids unfolding four w(5) by (auto simp: server_messages client_messages new_server_def)
qed

end
