(* ===== verification/Spec2Isabelle.thy ===== *)
theory Spec2Isabelle
  imports Rpc_Correct Ipc_Correct Client_Correct Server_Reach Send_Exchange Wait_Correct Test_Requests
begin

text \<open>
  A verification library for af-ipc, the inter-process communication library of \<^verbatim>\<open>src/pkg/src\<close> with its
  command line tools and test programs.

  \<^bold>\<open>The program.\<close> \<^verbatim>\<open>af_rpc.c\<close> encodes lists of typed values (integers of 8, 16 and 32 bits, strings,
  blobs) as type-length-value messages in a buffer and reads them back. \<^verbatim>\<open>af_ipc_common.c\<close> puts a
  header with a sequence number and a length before a payload, splits a stream into messages,
  and keeps the requests that wait for their replies, each with a timer. \<^verbatim>\<open>af_ipc_client.c\<close> and
  \<^verbatim>\<open>af_ipc_server.c\<close> are the two ends of a connection over a Unix socket, driven by events of libevent:
  they call \<^verbatim>\<open>af_ipc_send\<close> and \<^verbatim>\<open>af_ipc_handle_receive_message\<close>, and call back into the application.
  \<^verbatim>\<open>ipc_send.c\<close> and \<^verbatim>\<open>ipc_wait.c\<close> are clients that send a request, or wait for a message, and print
  values with \<^verbatim>\<open>af_rpc.c\<close>. \<^verbatim>\<open>libaf_ipc_test_client.c\<close> and \<^verbatim>\<open>libaf_ipc_test_server.c\<close> test the two ends
  against each other.

  \<^bold>\<open>How the code is modelled.\<close> A function of C is a definition of the same name, in the order of
  its statements, on an explicit state. The result is an \<open>option\<close>: \<open>None\<close> is undefined behaviour
  (an access outside an object, a freed or null structure, a mutex locked twice), so a theorem
  that a function returns \<open>Some\<close> says that it makes only valid accesses. Error codes are
  results, as in C. Integers of fixed width are words; \<^verbatim>\<open>int\<close> is \<open>int\<close> with its bound as a
  hypothesis where it matters. Structures are records, kept by address in the state; a
  function pointer is a number that a parameter (a runner, a closer, an acceptor) interprets, and for
  the tools and test programs these parameters are the code's own callbacks. What the system
  returns (allocation, socket calls, \<^verbatim>\<open>recv\<close>, the mutex) is the field \<open>outcomes\<close>: the \<open>n\<close>-th external
  call has the \<open>n\<close>-th outcome, \<open>tick\<close> counts them and gives fresh addresses, and \<open>io_log\<close> records
  what was done to sockets. Theorems hold for all outcomes unless they name the ones they need.

  \<^bold>\<open>Theories.\<close>

  \<^item> \<^verbatim>\<open>Prelude\<close>, \<^verbatim>\<open>C_Mem\<close>: lemmas on lists, words and bytes; the memory of C as objects of
    bytes, pointers into them, \<open>load\<close> and \<open>store\<close>.
  \<^item> \<^verbatim>\<open>Rpc_Types\<close>, \<^verbatim>\<open>Rpc_Spec\<close>, \<^verbatim>\<open>Rpc_Add\<close>, \<^verbatim>\<open>Rpc_Get\<close>, \<^verbatim>\<open>Rpc_Params\<close>, \<^verbatim>\<open>Rpc_Params_Read\<close>,
    \<^verbatim>\<open>Rpc_Correct\<close>: \<^verbatim>\<open>af_rpc.h\<close> and \<^verbatim>\<open>af_rpc.c\<close>. \<open>Rpc_Spec\<close> is the abstract side: values, their encoding, what
    a buffer holds. The rest shows that writers refine the encoding, that one by one and batch
    writing agree, that readers are safe on any bytes, and the round trips.
  \<^item> \<^verbatim>\<open>Ipc_Types\<close>, \<^verbatim>\<open>Ipc_Requests\<close>, \<^verbatim>\<open>Ipc_Message\<close>: \<^verbatim>\<open>af_ipc_prv.h\<close> and \<^verbatim>\<open>af_ipc_common.c\<close>. \<^verbatim>\<open>Ipc_Invariant\<close>
    has the invariant \<open>world_ok\<close>, which ties databases, requests and timers together; \<^verbatim>\<open>Ipc_Refine\<close> the
    effect of each operation in one equation; \<^verbatim>\<open>Ipc_Receive\<close> streams of messages and the locale
    \<open>receiver\<close> of applications whose callback keeps an invariant; \<^verbatim>\<open>Ipc_Shutdown\<close>, \<^verbatim>\<open>Ipc_Frame\<close>, \<^verbatim>\<open>Ipc_Correct\<close>
    the rest, with the reachable states.
  \<^item> \<^verbatim>\<open>Client\<close>: \<^verbatim>\<open>af_ipc_client.c\<close>. \<^verbatim>\<open>Client_Inv\<close> has the invariant of an open connection and the
    locale \<open>client_receiver\<close>, a contract for receive callbacks under which the receive handler ends;
    \<^verbatim>\<open>Client_Open\<close> and \<^verbatim>\<open>Client_Correct\<close> the properties.
  \<^item> \<^verbatim>\<open>Server\<close>, \<^verbatim>\<open>Server_Io\<close>: \<^verbatim>\<open>af_ipc_server.c\<close>. \<^verbatim>\<open>Server_Inv\<close> has the invariant \<open>server_ok\<close>; \<^verbatim>\<open>Server_Cid\<close>,
    \<^verbatim>\<open>Server_Accept\<close>, \<^verbatim>\<open>Server_Send\<close>, \<^verbatim>\<open>Server_Route\<close>, \<^verbatim>\<open>Server_Recv\<close>, \<^verbatim>\<open>Server_Open\<close> its operations;
    \<^verbatim>\<open>Server_Act\<close>, \<^verbatim>\<open>Server_Fail\<close>, \<^verbatim>\<open>Server_Life\<close> applications that call the library in their callbacks;
    \<^verbatim>\<open>Server_Correct\<close> and \<^verbatim>\<open>Server_Reach\<close> the properties, with the reachable states.
  \<^item> \<^verbatim>\<open>Tool_Text\<close>, \<^verbatim>\<open>Tool_Print\<close>, \<^verbatim>\<open>Tool_Print_Correct\<close>: numbers as text and the formatting of a reply, the
    same code in both tools. \<^verbatim>\<open>Tool_Loop\<close>: the event loop and the callbacks of both. \<^verbatim>\<open>Tool_Inv\<close>,
    \<^verbatim>\<open>Tool_Run\<close>, \<^verbatim>\<open>Tool_Ends\<close>, \<^verbatim>\<open>Tool_Exchange\<close>: the invariant \<open>tool_ok\<close> of a running tool, the locale
    \<open>tool_loop\<close> for the handlers of its timers, start and end, and the steps of a successful run.
  \<^item> \<^verbatim>\<open>Send_Params\<close>, \<^verbatim>\<open>Send_Main\<close>: \<^verbatim>\<open>ipc_send.c\<close>. \<^verbatim>\<open>Send_Parse\<close> and \<^verbatim>\<open>Send_Correct\<close> are about its command
    line, \<^verbatim>\<open>Send_Request\<close> and \<^verbatim>\<open>Send_Session\<close> about the request and the loop, \<^verbatim>\<open>Send_Main_Correct\<close> and
    \<^verbatim>\<open>Send_Exchange\<close> about whole runs. \<^verbatim>\<open>Wait_Main\<close>, \<^verbatim>\<open>Wait_Correct\<close>: \<^verbatim>\<open>ipc_wait.c\<close>.
  \<^item> \<^verbatim>\<open>Test_Client\<close>, \<^verbatim>\<open>Test_Server\<close>, \<^verbatim>\<open>Test_Correct\<close>, \<^verbatim>\<open>Test_Requests\<close>: the test programs.

  \<^bold>\<open>How the parts rest on each other.\<close> The receive loop is proved once in \<open>receiver\<close>, for any invariant
  that the callbacks keep; the server, the client and the tools are interpretations. The
  client handler is proved once in \<open>client_receiver\<close> and serves applications that respond, send and
  close, and the tools. The loop of the tools is proved once in \<open>tool_loop\<close>, interpreted by both.
  Theorems about whole runs of the tools go from the command line through encoding, framing,
  request database, receive handler, decoding and printing to the exit status.

  \<^bold>\<open>Bounds and fuel.\<close> The receive handlers loop until a socket has no more data, which C does not bound.
  The model has a bound \<open>n\<close> on the rounds; the theorems show that the handler returns for every
  \<open>n > N - tick w\<close> if nothing arrives from the \<open>N\<close>-th external call on, so the bound is never what ends
  it. The search for a client id is a \<open>partial_function\<close>, which returns exactly if an id is free. All
  other loops are recursion with a measure. An event loop is given as the list of the events it handles,
  which libevent chooses; theorems hold for every list, or name the one of the run they describe. Lengths
  are bounded as in the code: 4096 bytes for a read, 4088 for a payload, 256 for the buffers
  of the tools. That a server is \<open>modest\<close>, in theorems about the tools, means that its messages fit
  these buffers and have no integer of eleven characters; beyond that the tools do overflow.

  \<^bold>\<open>Not modelled.\<close> Logging, \<^verbatim>\<open>stderr\<close> and the texts of \<^verbatim>\<open>usage\<close>. libevent, the memory pool, sockets and
  mutexes are modelled only by what the code relies on: their results are outcomes, and using what is
  not live is undefined. Calls are not interleaved by threads: the code is driven by one event
  loop, and the mutex matters only because locking it twice is undefined. Setting sockets
  non-blocking and the prefix of socket paths, an argument of the model, have no further effect.
  \<^verbatim>\<open>test_rpc.c\<close> is a list of test cases for \<^verbatim>\<open>af_rpc.c\<close> without state or operations of its own.
  The contents of new memory are zero in the model; the code writes it before reading. A shift of a
  client id into the sign bit is taken as a shift of unsigned numbers; the cast of the context pointer
  to \<^verbatim>\<open>int\<close> in the test client keeps its value, which is a small index; and callbacks cannot change the
  receive buffer, which is local to the handler.

  \<^bold>\<open>Where the theorems stop.\<close> The safety theorems have conditions, because outside them the code is
  undefined or loses memory, and theorems of their own say so: a send that fails in a callback of a client
  (\<^verbatim>\<open>client_failed_reply_undefined\<close>), a server application that closes the client it serves
  (at the end of \<^verbatim>\<open>Server_Life\<close>), a read event that cannot be created (\<^verbatim>\<open>accept_failure\<close>), a request under
  an id in use (in \<^verbatim>\<open>Ipc_Correct\<close>), a connection that fails (\<^verbatim>\<open>client_open_failure_leaks\<close>), the end of
  the connection in the test client (\<^verbatim>\<open>Test_Correct\<close>). The command line tools are proved
  safe for runs in which allocations succeed.
\<close>

end
